(* ===== verification/Prelude.thy ===== *)
theory Prelude
  imports Main "HOL-Library.Word" "HOL-Library.AList"
begin

text \<open>
  Shared vocabulary of the development. A Node \<^verbatim>\<open>Buffer\<close> is a list of bytes, a byte is an
  8-bit word. JavaScript numbers that the code uses as sizes, counters and offsets are \<open>nat\<close>
  or \<open>int\<close>; every one of them stays below \<open>2 ^ 53\<close>, where doubles are exact integers. A
  thrown exception is the left summand of a \<open>result\<close>. The little-endian conversions below are
  the ones of \<^verbatim>\<open>Buffer.readUIntLE\<close> and \<^verbatim>\<open>Buffer.writeUIntLE\<close>, with the range
  checks Node performs (\<^verbatim>\<open>ERR_OUT_OF_RANGE\<close>).
\<close>

type_synonym byte = "8 word"
type_synonym buffer = "byte list"

datatype js_error =
    RangeError
  | AssertionError
  | ThrownError string

type_synonym 'a result = "js_error + 'a"

definition rbind :: "'a result \<Rightarrow> ('a \<Rightarrow> 'b result) \<Rightarrow> 'b result" where
  "rbind m f = (case m of Inl e \<Rightarrow> Inl e | Inr x \<Rightarrow> f x)"

lemma rbind_simps [simp]:
  "rbind (Inl e) f = Inl e"
  "rbind (Inr x) f = f x"
  by (simp_all add: rbind_def)

lemma rbind_eq_Inr [simp]: "rbind m f = Inr y \<longleftrightarrow> (\<exists>x. m = Inr x \<and> f x = Inr y)"
  by (cases m) simp_all

definition assert_js :: "bool \<Rightarrow> unit result" where
  "assert_js b = (if b then Inr () else Inl AssertionError)"

lemma assert_js_simps [simp]:
  "assert_js True = Inr ()"
  "assert_js False = Inl AssertionError"
  by (simp_all add: assert_js_def)

text \<open>Association lists: a key that is not there goes to the end.\<close>

lemma update_fresh: "k \<notin> fst ` set al \<Longrightarrow> AList.update k v al = al @ [(k, v)]"
  by (induction al) auto

lemma set_delete: "set (AList.delete k al) = {p \<in> set al. fst p \<noteq> k}"
  by (auto simp: AList.delete_eq)

lemma delete_fresh: "k \<notin> fst ` set al \<Longrightarrow> AList.delete k al = al"
  by (induction al) auto

named_theorems stream_simps \<open>cursor arithmetic of the binary stream\<close>

section \<open>Little-endian integers\<close>

fun le_bytes :: "nat \<Rightarrow> nat \<Rightarrow> buffer" where
  "le_bytes 0 v = []"
| "le_bytes (Suc n) v = of_nat (v mod 256) # le_bytes n (v div 256)"

fun le_value :: "buffer \<Rightarrow> nat" where
  "le_value [] = 0"
| "le_value (b # bs) = unat b + 256 * le_value bs"

lemma length_le_bytes [simp]: "length (le_bytes n v) = n"
  by (induction n arbitrary: v) simp_all

lemma unat_of_nat_byte [simp]: "unat (of_nat (v mod 256) :: byte) = v mod 256"
  by (simp add: unat_of_nat)

lemma le_value_le_bytes: "le_value (le_bytes n v) = v mod 256 ^ n"
proof (induction n arbitrary: v)
  case 0
  show ?case by simp
next
  case (Suc n)
  have "le_value (le_bytes (Suc n) v) = v mod 256 + 256 * (v div 256 mod 256 ^ n)"
    using Suc.IH by simp
  also have "\<dots> = v mod (256 * 256 ^ n)"
    by (metis add.commute mod_mult2_eq)
  finally show ?case by simp
qed

lemma le_value_le_bytes_id [simp]: "v < 256 ^ n \<Longrightarrow> le_value (le_bytes n v) = v"
  by (simp add: le_value_le_bytes)

lemma unat_byte_less [simp]: "unat (b :: byte) < 256"
  using unsigned_less [of b] by simp

lemma le_value_less: "le_value bs < 256 ^ length bs"
proof (induction bs)
  case Nil
  show ?case by simp
next
  case (Cons b bs)
  have "unat b + 256 * le_value bs < 256 + 256 * le_value bs"
    using unat_byte_less [of b] by linarith
  also have "\<dots> = 256 * (Suc (le_value bs))" by simp
  also have "\<dots> \<le> 256 * 256 ^ length bs" using Cons.IH by (simp add: Suc_leI)
  finally show ?case by simp
qed

lemma le_bytes_le_value [simp]: "le_bytes (length bs) (le_value bs) = bs"
proof (induction bs)
  case Nil
  show ?case by simp
next
  case (Cons b bs)
  have "(unat b + 256 * le_value bs) mod 256 = unat b"
    using unat_byte_less [of b] by simp
  moreover have "(unat b + 256 * le_value bs) div 256 = le_value bs"
    using unat_byte_less [of b] by simp
  ultimately show ?case using Cons.IH by simp
qed

lemma le_bytes_inj:
  "le_bytes n u = le_bytes n v \<Longrightarrow> u < 256 ^ n \<Longrightarrow> v < 256 ^ n \<Longrightarrow> u = v"
  by (metis le_value_le_bytes_id)

section \<open>Node buffers\<close>

definition subarray :: "buffer \<Rightarrow> nat \<Rightarrow> nat \<Rightarrow> buffer" where
  "subarray b start stop = take (stop - start) (drop start b)"

definition overwrite :: "buffer \<Rightarrow> nat \<Rightarrow> buffer \<Rightarrow> buffer" where
  "overwrite dst off src = take off dst @ src @ drop (off + length src) dst"

definition buf_read_le :: "nat \<Rightarrow> buffer \<Rightarrow> nat \<Rightarrow> nat result" where
  "buf_read_le n b off =
     (if off + n \<le> length b then Inr (le_value (subarray b off (off + n))) else Inl RangeError)"

definition buf_write_le :: "nat \<Rightarrow> buffer \<Rightarrow> int \<Rightarrow> nat \<Rightarrow> buffer result" where
  "buf_write_le n b v off =
     (if 0 \<le> v \<and> v < 256 ^ n \<and> off + n \<le> length b
      then Inr (overwrite b off (le_bytes n (nat v))) else Inl RangeError)"

definition buf_read_int_le :: "nat \<Rightarrow> buffer \<Rightarrow> nat \<Rightarrow> int result" where
  "buf_read_int_le n b off =
     rbind (buf_read_le n b off)
       (\<lambda>v. Inr (if 2 * v < 256 ^ n then int v else int v - 256 ^ n))"

definition buf_write_int_le :: "nat \<Rightarrow> buffer \<Rightarrow> int \<Rightarrow> nat \<Rightarrow> buffer result" where
  "buf_write_int_le n b v off =
     (if - (256 ^ n) \<le> 2 * v \<and> 2 * v < 256 ^ n
      then buf_write_le n b (v mod 256 ^ n) off else Inl RangeError)"

lemma length_overwrite [simp]:
  "off + length src \<le> length dst \<Longrightarrow> length (overwrite dst off src) = length dst"
  by (simp add: overwrite_def)

lemma length_subarray [simp]: "stop \<le> length b \<Longrightarrow> length (subarray b start stop) = stop - start"
  by (simp add: subarray_def)

lemma subarray_overwrite [simp]:
  "off + length src \<le> length dst \<Longrightarrow> subarray (overwrite dst off src) off (off + length src) = src"
  by (simp add: subarray_def overwrite_def)

lemma subarray_0 [simp]: "subarray b 0 n = take n b"
  by (simp add: subarray_def)

lemma overwrite_append_right:
  "off = length pre \<Longrightarrow> overwrite (pre @ mid @ post) off src
     = pre @ src @ drop (length src) (mid @ post)"
  by (simp add: overwrite_def)

lemma take_overwrite [simp]:
  "off \<le> length dst \<Longrightarrow> take off (overwrite dst off src) = take off dst"
  by (simp add: overwrite_def)

lemma buf_read_le_overwrite [simp]:
  "off + n \<le> length b \<Longrightarrow> v < 256 ^ n \<Longrightarrow>
     buf_read_le n (overwrite b off (le_bytes n v)) off = Inr v"
proof -
  assume a: "off + n \<le> length b" "v < 256 ^ n"
  have "subarray (overwrite b off (le_bytes n v)) off (off + n) = le_bytes n v"
    using subarray_overwrite [of off "le_bytes n v" b] a(1) by simp
  with a show ?thesis by (simp add: buf_read_le_def)
qed

lemma buf_read_le_append:
  "off + n \<le> length b \<Longrightarrow> buf_read_le n (b @ c) off = buf_read_le n b off"
  by (simp add: buf_read_le_def subarray_def)

lemma buf_read_le_less: "buf_read_le n b off = Inr v \<Longrightarrow> v < 256 ^ n"
  using le_value_less [of "subarray b off (off + n)"]
  by (auto simp: buf_read_le_def split: if_splits)

end
