(* ===== verification/Binary_Stream.thy ===== *)
theory Binary_Stream
  imports Prelude
begin

text \<open>
  \<^verbatim>\<open>BinaryStream\<close> and \<^verbatim>\<open>BinaryStreamSizeCalculator\<close> of
  \<^verbatim>\<open>node-opcua-binary-stream\<close>: a cursor over a Node buffer, its read and write
  methods, and the class that only counts the bytes the same writes would take. JavaScript
  strings are lists of UTF-16 code units; \<open>utf8_encode\<close> and \<open>utf8_decode\<close> are Node's
  \<^verbatim>\<open>Buffer.write\<close> and \<^verbatim>\<open>Buffer.toString("utf-8")\<close> (lone surrogates and invalid
  sequences become U+FFFD). The float and double methods are left out: they only hand the
  number to the IEEE conversion of the runtime.
\<close>

section \<open>UTF-16 strings and UTF-8 buffers\<close>

type_synonym js_string = "16 word list"

definition is_lead :: "16 word \<Rightarrow> bool" where
  "is_lead c \<longleftrightarrow> 0xD800 \<le> unat c \<and> unat c \<le> 0xDBFF"

definition is_trail :: "16 word \<Rightarrow> bool" where
  "is_trail c \<longleftrightarrow> 0xDC00 \<le> unat c \<and> unat c \<le> 0xDFFF"

fun well_formed :: "js_string \<Rightarrow> bool" where
  "well_formed [] = True"
| "well_formed [c] = (\<not> is_lead c \<and> \<not> is_trail c)"
| "well_formed (c # d # s) =
     (if is_lead c then is_trail d \<and> well_formed s
      else \<not> is_trail c \<and> well_formed (d # s))"

definition utf8_cp :: "nat \<Rightarrow> buffer" where
  "utf8_cp u =
     (if u < 0x80 then [of_nat u]
      else if u < 0x800 then [of_nat (0xC0 + u div 64), of_nat (0x80 + u mod 64)]
      else if u < 0x10000 then
        [of_nat (0xE0 + u div 4096), of_nat (0x80 + u div 64 mod 64), of_nat (0x80 + u mod 64)]
      else [of_nat (0xF0 + u div 262144), of_nat (0x80 + u div 4096 mod 64),
            of_nat (0x80 + u div 64 mod 64), of_nat (0x80 + u mod 64)])"

definition surrogate_cp :: "16 word \<Rightarrow> 16 word \<Rightarrow> nat" where
  "surrogate_cp c d = 0x10000 + (unat c - 0xD800) * 1024 + (unat d - 0xDC00)"

fun code_points :: "js_string \<Rightarrow> nat list" where
  "code_points [] = []"
| "code_points [c] = [if is_lead c \<or> is_trail c then 0xFFFD else unat c]"
| "code_points (c # d # s) =
     (if is_lead c \<and> is_trail d then surrogate_cp c d # code_points s
      else (if is_lead c \<or> is_trail c then 0xFFFD else unat c) # code_points (d # s))"

definition utf8_encode :: "js_string \<Rightarrow> buffer" where
  "utf8_encode s = concat (map utf8_cp (code_points s))"

text \<open>\<^verbatim>\<open>Buffer.write\<close> never writes a partial character: it stops before the first one
  that does not fit.\<close>

fun utf8_fit :: "nat \<Rightarrow> nat list \<Rightarrow> buffer" where
  "utf8_fit room [] = []"
| "utf8_fit room (u # us) =
     (if length (utf8_cp u) \<le> room then utf8_cp u @ utf8_fit (room - length (utf8_cp u)) us
      else [])"

definition utf16_cp :: "nat \<Rightarrow> js_string" where
  "utf16_cp u =
     (if u < 0x10000 then [of_nat u]
      else [of_nat (0xD800 + (u - 0x10000) div 1024), of_nat (0xDC00 + (u - 0x10000) mod 1024)])"

definition is_cont :: "nat \<Rightarrow> bool" where
  "is_cont b \<longleftrightarrow> 0x80 \<le> b \<and> b \<le> 0xBF"

fun utf8_scan :: "nat list \<Rightarrow> nat list" where
  "utf8_scan [] = []"
| "utf8_scan (a # r) =
     (if a < 0x80 then a # utf8_scan r
      else if 0xC2 \<le> a \<and> a \<le> 0xDF then
        (case r of
           b # r1 \<Rightarrow> if is_cont b then ((a - 0xC0) * 64 + (b - 0x80)) # utf8_scan r1
                    else 0xFFFD # utf8_scan r
         | [] \<Rightarrow> [0xFFFD])
      else if 0xE0 \<le> a \<and> a \<le> 0xEF then
        (case r of
           b # r1 \<Rightarrow>
             if is_cont b \<and> (a = 0xE0 \<longrightarrow> 0xA0 \<le> b) \<and> (a = 0xED \<longrightarrow> b \<le> 0x9F) then
               (case r1 of
                  c # r2 \<Rightarrow> if is_cont c
                            then ((a - 0xE0) * 4096 + (b - 0x80) * 64 + (c - 0x80)) # utf8_scan r2
                            else 0xFFFD # utf8_scan r1
                | [] \<Rightarrow> [0xFFFD])
             else 0xFFFD # utf8_scan r
         | [] \<Rightarrow> [0xFFFD])
      else if 0xF0 \<le> a \<and> a \<le> 0xF4 then
        (case r of
           b # r1 \<Rightarrow>
             if is_cont b \<and> (a = 0xF0 \<longrightarrow> 0x90 \<le> b) \<and> (a = 0xF4 \<longrightarrow> b \<le> 0x8F) then
               (case r1 of
                  c # r2 \<Rightarrow>
                    if is_cont c then
                      (case r2 of
                         d # r3 \<Rightarrow>
                           if is_cont d
                           then ((a - 0xF0) * 262144 + (b - 0x80) * 4096 + (c - 0x80) * 64
                                  + (d - 0x80)) # utf8_scan r3
                           else 0xFFFD # utf8_scan r2
                       | [] \<Rightarrow> [0xFFFD])
                    else 0xFFFD # utf8_scan r1
                | [] \<Rightarrow> [0xFFFD])
             else 0xFFFD # utf8_scan r
         | [] \<Rightarrow> [0xFFFD])
      else 0xFFFD # utf8_scan r)"

definition utf8_decode :: "buffer \<Rightarrow> js_string" where
  "utf8_decode b = concat (map utf16_cp (utf8_scan (map unat b)))"

text \<open>The size in bytes of a UTF-8 string, as the code computes it: from the last code unit
  down, skipping the unit before a trail surrogate.\<close>

fun byte_length_loop :: "js_string \<Rightarrow> nat \<Rightarrow> nat" where
  "byte_length_loop [] s = s"
| "byte_length_loop (code # below) s =
     (let s' = (if 0x7F < unat code \<and> unat code \<le> 0x7FF then s + 1
                else if 0x7FF < unat code \<and> unat code \<le> 0xFFFF then s + 2 else s)
      in if 0xDC00 \<le> unat code \<and> unat code \<le> 0xDFFF
         then byte_length_loop (tl below) s' else byte_length_loop below s')"

definition calculateByteLength :: "js_string \<Rightarrow> nat" where
  "calculateByteLength str = byte_length_loop (rev str) (length str)"

section \<open>The stream\<close>

record bstream =
  bs_buffer :: buffer
  bs_length :: nat

definition open_stream :: "buffer \<Rightarrow> bstream" where
  "open_stream data = \<lparr>bs_buffer = data, bs_length = 0\<rparr>"

definition rewind :: "bstream \<Rightarrow> bstream" where
  "rewind st = st\<lparr>bs_length := 0\<rparr>"

definition maxByteStringLength :: nat where
  "maxByteStringLength = 16 * 1024 * 1024"

definition maxStringLength :: nat where
  "maxStringLength = 16 * 1024 * 1024"

definition write_le :: "nat \<Rightarrow> int \<Rightarrow> bstream \<Rightarrow> bstream result" where
  "write_le n v st =
     rbind (buf_write_le n (bs_buffer st) v (bs_length st))
       (\<lambda>b. Inr (st\<lparr>bs_buffer := b, bs_length := bs_length st + n\<rparr>))"

definition write_int_le :: "nat \<Rightarrow> int \<Rightarrow> bstream \<Rightarrow> bstream result" where
  "write_int_le n v st =
     rbind (buf_write_int_le n (bs_buffer st) v (bs_length st))
       (\<lambda>b. Inr (st\<lparr>bs_buffer := b, bs_length := bs_length st + n\<rparr>))"

definition read_le :: "nat \<Rightarrow> bstream \<Rightarrow> (nat \<times> bstream) result" where
  "read_le n st =
     rbind (buf_read_le n (bs_buffer st) (bs_length st))
       (\<lambda>v. Inr (v, st\<lparr>bs_length := bs_length st + n\<rparr>))"

definition read_int_le :: "nat \<Rightarrow> bstream \<Rightarrow> (int \<times> bstream) result" where
  "read_int_le n st =
     rbind (buf_read_int_le n (bs_buffer st) (bs_length st))
       (\<lambda>v. Inr (v, st\<lparr>bs_length := bs_length st + n\<rparr>))"

definition writeInt8 :: "int \<Rightarrow> bstream \<Rightarrow> bstream result" where "writeInt8 = write_int_le 1"
definition writeUInt8 :: "int \<Rightarrow> bstream \<Rightarrow> bstream result" where "writeUInt8 = write_le 1"
definition writeInt16 :: "int \<Rightarrow> bstream \<Rightarrow> bstream result" where "writeInt16 = write_int_le 2"
definition writeUInt16 :: "int \<Rightarrow> bstream \<Rightarrow> bstream result" where "writeUInt16 = write_le 2"
definition writeInteger :: "int \<Rightarrow> bstream \<Rightarrow> bstream result" where "writeInteger = write_int_le 4"
definition writeUInt32 :: "int \<Rightarrow> bstream \<Rightarrow> bstream result" where "writeUInt32 = write_le 4"

definition readByte :: "bstream \<Rightarrow> (int \<times> bstream) result" where "readByte = read_int_le 1"
definition readUInt8 :: "bstream \<Rightarrow> (nat \<times> bstream) result" where "readUInt8 = read_le 1"
definition readInt16 :: "bstream \<Rightarrow> (int \<times> bstream) result" where "readInt16 = read_int_le 2"
definition readUInt16 :: "bstream \<Rightarrow> (nat \<times> bstream) result" where "readUInt16 = read_le 2"
definition readInteger :: "bstream \<Rightarrow> (int \<times> bstream) result" where "readInteger = read_int_le 4"
definition readUInt32 :: "bstream \<Rightarrow> (nat \<times> bstream) result" where "readUInt32 = read_le 4"

lemmas stream_defs =
  writeInt8_def writeUInt8_def writeInt16_def writeUInt16_def writeInteger_def writeUInt32_def
  readByte_def readUInt8_def readInt16_def readUInt16_def readInteger_def readUInt32_def

text \<open>\<^verbatim>\<open>writeArrayBuffer\<close> stores byte by byte: an index past the source reads
  \<^verbatim>\<open>undefined\<close> (stored as 0) and a store past the end of the buffer is ignored, while the
  cursor moves on.\<close>

definition writeArrayBuffer :: "buffer \<Rightarrow> nat \<Rightarrow> nat \<Rightarrow> bstream \<Rightarrow> bstream result" where
  "writeArrayBuffer byteArr offset len st =
     (let n = (if len = 0 then length byteArr else len) + offset;
          src = map (\<lambda>i. if i < length byteArr then byteArr ! i else 0) [offset..<n];
          room = length (bs_buffer st) - bs_length st
      in Inr (st\<lparr>bs_buffer := overwrite (bs_buffer st) (bs_length st) (take room src),
                bs_length := bs_length st + (n - offset)\<rparr>))"

definition writeByteStream :: "buffer option \<Rightarrow> bstream \<Rightarrow> bstream result" where
  "writeByteStream buf st =
     (case buf of
        None \<Rightarrow> writeInteger (-1) st
      | Some bs \<Rightarrow>
          rbind (writeInteger (int (length bs)) st)
            (\<lambda>st1. if length (bs_buffer st1) - bs_length st1 < length bs
                   then Inl (ThrownError ''not enough bytes left in buffer'')
                   else Inr (st1\<lparr>bs_buffer := overwrite (bs_buffer st1) (bs_length st1) bs,
                                 bs_length := bs_length st1 + length bs\<rparr>)))"

definition writeString :: "js_string option \<Rightarrow> bstream \<Rightarrow> bstream result" where
  "writeString value st =
     (case value of
        None \<Rightarrow> writeUInt32 0xFFFFFFFF st
      | Some s \<Rightarrow>
          (let byteLength = calculateByteLength s in
           rbind (writeInteger (int byteLength) st)
             (\<lambda>st1. if byteLength = 0 then Inr st1
                    else let remainingBytes = length (bs_buffer st1) - bs_length st1 in
                      if remainingBytes < byteLength
                      then Inl (ThrownError ''not enough bytes left in buffer'')
                      else Inr (st1\<lparr>bs_buffer := overwrite (bs_buffer st1) (bs_length st1)
                                                 (utf8_fit remainingBytes (code_points s)),
                                   bs_length := bs_length st1 + byteLength\<rparr>))))"

definition readBuffer :: "nat \<Rightarrow> bstream \<Rightarrow> (buffer \<times> bstream) result" where
  "readBuffer len st =
     (if bs_length st + len > length (bs_buffer st)
      then Inl (ThrownError ''BinaryStream: buffer overrun detected'')
      else Inr (subarray (bs_buffer st) (bs_length st) (bs_length st + len),
                st\<lparr>bs_length := bs_length st + len\<rparr>))"

definition readArrayBuffer :: "nat \<Rightarrow> bstream \<Rightarrow> (buffer \<times> bstream) result" where
  "readArrayBuffer len st =
     (if len > maxByteStringLength then Inl (ThrownError ''maxStringLength exceeded'')
      else Inr (subarray (bs_buffer st) (bs_length st) (bs_length st + len),
                st\<lparr>bs_length := bs_length st + len\<rparr>))"

definition readByteStream :: "bstream \<Rightarrow> (buffer option \<times> bstream) result" where
  "readByteStream st =
     rbind (readUInt32 st)
       (\<lambda>(bufLen, st1).
          if bufLen = 0xFFFFFFFF then Inr (None, st1)
          else if bufLen = 0 then Inr (Some [], st1)
          else if bufLen > maxByteStringLength then Inl (ThrownError ''maxStringLength exceeded'')
          else if length (bs_buffer st1) - bs_length st1 < bufLen
            then Inl (ThrownError ''not enough bytes left in buffer'')
          else Inr (Some (subarray (bs_buffer st1) (bs_length st1) (bs_length st1 + bufLen)),
                    st1\<lparr>bs_length := bs_length st1 + bufLen\<rparr>))"

definition readString :: "bstream \<Rightarrow> (js_string option \<times> bstream) result" where
  "readString st =
     rbind (readUInt32 st)
       (\<lambda>(bufLen, st1).
          if bufLen = 0xFFFFFFFF then Inr (None, st1)
          else if bufLen = 0 then Inr (Some [], st1)
          else if bufLen > maxStringLength then Inl (ThrownError ''maxStringLength exceeded'')
          else if length (bs_buffer st1) - bs_length st1 < bufLen
            then Inl (ThrownError ''not enough bytes left in buffer'')
          else Inr (Some (utf8_decode
                           (subarray (bs_buffer st1) (bs_length st1) (bs_length st1 + bufLen))),
                    st1\<lparr>bs_length := bs_length st1 + bufLen\<rparr>))"

section \<open>The size calculator\<close>

datatype stream_op =
    OpInt8 int
  | OpUInt8 int
  | OpInt16 int
  | OpUInt16 int
  | OpInteger int
  | OpUInt32 int
  | OpArrayBuffer buffer nat nat
  | OpByteStream "buffer option"
  | OpString "js_string option"

fun apply_op :: "stream_op \<Rightarrow> bstream \<Rightarrow> bstream result" where
  "apply_op (OpInt8 v) = writeInt8 v"
| "apply_op (OpUInt8 v) = writeUInt8 v"
| "apply_op (OpInt16 v) = writeInt16 v"
| "apply_op (OpUInt16 v) = writeUInt16 v"
| "apply_op (OpInteger v) = writeInteger v"
| "apply_op (OpUInt32 v) = writeUInt32 v"
| "apply_op (OpArrayBuffer b off len) = writeArrayBuffer b off len"
| "apply_op (OpByteStream b) = writeByteStream b"
| "apply_op (OpString s) = writeString s"

fun apply_ops :: "stream_op list \<Rightarrow> bstream \<Rightarrow> bstream result" where
  "apply_ops [] st = Inr st"
| "apply_ops (p # ps) st = rbind (apply_op p st) (apply_ops ps)"

fun size_op :: "stream_op \<Rightarrow> nat \<Rightarrow> nat" where
  "size_op (OpInt8 v) n = n + 1"
| "size_op (OpUInt8 v) n = n + 1"
| "size_op (OpInt16 v) n = n + 2"
| "size_op (OpUInt16 v) n = n + 2"
| "size_op (OpInteger v) n = n + 4"
| "size_op (OpUInt32 v) n = n + 4"
| "size_op (OpArrayBuffer b off len) n = n + (if len = 0 then length b else len)"
| "size_op (OpByteStream None) n = n + 4"
| "size_op (OpByteStream (Some b)) n = n + 4 + length b"
| "size_op (OpString None) n = n + 4"
| "size_op (OpString (Some s)) n = n + 4 + calculateByteLength s"

section \<open>Cursor lemmas\<close>

lemma write_le_length [stream_simps]:
  "write_le n v st = Inr st' \<Longrightarrow>
     bs_length st' = bs_length st + n \<and> length (bs_buffer st') = length (bs_buffer st)"
  by (auto simp: write_le_def buf_write_le_def split: if_splits)

lemma write_int_le_length [stream_simps]:
  "write_int_le n v st = Inr st' \<Longrightarrow>
     bs_length st' = bs_length st + n \<and> length (bs_buffer st') = length (bs_buffer st)"
  by (auto simp: write_int_le_def buf_write_int_le_def buf_write_le_def split: if_splits)

lemma writeByteStream_length:
  "writeByteStream (Some b) st = Inr st' \<Longrightarrow> bs_length st' = bs_length st + 4 + length b"
  by (auto simp: writeByteStream_def writeInteger_def split: if_splits dest!: write_int_le_length)

lemma writeString_length:
  assumes "writeString (Some s) st = Inr st'"
  shows "bs_length st' = bs_length st + 4 + calculateByteLength s"
proof -
  from assms obtain st1 where st1: "write_int_le 4 (int (calculateByteLength s)) st = Inr st1"
    by (auto simp: writeString_def writeInteger_def Let_def)
  show ?thesis
  proof (cases "calculateByteLength s = 0")
    case True
    with assms st1 show ?thesis
      by (auto simp: writeString_def writeInteger_def Let_def dest!: write_int_le_length)
  next
    case False
    with assms st1 have "bs_length st' = bs_length st1 + calculateByteLength s"
      by (auto simp: writeString_def writeInteger_def Let_def split: if_splits)
    with st1 show ?thesis by (auto dest!: write_int_le_length)
  qed
qed

lemma apply_op_length: "apply_op p st = Inr st' \<Longrightarrow> bs_length st' = size_op p (bs_length st)"
proof (cases p)
  case (OpByteStream b)
  assume "apply_op p st = Inr st'"
  with OpByteStream show ?thesis
    by (cases b)
      (auto simp: writeByteStream_def [of None] writeInteger_def
            dest!: write_int_le_length writeByteStream_length)
next
  case (OpString s)
  assume "apply_op p st = Inr st'"
  with OpString show ?thesis
    by (cases s)
      (auto simp: writeString_def [of None] writeUInt32_def
            dest!: write_le_length writeString_length)
qed (auto simp: stream_defs writeArrayBuffer_def Let_def
          dest!: write_int_le_length write_le_length)

lemma apply_ops_length:
  "apply_ops ps st = Inr st' \<Longrightarrow> bs_length st' = fold size_op ps (bs_length st)"
  by (induction ps arbitrary: st) (auto dest: apply_op_length)

section \<open>UTF-8\<close>

lemma unat_byte_of_nat [simp]: "n < 256 \<Longrightarrow> unat (of_nat n :: byte) = n"
  by (simp add: unat_of_nat)

lemma unat_16_less: "unat (c :: 16 word) < 0x10000"
  using unsigned_less [of c] by simp

lemma utf8_cp_length:
  "length (utf8_cp u) = (if u < 0x80 then 1 else if u < 0x800 then 2 else if u < 0x10000 then 3 else 4)"
  by (simp add: utf8_cp_def)

definition scalar_value :: "nat \<Rightarrow> bool" where
  "scalar_value u \<longleftrightarrow> u < 0xD800 \<or> (0xDFFF < u \<and> u < 0x110000)"

lemma is_cont_mod [simp]: "is_cont (0x80 + n mod 64)"
proof -
  have "n mod 64 < 64" by simp
  then show ?thesis unfolding is_cont_def by linarith
qed

lemma base64_digits_2: "(u :: nat) = u div 64 * 64 + u mod 64"
  by simp

lemma base64_digits_3: "(u :: nat) = u div 4096 * 4096 + u div 64 mod 64 * 64 + u mod 64"
proof -
  have "u div 4096 = u div 64 div 64" by (simp add: div_mult2_eq [symmetric])
  moreover have "u div 64 = u div 64 div 64 * 64 + u div 64 mod 64" by (rule base64_digits_2)
  ultimately show ?thesis using base64_digits_2 [of u] by linarith
qed

lemma base64_digits_4:
  "(u :: nat) = u div 262144 * 262144 + u div 4096 mod 64 * 4096 + u div 64 mod 64 * 64 + u mod 64"
proof -
  have "u div 262144 = u div 4096 div 64" by (simp add: div_mult2_eq [symmetric])
  moreover have "u div 4096 = u div 4096 div 64 * 64 + u div 4096 mod 64" by (rule base64_digits_2)
  ultimately show ?thesis using base64_digits_3 [of u] by linarith
qed

lemma is_cont_digit: "b < 64 \<Longrightarrow> is_cont (0x80 + b)"
  by (simp add: is_cont_def)

lemma utf8_scan_2:
  assumes "u = a * 64 + b" "b < 64" "0x80 \<le> u" "u < 0x800"
  shows "utf8_scan ((0xC0 + a) # (0x80 + b) # r) = u # utf8_scan r"
proof -
  have "2 \<le> a" "a \<le> 31" using assms by linarith+
  then show ?thesis using assms(1) is_cont_digit [OF assms(2)] by simp
qed

lemma utf8_scan_3:
  assumes "u = a * 4096 + b * 64 + c" "b < 64" "c < 64"
    "0x800 \<le> u" "u < 0x10000" "scalar_value u"
  shows "utf8_scan ((0xE0 + a) # (0x80 + b) # (0x80 + c) # r) = u # utf8_scan r"
proof -
  have 1: "a \<le> 15" using assms by linarith
  have 2: "a = 0 \<longrightarrow> 0x20 \<le> b" using assms by auto
  have 3: "a = 13 \<longrightarrow> b \<le> 0x1F" using assms(1-3,6) unfolding scalar_value_def by auto
  show ?thesis
    using 1 2 3 assms(1) is_cont_digit [OF assms(2)] is_cont_digit [OF assms(3)] by auto
qed

lemma utf8_scan_4:
  assumes "u = a * 262144 + b * 4096 + c * 64 + d" "b < 64" "c < 64" "d < 64"
    "0x10000 \<le> u" "u < 0x110000"
  shows "utf8_scan ((0xF0 + a) # (0x80 + b) # (0x80 + c) # (0x80 + d) # r) = u # utf8_scan r"
proof -
  have 1: "a \<le> 4" using assms by linarith
  have 2: "a = 0 \<longrightarrow> 0x10 \<le> b" using assms by auto
  have 3: "a = 4 \<longrightarrow> b \<le> 0xF" using assms by auto
  show ?thesis
    using 1 2 3 assms(1) is_cont_digit [OF assms(2)] is_cont_digit [OF assms(3)]
      is_cont_digit [OF assms(4)] by auto
qed

lemma map_unat_utf8_cp:
  "u < 0x80 \<Longrightarrow> map unat (utf8_cp u) = [u]"
  "0x80 \<le> u \<Longrightarrow> u < 0x800 \<Longrightarrow>
     map unat (utf8_cp u) = [0xC0 + u div 64, 0x80 + u mod 64]"
  "0x800 \<le> u \<Longrightarrow> u < 0x10000 \<Longrightarrow>
     map unat (utf8_cp u) = [0xE0 + u div 4096, 0x80 + u div 64 mod 64, 0x80 + u mod 64]"
  "0x10000 \<le> u \<Longrightarrow> u < 0x110000 \<Longrightarrow>
     map unat (utf8_cp u) = [0xF0 + u div 262144, 0x80 + u div 4096 mod 64,
        0x80 + u div 64 mod 64, 0x80 + u mod 64]"
proof -
  have m: "n mod 64 < 64" for n :: nat by simp
  have k: "0x80 + n mod 64 < 256" for n :: nat using m [of n] by linarith
  have d: "n < k * j \<Longrightarrow> n div j < k" for n j k :: nat by (rule less_mult_imp_div_less)
  show "u < 0x80 \<Longrightarrow> map unat (utf8_cp u) = [u]"
    by (simp add: utf8_cp_def)
  show "map unat (utf8_cp u) = [0xC0 + u div 64, 0x80 + u mod 64]" if "0x80 \<le> u" "u < 0x800"
    using that k [of u] d [of u 32 64] by (simp add: utf8_cp_def del: of_nat_add)
  show "map unat (utf8_cp u) = [0xE0 + u div 4096, 0x80 + u div 64 mod 64, 0x80 + u mod 64]"
    if "0x800 \<le> u" "u < 0x10000"
    using that k [of u] k [of "u div 64"] d [of u 16 4096]
    by (simp add: utf8_cp_def del: of_nat_add)
  show "map unat (utf8_cp u) = [0xF0 + u div 262144, 0x80 + u div 4096 mod 64,
        0x80 + u div 64 mod 64, 0x80 + u mod 64]" if "0x10000 \<le> u" "u < 0x110000"
    using that k [of u] k [of "u div 64"] k [of "u div 4096"] d [of u 5 262144]
    by (simp add: utf8_cp_def del: of_nat_add)
qed

lemma utf8_scan_cp:
  assumes "scalar_value u"
  shows "utf8_scan (map unat (utf8_cp u) @ r) = u # utf8_scan r"
proof -
  have hi: "u < 0x110000" using assms by (auto simp: scalar_value_def)
  consider "u < 0x80" | "0x80 \<le> u" "u < 0x800" | "0x800 \<le> u" "u < 0x10000" | "0x10000 \<le> u"
    by linarith
  then show ?thesis
  proof cases
    case 1
    then show ?thesis by (simp add: map_unat_utf8_cp)
  next
    case 2
    have "utf8_scan ((0xC0 + u div 64) # (0x80 + u mod 64) # r) = u # utf8_scan r"
      by (rule utf8_scan_2 [OF base64_digits_2]) (use 2 in simp_all)
    then show ?thesis by (simp only: map_unat_utf8_cp(2) [OF 2] append.simps)
  next
    case 3
    have "utf8_scan ((0xE0 + u div 4096) # (0x80 + u div 64 mod 64) # (0x80 + u mod 64) # r)
        = u # utf8_scan r"
      by (rule utf8_scan_3 [OF base64_digits_3]) (use 3 assms in simp_all)
    then show ?thesis by (simp only: map_unat_utf8_cp(3) [OF 3] append.simps)
  next
    case 4
    have "utf8_scan ((0xF0 + u div 262144) # (0x80 + u div 4096 mod 64) # (0x80 + u div 64 mod 64)
        # (0x80 + u mod 64) # r) = u # utf8_scan r"
      by (rule utf8_scan_4 [OF base64_digits_4]) (use 4 hi in simp_all)
    then show ?thesis by (simp only: map_unat_utf8_cp(4) [OF 4 hi] append.simps)
  qed
qed

lemma surrogate_cp_bounds:
  "is_lead c \<Longrightarrow> is_trail d \<Longrightarrow> 0x10000 \<le> surrogate_cp c d \<and> surrogate_cp c d < 0x110000"
  unfolding is_lead_def is_trail_def surrogate_cp_def by auto

lemma code_points_scalar: "u \<in> set (code_points s) \<Longrightarrow> scalar_value u"
proof (induction s rule: code_points.induct)
  case (2 c)
  then show ?case using unat_16_less [of c]
    by (auto simp: scalar_value_def is_lead_def is_trail_def split: if_splits)
next
  case (3 c d s)
  then show ?case using unat_16_less [of c] surrogate_cp_bounds [of c d]
    by (auto simp: scalar_value_def is_lead_def is_trail_def split: if_splits)
qed simp

lemma utf8_scan_encode:
  "(\<And>u. u \<in> set us \<Longrightarrow> scalar_value u) \<Longrightarrow> utf8_scan (map unat (concat (map utf8_cp us))) = us"
proof (induction us)
  case (Cons u us)
  have "utf8_scan (map unat (utf8_cp u) @ map unat (concat (map utf8_cp us)))
      = u # utf8_scan (map unat (concat (map utf8_cp us)))"
    by (rule utf8_scan_cp) (simp add: Cons.prems)
  with Cons show ?case by simp
qed simp

lemma unat_eq_of_nat_16: "n = unat c \<Longrightarrow> of_nat n = (c :: 16 word)"
  by simp

lemma utf16_cp_surrogate:
  assumes "is_lead c" "is_trail d"
  shows "utf16_cp (surrogate_cp c d) = [c, d]"
proof -
  let ?h = "unat c - 0xD800" and ?l = "unat d - 0xDC00"
  have l: "?l < 1024" using assms(2) by (auto simp: is_trail_def)
  have "(?h * 1024 + ?l) div 1024 = ?h" and "(?h * 1024 + ?l) mod 1024 = ?l"
    using l by simp_all
  moreover have "0xD800 + ?h = unat c" "0xDC00 + ?l = unat d"
    using assms by (auto simp: is_lead_def is_trail_def)
  ultimately have "of_nat (0xD800 + (?h * 1024 + ?l) div 1024) = c"
    "of_nat (0xDC00 + (?h * 1024 + ?l) mod 1024) = d"
    by (simp_all only: unat_eq_of_nat_16)
  then show ?thesis by (simp add: utf16_cp_def surrogate_cp_def)
qed

lemma utf16_code_points: "well_formed s \<Longrightarrow> concat (map utf16_cp (code_points s)) = s"
proof (induction s rule: code_points.induct)
  case (2 c)
  then show ?case using unat_16_less [of c] by (simp add: utf16_cp_def)
next
  case (3 c d s)
  show ?case
  proof (cases "is_lead c")
    case True
    with "3.prems" have "is_trail d" "well_formed s" by simp_all
    with True "3.IH"(1) show ?thesis by (simp add: utf16_cp_surrogate)
  next
    case False
    with "3.prems" have "\<not> is_trail c" "well_formed (d # s)" by simp_all
    with False "3.IH"(2) show ?thesis using unat_16_less [of c]
      by (simp add: utf16_cp_def)
  qed
qed simp

lemma utf8_decode_encode [simp]: "well_formed s \<Longrightarrow> utf8_decode (utf8_encode s) = s"
  by (simp add: utf8_decode_def utf8_encode_def utf8_scan_encode code_points_scalar
      utf16_code_points)

lemma utf8_fit_all: "length (concat (map utf8_cp us)) \<le> room \<Longrightarrow>
    utf8_fit room us = concat (map utf8_cp us)"
  by (induction us arbitrary: room) auto

text \<open>The extra bytes a string takes over its number of code units.\<close>

lemma byte_length_loop_append:
  "well_formed s \<Longrightarrow>
     byte_length_loop (rev s @ below) n = byte_length_loop below (n + length (utf8_encode s) - length s)
     \<and> length s \<le> length (utf8_encode s)"
proof (induction s arbitrary: below n rule: code_points.induct)
  case 1
  show ?case by (simp add: utf8_encode_def)
next
  case (2 c)
  then show ?case using unat_16_less [of c]
    by (auto simp: utf8_encode_def utf8_cp_length is_trail_def)
next
  case (3 c d s)
  show ?case
  proof (cases "is_lead c")
    case True
    with "3.prems" have d: "is_trail d" and wf: "well_formed s" by simp_all
    have len: "length (utf8_encode (c # d # s)) = 4 + length (utf8_encode s)"
      using True d surrogate_cp_bounds [OF True d]
      by (simp add: utf8_encode_def utf8_cp_length)
    have "byte_length_loop (d # c # below) m = byte_length_loop below (m + 2)" for m
      using d unat_16_less [of d] by (simp add: is_trail_def Let_def)
    with "3.IH"(1) [of "d # c # below" n] True d wf len show ?thesis
      by (auto simp: Suc_diff_le)
  next
    case False
    with "3.prems" have c: "\<not> is_trail c" and wf: "well_formed (d # s)" by simp_all
    have len: "length (utf8_encode (c # d # s))
        = length (utf8_cp (unat c)) + length (utf8_encode (d # s))"
      using False c by (simp add: utf8_encode_def)
    have "byte_length_loop (c # below) m = byte_length_loop below (m + length (utf8_cp (unat c)) - 1)"
      for m using c unat_16_less [of c]
      by (auto simp: utf8_cp_length is_trail_def Let_def)
    with "3.IH"(2) [of "c # below" n] False c wf len show ?thesis
      by (auto simp: utf8_cp_length Suc_diff_le)
  qed
qed

section \<open>Round trips\<close>

lemma read_le_subarray:
  "read_le n \<lparr>bs_buffer = b, bs_length = k\<rparr> = Inr (v, st) \<Longrightarrow> v < 256 ^ n"
  by (auto simp: read_le_def dest: buf_read_le_less)

lemma write_le_buffer:
  "write_le n v st = Inr st' \<Longrightarrow>
     0 \<le> v \<and> v < 256 ^ n \<and> bs_length st + n \<le> length (bs_buffer st) \<and>
     st' = st\<lparr>bs_buffer := overwrite (bs_buffer st) (bs_length st) (le_bytes n (nat v)),
              bs_length := bs_length st + n\<rparr>"
  by (auto simp: write_le_def buf_write_le_def split: if_splits)

lemma write_int_le_nonneg:
  assumes "write_int_le n (int k) st = Inr st'" "0 < n"
  shows "2 * k < 256 ^ n \<and> write_le n (int k) st = Inr st'"
proof -
  from assms(1) have b: "2 * int k < 256 ^ n"
    by (auto simp: write_int_le_def buf_write_int_le_def split: if_splits)
  then have "int k < 256 ^ n" by linarith
  then have "int k mod 256 ^ n = int k" by (simp add: mod_pos_pos_trivial)
  moreover from b have "2 * k < 256 ^ n"
    by (metis of_nat_less_iff of_nat_mult of_nat_numeral of_nat_power)
  ultimately show ?thesis using assms(1)
    by (auto simp: write_int_le_def write_le_def buf_write_int_le_def split: if_splits)
qed

lemma subarray_overwrite_before:
  "stop \<le> off \<Longrightarrow> off \<le> length b \<Longrightarrow> subarray (overwrite b off src) start stop = subarray b start stop"
  by (simp add: subarray_def overwrite_def drop_take)

text \<open>A length prefix followed by its bytes reads back.\<close>

lemma read_prefixed:
  assumes "off + 4 + length bs \<le> length b" "length bs < 256 ^ 4"
  defines "b' \<equiv> overwrite (overwrite b off (le_bytes 4 (length bs))) (off + 4) bs"
  shows "read_le 4 \<lparr>bs_buffer = b', bs_length = off\<rparr>
           = Inr (length bs, \<lparr>bs_buffer = b', bs_length = off + 4\<rparr>)"
    and "subarray b' (off + 4) (off + 4 + length bs) = bs"
    and "length b' = length b"
proof -
  let ?b1 = "overwrite b off (le_bytes 4 (length bs))"
  have l1: "length ?b1 = length b" using assms(1) by simp
  then show lb: "length b' = length b" using assms(1) by (simp add: b'_def)
  have "subarray b' off (off + 4) = subarray ?b1 off (off + 4)"
    unfolding b'_def using l1 assms(1) by (intro subarray_overwrite_before) simp_all
  also have "\<dots> = le_bytes 4 (length bs)"
    using subarray_overwrite [of off "le_bytes 4 (length bs)" b] assms(1) by simp
  finally show "read_le 4 \<lparr>bs_buffer = b', bs_length = off\<rparr>
      = Inr (length bs, \<lparr>bs_buffer = b', bs_length = off + 4\<rparr>)"
    using assms(1,2) lb by (simp add: read_le_def buf_read_le_def)
  show "subarray b' (off + 4) (off + 4 + length bs) = bs"
    unfolding b'_def using l1 assms(1) by (intro subarray_overwrite) simp
qed

lemma write_prefix:
  assumes "bs_length st + 4 \<le> length (bs_buffer st)" "2 * k < 256 ^ 4"
  shows "writeInteger (int k) st
    = Inr (st\<lparr>bs_buffer := overwrite (bs_buffer st) (bs_length st) (le_bytes 4 k),
              bs_length := bs_length st + 4\<rparr>)"
  using assms
  by (simp add: writeInteger_def write_int_le_def buf_write_int_le_def buf_write_le_def
      mod_pos_pos_trivial)

lemma calculateByteLength_wf:
  "well_formed s \<Longrightarrow> calculateByteLength s = length (utf8_encode s)"
  using byte_length_loop_append [of s "[]" "length s"] by (simp add: calculateByteLength_def)

lemma writeString_Some:
  assumes "well_formed s" "bs_length st + 4 + length (utf8_encode s) \<le> length (bs_buffer st)"
    "2 * length (utf8_encode s) < 256 ^ 4"
  shows "writeString (Some s) st = Inr (st\<lparr>
     bs_buffer := overwrite (overwrite (bs_buffer st) (bs_length st)
                    (le_bytes 4 (length (utf8_encode s)))) (bs_length st + 4) (utf8_encode s),
     bs_length := bs_length st + 4 + length (utf8_encode s)\<rparr>)"
proof -
  let ?e = "utf8_encode s"
  have fit: "utf8_fit (length (bs_buffer st) - (bs_length st + 4)) (code_points s) = ?e"
    unfolding utf8_encode_def using assms(2) by (intro utf8_fit_all) (simp add: utf8_encode_def)
  have nil: "overwrite b off [] = b" for b off by (simp add: overwrite_def)
  show ?thesis using assms fit
    by (auto simp: writeString_def calculateByteLength_wf Let_def write_prefix nil)
qed

text \<open>Evaluation rules for concrete strings and streams.\<close>

lemmas utf_eval =
  is_lead_def is_trail_def surrogate_cp_def utf8_cp_def utf8_encode_def calculateByteLength_def
  Let_def

lemmas stream_eval =
  open_stream_def write_le_def write_int_le_def buf_write_le_def buf_write_int_le_def
  writeByteStream_def writeString_def overwrite_def subarray_def

section \<open>Properties\<close>

text \<open>\<^verbatim>\<open>calculateByteLength\<close>, which walks the UTF-16 code units from the end and skips
  a unit before each trail surrogate, returns exactly the number of bytes of the UTF-8 encoding of
  every well-formed string.\<close>

theorem calculateByteLength_correct:
  assumes "well_formed s"
  shows "calculateByteLength s = length (utf8_encode s)"
  using assms by (rule calculateByteLength_wf)

theorem calculateByteLength_correct_witness:
  "calculateByteLength [0x48, 0xE9, 0x20AC, 0xD83D, 0xDE00]
     = length (utf8_encode [0x48, 0xE9, 0x20AC, 0xD83D, 0xDE00])"
proof -
  have "well_formed [0x48, 0xE9, 0x20AC, 0xD83D, 0xDE00]" by (simp add: utf_eval)
  then show ?thesis by (rule calculateByteLength_correct)
qed

text \<open>A string written by \<^verbatim>\<open>writeString\<close> into a buffer with enough room is accepted, is
  read back unchanged by \<^verbatim>\<open>readString\<close> from the same place, both cursors end at the same
  byte, and the bytes before the string are untouched.\<close>

theorem string_roundtrip:
  assumes "well_formed s" "bs_length st + 4 + length (utf8_encode s) \<le> length (bs_buffer st)"
    "length (utf8_encode s) \<le> maxStringLength"
  shows "\<exists>st'. writeString (Some s) st = Inr st'
     \<and> readString (st'\<lparr>bs_length := bs_length st\<rparr>) = Inr (Some s, st')
     \<and> take (bs_length st) (bs_buffer st') = take (bs_length st) (bs_buffer st)"
proof -
  let ?e = "utf8_encode s" and ?off = "bs_length st" and ?b = "bs_buffer st"
  let ?b' = "overwrite (overwrite ?b ?off (le_bytes 4 (length ?e))) (?off + 4) ?e"
  have small: "length ?e \<le> 16777216" using assms(3) by (simp add: maxStringLength_def)
  have w: "writeString (Some s) st
      = Inr (st\<lparr>bs_buffer := ?b', bs_length := ?off + 4 + length ?e\<rparr>)"
    using assms(1,2) small by (intro writeString_Some) simp_all
  have pre: "length ?e < 256 ^ 4" using small by simp
  note rd = read_prefixed [OF assms(2) pre]
  have "readUInt32 (st\<lparr>bs_buffer := ?b', bs_length := ?off\<rparr>)
      = Inr (length ?e, st\<lparr>bs_buffer := ?b', bs_length := ?off + 4\<rparr>)"
    using rd(1) by (auto simp: readUInt32_def read_le_def buf_read_le_def split: if_splits)
  then have r: "readString (st\<lparr>bs_buffer := ?b', bs_length := ?off\<rparr>)
      = Inr (Some s, st\<lparr>bs_buffer := ?b', bs_length := ?off + 4 + length ?e\<rparr>)"
    using small rd(2,3) assms(1,2)
    by (auto simp: readString_def maxStringLength_def)
      (use utf8_decode_encode [of s] in \<open>simp add: utf8_decode_def\<close>)
  have "take ?off ?b' = take ?off ?b"
    using assms(2) by (simp add: overwrite_def)
  with w r show ?thesis by simp
qed

theorem string_roundtrip_witness:
  "\<exists>st'. writeString (Some [0x41, 0x20AC]) \<lparr>bs_buffer = replicate 12 7, bs_length = 2\<rparr> = Inr st'
     \<and> readString (st'\<lparr>bs_length := 2\<rparr>) = Inr (Some [0x41, 0x20AC], st')
     \<and> take 2 (bs_buffer st') = [7, 7]"
proof -
  let ?st = "\<lparr>bs_buffer = replicate 12 7, bs_length = 2\<rparr> :: bstream"
  have "well_formed [0x41, 0x20AC]" by (simp add: utf_eval)
  moreover have "length (utf8_encode [0x41, 0x20AC]) = 4" by (simp add: utf_eval)
  moreover have "take 2 (replicate 12 (7 :: byte)) = [7, 7]" by (simp add: numeral_eq_Suc)
  ultimately show ?thesis
    using string_roundtrip [of "[0x41, 0x20AC]" ?st] by (simp add: maxStringLength_def)
qed

text \<open>The size calculator is equivalent to the stream: after any sequence of writes that the
  stream accepts, the cursor has moved by exactly the number of bytes the
  \<^verbatim>\<open>BinaryStreamSizeCalculator\<close> counts for the same sequence.\<close>

theorem size_calculator_agrees:
  assumes "apply_ops ops st = Inr st'"
  shows "bs_length st' = fold size_op ops (bs_length st)"
  using assms by (rule apply_ops_length)

theorem size_calculator_agrees_witness:
  "\<exists>st'. apply_ops [OpUInt32 9, OpInt8 (-1), OpString (Some [0x41, 0xE9]), OpByteStream (Some [1, 2])]
           (open_stream (replicate 20 0)) = Inr st' \<and> bs_length st' = 18"
proof -
  let ?ops = "[OpUInt32 9, OpInt8 (-1), OpString (Some [0x41, 0xE9]), OpByteStream (Some [1, 2])]"
  have "\<exists>st'. apply_ops ?ops (open_stream (replicate 20 0)) = Inr st'"
    by (simp add: stream_defs stream_eval utf_eval)
  then obtain st' where st': "apply_ops ?ops (open_stream (replicate 20 0)) = Inr st'" ..
  from size_calculator_agrees [OF st']
  have "bs_length st' = fold size_op ?ops (bs_length (open_stream (replicate 20 0)))" .
  moreover have "fold size_op ?ops (bs_length (open_stream (replicate 20 0))) = 18"
    by (simp add: open_stream_def utf_eval)
  ultimately show ?thesis using st' by auto
qed

text \<open>For an ill-formed string the count can be short: the unit below a lone trail surrogate is
  skipped even when it is no lead surrogate.\<close>

lemma calculateByteLength_lone_trail:
  "calculateByteLength [0xE9, 0xDC00] = 4 \<and> length (utf8_encode [0xE9, 0xDC00]) = 5"
  by (simp add: utf_eval)

end
