(* ===== verification/Stream_Codec.thy ===== *)
theory Stream_Codec
  imports Binary_Stream
begin

text \<open>
  Composition of stream operations. \<open>emits w bs\<close> says that the writer \<open>w\<close> stores exactly the bytes
  \<open>bs\<close> at the cursor whenever there is room for them, \<open>parses r bs v\<close> that the reader \<open>r\<close> gets \<open>v\<close>
  wherever the bytes \<open>bs\<close> stand at the cursor. Both compose along \<open>rbind\<close>, so an
  \<^verbatim>\<open>encode\<close> method and the matching \<^verbatim>\<open>decode\<close> are verified one field at a time.
\<close>

definition emits :: "(bstream \<Rightarrow> bstream result) \<Rightarrow> buffer \<Rightarrow> bool" where
  "emits w bs \<longleftrightarrow> (\<forall>st. bs_length st + length bs \<le> length (bs_buffer st) \<longrightarrow>
     w st = Inr (st\<lparr>bs_buffer := overwrite (bs_buffer st) (bs_length st) bs,
                   bs_length := bs_length st + length bs\<rparr>))"

definition parses :: "(bstream \<Rightarrow> ('a \<times> bstream) result) \<Rightarrow> buffer \<Rightarrow> 'a \<Rightarrow> bool" where
  "parses r bs v \<longleftrightarrow> (\<forall>pre post. r \<lparr>bs_buffer = pre @ bs @ post, bs_length = length pre\<rparr>
     = Inr (v, \<lparr>bs_buffer = pre @ bs @ post, bs_length = length pre + length bs\<rparr>))"

lemma emitsD:
  "emits w bs \<Longrightarrow> bs_length st + length bs \<le> length (bs_buffer st) \<Longrightarrow>
   w st = Inr (st\<lparr>bs_buffer := overwrite (bs_buffer st) (bs_length st) bs,
                 bs_length := bs_length st + length bs\<rparr>)"
  by (simp add: emits_def)

named_theorems codec_intros \<open>writers and readers of known bytes\<close>

lemma overwrite_twice:
  "off \<le> length b \<Longrightarrow>
   overwrite (overwrite b off x) (off + length x) y = overwrite b off (x @ y)"
  by (simp add: overwrite_def ac_simps)

lemma emits_bind:
  assumes "emits w x" "emits w' y"
  shows "emits (\<lambda>st. rbind (w st) w') (x @ y)"
  unfolding emits_def
proof (intro allI impI)
  fix st :: bstream
  assume room: "bs_length st + length (x @ y) \<le> length (bs_buffer st)"
  let ?st1 = "st\<lparr>bs_buffer := overwrite (bs_buffer st) (bs_length st) x,
                bs_length := bs_length st + length x\<rparr>"
  have "w st = Inr ?st1" using assms(1) room by (simp add: emits_def)
  moreover have "bs_length ?st1 + length y \<le> length (bs_buffer ?st1)" using room by simp
  then have "w' ?st1 = Inr (?st1\<lparr>bs_buffer := overwrite (bs_buffer ?st1) (bs_length ?st1) y,
                bs_length := bs_length ?st1 + length y\<rparr>)"
    using assms(2) unfolding emits_def by blast
  ultimately show "rbind (w st) w' = Inr (st\<lparr>bs_buffer := overwrite (bs_buffer st) (bs_length st) (x @ y),
                   bs_length := bs_length st + length (x @ y)\<rparr>)"
    using room by (simp add: overwrite_twice)
qed

lemma emits_writeUInt8 [codec_intros]: "v < 256 \<Longrightarrow> emits (writeUInt8 (int v)) [of_nat v]"
  by (simp add: emits_def writeUInt8_def write_le_def buf_write_le_def)

lemma emits_writeUInt32 [codec_intros]: "v < 2 ^ 32 \<Longrightarrow> emits (writeUInt32 (int v)) (le_bytes 4 v)"
  by (simp add: emits_def writeUInt32_def write_le_def buf_write_le_def)

definition string_bytes :: "js_string option \<Rightarrow> buffer" where
  "string_bytes v = (case v of None \<Rightarrow> le_bytes 4 0xFFFFFFFF
     | Some s \<Rightarrow> le_bytes 4 (length (utf8_encode s)) @ utf8_encode s)"

definition byte_string_bytes :: "buffer option \<Rightarrow> buffer" where
  "byte_string_bytes v = (case v of None \<Rightarrow> le_bytes 4 0xFFFFFFFF
     | Some b \<Rightarrow> le_bytes 4 (length b) @ b)"

definition string_ok :: "js_string option \<Rightarrow> bool" where
  "string_ok v = (case v of None \<Rightarrow> True
     | Some s \<Rightarrow> well_formed s \<and> length (utf8_encode s) \<le> maxStringLength)"

definition byte_string_ok :: "buffer option \<Rightarrow> bool" where
  "byte_string_ok v = (case v of None \<Rightarrow> True | Some b \<Rightarrow> length b \<le> maxByteStringLength)"

lemma emits_writeString [codec_intros]: "string_ok v \<Longrightarrow> emits (writeString v) (string_bytes v)"
proof (cases v)
  case None
  then show ?thesis using emits_writeUInt32 [of "0xFFFFFFFF"]
    by (simp add: string_bytes_def emits_def writeString_def)
next
  case (Some s)
  assume "string_ok v"
  with Some have "well_formed s" "2 * length (utf8_encode s) < 256 ^ 4"
    by (simp_all add: string_ok_def maxStringLength_def)
  then show ?thesis using Some writeString_Some [of s]
    by (simp add: emits_def string_bytes_def overwrite_twice [where x = "le_bytes 4 n" for n, simplified]
        ac_simps)
qed

lemma emits_writeByteStream [codec_intros]:
  "byte_string_ok v \<Longrightarrow> emits (writeByteStream v) (byte_string_bytes v)"
proof (cases v)
  case None
  then show ?thesis
    by (simp add: byte_string_bytes_def emits_def writeByteStream_def writeInteger_def write_int_le_def
        buf_write_int_le_def buf_write_le_def)
next
  case (Some b)
  assume "byte_string_ok v"
  with Some have "2 * length b < 256 ^ 4"
    by (simp add: byte_string_ok_def maxByteStringLength_def)
  then show ?thesis using Some
    by (auto simp: emits_def byte_string_bytes_def writeByteStream_def write_prefix
        overwrite_twice [where x = "le_bytes 4 n" for n, simplified] ac_simps)
qed

lemma parses_bind:
  assumes "parses r x v" "parses (r' v) y w"
  shows "parses (\<lambda>st. rbind (r st) (\<lambda>(v, st1). r' v st1)) (x @ y) w"
  unfolding parses_def
proof (intro allI)
  fix pre post
  have "r \<lparr>bs_buffer = pre @ x @ (y @ post), bs_length = length pre\<rparr>
     = Inr (v, \<lparr>bs_buffer = pre @ x @ (y @ post), bs_length = length pre + length x\<rparr>)"
    using assms(1) unfolding parses_def by blast
  moreover have "r' v \<lparr>bs_buffer = (pre @ x) @ y @ post, bs_length = length (pre @ x)\<rparr>
     = Inr (w, \<lparr>bs_buffer = (pre @ x) @ y @ post, bs_length = length (pre @ x) + length y\<rparr>)"
    using assms(2) unfolding parses_def by blast
  ultimately show "rbind (r \<lparr>bs_buffer = pre @ (x @ y) @ post, bs_length = length pre\<rparr>) (\<lambda>(v, st1). r' v st1)
      = Inr (w, \<lparr>bs_buffer = pre @ (x @ y) @ post, bs_length = length pre + length (x @ y)\<rparr>)"
    by (simp add: add.assoc)
qed

lemma parses_return: "parses (\<lambda>st. Inr (v, st)) [] v"
  by (simp add: parses_def)

lemma subarray_middle: "subarray (pre @ x @ post) (length pre) (length pre + length x) = x"
  by (simp add: subarray_def)

lemma read_le_middle:
  "length x = n \<Longrightarrow> read_le n \<lparr>bs_buffer = pre @ x @ post, bs_length = length pre\<rparr>
     = Inr (le_value x, \<lparr>bs_buffer = pre @ x @ post, bs_length = length pre + n\<rparr>)"
  by (simp add: read_le_def buf_read_le_def subarray_def)

lemma parses_readUInt8 [codec_intros]: "v < 256 \<Longrightarrow> parses readUInt8 [of_nat v] v"
  using read_le_middle [of "[of_nat v]" 1] by (simp add: parses_def readUInt8_def)

lemma parses_readUInt32 [codec_intros]: "v < 2 ^ 32 \<Longrightarrow> parses readUInt32 (le_bytes 4 v) v"
  using read_le_middle [of "le_bytes 4 v" 4] by (simp add: parses_def readUInt32_def)

lemma prefixed_middle:
  "subarray (pre @ (p @ x) @ post) (length pre + length p) (length pre + length p + length x) = x"
  by (simp add: subarray_def)

lemma readUInt32_prefix:
  assumes "v < 2 ^ 32"
  shows "readUInt32 \<lparr>bs_buffer = pre @ (le_bytes 4 v @ x) @ post, bs_length = length pre\<rparr>
     = Inr (v, \<lparr>bs_buffer = pre @ (le_bytes 4 v @ x) @ post, bs_length = length pre + 4\<rparr>)"
  using read_le_middle [of "le_bytes 4 v" 4 pre "x @ post"] assms by (simp add: readUInt32_def)

lemma parses_readString [codec_intros]: "string_ok v \<Longrightarrow> parses readString (string_bytes v) v"
proof (cases v)
  case None
  then show ?thesis using parses_readUInt32 [of "0xFFFFFFFF"]
    by (simp add: string_bytes_def parses_def readString_def)
next
  case (Some s)
  assume "string_ok v"
  with Some have s: "well_formed s" "length (utf8_encode s) \<le> 16777216"
    by (simp_all add: string_ok_def maxStringLength_def)
  have sub: "take (length (utf8_encode s)) (drop (length pre + 4) (pre @ le_bytes 4 n @ utf8_encode s @ post))
      = utf8_encode s" for pre post n by simp
  show ?thesis unfolding parses_def
  proof (intro allI)
    fix pre post
    have e: "utf8_encode s = [] \<Longrightarrow> s = []" using s(1) utf8_decode_encode [of s]
      by (metis concat.simps(1) list.simps(8) utf8_decode_def utf8_scan.simps(1))
    show "readString \<lparr>bs_buffer = pre @ string_bytes v @ post, bs_length = length pre\<rparr>
      = Inr (v, \<lparr>bs_buffer = pre @ string_bytes v @ post, bs_length = length pre + length (string_bytes v)\<rparr>)"
      using s readUInt32_prefix [of "length (utf8_encode s)" pre "utf8_encode s" post] Some e
      by (auto simp: string_bytes_def readString_def maxStringLength_def subarray_def)
  qed
qed

lemma parses_readByteStream [codec_intros]:
  "byte_string_ok v \<Longrightarrow> parses readByteStream (byte_string_bytes v) v"
proof (cases v)
  case None
  then show ?thesis using parses_readUInt32 [of "0xFFFFFFFF"]
    by (simp add: byte_string_bytes_def parses_def readByteStream_def)
next
  case (Some b)
  assume "byte_string_ok v"
  with Some have b: "length b \<le> 16777216" by (simp add: byte_string_ok_def maxByteStringLength_def)
  show ?thesis unfolding parses_def
  proof (intro allI)
    fix pre post
    show "readByteStream \<lparr>bs_buffer = pre @ byte_string_bytes v @ post, bs_length = length pre\<rparr>
      = Inr (v, \<lparr>bs_buffer = pre @ byte_string_bytes v @ post,
                 bs_length = length pre + length (byte_string_bytes v)\<rparr>)"
      using b readUInt32_prefix [of "length b" pre b post] Some
      by (auto simp: byte_string_bytes_def readByteStream_def maxByteStringLength_def subarray_def)
  qed
qed

end
