(* ===== verification/Packet_Assembler.thy ===== *)
theory Packet_Assembler
  imports Prelude
begin

text \<open>
  \<^verbatim>\<open>PacketAssembler\<close> of \<^verbatim>\<open>node-opcua-packet-assembler\<close>: it cuts the byte stream
  of a socket, which arrives in arbitrary fragments, into message chunks. The object is a record of
  its fields, \<open>feed\<close> returns the new object with the events it emitted in order, and the header
  reader the owner supplies is a field of the configuration. \<open>split_stream\<close> is the specification:
  how a whole byte stream is cut, whatever the fragments.
\<close>

record message_header =
  mh_msgType :: string
  mh_isFinal :: char
  mh_length :: nat

record packet_info =
  pi_length :: nat
  pi_messageHeader :: message_header
  pi_extra :: string

datatype pa_error_code = ChunkSizeExceeded | ChunkTooSmall

datatype pa_event =
    StartChunk packet_info buffer
  | Chunk buffer
  | PAError pa_error_code

record pa_config =
  readChunkFunc :: "buffer \<Rightarrow> packet_info"
  minimumSizeInBytes :: nat
  maxChunkSize :: nat

record pa_state =
  pa_stack :: "buffer list"
  pa_expectedLength :: nat
  pa_currentLength :: nat
  pa_packetInfo :: "packet_info option"

definition defaultMaxMessageSize :: nat where
  "defaultMaxMessageSize = 1024 * 64 - 7"

text \<open>The constructor: \<^verbatim>\<open>options.minimumSizeInBytes || 8\<close> and the two assertions on
  \<^verbatim>\<open>maxChunkSize\<close>; \<open>None\<close> is \<^verbatim>\<open>undefined\<close>.\<close>

definition new_packet_assembler ::
    "(buffer \<Rightarrow> packet_info) \<Rightarrow> nat option \<Rightarrow> nat option \<Rightarrow> (pa_config \<times> pa_state) result" where
  "new_packet_assembler rd optMin optMax =
     (let minSize = (case optMin of None \<Rightarrow> 8 | Some n \<Rightarrow> if n = 0 then 8 else n);
          maxSize = (case optMax of None \<Rightarrow> defaultMaxMessageSize | Some n \<Rightarrow> n)
      in rbind (assert_js (optMax \<noteq> Some 0))
           (\<lambda>_. rbind (assert_js (minSize \<le> maxSize))
              (\<lambda>_. Inr (\<lparr>readChunkFunc = rd, minimumSizeInBytes = minSize, maxChunkSize = maxSize\<rparr>,
                        \<lparr>pa_stack = [], pa_expectedLength = 0, pa_currentLength = 0,
                         pa_packetInfo = None\<rparr>))))"

text \<open>\<^verbatim>\<open>_buildData\<close> with a buffer argument (the call sites never pass null).\<close>

definition buildData :: "pa_state \<Rightarrow> buffer \<Rightarrow> pa_state \<times> buffer" where
  "buildData s data =
     (if pa_stack s = [] then (s, data)
      else (s\<lparr>pa_stack := []\<rparr>, concat (pa_stack s @ [data])))"

text \<open>The first half of \<^verbatim>\<open>feed\<close>: at the start of a block, once the header is there, read
  the expected length and check it. The flag tells that \<^verbatim>\<open>feed\<close> returns after the
  error event.\<close>

definition feed_start ::
    "pa_config \<Rightarrow> pa_state \<Rightarrow> buffer \<Rightarrow> (pa_state \<times> buffer \<times> pa_event list \<times> bool) result" where
  "feed_start cf s data =
     (if pa_expectedLength s = 0 \<and> minimumSizeInBytes cf \<le> pa_currentLength s + length data then
        (let (s1, data1) =
               (if pa_stack s \<noteq> [] then
                  (let (s', d) = buildData s data in (s'\<lparr>pa_currentLength := 0\<rparr>, d))
                else (s, data));
             info = readChunkFunc cf data1;
             s2 = s1\<lparr>pa_packetInfo := Some info\<rparr>
         in rbind (assert_js (pa_currentLength s2 = 0))
              (\<lambda>_. if pi_length info < minimumSizeInBytes cf then
                     Inr (s2, data1, [PAError ChunkTooSmall], True)
                   else if pi_length info > maxChunkSize cf then
                     Inr (s2, data1, [PAError ChunkSizeExceeded], True)
                   else Inr (s2\<lparr>pa_expectedLength := pi_length info\<rparr>, data1,
                             [StartChunk info data1], False)))
      else Inr (s, data, [], False))"

text \<open>\<^verbatim>\<open>data.subarray(k)\<close>; a negative index counts from the end.\<close>

definition subarray_from :: "buffer \<Rightarrow> int \<Rightarrow> buffer" where
  "subarray_from b k = (if 0 \<le> k then drop (nat k) b else drop (length b - nat (- k)) b)"

partial_function (option) feed ::
    "pa_config \<Rightarrow> pa_state \<Rightarrow> buffer \<Rightarrow> (pa_state \<times> pa_event list) result option" where
  "feed cf s data =
     (case feed_start cf s data of
        Inl e \<Rightarrow> Some (Inl e)
      | Inr (s1, data1, evs, stop) \<Rightarrow>
          if stop then Some (Inr (s1, evs))
          else if pa_expectedLength s1 = 0 \<or> pa_currentLength s1 + length data1 < pa_expectedLength s1 then
            Some (Inr (s1\<lparr>pa_stack := pa_stack s1 @ [data1],
                          pa_currentLength := pa_currentLength s1 + length data1\<rparr>, evs))
          else if pa_currentLength s1 + length data1 = pa_expectedLength s1 then
            (let (s2, messageChunk) = buildData s1 data1
             in Some (Inr (s2\<lparr>pa_currentLength := 0, pa_expectedLength := 0\<rparr>,
                           evs @ [Chunk messageChunk])))
          else
            (let size1 = int (pa_expectedLength s1) - int (pa_currentLength s1);
                 chunk2 = subarray_from data1 size1
             in Option.bind
                  (if size1 > 0 then feed cf s1 (take (nat size1) data1) else Some (Inr (s1, [])))
                  (\<lambda>r. case r of
                         Inl e \<Rightarrow> Some (Inl e)
                       | Inr (s2, evs2) \<Rightarrow>
                           if chunk2 \<noteq> [] then
                             Option.bind (feed cf s2 chunk2)
                               (\<lambda>r'. case r' of
                                       Inl e \<Rightarrow> Some (Inl e)
                                     | Inr (s3, evs3) \<Rightarrow> Some (Inr (s3, evs @ evs2 @ evs3)))
                           else Some (Inr (s2, evs @ evs2)))))"

text \<open>The data events of a socket, in order.\<close>

fun feed_all ::
    "pa_config \<Rightarrow> pa_state \<Rightarrow> buffer list \<Rightarrow> (pa_state \<times> pa_event list) result option" where
  "feed_all cf s [] = Some (Inr (s, []))"
| "feed_all cf s (d # ds) =
     Option.bind (feed cf s d)
       (\<lambda>r. case r of
              Inl e \<Rightarrow> Some (Inl e)
            | Inr (s1, evs1) \<Rightarrow>
                Option.bind (feed_all cf s1 ds)
                  (\<lambda>r'. case r' of
                          Inl e \<Rightarrow> Some (Inl e)
                        | Inr (s2, evs2) \<Rightarrow> Some (Inr (s2, evs1 @ evs2))))"

section \<open>The specification: cutting a whole byte stream\<close>

datatype stream_end = Incomplete buffer | Rejected pa_error_code

function split_stream :: "pa_config \<Rightarrow> buffer \<Rightarrow> buffer list \<times> stream_end" where
  "split_stream cf bs =
     (if length bs < minimumSizeInBytes cf then ([], Incomplete bs)
      else let n = pi_length (readChunkFunc cf bs) in
        if n < minimumSizeInBytes cf then ([], Rejected ChunkTooSmall)
        else if n > maxChunkSize cf then ([], Rejected ChunkSizeExceeded)
        else if n = 0 \<or> length bs < n then ([], Incomplete bs)
        else let (cs, e) = split_stream cf (drop n bs) in (take n bs # cs, e))"
  by pat_completeness auto
termination
  by (relation "measure (\<lambda>(cf, bs). length bs)") auto

declare split_stream.simps [simp del]

fun chunks_of :: "pa_event list \<Rightarrow> buffer list" where
  "chunks_of [] = []"
| "chunks_of (Chunk b # es) = b # chunks_of es"
| "chunks_of (StartChunk i b # es) = chunks_of es"
| "chunks_of (PAError c # es) = chunks_of es"

fun errors_of :: "pa_event list \<Rightarrow> pa_error_code list" where
  "errors_of [] = []"
| "errors_of (Chunk b # es) = errors_of es"
| "errors_of (StartChunk i b # es) = errors_of es"
| "errors_of (PAError c # es) = c # errors_of es"

lemma chunks_of_append [simp]: "chunks_of (xs @ ys) = chunks_of xs @ chunks_of ys"
  by (induction xs rule: chunks_of.induct) simp_all

lemma errors_of_append [simp]: "errors_of (xs @ ys) = errors_of xs @ errors_of ys"
  by (induction xs rule: errors_of.induct) simp_all

definition pending :: "pa_state \<Rightarrow> buffer" where
  "pending s = concat (pa_stack s)"

text \<open>The well-formedness invariant: \<^verbatim>\<open>currentLength\<close> counts the stacked bytes; between
  blocks there is no header yet; inside a block its header has been read and accepted.\<close>

definition pa_inv :: "pa_config \<Rightarrow> pa_state \<Rightarrow> bool" where
  "pa_inv cf s \<longleftrightarrow>
     pa_currentLength s = length (pending s) \<and>
     (pa_expectedLength s = 0 \<longrightarrow> length (pending s) < minimumSizeInBytes cf) \<and>
     (pa_expectedLength s \<noteq> 0 \<longrightarrow>
        minimumSizeInBytes cf \<le> length (pending s) \<and>
        length (pending s) < pa_expectedLength s \<and>
        pa_expectedLength s = pi_length (readChunkFunc cf (pending s)) \<and>
        minimumSizeInBytes cf \<le> pa_expectedLength s \<and> pa_expectedLength s \<le> maxChunkSize cf)"

text \<open>One call of \<^verbatim>\<open>feed\<close> agrees with the specification on the pending bytes followed by
  the new ones.\<close>

definition agrees :: "pa_config \<Rightarrow> pa_state \<Rightarrow> buffer \<Rightarrow> bool" where
  "agrees cf s data \<longleftrightarrow>
     (\<exists>s' evs. feed cf s data = Some (Inr (s', evs)) \<and>
        chunks_of evs = fst (split_stream cf (pending s @ data)) \<and>
        (case snd (split_stream cf (pending s @ data)) of
           Incomplete r \<Rightarrow> pending s' = r \<and> errors_of evs = [] \<and> pa_inv cf s'
         | Rejected c \<Rightarrow> errors_of evs = [c]))"

lemma buildData_pending:
  "snd (buildData s data) = pending s @ data"
  "fst (buildData s data) = s\<lparr>pa_stack := []\<rparr>"
  by (cases "pa_stack s"; simp add: buildData_def pending_def)+

lemma feed_start_inside [simp]:
  "pa_expectedLength s \<noteq> 0 \<Longrightarrow> feed_start cf s data = Inr (s, data, [], False)"
  by (simp add: feed_start_def)

lemma feed_inside_short:
  assumes "pa_expectedLength s \<noteq> 0" "pa_currentLength s + length data < pa_expectedLength s"
  shows "feed cf s data = Some (Inr (s\<lparr>pa_stack := pa_stack s @ [data],
    pa_currentLength := pa_currentLength s + length data\<rparr>, []))"
  using assms by (subst feed.simps) simp

lemma feed_inside_exact:
  assumes "pa_expectedLength s \<noteq> 0" "pa_currentLength s + length data = pa_expectedLength s"
  shows "feed cf s data = Some (Inr (s\<lparr>pa_stack := [], pa_currentLength := 0,
    pa_expectedLength := 0\<rparr>, [Chunk (pending s @ data)]))"
  using assms
  by (subst feed.simps)
    (simp add: buildData_pending case_prod_beta Let_def)

text \<open>A call that completes the current block and goes on with the rest.\<close>

lemma feed_inside_long:
  assumes "pa_expectedLength s = n" "n \<noteq> 0" "pa_currentLength s < n"
    "n < pa_currentLength s + length data"
    "feed cf (s\<lparr>pa_stack := [], pa_currentLength := 0, pa_expectedLength := 0\<rparr>)
       (drop (n - pa_currentLength s) data) = Some (Inr (s', evs))"
  shows "feed cf s data
    = Some (Inr (s', Chunk (pending s @ take (n - pa_currentLength s) data) # evs))"
proof -
  let ?k = "n - pa_currentLength s"
  have z: "nat (int n - int (pa_currentLength s)) = ?k" by simp
  have one: "feed cf s (take ?k data) = Some (Inr (s\<lparr>pa_stack := [], pa_currentLength := 0,
      pa_expectedLength := 0\<rparr>, [Chunk (pending s @ take ?k data)]))"
    using assms(1-4) by (intro feed_inside_exact) simp_all
  have "?k < length data" using assms(3,4) by linarith
  with assms one z show ?thesis
    by (subst feed.simps) (simp add: Let_def subarray_from_def)
qed

text \<open>After the header of a block has been accepted, \<^verbatim>\<open>feed\<close> goes on as a call inside the
  block.\<close>

lemma feed_after_start:
  assumes "feed_start cf s data = Inr (s1, d1, evs, False)" "pa_expectedLength s1 \<noteq> 0"
    "feed cf s1 d1 = Some (Inr (s', evs'))"
  shows "feed cf s data = Some (Inr (s', evs @ evs'))"
  using assms
  by (simp add: feed.simps [of cf s data] feed.simps [of cf s1 d1] Let_def case_prod_beta
      split: if_splits option.splits sum.splits bind_splits)
    (auto simp: Option.bind_eq_Some_conv split: if_splits option.splits sum.splits)

lemma pending_empty_stack [simp]:
  "pending (s\<lparr>pa_stack := []\<rparr>) = []"
  "pending (s\<lparr>pa_currentLength := a\<rparr>) = pending s"
  "pending (s\<lparr>pa_expectedLength := b\<rparr>) = pending s"
  "pending (s\<lparr>pa_packetInfo := c\<rparr>) = pending s"
  "pending (s\<lparr>pa_stack := pa_stack s @ [d]\<rparr>) = pending s @ d"
  by (simp_all add: pending_def)

lemma pa_inv_idle:
  "pa_expectedLength s = 0 \<Longrightarrow>
     pa_inv cf s \<longleftrightarrow> pa_currentLength s = length (pending s) \<and> length (pending s) < minimumSizeInBytes cf"
  by (auto simp: pa_inv_def)

section \<open>The contract of the header reader, and the assembler on top of it\<close>

locale packet_reader =
  fixes cf :: pa_config
  assumes min_pos: "0 < minimumSizeInBytes cf"
    and reads_header_only:
      "minimumSizeInBytes cf \<le> length d \<Longrightarrow>
         pi_length (readChunkFunc cf (d @ e)) = pi_length (readChunkFunc cf d)"
begin

lemma split_short: "length bs < minimumSizeInBytes cf \<Longrightarrow> split_stream cf bs = ([], Incomplete bs)"
  by (subst split_stream.simps) simp

text \<open>A block that is complete in \<open>bs\<close>.\<close>

lemma split_complete:
  assumes "minimumSizeInBytes cf \<le> length bs" "n = pi_length (readChunkFunc cf bs)"
    "minimumSizeInBytes cf \<le> n" "n \<le> maxChunkSize cf" "n \<le> length bs"
  shows "split_stream cf bs
    = (take n bs # fst (split_stream cf (drop n bs)), snd (split_stream cf (drop n bs)))"
  using assms min_pos
  by (subst split_stream.simps) (simp add: Let_def case_prod_beta)

lemma split_incomplete:
  assumes "minimumSizeInBytes cf \<le> length bs" "n = pi_length (readChunkFunc cf bs)"
    "minimumSizeInBytes cf \<le> n" "n \<le> maxChunkSize cf" "length bs < n"
  shows "split_stream cf bs = ([], Incomplete bs)"
  using assms by (subst split_stream.simps) (simp add: Let_def)

lemma feed_start_idle:
  assumes "pa_inv cf s" "pa_expectedLength s = 0"
    "minimumSizeInBytes cf \<le> length (pending s) + length data"
  defines "t \<equiv> pending s @ data"
  defines "info \<equiv> readChunkFunc cf t"
  shows "feed_start cf s data =
    (let s2 = s\<lparr>pa_stack := [], pa_currentLength := 0, pa_packetInfo := Some info\<rparr> in
     if pi_length info < minimumSizeInBytes cf then Inr (s2, t, [PAError ChunkTooSmall], True)
     else if pi_length info > maxChunkSize cf then Inr (s2, t, [PAError ChunkSizeExceeded], True)
     else Inr (s2\<lparr>pa_expectedLength := pi_length info\<rparr>, t, [StartChunk info t], False))"
proof (cases "pa_stack s = []")
  case True
  then have "s\<lparr>pa_stack := [], pa_currentLength := 0, pa_packetInfo := Some info\<rparr>
      = s\<lparr>pa_packetInfo := Some info\<rparr>"
    using assms(1,2) by (simp add: pa_inv_idle pending_def)
  with True assms show ?thesis
    by (simp add: feed_start_def pa_inv_idle pending_def Let_def)
next
  case False
  with assms show ?thesis
    by (simp add: feed_start_def pa_inv_idle buildData_pending case_prod_beta Let_def)
qed

lemma agrees_idle: "pa_inv cf s \<Longrightarrow> pa_expectedLength s = 0 \<Longrightarrow> agrees cf s data"
proof (induction "length (pending s) + length data" arbitrary: s data rule: less_induct)
  case less
  let ?t = "pending s @ data" and ?min = "minimumSizeInBytes cf"
  let ?info = "readChunkFunc cf ?t"
  let ?n = "pi_length ?info"
  let ?s2 = "s\<lparr>pa_stack := [], pa_currentLength := 0, pa_packetInfo := Some ?info,
               pa_expectedLength := ?n\<rparr>"
  have cur: "pa_currentLength s = length (pending s)"
    using less.prems by (simp add: pa_inv_idle)
  consider (short) "length ?t < ?min" | (bad) "?min \<le> length ?t" "?n < ?min \<or> ?n > maxChunkSize cf"
    | (good) "?min \<le> length ?t" "?min \<le> ?n" "?n \<le> maxChunkSize cf"
    by linarith
  then show ?case
  proof cases
    case short
    then have "feed cf s data = Some (Inr (s\<lparr>pa_stack := pa_stack s @ [data],
        pa_currentLength := pa_currentLength s + length data\<rparr>, []))"
      using less.prems cur by (subst feed.simps) (simp add: feed_start_def)
    with short show ?thesis using less.prems
      by (simp add: agrees_def split_short cur pa_inv_idle)
  next
    case bad
    then have "feed_start cf s data = Inr (s\<lparr>pa_stack := [], pa_currentLength := 0,
        pa_packetInfo := Some ?info\<rparr>, ?t,
        [PAError (if ?n < ?min then ChunkTooSmall else ChunkSizeExceeded)], True)"
      using less.prems by (subst feed_start_idle) (auto simp: Let_def)
    then have "feed cf s data = Some (Inr (s\<lparr>pa_stack := [], pa_currentLength := 0,
        pa_packetInfo := Some ?info\<rparr>,
        [PAError (if ?n < ?min then ChunkTooSmall else ChunkSizeExceeded)]))"
      by (subst feed.simps) simp
    moreover have "split_stream cf ?t
        = ([], Rejected (if ?n < ?min then ChunkTooSmall else ChunkSizeExceeded))"
      using bad by (subst split_stream.simps) (auto simp: Let_def)
    ultimately show ?thesis by (simp add: agrees_def)
  next
    case good
    have start: "feed_start cf s data = Inr (?s2, ?t, [StartChunk ?info ?t], False)"
      using good less.prems by (subst feed_start_idle) (auto simp: Let_def)
    have n0: "?n \<noteq> 0" using good(2) min_pos by simp
    have step: "feed cf ?s2 ?t = Some (Inr (s', evs)) \<Longrightarrow>
        feed cf s data = Some (Inr (s', StartChunk ?info ?t # evs))" for s' evs
      using feed_after_start [OF start] n0 by simp
    note complete = split_complete [OF good(1) refl good(2,3)]
    consider (less) "length ?t < ?n" | (eq) "length ?t = ?n" | (more) "?n < length ?t" by linarith
    then show ?thesis
    proof cases
      case less
      have "feed cf ?s2 ?t = Some (Inr (?s2\<lparr>pa_stack := pa_stack ?s2 @ [?t],
          pa_currentLength := pa_currentLength ?s2 + length ?t\<rparr>, []))"
        by (rule feed_inside_short) (use less n0 in simp_all)
      note step [OF this]
      moreover have "split_stream cf ?t = ([], Incomplete ?t)"
        by (rule split_incomplete [OF good(1) refl good(2,3) less])
      ultimately show ?thesis using less good n0
        by (simp add: agrees_def pa_inv_def pending_def)
    next
      case eq
      have "feed cf ?s2 ?t = Some (Inr (?s2\<lparr>pa_stack := [], pa_currentLength := 0,
          pa_expectedLength := 0\<rparr>, [Chunk (pending ?s2 @ ?t)]))"
        by (rule feed_inside_exact) (use eq n0 in simp_all)
      note step [OF this]
      moreover have "split_stream cf ?t = ([?t], Incomplete [])"
        using complete eq min_pos by (simp add: split_short)
      ultimately show ?thesis using min_pos
        by (simp add: agrees_def pa_inv_idle pending_def)
    next
      case more
      let ?s0 = "?s2\<lparr>pa_stack := [], pa_currentLength := 0, pa_expectedLength := 0\<rparr>"
      have "agrees cf ?s0 (drop ?n ?t)"
        by (rule less.hyps) (use more n0 min_pos in \<open>simp_all add: pa_inv_idle pending_def\<close>)
      then obtain s' evs where
        fd: "feed cf ?s0 (drop ?n ?t) = Some (Inr (s', evs))" and
        ch: "chunks_of evs = fst (split_stream cf (drop ?n ?t))" and
        en: "case snd (split_stream cf (drop ?n ?t)) of
               Incomplete r \<Rightarrow> pending s' = r \<and> errors_of evs = [] \<and> pa_inv cf s'
             | Rejected c \<Rightarrow> errors_of evs = [c]"
        by (auto simp: agrees_def pending_def)
      have "feed cf ?s2 ?t
          = Some (Inr (s', Chunk (pending ?s2 @ take (?n - pa_currentLength ?s2) ?t) # evs))"
        by (rule feed_inside_long [where n = ?n]) (use more n0 fd in simp_all)
      then have "feed cf ?s2 ?t = Some (Inr (s', Chunk (take ?n ?t) # evs))"
        by (simp add: pending_def)
      note step [OF this]
      with ch en more complete show ?thesis
        by (auto simp: agrees_def split: stream_end.splits)
    qed
  qed
qed

lemma agrees_feed:
  assumes "pa_inv cf s"
  shows "agrees cf s data"
proof (cases "pa_expectedLength s = 0")
  case True
  with assms show ?thesis by (rule agrees_idle)
next
  case False
  let ?n = "pa_expectedLength s" and ?t = "pending s @ data"
  let ?s0 = "s\<lparr>pa_stack := [], pa_currentLength := 0, pa_expectedLength := 0\<rparr>"
  have inv: "pa_currentLength s = length (pending s)" "minimumSizeInBytes cf \<le> length (pending s)"
    "length (pending s) < ?n" "?n = pi_length (readChunkFunc cf (pending s))"
    "minimumSizeInBytes cf \<le> ?n" "?n \<le> maxChunkSize cf"
    using assms False by (auto simp: pa_inv_def)
  have n: "?n = pi_length (readChunkFunc cf ?t)"
    using reads_header_only [OF inv(2)] inv(4) by simp
  have min: "minimumSizeInBytes cf \<le> length ?t" using inv(2) by simp
  note complete = split_complete [OF min n inv(5,6)]
  consider (less) "length ?t < ?n" | (eq) "length ?t = ?n" | (more) "?n < length ?t" by linarith
  then show ?thesis
  proof cases
    case less
    then have "feed cf s data = Some (Inr (s\<lparr>pa_stack := pa_stack s @ [data],
        pa_currentLength := pa_currentLength s + length data\<rparr>, []))"
      using False inv(1) by (intro feed_inside_short) simp_all
    moreover have "split_stream cf ?t = ([], Incomplete ?t)"
      by (rule split_incomplete [OF min n inv(5,6) less])
    ultimately show ?thesis using less inv n min False
      by (simp add: agrees_def pa_inv_def)
  next
    case eq
    then have "feed cf s data = Some (Inr (?s0, [Chunk ?t]))"
      using False inv(1) by (intro feed_inside_exact) simp_all
    moreover have "split_stream cf ?t = ([?t], Incomplete [])"
      using complete eq min_pos by (simp add: split_short)
    ultimately show ?thesis using min_pos by (simp add: agrees_def pa_inv_idle)
  next
    case more
    have "agrees cf ?s0 (drop (?n - length (pending s)) data)"
      by (rule agrees_idle) (use min_pos in \<open>simp_all add: pa_inv_idle\<close>)
    moreover have "drop ?n ?t = drop (?n - length (pending s)) data"
      and tk: "take ?n ?t = pending s @ take (?n - length (pending s)) data"
      using inv(3) by simp_all
    ultimately obtain s' evs where
      fd: "feed cf ?s0 (drop (?n - length (pending s)) data) = Some (Inr (s', evs))" and
      ch: "chunks_of evs = fst (split_stream cf (drop ?n ?t))" and
      en: "case snd (split_stream cf (drop ?n ?t)) of
             Incomplete r \<Rightarrow> pending s' = r \<and> errors_of evs = [] \<and> pa_inv cf s'
           | Rejected c \<Rightarrow> errors_of evs = [c]"
      by (auto simp: agrees_def)
    have "feed cf s data
        = Some (Inr (s', Chunk (pending s @ take (?n - pa_currentLength s) data) # evs))"
      by (rule feed_inside_long [where n = ?n]) (use more False inv fd in simp_all)
    with ch en more complete tk inv(1) show ?thesis
      by (auto simp: agrees_def split: stream_end.splits)
  qed
qed

text \<open>Appending data to a stream that ends inside a block only continues it.\<close>

lemma split_append:
  "snd (split_stream cf a) = Incomplete r \<Longrightarrow>
     split_stream cf (a @ b)
       = (fst (split_stream cf a) @ fst (split_stream cf (r @ b)), snd (split_stream cf (r @ b)))"
proof (induction "length a" arbitrary: a rule: less_induct)
  case less
  let ?n = "pi_length (readChunkFunc cf a)"
  show ?case
  proof (cases "length a < minimumSizeInBytes cf")
    case True
    with less.prems show ?thesis by (simp add: split_short)
  next
    case False
    then have min: "minimumSizeInBytes cf \<le> length a" by simp
    have n: "?n = pi_length (readChunkFunc cf (a @ b))" using reads_header_only [OF min] by simp
    have ok: "minimumSizeInBytes cf \<le> ?n" "?n \<le> maxChunkSize cf"
      using less.prems min by (subst (asm) split_stream.simps; auto simp: Let_def split: if_splits)+
    show ?thesis
    proof (cases "length a < ?n")
      case True
      note inc = split_incomplete [OF min refl ok True]
      with less.prems have "r = a" by simp
      with inc show ?thesis by simp
    next
      case False
      then have full: "?n \<le> length a" by simp
      note ca = split_complete [OF min refl ok full]
      have cb: "split_stream cf (a @ b)
          = (take ?n a # fst (split_stream cf (drop ?n a @ b)), snd (split_stream cf (drop ?n a @ b)))"
        using split_complete [of "a @ b" ?n] min n ok full by simp
      have "length (drop ?n a) < length a" using ok(1) min_pos full by simp
      then have "split_stream cf (drop ?n a @ b)
          = (fst (split_stream cf (drop ?n a)) @ fst (split_stream cf (r @ b)),
             snd (split_stream cf (r @ b)))"
        using less.prems ca by (intro less.hyps) simp_all
      with ca cb show ?thesis by simp
    qed
  qed
qed

lemma split_rejected_append:
  "snd (split_stream cf a) = Rejected c \<Longrightarrow> split_stream cf (a @ b) = split_stream cf a"
proof (induction "length a" arbitrary: a rule: less_induct)
  case less
  let ?n = "pi_length (readChunkFunc cf a)"
  have min: "minimumSizeInBytes cf \<le> length a"
    using less.prems split_short [of a] by (cases "length a < minimumSizeInBytes cf") simp_all
  have n: "?n = pi_length (readChunkFunc cf (a @ b))" using reads_header_only [OF min] by simp
  show ?case
  proof (cases "minimumSizeInBytes cf \<le> ?n \<and> ?n \<le> maxChunkSize cf")
    case False
    with min n show ?thesis
      by (subst split_stream.simps, subst (2) split_stream.simps) (auto simp: Let_def)
  next
    case True
    then have ok: "minimumSizeInBytes cf \<le> ?n" "?n \<le> maxChunkSize cf" by simp_all
    have full: "?n \<le> length a"
      using less.prems split_incomplete [OF min refl ok] by (cases "length a < ?n") simp_all
    note ca = split_complete [OF min refl ok full]
    have cb: "split_stream cf (a @ b)
        = (take ?n a # fst (split_stream cf (drop ?n a @ b)), snd (split_stream cf (drop ?n a @ b)))"
      using split_complete [of "a @ b" ?n] min n ok full by simp
    have "length (drop ?n a) < length a" using ok(1) min_pos full by simp
    then have "split_stream cf (drop ?n a @ b) = split_stream cf (drop ?n a)"
      using less.prems ca by (intro less.hyps) simp_all
    with ca cb show ?thesis by simp
  qed
qed

lemma feed_all_agrees:
  assumes "pa_inv cf s" "snd (split_stream cf (pending s @ concat ds)) = Incomplete r"
  shows "\<exists>s' evs. feed_all cf s ds = Some (Inr (s', evs)) \<and> pending s' = r \<and> pa_inv cf s' \<and>
           errors_of evs = [] \<and> chunks_of evs = fst (split_stream cf (pending s @ concat ds))"
  using assms
proof (induction ds arbitrary: s)
  case Nil
  have "split_stream cf (pending s) = ([], Incomplete (pending s))"
  proof (cases "pa_expectedLength s = 0")
    case True
    with Nil.prems(1) show ?thesis by (simp add: pa_inv_idle split_short)
  next
    case False
    with Nil.prems(1) show ?thesis
      by (intro split_incomplete [where n = "pa_expectedLength s"]) (simp_all add: pa_inv_def)
  qed
  with Nil show ?case by simp
next
  case (Cons d ds)
  let ?a = "pending s @ d"
  have whole: "snd (split_stream cf (?a @ concat ds)) = Incomplete r" using Cons.prems(2) by simp
  obtain r1 where r1: "snd (split_stream cf ?a) = Incomplete r1"
    using whole split_rejected_append [of ?a _ "concat ds"]
    by (cases "snd (split_stream cf ?a)") auto
  obtain s1 evs1 where fd: "feed cf s d = Some (Inr (s1, evs1))"
    and ch1: "chunks_of evs1 = fst (split_stream cf ?a)"
    and p1: "pending s1 = r1" "errors_of evs1 = []" "pa_inv cf s1"
    using agrees_feed [OF Cons.prems(1), of d] r1 by (auto simp: agrees_def)
  note app = split_append [OF r1, of "concat ds"]
  obtain s2 evs2 where "feed_all cf s1 ds = Some (Inr (s2, evs2))" "pending s2 = r" "pa_inv cf s2"
    "errors_of evs2 = []" "chunks_of evs2 = fst (split_stream cf (pending s1 @ concat ds))"
    using Cons.IH [OF p1(3)] whole app p1(1) by auto
  with fd ch1 p1 app show ?case by simp
qed

lemma split_chunk_sizes:
  "c \<in> set (fst (split_stream cf bs)) \<Longrightarrow>
     minimumSizeInBytes cf \<le> length c \<and> length c \<le> maxChunkSize cf \<and>
     length c = pi_length (readChunkFunc cf c)"
proof (induction "length bs" arbitrary: bs rule: less_induct)
  case less
  let ?n = "pi_length (readChunkFunc cf bs)"
  from less.prems have h: "minimumSizeInBytes cf \<le> length bs" "minimumSizeInBytes cf \<le> ?n"
    "?n \<le> maxChunkSize cf" "?n \<le> length bs"
    by (subst (asm) split_stream.simps; auto simp: Let_def split: if_splits)+
  note ca = split_complete [OF h(1) refl h(2,3,4)]
  from less.prems ca consider "c = take ?n bs" | "c \<in> set (fst (split_stream cf (drop ?n bs)))"
    by auto
  then show ?case
  proof cases
    case 1
    have "pi_length (readChunkFunc cf (take ?n bs)) = ?n"
      using reads_header_only [of "take ?n bs" "drop ?n bs"] h by simp
    with 1 h show ?thesis by simp
  next
    case 2
    then show ?thesis using h(2,4) min_pos by (intro less.hyps) simp_all
  qed
qed

lemma feed_chunk_sizes:
  assumes "pa_inv cf s" "feed cf s data = Some (Inr (s', evs))" "c \<in> set (chunks_of evs)"
  shows "minimumSizeInBytes cf \<le> length c \<and> length c \<le> maxChunkSize cf \<and>
         length c = pi_length (readChunkFunc cf c)"
proof -
  have "c \<in> set (fst (split_stream cf (pending s @ data)))"
    using agrees_feed [OF assms(1), of data] assms(2,3) by (auto simp: agrees_def)
  then show ?thesis by (rule split_chunk_sizes)
qed

lemma feed_total:
  assumes "pa_inv cf s"
  shows "\<exists>s' evs. feed cf s data = Some (Inr (s', evs))"
  using agrees_feed [OF assms, of data] by (auto simp: agrees_def)

end

end
