(* ===== verification/Message_Header.thy ===== *)
theory Message_Header
  imports Binary_Stream Packet_Assembler
begin

text \<open>
  The two fixed headers of a message chunk: \<^verbatim>\<open>readMessageHeader\<close> and
  \<^verbatim>\<open>SequenceHeader\<close> of \<^verbatim>\<open>node-opcua-chunkmanager\<close>, and
  \<^verbatim>\<open>readRawMessageHeader\<close> of \<^verbatim>\<open>node-opcua-transport\<close>, which is the header
  reader the message builder gives to its packet assembler. The assembler's contract is
  interpreted on it here, and its properties are stated for that configuration.
\<close>

definition fromCharCode :: "nat \<Rightarrow> char" where
  "fromCharCode n = char_of n"

definition charCodeAt :: "string \<Rightarrow> nat \<Rightarrow> int" where
  "charCodeAt s i = (if i < length s then of_char (s ! i) else 0)"

definition readMessageHeader :: "bstream \<Rightarrow> (message_header \<times> bstream) result" where
  "readMessageHeader st0 =
     rbind (readUInt8 st0) (\<lambda>(a, st1). rbind (readUInt8 st1) (\<lambda>(b, st2). rbind (readUInt8 st2)
       (\<lambda>(c, st3). rbind (readUInt8 st3) (\<lambda>(f, st4). rbind (readUInt32 st4) (\<lambda>(len, st5).
          Inr (\<lparr>mh_msgType = [fromCharCode a, fromCharCode b, fromCharCode c],
                mh_isFinal = fromCharCode f, mh_length = len\<rparr>, st5))))))"

text \<open>\<^verbatim>\<open>readRawMessageHeader\<close> is only called on at least 8 bytes (the minimum size the
  builder gives to its assembler), where no read can fail; see \<open>readMessageHeader_ok\<close>.\<close>

definition readRawMessageHeader :: "buffer \<Rightarrow> packet_info" where
  "readRawMessageHeader data =
     (case readMessageHeader (open_stream data) of
        Inr (messageHeader, _) \<Rightarrow>
          \<lparr>pi_length = mh_length messageHeader, pi_messageHeader = messageHeader, pi_extra = []\<rparr>
      | Inl _ \<Rightarrow> \<lparr>pi_length = 0,
          pi_messageHeader = \<lparr>mh_msgType = [], mh_isFinal = fromCharCode 0, mh_length = 0\<rparr>,
          pi_extra = []\<rparr>)"

record sequence_header =
  sh_sequenceNumber :: nat
  sh_requestId :: nat

definition encode_sequence_header :: "sequence_header \<Rightarrow> bstream \<Rightarrow> bstream result" where
  "encode_sequence_header h st =
     rbind (writeUInt32 (int (sh_sequenceNumber h)) st) (writeUInt32 (int (sh_requestId h)))"

definition decode_sequence_header :: "bstream \<Rightarrow> (sequence_header \<times> bstream) result" where
  "decode_sequence_header st =
     rbind (readUInt32 st) (\<lambda>(n, st1). rbind (readUInt32 st1)
       (\<lambda>(r, st2). Inr (\<lparr>sh_sequenceNumber = n, sh_requestId = r\<rparr>, st2)))"

text \<open>The bytes the sequence header takes.\<close>

definition sequence_header_bytes :: "nat \<Rightarrow> nat \<Rightarrow> buffer" where
  "sequence_header_bytes n r = le_bytes 4 n @ le_bytes 4 r"

section \<open>Reading at a known position\<close>

lemma read_le_at:
  "read_le n \<lparr>bs_buffer = b, bs_length = k\<rparr>
     = (if k + n \<le> length b
        then Inr (le_value (subarray b k (k + n)), \<lparr>bs_buffer = b, bs_length = k + n\<rparr>)
        else Inl RangeError)"
  by (simp add: read_le_def buf_read_le_def)

lemmas header_read_defs = open_stream_def readUInt8_def readUInt32_def read_le_at

lemma readMessageHeader_ok:
  "8 \<le> length b \<Longrightarrow> readMessageHeader (open_stream b) = Inr
     (\<lparr>mh_msgType = [fromCharCode (unat (b ! 0)), fromCharCode (unat (b ! 1)), fromCharCode (unat (b ! 2))],
       mh_isFinal = fromCharCode (unat (b ! 3)), mh_length = le_value (subarray b 4 8)\<rparr>,
      \<lparr>bs_buffer = b, bs_length = 8\<rparr>)"
proof -
  assume b: "8 \<le> length b"
  have one: "subarray b k (Suc k) = [b ! k]" if "k < length b" for k
    using that by (simp add: subarray_def take_Suc_conv_app_nth Cons_nth_drop_Suc [symmetric])
  have ne: "b \<noteq> []" using b by auto
  have at: "subarray b 1 2 = [b ! 1]" "subarray b 2 3 = [b ! 2]" "subarray b 3 4 = [b ! 3]"
    "take 1 b = [b ! 0]"
    using b one [of 0] one [of 1] one [of 2] one [of 3] ne
    by (simp_all add: numeral_2_eq_2 numeral_3_eq_3) (simp add: eval_nat_numeral)
  show ?thesis using b at by (simp add: readMessageHeader_def header_read_defs)
    (simp add: eval_nat_numeral)
qed

lemma subarray_append_left [simp]: "stop \<le> length a \<Longrightarrow> subarray (a @ c) start stop = subarray a start stop"
  by (cases "start \<le> length a") (simp_all add: subarray_def)

lemma readRaw_prefix:
  "8 \<le> length d \<Longrightarrow> readRawMessageHeader (d @ e) = readRawMessageHeader d"
  by (cases "d = []") (simp_all add: readRawMessageHeader_def readMessageHeader_ok nth_append)

lemma readRaw_length:
  "8 \<le> length d \<Longrightarrow> pi_length (readRawMessageHeader d) = le_value (subarray d 4 8)"
  by (simp add: readRawMessageHeader_def readMessageHeader_ok)

section \<open>The assembler of the message builder\<close>

definition builder_assembler :: "nat \<Rightarrow> pa_config" where
  "builder_assembler maxChunk =
     \<lparr>readChunkFunc = readRawMessageHeader, minimumSizeInBytes = 8, maxChunkSize = maxChunk\<rparr>"

definition empty_assembler :: pa_state where
  "empty_assembler = \<lparr>pa_stack = [], pa_expectedLength = 0, pa_currentLength = 0, pa_packetInfo = None\<rparr>"

lemma new_builder_assembler:
  "8 \<le> n \<Longrightarrow> new_packet_assembler readRawMessageHeader (Some 8) (Some n)
     = Inr (builder_assembler n, empty_assembler)"
  by (simp add: new_packet_assembler_def builder_assembler_def empty_assembler_def Let_def)

interpretation asm: packet_reader "builder_assembler n" for n
  by unfold_locales (simp_all add: builder_assembler_def readRaw_prefix)

lemma pa_inv_empty: "pa_inv (builder_assembler n) empty_assembler"
  by (simp add: pa_inv_def builder_assembler_def empty_assembler_def pending_def)

text \<open>C4: Reassembly does not depend on how the socket fragments the data: whenever the bytes
  received so far are made of acceptable chunks and a possibly incomplete last one, feeding them
  in any fragments emits exactly the chunks of the whole stream, emits no error, and keeps the
  incomplete rest.\<close>

theorem feed_fragmentation_independent:
  assumes "snd (split_stream (builder_assembler n) (concat fragments)) = Incomplete rest"
  shows "\<exists>s evs. feed_all (builder_assembler n) empty_assembler fragments = Some (Inr (s, evs))
     \<and> chunks_of evs = fst (split_stream (builder_assembler n) (concat fragments))
     \<and> errors_of evs = [] \<and> pending s = rest \<and> pa_inv (builder_assembler n) s"
proof -
  have "pending empty_assembler = []" by (simp add: pending_def empty_assembler_def)
  with assms show ?thesis
    using asm.feed_all_agrees [OF pa_inv_empty, of n fragments rest] by auto
qed

lemma split_two_chunks:
  "split_stream (builder_assembler 20) ([77,83,71,67,9,0,0,0,1] @ [77,83,71,70,8,0,0,0] @ [77,83])
     = ([[77,83,71,67,9,0,0,0,1], [77,83,71,70,8,0,0,0]], Incomplete [77,83])"
proof -
  let ?c1 = "[77,83,71,67,9,0,0,0,1] :: buffer" and ?c2 = "[77,83,71,70,8,0,0,0] :: buffer"
  let ?cf = "builder_assembler 20"
  have l: "pi_length (readChunkFunc ?cf (?c1 @ x)) = 9" "pi_length (readChunkFunc ?cf (?c2 @ x)) = 8"
    for x
    by (simp_all add: builder_assembler_def readRaw_prefix readRaw_length subarray_def)
  have cf: "minimumSizeInBytes ?cf = 8" "maxChunkSize ?cf = 20" by (simp_all add: builder_assembler_def)
  have "split_stream ?cf (?c1 @ ?c2 @ [77,83])
      = (take 9 (?c1 @ ?c2 @ [77,83]) # fst (split_stream ?cf (drop 9 (?c1 @ ?c2 @ [77,83]))),
         snd (split_stream ?cf (drop 9 (?c1 @ ?c2 @ [77,83]))))"
    by (rule asm.split_complete) (simp_all only: l cf, simp_all)
  moreover have "split_stream ?cf (?c2 @ [77,83])
      = (take 8 (?c2 @ [77,83]) # fst (split_stream ?cf (drop 8 (?c2 @ [77,83]))),
         snd (split_stream ?cf (drop 8 (?c2 @ [77,83]))))"
    by (rule asm.split_complete) (simp_all only: l cf, simp_all)
  moreover have "split_stream ?cf [77,83] = ([], Incomplete [77,83])"
    by (rule asm.split_short) (simp add: cf)
  ultimately show ?thesis by simp
qed

theorem feed_fragmentation_independent_witness:
  "\<exists>s evs. feed_all (builder_assembler 20) empty_assembler
      [[77], [83,71,67,9,0,0,0], [1,77,83,71,70,8,0,0,0,77,83]] = Some (Inr (s, evs))
     \<and> chunks_of evs = [[77,83,71,67,9,0,0,0,1], [77,83,71,70,8,0,0,0]]
     \<and> errors_of evs = [] \<and> pending s = [77,83] \<and> pa_inv (builder_assembler 20) s"
  using feed_fragmentation_independent
      [of 20 "[[77], [83,71,67,9,0,0,0], [1,77,83,71,70,8,0,0,0,77,83]]" "[77,83]"]
    split_two_chunks by simp

text \<open>Every call of \<^verbatim>\<open>feed\<close> on a well-formed assembler returns without an exception,
  whatever the data, and every chunk it emits is at least a header long, no longer than
  \<^verbatim>\<open>maxChunkSize\<close>, and as long as its own header says.\<close>

theorem feed_chunks_bounded:
  assumes "pa_inv (builder_assembler n) s"
  shows "\<exists>s' evs. feed (builder_assembler n) s data = Some (Inr (s', evs)) \<and>
     (\<forall>c \<in> set (chunks_of evs). 8 \<le> length c \<and> length c \<le> n \<and> length c = le_value (subarray c 4 8))"
proof -
  obtain s' evs where fd: "feed (builder_assembler n) s data = Some (Inr (s', evs))"
    using asm.feed_total [OF assms] by blast
  have "8 \<le> length c \<and> length c \<le> n \<and> length c = le_value (subarray c 4 8)"
    if "c \<in> set (chunks_of evs)" for c
  proof -
    have h: "8 \<le> length c" "length c \<le> n" "length c = pi_length (readRawMessageHeader c)"
      using asm.feed_chunk_sizes [OF assms fd that] by (auto simp: builder_assembler_def)
    then show ?thesis using readRaw_length [OF h(1)] by simp
  qed
  with fd show ?thesis by blast
qed

theorem feed_chunks_bounded_witness:
  "\<exists>s' evs. feed (builder_assembler 20) empty_assembler [77,83,71,70,9,0,0,0,5] = Some (Inr (s', evs)) \<and>
     (\<forall>c \<in> set (chunks_of evs). 8 \<le> length c \<and> length c \<le> 20 \<and> length c = le_value (subarray c 4 8))"
  by (rule feed_chunks_bounded [OF pa_inv_empty])

end
