(* ===== verification/Sequence_Numbers.thy ===== *)
theory Sequence_Numbers
  imports Prelude
begin

text \<open>
  \<^verbatim>\<open>SequenceNumberGenerator\<close> of \<^verbatim>\<open>node-opcua-secure-channel\<close>, which numbers the
  chunks of a secure channel and the notification messages of a subscription, and the check the
  receiving message builder makes on the numbers it sees
  (\<^verbatim>\<open>MessageBuilder._validateSequenceNumber\<close>). The generator's state is its counter.
\<close>

definition MAXVALUE :: nat where
  "MAXVALUE = 4294966271"

definition new_generator :: nat where
  "new_generator = 1"

definition seq_next :: "nat \<Rightarrow> nat \<times> nat" where
  "seq_next counter =
     (let current = counter; counter' = counter + 1
      in (current, if counter' > MAXVALUE then 1 else counter'))"

definition seq_future :: "nat \<Rightarrow> nat" where
  "seq_future counter = counter"

fun seq_take :: "nat \<Rightarrow> nat \<Rightarrow> nat list \<times> nat" where
  "seq_take 0 g = ([], g)"
| "seq_take (Suc n) g =
     (let (x, g1) = seq_next g; (xs, g2) = seq_take n g1 in (x # xs, g2))"

definition valid_generator :: "nat \<Rightarrow> bool" where
  "valid_generator g \<longleftrightarrow> 1 \<le> g \<and> g \<le> MAXVALUE"

text \<open>The receiver. \<open>None\<close> is the initial \<^verbatim>\<open>-1\<close>, no number seen yet; a rejected number
  leaves the memory as it was.\<close>

datatype seq_check = SeqAccepted | SeqInvalid nat nat

definition validateSequenceNumber :: "nat option \<Rightarrow> nat \<Rightarrow> seq_check \<times> nat option" where
  "validateSequenceNumber previous sequenceNumber =
     (case previous of
        Some p \<Rightarrow>
          (let expected = p + 1 in
           if expected \<noteq> sequenceNumber then (SeqInvalid expected sequenceNumber, previous)
           else (SeqAccepted, Some sequenceNumber))
      | None \<Rightarrow> (SeqAccepted, Some sequenceNumber))"

fun validate_all :: "nat option \<Rightarrow> nat list \<Rightarrow> bool" where
  "validate_all prev [] = True"
| "validate_all prev (n # ns) =
     (case validateSequenceNumber prev n of
        (SeqAccepted, prev') \<Rightarrow> validate_all prev' ns
      | (SeqInvalid _ _, _) \<Rightarrow> False)"

section \<open>The generator\<close>

lemma seq_next_valid: "valid_generator g \<Longrightarrow> valid_generator (snd (seq_next g))"
  by (auto simp: valid_generator_def seq_next_def Let_def MAXVALUE_def)

lemma seq_next_mod:
  assumes "valid_generator g"
  shows "snd (seq_next g) = g mod MAXVALUE + 1"
proof (cases "g = MAXVALUE")
  case True
  then show ?thesis by (simp add: seq_next_def Let_def)
next
  case False
  with assms have "g < MAXVALUE" by (simp add: valid_generator_def)
  then show ?thesis by (simp add: seq_next_def Let_def)
qed

text \<open>The numbers in closed form: they run through \<open>1 \<dots> MAXVALUE\<close> and start over.\<close>

lemma seq_take_closed:
  "valid_generator g \<Longrightarrow>
     fst (seq_take n g) = map (\<lambda>i. (g - 1 + i) mod MAXVALUE + 1) [0..<n]
     \<and> snd (seq_take n g) = (g - 1 + n) mod MAXVALUE + 1"
proof (induction n arbitrary: g)
  case 0
  then show ?case by (auto simp: valid_generator_def)
next
  case (Suc n)
  let ?g1 = "snd (seq_next g)"
  have g: "g = (g - 1) mod MAXVALUE + 1" using Suc.prems by (auto simp: valid_generator_def)
  have mod: "(?g1 - 1 + i) mod MAXVALUE = (g - 1 + Suc i) mod MAXVALUE" for i
    using Suc.prems by (simp add: seq_next_mod valid_generator_def mod_add_left_eq)
  note IH = Suc.IH [OF seq_next_valid [OF Suc.prems]]
  have "fst (seq_take (Suc n) g) = g # fst (seq_take n ?g1)"
    and "snd (seq_take (Suc n) g) = snd (seq_take n ?g1)"
    by (simp_all add: case_prod_beta Let_def seq_next_def)
  with IH mod g show ?case
    by (simp add: upt_conv_Cons map_Suc_upt [symmetric] del: upt_Suc)
qed

lemma length_seq_take [simp]: "length (fst (seq_take n g)) = n"
  by (induction n arbitrary: g) (simp_all add: case_prod_beta Let_def)

text \<open>A run that does not reach the wrap is consecutive, and the receiver accepts it.\<close>

lemma validate_consecutive: "validate_all (Some p) [p + 1..<p + 1 + n]"
proof (induction n arbitrary: p)
  case (Suc n)
  have "[p + 1..<p + 1 + Suc n] = (p + 1) # [p + 1 + 1..<p + 1 + 1 + n]"
    by (simp add: upt_conv_Cons del: upt_Suc)
  with Suc.IH [of "p + 1"] show ?case by (simp add: validateSequenceNumber_def del: upt_Suc)
qed simp

lemma seq_take_consecutive:
  assumes "1 \<le> g" "g + n \<le> MAXVALUE + 1"
  shows "fst (seq_take n g) = [g..<g + n]"
proof (cases "n = 0")
  case False
  with assms have v: "valid_generator g" by (simp add: valid_generator_def)
  have "map (\<lambda>i. (g - 1 + i) mod MAXVALUE + 1) [0..<n] = map (\<lambda>i. g + i) [0..<n]"
    using assms by (intro map_cong) auto
  then show ?thesis using seq_take_closed [OF v, of n] by (simp add: map_add_upt add.commute)
qed simp

lemma mod_shift_inj:
  assumes "(a + i) mod m = (a + j) mod m" "i < m" "j < (m :: nat)"
  shows "i = j"
proof -
  have le: "i = j" if "(a + i) mod m = (a + j) mod m" "i \<le> j" "j < m" for i j
  proof -
    have "m dvd j - i" using that mod_eq_dvd_iff_nat [of "a + i" "a + j" m] by simp
    moreover have "j - i < m" using that by simp
    ultimately show ?thesis using that(2) by (auto dest: nat_dvd_not_less)
  qed
  show ?thesis using le [of i j] le [of j i] assms by (cases "i \<le> j") simp_all
qed

text \<open>The generator numbers the chunks \<open>1, 2, \<dots>, MAXVALUE\<close> and then starts over at 1: the
  \<open>i\<close>-th number after a valid counter \<open>g\<close> is \<open>(g - 1 + i) mod MAXVALUE + 1\<close>, so every number is in
  range and \<open>MAXVALUE\<close> consecutive numbers are pairwise different.\<close>

theorem generator_numbers:
  assumes "valid_generator g"
  shows "fst (seq_take n g) = map (\<lambda>i. (g - 1 + i) mod MAXVALUE + 1) [0..<n]
    \<and> (\<forall>x \<in> set (fst (seq_take n g)). 1 \<le> x \<and> x \<le> MAXVALUE)
    \<and> (n \<le> MAXVALUE \<longrightarrow> distinct (fst (seq_take n g)))"
proof -
  have closed: "fst (seq_take n g) = map (\<lambda>i. (g - 1 + i) mod MAXVALUE + 1) [0..<n]"
    using seq_take_closed [OF assms] by simp
  have pos: "0 < MAXVALUE" by (simp add: MAXVALUE_def)
  have "inj_on (\<lambda>i. (g - 1 + i) mod MAXVALUE + 1) {0..<n}" if "n \<le> MAXVALUE"
  proof (rule inj_onI)
    fix i j assume ij: "i \<in> {0..<n}" "j \<in> {0..<n}"
      "(g - 1 + i) mod MAXVALUE + 1 = (g - 1 + j) mod MAXVALUE + 1"
    from ij(3) have "(g - 1 + i) mod MAXVALUE = (g - 1 + j) mod MAXVALUE"
      by (rule add_right_imp_eq)
    moreover have "i < MAXVALUE" "j < MAXVALUE" using ij(1,2) that by simp_all
    ultimately show "i = j" by (rule mod_shift_inj)
  qed
  then have dist: "n \<le> MAXVALUE \<longrightarrow> distinct (fst (seq_take n g))"
    unfolding closed distinct_map by simp
  have "1 \<le> k mod MAXVALUE + 1 \<and> k mod MAXVALUE + 1 \<le> MAXVALUE" for k
    using mod_less_divisor [OF pos, of k] by simp
  then have "\<forall>x \<in> set (fst (seq_take n g)). 1 \<le> x \<and> x \<le> MAXVALUE"
    unfolding closed set_map by blast
  with closed dist show ?thesis by blast
qed

theorem generator_numbers_witness:
  "valid_generator MAXVALUE
     \<and> fst (seq_take 2 MAXVALUE) = map (\<lambda>i. (MAXVALUE - 1 + i) mod MAXVALUE + 1) [0..<2]
     \<and> distinct (fst (seq_take 2 MAXVALUE))"
proof -
  have v: "valid_generator MAXVALUE" and two: "2 \<le> MAXVALUE"
    by (simp_all add: valid_generator_def MAXVALUE_def)
  show ?thesis using v two generator_numbers [OF v, of 2] by blast
qed

text \<open>A receiver that has seen no number yet accepts the numbers of any sender as long as the
  sender's counter has not wrapped.\<close>

theorem receiver_accepts_until_wrap:
  assumes "1 \<le> g" "g + n \<le> MAXVALUE + 1"
  shows "validate_all None (fst (seq_take n g))"
proof (cases n)
  case (Suc m)
  have "fst (seq_take n g) = g # [g + 1..<g + 1 + m]"
    unfolding seq_take_consecutive [OF assms] using Suc by (simp add: upt_conv_Cons del: upt_Suc)
  with validate_consecutive [of g m] show ?thesis
    by (simp add: validateSequenceNumber_def del: upt_Suc)
qed simp

theorem receiver_accepts_until_wrap_witness:
  "validate_all None (fst (seq_take 1000 (MAXVALUE - 999)))"
  by (rule receiver_accepts_until_wrap) (simp_all add: MAXVALUE_def)

text \<open>The receiver does not follow the wrap: a sender and a receiver that share a channel agree
  on every number up to \<open>MAXVALUE\<close>, and the very next chunk, which the sender numbers 1 as the
  protocol wants, is rejected with the expectation \<open>MAXVALUE + 1\<close>.\<close>

theorem receiver_rejects_wrap:
  "fst (seq_take 2 MAXVALUE) = [MAXVALUE, 1]
   \<and> validateSequenceNumber (Some MAXVALUE) 1 = (SeqInvalid (MAXVALUE + 1) 1, Some MAXVALUE)
   \<and> \<not> validate_all None (fst (seq_take 2 MAXVALUE))"
proof -
  have "fst (seq_take 2 MAXVALUE) = [MAXVALUE, 1]"
    by (simp add: numeral_2_eq_2 seq_next_def Let_def)
  then show ?thesis by (simp add: validateSequenceNumber_def MAXVALUE_def)
qed

end
