(* ===== verification/Chunk_Manager.thy ===== *)
theory Chunk_Manager
  imports Message_Header
begin

text \<open>
  \<^verbatim>\<open>ChunkManager\<close> of \<^verbatim>\<open>node-opcua-chunkmanager\<close>: it cuts a message body into
  chunks, pads them to the cipher's block size, and signs and encrypts each one when its header can
  be written. The functions the owner supplies (write the header, write the sequence header, sign,
  encrypt) are fields of the configuration; the sequence header writer carries a state \<open>'s\<close> of its
  own (the sequence number generator). The contents of a fresh, uninitialised buffer are a field
  too, so that nothing proved depends on them. \<^verbatim>\<open>write\<close> keeps the loop of the code.
\<close>

datatype mode = ModeNone | ModeSign | ModeSignAndEncrypt

record 's cm_options =
  opt_chunkSize :: nat
  opt_headerSize :: nat
  opt_signatureLength :: nat
  opt_sequenceHeaderSize :: "nat option"
  opt_cipherBlockSize :: nat
  opt_plainBlockSize :: nat
  opt_writeHeaderFunc :: "buffer \<Rightarrow> bool \<Rightarrow> nat \<Rightarrow> buffer result"
  opt_writeSequenceHeaderFunc :: "'s \<Rightarrow> buffer \<Rightarrow> (buffer \<times> 's) result"
  opt_signBufferFunc :: "(buffer \<Rightarrow> buffer) option"
  opt_encryptBufferFunc :: "(buffer \<Rightarrow> buffer) option"
  opt_uninitialized :: "nat \<Rightarrow> buffer"

record 's cm_config =
  securityMode :: mode
  chunkSize :: nat
  headerSize :: nat
  signatureLength :: nat
  sequenceHeaderSize :: nat
  cipherBlockSize :: nat
  plainBlockSize :: nat
  maxBodySize :: nat
  dataOffset :: nat
  writeHeaderFunc :: "buffer \<Rightarrow> bool \<Rightarrow> nat \<Rightarrow> buffer result"
  writeSequenceHeaderFunc :: "'s \<Rightarrow> buffer \<Rightarrow> (buffer \<times> 's) result"
  signBufferFunc :: "(buffer \<Rightarrow> buffer) option"
  encryptBufferFunc :: "(buffer \<Rightarrow> buffer) option"
  uninitialized :: "nat \<Rightarrow> buffer"

record 's cm_state =
  cm_chunk :: "buffer option"
  cm_cursor :: nat
  cm_pendingChunk :: "buffer option"
  cm_dataEnd :: nat
  cm_env :: 's
  cm_out :: "(buffer \<times> bool) list"

text \<open>The body size the constructor computes: the room left in the chunk without encryption, or the
  plain text that fits in whole cipher blocks, less one or two bytes for the padding size.\<close>

definition max_body_size :: "'s cm_options \<Rightarrow> nat \<Rightarrow> int" where
  "max_body_size o' seqSize =
     (if opt_cipherBlockSize o' = 0 then
        int (opt_chunkSize o') - int (opt_headerSize o') - int (opt_signatureLength o') - int seqSize
      else
        (let maxBlock = (int (opt_chunkSize o') - int (opt_headerSize o')) div int (opt_cipherBlockSize o');
             size = int (opt_plainBlockSize o') * maxBlock - int seqSize - int (opt_signatureLength o') - 1
         in if opt_plainBlockSize o' > 256 then size - 1 else size))"

definition new_chunk_manager :: "mode \<Rightarrow> 's cm_options \<Rightarrow> 's \<Rightarrow> ('s cm_config \<times> 's cm_state) result" where
  "new_chunk_manager m o' env =
     (let seqSize = (case opt_sequenceHeaderSize o' of None \<Rightarrow> 8 | Some n \<Rightarrow> n);
          body = max_body_size o' seqSize
      in rbind
           (if opt_cipherBlockSize o' = 0
            then rbind (assert_js (m = ModeNone \<or> m = ModeSign))
                   (\<lambda>_. assert_js (opt_plainBlockSize o' = 0))
            else rbind (assert_js (m = ModeSignAndEncrypt \<or> m = ModeSign))
                   (\<lambda>_. rbind (assert_js (opt_plainBlockSize o' \<noteq> 0))
                          (\<lambda>_. assert_js (opt_encryptBufferFunc o' \<noteq> None))))
           (\<lambda>_. rbind (assert_js (0 < body))
              (\<lambda>_. Inr (\<lparr>securityMode = m, chunkSize = opt_chunkSize o', headerSize = opt_headerSize o',
                        signatureLength = opt_signatureLength o', sequenceHeaderSize = seqSize,
                        cipherBlockSize = opt_cipherBlockSize o', plainBlockSize = opt_plainBlockSize o',
                        maxBodySize = nat body, dataOffset = opt_headerSize o' + seqSize,
                        writeHeaderFunc = opt_writeHeaderFunc o',
                        writeSequenceHeaderFunc = opt_writeSequenceHeaderFunc o',
                        signBufferFunc = opt_signBufferFunc o',
                        encryptBufferFunc =
                          (if opt_cipherBlockSize o' = 0 then None else opt_encryptBufferFunc o'),
                        uninitialized = opt_uninitialized o'\<rparr>,
                       \<lparr>cm_chunk = None, cm_cursor = 0, cm_pendingChunk = None, cm_dataEnd = 0,
                        cm_env = env, cm_out = []\<rparr>))))"

definition evaluateTotalLengthAndChunks :: "'s cm_config \<Rightarrow> nat \<Rightarrow> nat \<times> nat" where
  "evaluateTotalLengthAndChunks cf bodySize =
     (let chunkCount = (bodySize + maxBodySize cf - 1) div maxBodySize cf
      in (chunkSize cf * chunkCount, chunkCount))"

text \<open>\<^verbatim>\<open>Buffer.copy\<close>: what does not fit in the target is dropped.\<close>

definition buf_copy :: "buffer \<Rightarrow> buffer \<Rightarrow> nat \<Rightarrow> buffer" where
  "buf_copy src target start = overwrite target start (take (length target - start) src)"

definition buf_fill :: "buffer \<Rightarrow> byte \<Rightarrow> nat \<Rightarrow> nat \<Rightarrow> buffer result" where
  "buf_fill b v start stop =
     (if stop \<le> length b then Inr (overwrite b start (replicate (stop - start) v)) else Inl RangeError)"

definition write_signature :: "'s cm_config \<Rightarrow> nat \<Rightarrow> buffer \<Rightarrow> buffer result" where
  "write_signature cf dataEnd chunk =
     (if securityMode cf = ModeNone then
        rbind (assert_js (signatureLength cf = 0)) (\<lambda>_. Inr chunk)
      else case signBufferFunc cf of
        Some sign \<Rightarrow>
          rbind (assert_js (signatureLength cf \<noteq> 0))
            (\<lambda>_. let signature = sign (subarray chunk 0 dataEnd) in
               rbind (assert_js (length signature = signatureLength cf))
                 (\<lambda>_. Inr (buf_copy signature chunk dataEnd)))
      | None \<Rightarrow> rbind (assert_js (signatureLength cf = 0)) (\<lambda>_. Inr chunk))"

definition encrypt_chunk :: "'s cm_config \<Rightarrow> nat \<Rightarrow> buffer \<Rightarrow> buffer result" where
  "encrypt_chunk cf dataEnd chunk =
     (if securityMode cf = ModeNone then Inr chunk
      else case encryptBufferFunc cf of
        Some encrypt \<Rightarrow>
          if plainBlockSize cf > 0 then
            (let areaToEncrypt = subarray chunk (headerSize cf) (dataEnd + signatureLength cf) in
             rbind (assert_js (length areaToEncrypt mod plainBlockSize cf = 0))
               (\<lambda>_. let nbBlock = length areaToEncrypt div plainBlockSize cf; encrypted = encrypt areaToEncrypt in
                  rbind (assert_js (length encrypted mod cipherBlockSize cf = 0))
                    (\<lambda>_. rbind (assert_js (length encrypted = nbBlock * cipherBlockSize cf))
                       (\<lambda>_. Inr (buf_copy encrypted chunk (headerSize cf))))))
          else Inr chunk
      | None \<Rightarrow> Inr chunk)"

definition push_pending_chunk :: "'s cm_config \<Rightarrow> bool \<Rightarrow> 's cm_state \<Rightarrow> 's cm_state result" where
  "push_pending_chunk cf isLast st =
     (case cm_pendingChunk st of
        None \<Rightarrow> Inr st
      | Some pend \<Rightarrow>
          rbind (if headerSize cf > 0
                 then rbind (writeHeaderFunc cf (subarray pend 0 (headerSize cf)) isLast (length pend))
                        (\<lambda>h. Inr (buf_copy h pend 0))
                 else Inr pend)
            (\<lambda>b1. rbind (if sequenceHeaderSize cf > 0
                         then rbind (writeSequenceHeaderFunc cf (cm_env st)
                                       (subarray b1 (headerSize cf) (headerSize cf + sequenceHeaderSize cf)))
                                (\<lambda>(h, env). Inr (buf_copy h b1 (headerSize cf), env))
                         else Inr (b1, cm_env st))
               (\<lambda>(b2, env). rbind (write_signature cf (cm_dataEnd st) b2)
                  (\<lambda>b3. rbind (encrypt_chunk cf (cm_dataEnd st) b3)
                     (\<lambda>b4. Inr (st\<lparr>cm_env := env, cm_out := cm_out st @ [(b4, isLast)],
                                   cm_pendingChunk := None\<rparr>))))))"

definition write_padding_bytes :: "'s cm_config \<Rightarrow> nat \<Rightarrow> buffer \<Rightarrow> nat \<Rightarrow> (buffer \<times> nat) result" where
  "write_padding_bytes cf nbPaddingByteTotal chunk cursor =
     (let nbPaddingByte = nbPaddingByteTotal mod 256; extra = nbPaddingByteTotal div 256 in
      rbind (assert_js (extra = 0 \<or> plainBlockSize cf > 256))
        (\<lambda>_. rbind (buf_write_le 1 chunk (int nbPaddingByte) (cursor + dataOffset cf))
           (\<lambda>b1. let c1 = cursor + 1 in
              rbind (if nbPaddingByteTotal > 0
                     then buf_fill b1 (of_nat nbPaddingByte) (c1 + dataOffset cf) (c1 + dataOffset cf + nbPaddingByteTotal)
                     else Inr b1)
                (\<lambda>b2. let c2 = c1 + nbPaddingByteTotal in
                   if plainBlockSize cf > 256
                   then rbind (buf_write_le 1 b2 (int extra) (c2 + dataOffset cf))
                          (\<lambda>b3. Inr (b3, c2 + 1))
                   else Inr (b2, c2)))))"

definition nb_padding :: "'s cm_config \<Rightarrow> nat \<Rightarrow> nat" where
  "nb_padding cf cursor =
     (let curLength = sequenceHeaderSize cf + cursor + signatureLength cf
                        + (if plainBlockSize cf > 256 then 2 else 1);
          n = curLength mod plainBlockSize cf
      in (plainBlockSize cf - n) mod plainBlockSize cf)"

definition post_process_current_chunk :: "'s cm_config \<Rightarrow> 's cm_state \<Rightarrow> 's cm_state result" where
  "post_process_current_chunk cf st =
     (case cm_chunk st of
        None \<Rightarrow> Inl (ThrownError ''null chunk'')
      | Some chunk \<Rightarrow>
          rbind
            (if plainBlockSize cf > 0 then
               rbind (write_padding_bytes cf (nb_padding cf (cm_cursor st)) chunk (cm_cursor st))
                 (\<lambda>(b, c). let adjustedLength = sequenceHeaderSize cf + c + signatureLength cf in
                    rbind (assert_js (adjustedLength mod plainBlockSize cf = 0))
                      (\<lambda>_. let nbBlock = adjustedLength div plainBlockSize cf in
                         Inr (b, c, int nbBlock * (int (cipherBlockSize cf) - int (plainBlockSize cf)))))
             else Inr (chunk, cm_cursor st, 0))
            (\<lambda>(b, c, extraEncryptionBytes).
               let dataEnd = dataOffset cf + c;
                   expectedLength = int dataEnd + int (signatureLength cf) + extraEncryptionBytes
               in Inr (st\<lparr>cm_dataEnd := dataEnd,
                          cm_pendingChunk := Some (subarray b 0 (nat expectedLength)),
                          cm_chunk := None, cm_cursor := 0\<rparr>)))"

text \<open>One turn of the loop of \<^verbatim>\<open>write\<close>, and the loop. \<open>l\<close> bytes remain, the first of them
  is \<open>inputCursor\<close>.\<close>

definition write_turn ::
    "'s cm_config \<Rightarrow> buffer \<Rightarrow> nat \<Rightarrow> nat \<Rightarrow> 's cm_state \<Rightarrow> (nat \<times> 's cm_state) result" where
  "write_turn cf buf len inputCursor st =
     rbind (assert_js (len - inputCursor \<noteq> 0))
       (\<lambda>_. rbind (if cm_cursor st = 0 then push_pending_chunk cf False st else Inr st)
          (\<lambda>st1. let spaceLeft = maxBodySize cf - cm_cursor st1;
                     nbToWrite = min (len - inputCursor) spaceLeft;
                     chunk = (case cm_chunk st1 of Some c \<Rightarrow> c | None \<Rightarrow> uninitialized cf (chunkSize cf));
                     chunk1 = buf_copy (subarray buf inputCursor (inputCursor + nbToWrite)) chunk
                                (cm_cursor st1 + dataOffset cf);
                     st2 = st1\<lparr>cm_chunk := Some chunk1, cm_cursor := cm_cursor st1 + nbToWrite\<rparr>
                 in rbind (if cm_cursor st2 \<ge> maxBodySize cf then post_process_current_chunk cf st2
                           else Inr st2)
                      (\<lambda>st3. Inr (nbToWrite, st3))))"

partial_function (option) write_loop ::
    "'s cm_config \<Rightarrow> buffer \<Rightarrow> nat \<Rightarrow> nat \<Rightarrow> nat \<Rightarrow> 's cm_state \<Rightarrow> 's cm_state result option" where
  "write_loop cf buf len inputCursor l st =
     (if l > 0 then
        (case write_turn cf buf len inputCursor st of
           Inl e \<Rightarrow> Some (Inl e)
         | Inr (nbToWrite, st1) \<Rightarrow>
             write_loop cf buf len (inputCursor + nbToWrite) (l - nbToWrite) st1)
      else Some (Inr st))"

definition cm_write :: "'s cm_config \<Rightarrow> buffer \<Rightarrow> nat option \<Rightarrow> 's cm_state \<Rightarrow> 's cm_state result option" where
  "cm_write cf buf optLen st =
     (let len = (case optLen of None \<Rightarrow> length buf | Some n \<Rightarrow> if n = 0 then length buf else n)
      in if 0 < len then write_loop cf buf len 0 len st else Some (Inl AssertionError))"

definition cm_end :: "'s cm_config \<Rightarrow> 's cm_state \<Rightarrow> 's cm_state result" where
  "cm_end cf st =
     rbind (if cm_cursor st > 0 then post_process_current_chunk cf st else Inr st)
       (push_pending_chunk cf True)"

section \<open>What a chunk is made of\<close>

text \<open>The facts the constructor establishes. A cipher never shortens its text
  (\<open>plainBlockSize \<le> cipherBlockSize\<close>) and the padding size fits in two bytes; both are properties
  of the cipher suite, not checked by the code.\<close>

definition cm_wf :: "'s cm_config \<Rightarrow> bool" where
  "cm_wf cf \<longleftrightarrow>
     dataOffset cf = headerSize cf + sequenceHeaderSize cf \<and> 0 < maxBodySize cf \<and>
     (if cipherBlockSize cf = 0 then
        plainBlockSize cf = 0 \<and> encryptBufferFunc cf = None \<and> securityMode cf \<noteq> ModeSignAndEncrypt \<and>
        int (maxBodySize cf) = int (chunkSize cf) - int (headerSize cf) - int (signatureLength cf)
          - int (sequenceHeaderSize cf)
      else
        0 < plainBlockSize cf \<and> plainBlockSize cf \<le> cipherBlockSize cf \<and> plainBlockSize cf \<le> 65536 \<and>
        encryptBufferFunc cf \<noteq> None \<and> securityMode cf \<noteq> ModeNone \<and>
        int (maxBodySize cf) =
          int (plainBlockSize cf) * ((int (chunkSize cf) - int (headerSize cf)) div int (cipherBlockSize cf))
          - int (sequenceHeaderSize cf) - int (signatureLength cf) - 1
          - (if plainBlockSize cf > 256 then 1 else 0))"

lemma new_chunk_manager_wf:
  assumes "new_chunk_manager m o' env = Inr (cf, st)"
    "opt_plainBlockSize o' \<le> opt_cipherBlockSize o'" "opt_plainBlockSize o' \<le> 65536"
  shows "cm_wf cf"
  using assms
  by (auto simp: new_chunk_manager_def cm_wf_def max_body_size_def Let_def assert_js_def
      split: if_splits)

definition padding :: "'s cm_config \<Rightarrow> nat \<Rightarrow> buffer" where
  "padding cf k =
     (if plainBlockSize cf = 0 then []
      else let n = nb_padding cf k in
        of_nat (n mod 256) # replicate n (of_nat (n mod 256))
          @ (if plainBlockSize cf > 256 then [of_nat (n div 256)] else []))"

definition data_end :: "'s cm_config \<Rightarrow> nat \<Rightarrow> nat" where
  "data_end cf k = dataOffset cf + k + length (padding cf k)"

definition nb_block :: "'s cm_config \<Rightarrow> nat \<Rightarrow> nat" where
  "nb_block cf k =
     (sequenceHeaderSize cf + k + length (padding cf k) + signatureLength cf) div plainBlockSize cf"

definition chunk_length :: "'s cm_config \<Rightarrow> nat \<Rightarrow> nat" where
  "chunk_length cf k =
     data_end cf k + signatureLength cf + nb_block cf k * (cipherBlockSize cf - plainBlockSize cf)"

lemma nb_padding_less: "0 < plainBlockSize cf \<Longrightarrow> nb_padding cf k < plainBlockSize cf"
  by (simp add: nb_padding_def Let_def)

lemma round_up_dvd: "0 < (p :: nat) \<Longrightarrow> (c + (p - c mod p) mod p) mod p = 0"
proof (cases "c mod p = 0")
  case False
  assume "0 < p"
  with False have "(p - c mod p) mod p = p - c mod p" by (simp add: mod_less)
  moreover have "c + (p - c mod p) = c div p * p + p"
    using mod_less_divisor [OF \<open>0 < p\<close>, of c] div_mult_mod_eq [of c p] by linarith
  ultimately show ?thesis by simp
qed simp

lemma round_up_le: "0 < (p :: nat) \<Longrightarrow> c \<le> p * m \<Longrightarrow> c + (p - c mod p) mod p \<le> p * m"
proof -
  assume p: "0 < p" "c \<le> p * m"
  let ?r = "c + (p - c mod p) mod p"
  obtain q where q: "?r = p * q" using round_up_dvd [OF p(1), of c] by auto
  have "(p - c mod p) mod p < p" using p(1) by simp
  then have "p * q < p * m + p" using q p(2) by linarith
  then have "p * q < p * (m + 1)" by simp
  then have "q \<le> m" using p(1) by (metis Suc_eq_plus1 less_Suc_eq_le nat_mult_less_cancel_disj)
  then show ?thesis using q by simp
qed

lemma padded_length:
  assumes "0 < plainBlockSize cf"
  shows "sequenceHeaderSize cf + k + length (padding cf k) + signatureLength cf
    = (let c = sequenceHeaderSize cf + k + signatureLength cf + (if plainBlockSize cf > 256 then 2 else 1)
       in c + (plainBlockSize cf - c mod plainBlockSize cf) mod plainBlockSize cf)"
  using assms by (simp add: padding_def nb_padding_def Let_def)

lemma padded_length_block:
  assumes "0 < plainBlockSize cf"
  shows "sequenceHeaderSize cf + k + length (padding cf k) + signatureLength cf
    = nb_block cf k * plainBlockSize cf"
proof -
  have "(sequenceHeaderSize cf + k + length (padding cf k) + signatureLength cf) mod plainBlockSize cf = 0"
    unfolding padded_length [OF assms] Let_def by (rule round_up_dvd [OF assms])
  then show ?thesis unfolding nb_block_def by (metis add_0_right div_mult_mod_eq)
qed

text \<open>A full body leaves room for everything else: the chunk never exceeds \<^verbatim>\<open>chunkSize\<close>.\<close>

lemma nb_block_bound:
  assumes "cm_wf cf" "k \<le> maxBodySize cf" "0 < plainBlockSize cf"
  shows "headerSize cf + nb_block cf k * cipherBlockSize cf \<le> chunkSize cf"
proof -
  let ?p = "plainBlockSize cf" and ?c = "cipherBlockSize cf"
  let ?M = "(int (chunkSize cf) - int (headerSize cf)) div int ?c"
  let ?x = "if ?p > 256 then 1 else 0 :: int"
  let ?cur = "sequenceHeaderSize cf + k + signatureLength cf + (if ?p > 256 then 2 else 1)"
  have wf: "0 < maxBodySize cf" "?c \<noteq> 0" "?p \<le> ?c"
    "int (maxBodySize cf) = int ?p * ?M - int (sequenceHeaderSize cf) - int (signatureLength cf) - 1 - ?x"
    using assms(1,3) by (auto simp: cm_wf_def split: if_splits)
  then have "0 < int ?p * ?M" by (auto split: if_splits)
  then have M: "0 < ?M" using assms(3) by (simp add: zero_less_mult_iff)
  have "int ?cur \<le> int ?p * ?M" using assms(2) wf(4) by (auto split: if_splits)
  then have "?cur \<le> ?p * nat ?M" using M
    by (metis nat_int nat_mono nat_mult_distrib of_nat_0_le_iff)
  then have "nb_block cf k * ?p \<le> ?p * nat ?M"
    using padded_length_block [OF assms(3), of k] padded_length [OF assms(3), of k]
      round_up_le [OF assms(3), of ?cur "nat ?M"] by (simp add: Let_def)
  then have "nb_block cf k \<le> nat ?M" using assms(3)
    by (metis mult.commute nat_mult_le_cancel_disj)
  then have "int (nb_block cf k) * int ?c \<le> ?M * int ?c" using M by (intro mult_right_mono) simp_all
  also have "\<dots> \<le> int (chunkSize cf) - int (headerSize cf)"
    using wf(2) by (metis div_mult_mod_eq le_add_same_cancel1 of_nat_0_less_iff not_gr_zero
        pos_mod_sign)
  finally have "int (headerSize cf + nb_block cf k * ?c) \<le> int (chunkSize cf)" by simp
  then show ?thesis by linarith
qed

lemma chunk_length_block:
  assumes "cm_wf cf" "0 < plainBlockSize cf"
  shows "chunk_length cf k = headerSize cf + nb_block cf k * cipherBlockSize cf"
proof -
  have "data_end cf k + signatureLength cf = headerSize cf + nb_block cf k * plainBlockSize cf"
    using padded_length_block [OF assms(2), of k] assms(1) by (simp add: data_end_def cm_wf_def)
  moreover have "plainBlockSize cf \<le> cipherBlockSize cf"
    using assms by (auto simp: cm_wf_def split: if_splits)
  ultimately show ?thesis
    by (simp add: chunk_length_def) (metis add_mult_distrib2 le_add_diff_inverse)
qed

lemma chunk_length_bound:
  assumes "cm_wf cf" "k \<le> maxBodySize cf"
  shows "chunk_length cf k \<le> chunkSize cf"
proof (cases "plainBlockSize cf = 0")
  case True
  with assms show ?thesis
    by (auto simp: cm_wf_def chunk_length_def data_end_def padding_def nb_block_def split: if_splits)
next
  case False
  then show ?thesis using chunk_length_block [OF assms(1), of k] nb_block_bound [OF assms] by simp
qed

lemma data_end_bound:
  assumes "cm_wf cf" "k \<le> maxBodySize cf"
  shows "data_end cf k + signatureLength cf \<le> chunk_length cf k" "data_end cf k \<le> chunkSize cf"
  using chunk_length_bound [OF assms] by (simp_all add: chunk_length_def)


section \<open>Padding a chunk\<close>

lemma overwrite_overwrite:
  "off \<le> length b \<Longrightarrow>
   overwrite (overwrite b off x) (off + length x) y = overwrite b off (x @ y)"
  by (simp add: overwrite_def ac_simps)

lemma buf_write_byte:
  "v < 256 \<Longrightarrow> off < length b \<Longrightarrow> buf_write_le 1 b (int v) off = Inr (overwrite b off [of_nat v])"
  by (simp add: buf_write_le_def)

lemma write_padding_bytes_ok:
  assumes "cm_wf cf" "0 < plainBlockSize cf" "dataOffset cf + k + length (padding cf k) \<le> length b"
  shows "write_padding_bytes cf (nb_padding cf k) b k
    = Inr (overwrite b (dataOffset cf + k) (padding cf k), k + length (padding cf k))"
proof -
  let ?n = "nb_padding cf k" and ?o = "dataOffset cf + k"
  have small: "plainBlockSize cf \<le> 65536" using assms(1,2) by (auto simp: cm_wf_def split: if_splits)
  have n: "?n < plainBlockSize cf" by (rule nb_padding_less [OF assms(2)])
  then have extra: "?n div 256 = 0 \<or> plainBlockSize cf > 256" "?n div 256 < 256"
    using small by auto
  let ?x = "of_nat (?n mod 256) # replicate ?n (of_nat (?n mod 256)) :: buffer"
  let ?y = "[of_nat (?n div 256)] :: buffer"
  have pad: "padding cf k = (if plainBlockSize cf > 256 then ?x @ ?y else ?x)"
    using assms(2) by (simp add: padding_def Let_def)
  have room: "?o + 1 + ?n + (if plainBlockSize cf > 256 then 1 else 0) \<le> length b"
    using assms(3) by (simp add: pad split: if_splits)
  have w1: "buf_write_le 1 b (int (?n mod 256)) (k + dataOffset cf)
      = Inr (overwrite b ?o [of_nat (?n mod 256)])"
    using room by (subst buf_write_byte) (simp_all add: add.commute split: if_splits)
  have w2: "(if ?n > 0 then buf_fill (overwrite b ?o [of_nat (?n mod 256)]) (of_nat (?n mod 256))
        (k + 1 + dataOffset cf) (k + 1 + dataOffset cf + ?n)
      else Inr (overwrite b ?o [of_nat (?n mod 256)])) = Inr (overwrite b ?o ?x)"
  proof (cases "?n = 0")
    case False
    have "overwrite (overwrite b ?o [of_nat (?n mod 256)]) (?o + 1) (replicate ?n (of_nat (?n mod 256)))
        = overwrite b ?o ?x"
      using overwrite_overwrite [of ?o b "[of_nat (?n mod 256)]" "replicate ?n (of_nat (?n mod 256))"] room
      by (simp split: if_splits)
    with False room show ?thesis by (simp add: buf_fill_def ac_simps split: if_splits)
  qed simp
  have w3: "buf_write_le 1 (overwrite b ?o ?x) (int (?n div 256)) (k + 1 + ?n + dataOffset cf)
      = Inr (overwrite b ?o (?x @ ?y))" if "plainBlockSize cf > 256"
  proof -
    have "overwrite (overwrite b ?o ?x) (?o + length ?x) ?y = overwrite b ?o (?x @ ?y)"
      using room by (intro overwrite_overwrite) (simp split: if_splits)
    then show ?thesis using room that extra(2)
      by (subst buf_write_byte) (simp_all add: ac_simps split: if_splits)
  qed
  have a: "assert_js (?n div 256 = 0 \<or> plainBlockSize cf > 256) = Inr ()"
    using extra(1) by (simp add: assert_js_def)
  show ?thesis
    unfolding write_padding_bytes_def Let_def a rbind_simps w1 w2
    by (cases "plainBlockSize cf > 256") (simp_all only: w3 if_True if_False rbind_simps pad, simp_all)
qed

section \<open>The chunks a message becomes\<close>

text \<open>The specification: the data is cut in pieces of \<^verbatim>\<open>maxBodySize\<close> bytes, each piece is
  framed with its header, its sequence header and its padding, signed and encrypted, and the last
  frame alone is flagged. \<open>h\<close> is the header of a chunk of a given length, \<open>s\<close> the sequence
  header of a writer state and \<open>nx\<close> the writer state that follows.\<close>

definition signature_of :: "'s cm_config \<Rightarrow> buffer \<Rightarrow> buffer" where
  "signature_of cf plain =
     (if securityMode cf = ModeNone then []
      else case signBufferFunc cf of None \<Rightarrow> [] | Some sign \<Rightarrow> sign plain)"

definition seal :: "'s cm_config \<Rightarrow> buffer \<Rightarrow> buffer" where
  "seal cf plain =
     (let signed = plain @ signature_of cf plain in
      case encryptBufferFunc cf of
        None \<Rightarrow> signed
      | Some encrypt \<Rightarrow> take (headerSize cf) signed @ encrypt (drop (headerSize cf) signed))"

definition plain_chunk ::
    "'s cm_config \<Rightarrow> (bool \<Rightarrow> nat \<Rightarrow> buffer) \<Rightarrow> ('s \<Rightarrow> buffer) \<Rightarrow> bool \<Rightarrow> 's \<Rightarrow> buffer \<Rightarrow> buffer" where
  "plain_chunk cf h s isLast env d =
     h isLast (chunk_length cf (length d)) @ s env @ d @ padding cf (length d)"

definition frame ::
    "'s cm_config \<Rightarrow> (bool \<Rightarrow> nat \<Rightarrow> buffer) \<Rightarrow> ('s \<Rightarrow> buffer) \<Rightarrow> bool \<Rightarrow> 's \<Rightarrow> buffer \<Rightarrow> buffer \<times> bool" where
  "frame cf h s isLast env d = (seal cf (plain_chunk cf h s isLast env d), isLast)"

fun emit ::
    "'s cm_config \<Rightarrow> (bool \<Rightarrow> nat \<Rightarrow> buffer) \<Rightarrow> ('s \<Rightarrow> buffer) \<Rightarrow> ('s \<Rightarrow> 's) \<Rightarrow> bool \<Rightarrow> 's \<Rightarrow> buffer list
      \<Rightarrow> (buffer \<times> bool) list" where
  "emit cf h s nx closing env [] = []"
| "emit cf h s nx closing env (d # ds) =
     frame cf h s (closing \<and> ds = []) env d # emit cf h s nx closing (nx env) ds"

function pieces :: "nat \<Rightarrow> buffer \<Rightarrow> buffer list" where
  "pieces n d = (if d = [] \<or> n = 0 then [] else take n d # pieces n (drop n d))"
  by pat_completeness auto
termination by (relation "measure (\<lambda>(n, d). length d)") auto

declare pieces.simps [simp del]

lemma emit_snoc:
  "emit cf h s nx True env (ds @ [d])
   = emit cf h s nx False env ds @ [frame cf h s True ((nx ^^ length ds) env) d]"
  by (induction ds arbitrary: env) (simp_all add: funpow_swap1)

lemma emit_open_snoc:
  "emit cf h s nx False env (ds @ [d])
   = emit cf h s nx False env ds @ [frame cf h s False ((nx ^^ length ds) env) d]"
  by (induction ds arbitrary: env) (simp_all add: funpow_swap1)

lemma length_emit [simp]: "length (emit cf h s nx c env ds) = length ds"
  by (induction ds arbitrary: env) simp_all

lemma concat_pieces: "0 < n \<Longrightarrow> concat (pieces n d) = d"
  by (induction n d rule: pieces.induct) (subst pieces.simps, simp)

lemma pieces_length: "p \<in> set (pieces n d) \<Longrightarrow> 0 < length p \<and> length p \<le> n"
proof (induction n d rule: pieces.induct)
  case (1 n d)
  show ?case
  proof (cases "d = [] \<or> n = 0")
    case True
    with 1(2) show ?thesis by (subst (asm) pieces.simps) simp
  next
    case False
    with 1(2) have "p = take n d \<or> p \<in> set (pieces n (drop n d))"
      by (subst (asm) pieces.simps) simp
    with False 1(1) show ?thesis by auto
  qed
qed

lemma pieces_unique:
  "0 < length d \<Longrightarrow> length d \<le> n \<Longrightarrow> \<forall>p\<in>set ds. length p = n \<Longrightarrow> pieces n (concat ds @ d) = ds @ [d]"
proof (induction ds)
  case Nil
  then have n: "n \<noteq> 0" by linarith
  have d: "d \<noteq> []" using Nil(1) by simp
  have e: "pieces n [] = []" by (simp add: pieces.simps)
  show ?case using Nil(2) by (subst pieces.simps) (simp add: n d e)
next
  case (Cons p ds)
  then have "pieces n (p @ (concat ds @ d)) = p # pieces n (concat ds @ d)"
    by (subst pieces.simps) auto
  with Cons show ?case by simp
qed

lemma length_pieces: "0 < n \<Longrightarrow> length (pieces n d) = (length d + n - 1) div n"
proof (induction n d rule: pieces.induct)
  case (1 n d)
  show ?case
  proof (cases "d = []")
    case True
    then show ?thesis using 1(2) by (simp add: pieces.simps)
  next
    case False
    then have IH: "length (pieces n (drop n d)) = (length d - n + n - 1) div n" using 1 by simp
    show ?thesis
    proof (cases "length d \<le> n")
      case True
      moreover have "0 < length d" using False by simp
      ultimately have "1 * n \<le> length d + n - 1" "length d + n - 1 < 2 * n" by linarith+
      then have "(length d + n - 1) div n = 1" by (intro div_nat_eqI) simp_all
      with True IH False 1(2) show ?thesis by (simp add: pieces.simps [of n d])
    next
      case long: False
      then have "length d + n - 1 = (length d - n + n - 1) + n" by simp
      then have "(length d + n - 1) div n = (length d - n + n - 1) div n + 1"
        using 1(2) by (metis div_add_self2 less_not_refl)
      with IH False 1(2) show ?thesis by (simp add: pieces.simps [of n d])
    qed
  qed
qed

text \<open>What the owner of a \<^verbatim>\<open>ChunkManager\<close> promises about its callbacks.\<close>

locale chunk_owner =
  fixes cf :: "'s cm_config" and h :: "bool \<Rightarrow> nat \<Rightarrow> buffer" and s :: "'s \<Rightarrow> buffer"
    and nx :: "'s \<Rightarrow> 's" and ok :: "'s \<Rightarrow> bool"
  assumes wf: "cm_wf cf"
    and header: "length b = headerSize cf \<Longrightarrow> n \<le> chunkSize cf \<Longrightarrow> writeHeaderFunc cf b l n = Inr (h l n)"
    and header_length: "n \<le> chunkSize cf \<Longrightarrow> length (h l n) = headerSize cf"
    and sequence_positive: "0 < sequenceHeaderSize cf"
    and sequence: "length b = sequenceHeaderSize cf \<Longrightarrow> ok env \<Longrightarrow>
      writeSequenceHeaderFunc cf env b = Inr (s env, nx env)"
    and sequence_length: "ok env \<Longrightarrow> length (s env) = sequenceHeaderSize cf"
    and ok_next: "ok env \<Longrightarrow> ok (nx env)"
    and fresh: "length (uninitialized cf n) = n"
    and unsigned_mode: "securityMode cf = ModeNone \<or> signBufferFunc cf = None \<Longrightarrow> signatureLength cf = 0"
    and signed_mode: "securityMode cf \<noteq> ModeNone \<Longrightarrow> signBufferFunc cf = Some sg \<Longrightarrow>
      0 < signatureLength cf \<and> length (sg b) = signatureLength cf"
    and encrypted_length: "encryptBufferFunc cf = Some en \<Longrightarrow> length b mod plainBlockSize cf = 0 \<Longrightarrow>
      length (en b) = length b div plainBlockSize cf * cipherBlockSize cf"
begin

lemma offset: "dataOffset cf = headerSize cf + sequenceHeaderSize cf"
  using wf by (simp add: cm_wf_def)

lemma length_signature: "length (signature_of cf p) = signatureLength cf"
  using unsigned_mode signed_mode by (auto simp: signature_of_def split: option.splits)

lemma length_plain_chunk:
  assumes "ok env" "length d \<le> maxBodySize cf"
  shows "length (plain_chunk cf h s l env d) = data_end cf (length d)"
  using assms chunk_length_bound [OF wf assms(2)]
  by (simp add: plain_chunk_def header_length sequence_length data_end_def offset)

lemma length_seal:
  assumes "length p = data_end cf k"
  shows "length (seal cf p) = chunk_length cf k"
proof (cases "plainBlockSize cf = 0")
  case True
  then have "encryptBufferFunc cf = None" using wf by (auto simp: cm_wf_def split: if_splits)
  with True assms show ?thesis
    using wf by (auto simp: seal_def length_signature chunk_length_def nb_block_def cm_wf_def split: if_splits)
next
  case False
  then obtain en where en: "encryptBufferFunc cf = Some en"
    using wf by (auto simp: cm_wf_def split: if_splits)
  have area: "data_end cf k + signatureLength cf - headerSize cf = nb_block cf k * plainBlockSize cf"
    using padded_length_block [of cf k] False by (simp add: data_end_def offset)
  then have "length (en (drop (headerSize cf) (p @ signature_of cf p))) = nb_block cf k * cipherBlockSize cf"
    using encrypted_length [OF en] False assms by (simp del: drop_append add: length_signature)
  moreover have "headerSize cf \<le> data_end cf k" by (simp add: data_end_def offset)
  ultimately show ?thesis
    using chunk_length_block [OF wf, of k] False en assms
    by (simp del: take_append drop_append add: seal_def Let_def length_signature)
qed

text \<open>A pending chunk that holds the body \<open>d\<close>: its first \<^verbatim>\<open>dataEnd\<close> bytes are the two
  headers still to be written, the body and the padding.\<close>

definition holds_body :: "buffer \<Rightarrow> buffer \<Rightarrow> bool" where
  "holds_body d b \<longleftrightarrow> length b = chunk_length cf (length d) \<and>
     subarray b (dataOffset cf) (data_end cf (length d)) = d @ padding cf (length d)"

lemma holds_bodyD:
  assumes "holds_body d b" "length d \<le> maxBodySize cf"
  shows "b = take (dataOffset cf) b @ d @ padding cf (length d) @ drop (data_end cf (length d)) b"
    and "dataOffset cf \<le> length b" and "data_end cf (length d) + signatureLength cf \<le> length b"
proof -
  show le: "data_end cf (length d) + signatureLength cf \<le> length b"
    using data_end_bound [OF wf assms(2)] assms(1) by (simp add: holds_body_def)
  have o: "dataOffset cf \<le> data_end cf (length d)" by (simp add: data_end_def)
  with le show "dataOffset cf \<le> length b" by linarith
  have "b = take (dataOffset cf) b @ drop (dataOffset cf) b" by simp
  also have "drop (dataOffset cf) b = take (data_end cf (length d) - dataOffset cf) (drop (dataOffset cf) b)
      @ drop (data_end cf (length d)) b" using o by (metis append_take_drop_id drop_drop le_add_diff_inverse2)
  finally show "b = take (dataOffset cf) b @ d @ padding cf (length d) @ drop (data_end cf (length d)) b"
    using assms(1) by (simp add: holds_body_def subarray_def)
qed

lemma post_process_ok:
  assumes "cm_chunk st = Some c" "length c = chunkSize cf" "cm_cursor st = length d"
    "length d \<le> maxBodySize cf" "subarray c (dataOffset cf) (dataOffset cf + length d) = d"
  obtains b where "post_process_current_chunk cf st
      = Inr (st\<lparr>cm_dataEnd := data_end cf (length d), cm_pendingChunk := Some b, cm_chunk := None,
               cm_cursor := 0\<rparr>)"
    "holds_body d b"
proof -
  let ?k = "length d"
  let ?b = "overwrite c (dataOffset cf + ?k) (padding cf ?k)"
  have room: "dataOffset cf + ?k + length (padding cf ?k) \<le> length c"
    using data_end_bound [OF wf assms(4)] assms(2) by (simp add: data_end_def)
  have len: "length ?b = chunkSize cf" using room assms(2) by simp
  have sub: "subarray (take (chunk_length cf ?k) ?b) (dataOffset cf) (data_end cf ?k) = d @ padding cf ?k"
  proof -
    have "data_end cf ?k \<le> chunk_length cf ?k" "dataOffset cf \<le> data_end cf ?k"
      using data_end_bound [OF wf assms(4)] by (simp_all add: data_end_def)
    then have "subarray (take (chunk_length cf ?k) ?b) (dataOffset cf) (data_end cf ?k)
      = drop (dataOffset cf) (take (data_end cf ?k) ?b)"
      by (simp add: subarray_def take_drop min_absorb1)
    also have "take (data_end cf ?k) ?b = take (dataOffset cf + ?k) c @ padding cf ?k"
      using room by (simp add: overwrite_def data_end_def)
    also have "drop (dataOffset cf) \<dots> = drop (dataOffset cf) (take (dataOffset cf + ?k) c) @ padding cf ?k"
      using room by simp
    also have "drop (dataOffset cf) (take (dataOffset cf + ?k) c) = d"
      using assms(5) by (simp add: subarray_def take_drop add.commute)
    finally show ?thesis .
  qed
  have body: "holds_body d (take (chunk_length cf ?k) ?b)"
    using sub len chunk_length_bound [OF wf assms(4)] by (simp add: holds_body_def)
  have "post_process_current_chunk cf st
      = Inr (st\<lparr>cm_dataEnd := data_end cf ?k, cm_pendingChunk := Some (take (chunk_length cf ?k) ?b),
               cm_chunk := None, cm_cursor := 0\<rparr>)"
  proof (cases "plainBlockSize cf = 0")
    case True
    then have "padding cf ?k = []" "cipherBlockSize cf = 0" using wf
      by (auto simp: padding_def cm_wf_def split: if_splits)
    with True assms(1,3) room show ?thesis
      by (simp add: post_process_current_chunk_def Let_def chunk_length_def data_end_def
          nat_add_distrib overwrite_def)
  next
    case False
    let ?a = "sequenceHeaderSize cf + (?k + length (padding cf ?k)) + signatureLength cf"
    have blocks: "?a = nb_block cf ?k * plainBlockSize cf"
      using padded_length_block [of cf ?k] False by (simp add: ac_simps)
    then have "?a mod plainBlockSize cf = 0" "?a div plainBlockSize cf = nb_block cf ?k"
      using False by simp_all
    moreover have "plainBlockSize cf \<le> cipherBlockSize cf" using wf False
      by (auto simp: cm_wf_def split: if_splits)
    ultimately show ?thesis
      using False assms(1,3) write_padding_bytes_ok [OF wf _ room]
      by (simp add: post_process_current_chunk_def Let_def chunk_length_def data_end_def
          nat_add_distrib nat_mult_distrib of_nat_diff [symmetric] ac_simps del: of_nat_diff)
  qed
  then show ?thesis using body by (rule that)
qed

lemma write_signature_ok:
  assumes "n + signatureLength cf \<le> length b" "n \<le> length b"
  shows "write_signature cf n b = Inr (overwrite b n (signature_of cf (take n b)))"
proof (cases "securityMode cf = ModeNone \<or> signBufferFunc cf = None")
  case True
  then show ?thesis using unsigned_mode
    by (auto simp: write_signature_def signature_of_def overwrite_def split: option.splits)
next
  case False
  then obtain sg where sg: "signBufferFunc cf = Some sg" "securityMode cf \<noteq> ModeNone" by auto
  note signed_mode [OF sg(2,1)]
  with sg assms show ?thesis
    by (simp add: write_signature_def signature_of_def buf_copy_def)
qed

lemma encrypt_chunk_ok:
  assumes "length p = data_end cf k" "length b = chunk_length cf k"
    "take (data_end cf k + signatureLength cf) b = p @ signature_of cf p"
  shows "encrypt_chunk cf (data_end cf k) b = Inr (seal cf p)"
proof (cases "plainBlockSize cf = 0")
  case True
  then have "encryptBufferFunc cf = None" "chunk_length cf k = data_end cf k + signatureLength cf"
    using wf by (auto simp: cm_wf_def chunk_length_def nb_block_def split: if_splits)
  with assms show ?thesis by (auto simp: encrypt_chunk_def seal_def)
next
  case False
  then obtain en where en: "encryptBufferFunc cf = Some en" "securityMode cf \<noteq> ModeNone"
    using wf by (auto simp: cm_wf_def split: if_splits)
  let ?area = "drop (headerSize cf) (p @ signature_of cf p)"
  have area: "subarray b (headerSize cf) (data_end cf k + signatureLength cf) = ?area"
    using assms(3) by (metis drop_take subarray_def)
  have "length ?area = nb_block cf k * plainBlockSize cf"
    using padded_length_block [of cf k] False assms(1)
    by (simp del: drop_append add: length_signature data_end_def offset)
  then have la: "length ?area mod plainBlockSize cf = 0" "length ?area div plainBlockSize cf = nb_block cf k"
    using False by simp_all
  have le: "length (en ?area) = nb_block cf k * cipherBlockSize cf"
    using encrypted_length [OF en(1) la(1)] la(2) by simp
  have lb: "length b = headerSize cf + nb_block cf k * cipherBlockSize cf"
    using chunk_length_block [OF wf, of k] False assms(2) by simp
  have "headerSize cf \<le> data_end cf k + signatureLength cf" by (simp add: data_end_def offset)
  then have "take (headerSize cf) b = take (headerSize cf) (p @ signature_of cf p)"
    using assms(3) by (metis min.absorb1 take_take)
  then have "buf_copy (en ?area) b (headerSize cf) = seal cf p"
    using lb le en(1) by (simp del: drop_append take_append add: buf_copy_def overwrite_def seal_def Let_def)
  with en False area la le show ?thesis
    by (simp del: drop_append add: encrypt_chunk_def Let_def)
qed

lemma push_pending_ok:
  assumes "cm_pendingChunk st = Some b" "holds_body d b" "length d \<le> maxBodySize cf"
    "cm_dataEnd st = data_end cf (length d)" "ok (cm_env st)"
  shows "push_pending_chunk cf l st
    = Inr (st\<lparr>cm_env := nx (cm_env st), cm_out := cm_out st @ [frame cf h s l (cm_env st) d],
             cm_pendingChunk := None\<rparr>)"
proof -
  let ?n = "chunk_length cf (length d)" and ?e = "data_end cf (length d)"
  let ?h = "h l ?n" and ?s = "s (cm_env st)"
  let ?p = "plain_chunk cf h s l (cm_env st) d"
  let ?tail = "drop (data_end cf (length d)) b"
  note b = holds_bodyD [OF assms(2,3)]
  have n: "?n \<le> chunkSize cf" "length b = ?n"
    using chunk_length_bound [OF wf assms(3)] assms(2) by (simp_all add: holds_body_def)
  have lp: "length ?p = ?e" by (rule length_plain_chunk [OF assms(5,3)])
  have lh: "length ?h = headerSize cf" and ls: "length ?s = sequenceHeaderSize cf"
    using header_length [OF n(1)] sequence_length [OF assms(5)] by simp_all
  have b1: "(if headerSize cf > 0
       then rbind (writeHeaderFunc cf (subarray b 0 (headerSize cf)) l (length b)) (\<lambda>h. Inr (buf_copy h b 0))
       else Inr b) = Inr (?h @ drop (headerSize cf) b)"
    using b(2) lh n header [of "take (headerSize cf) b" ?n l]
    by (auto simp: buf_copy_def overwrite_def offset)
  let ?b1 = "?h @ drop (headerSize cf) b"
  have b2: "(if sequenceHeaderSize cf > 0
       then rbind (writeSequenceHeaderFunc cf (cm_env st)
              (subarray ?b1 (headerSize cf) (headerSize cf + sequenceHeaderSize cf)))
              (\<lambda>(h, env). Inr (buf_copy h ?b1 (headerSize cf), env))
       else Inr (?b1, cm_env st))
     = Inr (?p @ ?tail, if sequenceHeaderSize cf > 0 then nx (cm_env st) else cm_env st)"
  proof -
    have sub: "length (subarray ?b1 (headerSize cf) (headerSize cf + sequenceHeaderSize cf)) = sequenceHeaderSize cf"
      using b(2) lh by (simp add: subarray_def offset)
    have "drop (dataOffset cf) b = d @ padding cf (length d) @ ?tail"
      by (subst b(1)) (use b(2) in simp)
    then have "?h @ ?s @ drop (sequenceHeaderSize cf) (drop (headerSize cf) b) = ?p @ ?tail"
      by (simp add: plain_chunk_def offset add.commute)
    then show ?thesis using b(2) lh ls sequence [OF sub assms(5)]
      by (auto simp: buf_copy_def overwrite_def offset)
  qed
  have b3: "write_signature cf ?e (?p @ ?tail) = Inr (?p @ signature_of cf ?p @ drop (?e + signatureLength cf) b)"
  proof -
    have "write_signature cf ?e (?p @ ?tail) = Inr (overwrite (?p @ ?tail) ?e (signature_of cf (take ?e (?p @ ?tail))))"
      using b(3) lp by (intro write_signature_ok) simp_all
    then show ?thesis using lp length_signature by (simp add: overwrite_def add.commute)
  qed
  have b4: "encrypt_chunk cf ?e (?p @ signature_of cf ?p @ drop (?e + signatureLength cf) b) = Inr (seal cf ?p)"
    using lp n b(3) by (intro encrypt_chunk_ok) (simp_all add: length_signature)
  show ?thesis
    unfolding push_pending_chunk_def assms(1) option.case b1 rbind_simps b2 prod.case assms(4) b3 b4
    using sequence_positive by (simp add: frame_def)
qed

text \<open>The state after \<open>w\<close> has been written since the chunk manager was idle with output \<open>o0\<close>
  and writer state \<open>e0\<close>: the full pieces but the last are out, the last one is pending when it is
  full and in the current chunk otherwise.\<close>

definition written :: "(buffer \<times> bool) list \<Rightarrow> 's \<Rightarrow> buffer \<Rightarrow> 's cm_state \<Rightarrow> bool" where
  "written o0 e0 w st \<longleftrightarrow>
     (w = [] \<and> cm_chunk st = None \<and> cm_cursor st = 0 \<and> cm_pendingChunk st = None \<and>
        cm_env st = e0 \<and> cm_out st = o0) \<or>
     (\<exists>ds d. w = concat ds @ d \<and> (\<forall>p\<in>set ds. length p = maxBodySize cf) \<and>
        0 < length d \<and> length d \<le> maxBodySize cf \<and>
        cm_env st = (nx ^^ length ds) e0 \<and> cm_out st = o0 @ emit cf h s nx False e0 ds \<and>
        (if length d < maxBodySize cf then
           cm_pendingChunk st = None \<and> cm_cursor st = length d \<and>
           (\<exists>c. cm_chunk st = Some c \<and> length c = chunkSize cf \<and>
              subarray c (dataOffset cf) (dataOffset cf + length d) = d)
         else cm_chunk st = None \<and> cm_cursor st = 0 \<and> cm_dataEnd st = data_end cf (length d) \<and>
           (\<exists>b. cm_pendingChunk st = Some b \<and> holds_body d b)))"

lemma ok_funpow: "ok e \<Longrightarrow> ok ((nx ^^ n) e)"
  by (induction n) (simp_all add: ok_next)

text \<open>A chunk being filled: the loop's state after it has pushed the pending chunk.\<close>

definition filling :: "(buffer \<times> bool) list \<Rightarrow> 's \<Rightarrow> buffer list \<Rightarrow> buffer \<Rightarrow> 's cm_state \<Rightarrow> bool" where
  "filling o0 e0 ds d st \<longleftrightarrow> (\<forall>p\<in>set ds. length p = maxBodySize cf) \<and> length d < maxBodySize cf \<and>
     cm_env st = (nx ^^ length ds) e0 \<and> cm_out st = o0 @ emit cf h s nx False e0 ds \<and>
     cm_pendingChunk st = None \<and> cm_cursor st = length d \<and>
     (case cm_chunk st of None \<Rightarrow> d = [] | Some c \<Rightarrow> length c = chunkSize cf \<and>
        subarray c (dataOffset cf) (dataOffset cf + length d) = d)"

lemma turn_push:
  assumes "written o0 e0 w st" "ok e0"
  obtains ds d st1 where "(if cm_cursor st = 0 then push_pending_chunk cf False st else Inr st) = Inr st1"
    "filling o0 e0 ds d st1" "w = concat ds @ d"
proof (cases "w = []")
  case True
  with assms(1) have idle: "cm_chunk st = None" "cm_cursor st = 0" "cm_pendingChunk st = None"
    "cm_env st = e0" "cm_out st = o0" by (auto simp: written_def)
  have "0 < maxBodySize cf" using wf by (simp add: cm_wf_def)
  with idle have "filling o0 e0 [] [] st" by (simp add: filling_def)
  then show ?thesis using idle True by (intro that [of st "[]" "[]"]) (simp_all add: push_pending_chunk_def)
next
  case False
  then obtain ds d where w: "w = concat ds @ d" "\<forall>p\<in>set ds. length p = maxBodySize cf"
      "0 < length d" "length d \<le> maxBodySize cf" "cm_env st = (nx ^^ length ds) e0"
      "cm_out st = o0 @ emit cf h s nx False e0 ds"
    and st: "if length d < maxBodySize cf then
           cm_pendingChunk st = None \<and> cm_cursor st = length d \<and>
           (\<exists>c. cm_chunk st = Some c \<and> length c = chunkSize cf \<and>
              subarray c (dataOffset cf) (dataOffset cf + length d) = d)
         else cm_chunk st = None \<and> cm_cursor st = 0 \<and> cm_dataEnd st = data_end cf (length d) \<and>
           (\<exists>b. cm_pendingChunk st = Some b \<and> holds_body d b)"
    using assms(1) unfolding written_def by blast
  show ?thesis
  proof (cases "length d < maxBodySize cf")
    case True
    with w st have "filling o0 e0 ds d st" by (auto simp: filling_def)
    with w(1,3) st True show ?thesis by (intro that [of st ds d]) auto
  next
    case full: False
    with st obtain b where b: "cm_pendingChunk st = Some b" "holds_body d b"
      and idle: "cm_chunk st = None" "cm_cursor st = 0" "cm_dataEnd st = data_end cf (length d)" by auto
    have "ok (cm_env st)" using assms(2) w(5) ok_funpow by simp
    note push = push_pending_ok [OF b w(4) idle(3) this, of False]
    have "0 < maxBodySize cf" using wf by (simp add: cm_wf_def)
    then have "filling o0 e0 (ds @ [d]) [] (st\<lparr>cm_env := nx (cm_env st),
        cm_out := cm_out st @ [frame cf h s False (cm_env st) d], cm_pendingChunk := None\<rparr>)"
      using full w idle by (simp add: filling_def emit_open_snoc)
    with push idle w(1) show ?thesis by (intro that [of _ "ds @ [d]" "[]"]) auto
  qed
qed

lemma written_filled:
  assumes "filling o0 e0 ds d st1" "r \<noteq> []" "length (d @ r) \<le> maxBodySize cf" "chunk = the_chunk"
    "the_chunk = (case cm_chunk st1 of Some c \<Rightarrow> c | None \<Rightarrow> uninitialized cf (chunkSize cf))"
  obtains c where "buf_copy r chunk (cm_cursor st1 + dataOffset cf) = c" "length c = chunkSize cf"
    "subarray c (dataOffset cf) (dataOffset cf + length (d @ r)) = d @ r"
proof -
  have len: "length chunk = chunkSize cf"
    and sub: "subarray chunk (dataOffset cf) (dataOffset cf + length d) = d"
    using assms(1,4,5) by (auto simp: filling_def fresh subarray_def split: option.splits)
  have room: "dataOffset cf + length d + length r \<le> chunkSize cf"
    using data_end_bound [OF wf assms(3)] by (simp add: data_end_def)
  have cur: "cm_cursor st1 = length d" using assms(1) by (simp add: filling_def)
  let ?c = "overwrite chunk (dataOffset cf + length d) r"
  have "buf_copy r chunk (cm_cursor st1 + dataOffset cf) = ?c"
    using room len cur by (simp add: buf_copy_def add.commute)
  moreover have "length ?c = chunkSize cf" using room len by simp
  moreover have "subarray ?c (dataOffset cf) (dataOffset cf + length (d @ r)) = d @ r"
  proof -
    have "subarray ?c (dataOffset cf) (dataOffset cf + length (d @ r))
        = drop (dataOffset cf) (take (dataOffset cf + length d + length r) ?c)"
      by (simp add: subarray_def take_drop ac_simps)
    also have "\<dots> = drop (dataOffset cf) (take (dataOffset cf + length d) chunk) @ r"
      using room len by (simp add: overwrite_def)
    also have "\<dots> = d @ r" using sub by (simp add: subarray_def take_drop add.commute)
    finally show ?thesis .
  qed
  ultimately show ?thesis by (rule that)
qed

lemma written_turn:
  assumes "written o0 e0 w st" "ok e0" "i < len" "len \<le> length buf"
  obtains n st' where "write_turn cf buf len i st = Inr (n, st')" "0 < n" "n \<le> len - i"
    "written o0 e0 (w @ take n (drop i buf)) st'"
proof -
  obtain ds d st1 where p: "(if cm_cursor st = 0 then push_pending_chunk cf False st else Inr st) = Inr st1"
    "filling o0 e0 ds d st1" "w = concat ds @ d" using turn_push [OF assms(1,2)] by blast
  have f: "\<forall>p\<in>set ds. length p = maxBodySize cf" "length d < maxBodySize cf"
     "cm_env st1 = (nx ^^ length ds) e0" "cm_out st1 = o0 @ emit cf h s nx False e0 ds"
     "cm_pendingChunk st1 = None" "cm_cursor st1 = length d"
    using p(2) by (auto simp: filling_def)
  define n where "n = min (len - i) (maxBodySize cf - cm_cursor st1)"
  define r where "r = take n (drop i buf)"
  have n: "0 < n" "n \<le> len - i" "n \<le> maxBodySize cf - length d" using assms(3) f by (auto simp: n_def)
  then have r: "r \<noteq> []" "length r = n" "length (d @ r) \<le> maxBodySize cf" "subarray buf i (i + n) = r"
    using assms(3,4) f(2) by (auto simp: r_def subarray_def)
  obtain c where c: "buf_copy r (case cm_chunk st1 of Some c \<Rightarrow> c | None \<Rightarrow> uninitialized cf (chunkSize cf))
        (cm_cursor st1 + dataOffset cf) = c" "length c = chunkSize cf"
      "subarray c (dataOffset cf) (dataOffset cf + length (d @ r)) = d @ r"
    using written_filled [OF p(2) r(1,3) refl refl] by blast
  let ?st2 = "st1\<lparr>cm_chunk := Some c, cm_cursor := length (d @ r)\<rparr>"
  have a: "assert_js (len - i \<noteq> 0) = Inr ()" using assms(3) by simp
  have turn: "write_turn cf buf len i st
      = rbind (if length (d @ r) \<ge> maxBodySize cf then post_process_current_chunk cf ?st2 else Inr ?st2)
          (\<lambda>st3. Inr (n, st3))"
    unfolding write_turn_def p(1) a rbind_simps Let_def n_def [symmetric] r(4)
    using c(1) r(2) f(6) by (simp add: fun_upd_def)
  have w: "w @ r = concat ds @ (d @ r)" using p(3) by simp
  show ?thesis
  proof (cases "length (d @ r) < maxBodySize cf")
    case True
    have "written o0 e0 (w @ r) ?st2"
      unfolding written_def using f c(2,3) True r(1)
      by (intro disjI2 exI [of _ ds] exI [of _ "d @ r"]) (simp add: w)
    with turn True n show ?thesis by (intro that) (simp_all add: r_def)
  next
    case False
    obtain b where b: "post_process_current_chunk cf ?st2
        = Inr (?st2\<lparr>cm_dataEnd := data_end cf (length (d @ r)), cm_pendingChunk := Some b, cm_chunk := None,
               cm_cursor := 0\<rparr>)" "holds_body (d @ r) b"
      using post_process_ok [of ?st2 c "d @ r"] c r(3) by auto
    have "written o0 e0 (w @ r) (?st2\<lparr>cm_dataEnd := data_end cf (length (d @ r)),
        cm_pendingChunk := Some b, cm_chunk := None, cm_cursor := 0\<rparr>)"
      unfolding written_def using f b(2) False r(1,3)
      by (intro disjI2 exI [of _ ds] exI [of _ "d @ r"]) (simp add: w)
    with turn False n b(1) show ?thesis by (intro that) (simp_all add: r_def)
  qed
qed

lemma write_loop_ok:
  assumes "ok e0" "len \<le> length buf"
  shows "written o0 e0 w st \<Longrightarrow> i + l = len \<Longrightarrow>
    \<exists>st'. write_loop cf buf len i l st = Some (Inr st') \<and> written o0 e0 (w @ take l (drop i buf)) st'"
proof (induction l arbitrary: i st w rule: less_induct)
  case (less l)
  show ?case
  proof (cases "l = 0")
    case True
    with less.prems show ?thesis by (simp add: write_loop.simps)
  next
    case False
    then have "i < len" using less.prems(2) by simp
    then obtain n st1 where t: "write_turn cf buf len i st = Inr (n, st1)" "0 < n" "n \<le> len - i"
      "written o0 e0 (w @ take n (drop i buf)) st1"
      using written_turn [OF less.prems(1) assms(1) _ assms(2)] by blast
    have nl: "n \<le> l" using t(3) less.prems(2) by simp
    have "\<exists>st'. write_loop cf buf len (i + n) (l - n) st1 = Some (Inr st') \<and>
        written o0 e0 ((w @ take n (drop i buf)) @ take (l - n) (drop (i + n) buf)) st'"
      using t(2) nl False less.prems(2) by (intro less.IH [OF _ t(4)]) auto
    moreover have "take n (drop i buf) @ take (l - n) (drop (i + n) buf) = take l (drop i buf)"
      using nl by (metis add.commute drop_drop le_add_diff_inverse take_add)
    ultimately show ?thesis using t(1) False by (simp add: write_loop.simps)
  qed
qed

lemma cm_write_ok:
  assumes "written o0 e0 w st" "ok e0" "d \<noteq> []"
  obtains st' where "cm_write cf d None st = Some (Inr st')" "written o0 e0 (w @ d) st'"
  using write_loop_ok [OF assms(2) order_refl assms(1), where buf = d and i = 0 and l = "length d"] assms(3)
  by (auto simp: cm_write_def)

lemma cm_end_ok:
  assumes "written o0 e0 w st" "ok e0"
  obtains st' where "cm_end cf st = Inr st'"
    "written (o0 @ emit cf h s nx True e0 (pieces (maxBodySize cf) w))
       ((nx ^^ length (pieces (maxBodySize cf) w)) e0) [] st'"
proof (cases "w = []")
  case True
  with assms(1) show ?thesis
    by (intro that [of st]) (auto simp: written_def cm_end_def push_pending_chunk_def pieces.simps)
next
  case False
  then obtain ds d where w: "w = concat ds @ d" "\<forall>p\<in>set ds. length p = maxBodySize cf"
      "0 < length d" "length d \<le> maxBodySize cf" "cm_env st = (nx ^^ length ds) e0"
      "cm_out st = o0 @ emit cf h s nx False e0 ds"
    and st: "if length d < maxBodySize cf then
           cm_pendingChunk st = None \<and> cm_cursor st = length d \<and>
           (\<exists>c. cm_chunk st = Some c \<and> length c = chunkSize cf \<and>
              subarray c (dataOffset cf) (dataOffset cf + length d) = d)
         else cm_chunk st = None \<and> cm_cursor st = 0 \<and> cm_dataEnd st = data_end cf (length d) \<and>
           (\<exists>b. cm_pendingChunk st = Some b \<and> holds_body d b)"
    using assms(1) unfolding written_def by blast
  have pieces: "pieces (maxBodySize cf) w = ds @ [d]" using w by (simp add: pieces_unique)
  have "\<exists>st1 b. (if cm_cursor st > 0 then post_process_current_chunk cf st else Inr st) = Inr st1 \<and>
      cm_pendingChunk st1 = Some b \<and> holds_body d b \<and> cm_dataEnd st1 = data_end cf (length d) \<and>
      cm_env st1 = cm_env st \<and> cm_out st1 = cm_out st \<and> cm_chunk st1 = None \<and> cm_cursor st1 = 0"
  proof (cases "length d < maxBodySize cf")
    case True
    with st obtain c where c: "cm_chunk st = Some c" "length c = chunkSize cf" "cm_cursor st = length d"
      "subarray c (dataOffset cf) (dataOffset cf + length d) = d" by auto
    obtain b where "post_process_current_chunk cf st
      = Inr (st\<lparr>cm_dataEnd := data_end cf (length d), cm_pendingChunk := Some b, cm_chunk := None,
               cm_cursor := 0\<rparr>)" "holds_body d b"
      using post_process_ok [OF c(1,2,3) w(4) c(4)] by blast
    with c(3) w(3) show ?thesis by simp
  qed (use st in auto)
  then obtain st1 b where st1: "(if cm_cursor st > 0 then post_process_current_chunk cf st else Inr st) = Inr st1"
      "cm_pendingChunk st1 = Some b" "holds_body d b" "cm_dataEnd st1 = data_end cf (length d)"
      "cm_env st1 = cm_env st" "cm_out st1 = cm_out st" "cm_chunk st1 = None" "cm_cursor st1 = 0"
    by blast
  have "ok (cm_env st1)" using assms(2) w(5) st1(5) ok_funpow by simp
  note push = push_pending_ok [OF st1(2,3) w(4) st1(4) this, of True]
  show ?thesis
    using push st1 w(5,6) by (intro that) (auto simp: cm_end_def written_def pieces emit_snoc)
qed

lemma written_prefix:
  assumes "written o0 e0 w st"
  shows "cm_out st = take (length (cm_out st)) (o0 @ emit cf h s nx True e0 (pieces (maxBodySize cf) w))"
proof (cases "w = []")
  case True
  with assms show ?thesis by (auto simp: written_def)
next
  case False
  then obtain ds d where w: "w = concat ds @ d" "\<forall>p\<in>set ds. length p = maxBodySize cf"
      "0 < length d" "length d \<le> maxBodySize cf" "cm_out st = o0 @ emit cf h s nx False e0 ds"
    using assms unfolding written_def by blast
  then have "pieces (maxBodySize cf) w = ds @ [d]" by (simp add: pieces_unique)
  with w(5) show ?thesis by (simp add: emit_snoc)
qed

lemma take_seal:
  assumes "length p = data_end cf k"
  shows "take (headerSize cf) (seal cf p) = take (headerSize cf) p"
  using assms by (auto simp: seal_def Let_def data_end_def offset split: option.splits)

lemma emit_elem:
  "(c, l) \<in> set (emit cf h s nx closing env ps) \<Longrightarrow> ok env \<Longrightarrow>
     \<exists>e d. ok e \<and> d \<in> set ps \<and> c = seal cf (plain_chunk cf h s l e d)"
proof (induction ps arbitrary: env)
  case (Cons d ds)
  show ?case
  proof (cases "(c, l) = frame cf h s (closing \<and> ds = []) env d")
    case True
    then have "c = seal cf (plain_chunk cf h s l env d)" by (simp add: frame_def)
    then show ?thesis using Cons.prems(2) by auto
  next
    case False
    then have "(c, l) \<in> set (emit cf h s nx closing (nx env) ds)" using Cons.prems(1) by auto
    from Cons.IH [OF this ok_next [OF Cons.prems(2)]] show ?thesis by auto
  qed
qed simp

lemma emitted_chunk:
  assumes "(c, l) \<in> set (emit cf h s nx closing env ps)" "ok env" "\<forall>p\<in>set ps. length p \<le> maxBodySize cf"
  shows "length c \<le> chunkSize cf" "take (headerSize cf) c = h l (length c)" "headerSize cf \<le> length c"
proof -
  obtain e d where c: "ok e" "d \<in> set ps" "c = seal cf (plain_chunk cf h s l e d)"
    using emit_elem [OF assms(1,2)] by blast
  have d: "length d \<le> maxBodySize cf" using assms(3) c(2) by blast
  have n: "length c = chunk_length cf (length d)" unfolding c(3)
    by (rule length_seal [OF length_plain_chunk [OF c(1) d]])
  show b: "length c \<le> chunkSize cf" using chunk_length_bound [OF wf d] n by simp
  have "take (headerSize cf) c = take (headerSize cf) (plain_chunk cf h s l e d)"
    unfolding c(3) by (rule take_seal [OF length_plain_chunk [OF c(1) d]])
  also have "\<dots> = h l (length c)" using header_length [of "length c" l] b n by (simp add: plain_chunk_def)
  finally show "take (headerSize cf) c = h l (length c)" .
  show "headerSize cf \<le> length c" using data_end_bound [OF wf d] n by (simp add: data_end_def offset)
qed

text \<open>Only the last piece is still in the manager's hands.\<close>

lemma written_last:
  assumes "written o0 e0 w st" "w \<noteq> []" "ok e0"
  shows "written (cm_out st) (cm_env st) (last (pieces (maxBodySize cf) w)) st" "ok (cm_env st)"
    "last (pieces (maxBodySize cf) w) \<noteq> []" "length (last (pieces (maxBodySize cf) w)) \<le> maxBodySize cf"
proof -
  obtain ds d where w: "w = concat ds @ d" "\<forall>p\<in>set ds. length p = maxBodySize cf"
      "0 < length d" "length d \<le> maxBodySize cf" "cm_env st = (nx ^^ length ds) e0"
    and st: "if length d < maxBodySize cf then
           cm_pendingChunk st = None \<and> cm_cursor st = length d \<and>
           (\<exists>c. cm_chunk st = Some c \<and> length c = chunkSize cf \<and>
              subarray c (dataOffset cf) (dataOffset cf + length d) = d)
         else cm_chunk st = None \<and> cm_cursor st = 0 \<and> cm_dataEnd st = data_end cf (length d) \<and>
           (\<exists>b. cm_pendingChunk st = Some b \<and> holds_body d b)"
    using assms(1,2) unfolding written_def by blast
  have l: "last (pieces (maxBodySize cf) w) = d" using w by (simp add: pieces_unique)
  show "ok (cm_env st)" using w(5) assms(3) ok_funpow by simp
  show "written (cm_out st) (cm_env st) (last (pieces (maxBodySize cf) w)) st"
    unfolding l written_def using w(3,4) st
    by (intro disjI2 exI [of _ "[]"] exI [of _ d]) simp
  show "last (pieces (maxBodySize cf) w) \<noteq> []" "length (last (pieces (maxBodySize cf) w)) \<le> maxBodySize cf"
    unfolding l using w(3,4) by auto
qed

lemma written_flags:
  assumes "written [] e0 w st" "(c, l) \<in> set (cm_out st)"
  shows "\<not> l"
proof -
  have "\<not> l" if "(c, l) \<in> set (emit cf h s nx False e ds)" for e ds
    using that by (induction ds arbitrary: e) (auto simp: frame_def)
  with assms show ?thesis unfolding written_def by auto
qed

end

text \<open>The sizes of a chunk do not depend on the header writer.\<close>

lemma header_writer_irrelevant:
  "padding (cf\<lparr>writeHeaderFunc := f\<rparr>) k = padding cf k"
  "data_end (cf\<lparr>writeHeaderFunc := f\<rparr>) k = data_end cf k"
  "chunk_length (cf\<lparr>writeHeaderFunc := f\<rparr>) k = chunk_length cf k"
  by (simp_all add: padding_def data_end_def chunk_length_def nb_block_def nb_padding_def Let_def)

lemma written_header_writer:
  assumes "chunk_owner cf h s nx ok" "chunk_owner (cf\<lparr>writeHeaderFunc := f\<rparr>) h' s nx ok"
    "chunk_owner.written cf h s nx o0 e0 d st" "d \<noteq> []" "length d \<le> maxBodySize cf"
    "cm_env st = e0" "cm_out st = o0"
  shows "chunk_owner.written (cf\<lparr>writeHeaderFunc := f\<rparr>) h' s nx o0 e0 d st"
proof -
  obtain ds d1 where w: "d = concat ds @ d1" "\<forall>p\<in>set ds. length p = maxBodySize cf"
      "0 < length d1" "length d1 \<le> maxBodySize cf"
    and st: "if length d1 < maxBodySize cf then
           cm_pendingChunk st = None \<and> cm_cursor st = length d1 \<and>
           (\<exists>c. cm_chunk st = Some c \<and> length c = chunkSize cf \<and>
              subarray c (dataOffset cf) (dataOffset cf + length d1) = d1)
         else cm_chunk st = None \<and> cm_cursor st = 0 \<and> cm_dataEnd st = data_end cf (length d1) \<and>
           (\<exists>b. cm_pendingChunk st = Some b \<and> chunk_owner.holds_body cf d1 b)"
    using assms(3,4) unfolding chunk_owner.written_def [OF assms(1)] by blast
  have "ds = []" using w assms(5) by (cases ds) auto
  with w(1) have d: "d1 = d" by simp
  have m: "0 < maxBodySize cf" using w(3,4) by linarith
  note st = st [unfolded d chunk_owner.holds_body_def [OF assms(1)]]
  show ?thesis
    unfolding chunk_owner.written_def [OF assms(2)] chunk_owner.holds_body_def [OF assms(2)]
    by (rule disjI2, rule exI [of _ "[]"], rule exI [of _ d], cases "length d < maxBodySize cf")
      (use w(3,4) st assms(6,7) in \<open>simp_all add: m d header_writer_irrelevant\<close>)
qed

end
