(* ===== verification/Secure_Chunks.thy ===== *)
theory Secure_Chunks
  imports Stream_Codec Message_Header Sequence_Numbers Chunk_Manager
begin

text \<open>
  \<^verbatim>\<open>SecureMessageChunkManager\<close> of \<^verbatim>\<open>node-opcua-secure-channel\<close> with the security
  headers of \<^verbatim>\<open>node-opcua-service-secure-channel\<close>: it owns a \<^verbatim>\<open>ChunkManager\<close>, to
  which it gives the functions that write the message header, the security header and the sequence
  header of a chunk. Signature and encryption are parameters (fields of the options). An
  \<^verbatim>\<open>encode\<close> method, which the code runs on a stream and on a size calculator alike, is
  the list of the writes it makes.
\<close>

section \<open>Security headers\<close>

record asymmetric_header =
  ah_securityPolicyUri :: "js_string option"
  ah_senderCertificate :: "buffer option"
  ah_receiverCertificateThumbprint :: "buffer option"

datatype security_header =
    AsymmetricAlgorithmSecurityHeader asymmetric_header
  | SymmetricAlgorithmSecurityHeader nat

fun security_header_ops :: "security_header \<Rightarrow> stream_op list" where
  "security_header_ops (AsymmetricAlgorithmSecurityHeader h) =
     [OpString (ah_securityPolicyUri h), OpByteStream (ah_senderCertificate h),
      OpByteStream (ah_receiverCertificateThumbprint h)]"
| "security_header_ops (SymmetricAlgorithmSecurityHeader tokenId) = [OpUInt32 (int tokenId)]"

definition encode_security_header :: "security_header \<Rightarrow> bstream \<Rightarrow> bstream result" where
  "encode_security_header h = apply_ops (security_header_ops h)"

definition binaryStoreSize :: "stream_op list \<Rightarrow> nat" where
  "binaryStoreSize ops = fold size_op ops 0"

definition decode_asymmetric :: "bstream \<Rightarrow> (security_header \<times> bstream) result" where
  "decode_asymmetric st =
     rbind (readString st) (\<lambda>(uri, st1). rbind (readByteStream st1) (\<lambda>(cert, st2).
       rbind (readByteStream st2) (\<lambda>(thumb, st3).
         Inr (AsymmetricAlgorithmSecurityHeader \<lparr>ah_securityPolicyUri = uri, ah_senderCertificate = cert,
                ah_receiverCertificateThumbprint = thumb\<rparr>, st3))))"

definition decode_symmetric :: "bstream \<Rightarrow> (security_header \<times> bstream) result" where
  "decode_symmetric st =
     rbind (readUInt32 st) (\<lambda>(t, st1). Inr (SymmetricAlgorithmSecurityHeader t, st1))"

definition decode_security_header :: "string \<Rightarrow> bstream \<Rightarrow> (security_header \<times> bstream) result" where
  "decode_security_header msgType =
     (if msgType = ''OPN'' then decode_asymmetric else decode_symmetric)"

section \<open>The secure message chunk manager\<close>

record secure_options =
  so_chunkSize :: nat
  so_requestId :: nat
  so_signatureLength :: nat
  so_plainBlockSize :: nat
  so_cipherBlockSize :: nat
  so_encryptBufferFunc :: "(buffer \<Rightarrow> buffer) option"
  so_signBufferFunc :: "(buffer \<Rightarrow> buffer) option"
  so_uninitialized :: "nat \<Rightarrow> buffer"

datatype chunk_event = ChunkOut buffer bool | Finished

record secure_chunker =
  sc_aborted :: bool
  sc_msgType :: string
  sc_channelId :: nat
  sc_securityHeader :: security_header
  sc_requestId :: nat
  sc_config :: "nat cm_config"
  sc_chunks :: "nat cm_state"

definition write_header :: "string \<Rightarrow> nat \<Rightarrow> security_header \<Rightarrow> char \<Rightarrow> buffer \<Rightarrow> nat \<Rightarrow> buffer result" where
  "write_header msgType channelId securityHeader finalC buffer len =
     rbind (assert_js (length buffer > 12)) (\<lambda>_.
       rbind (apply_ops [OpUInt8 (charCodeAt msgType 0), OpUInt8 (charCodeAt msgType 1),
                OpUInt8 (charCodeAt msgType 2), OpUInt8 (of_char finalC),
                OpUInt32 (int len), OpUInt32 (int channelId)] (open_stream buffer))
         (\<lambda>st. rbind (assert_js (bs_length st = 12))
            (\<lambda>_. rbind (encode_security_header securityHeader st) (\<lambda>st1. Inr (bs_buffer st1)))))"

definition writeSequenceHeader :: "nat \<Rightarrow> nat \<Rightarrow> buffer \<Rightarrow> (buffer \<times> nat) result" where
  "writeSequenceHeader requestId generator buffer =
     (let (n, generator') = seq_next generator in
      rbind (encode_sequence_header \<lparr>sh_sequenceNumber = n, sh_requestId = requestId\<rparr> (open_stream buffer))
        (\<lambda>st. Inr (bs_buffer st, generator')))"

definition final_char :: "bool \<Rightarrow> bool \<Rightarrow> char" where
  "final_char aborted isLast = (if aborted then CHR ''A'' else if isLast then CHR ''F'' else CHR ''C'')"

definition new_secure_chunker ::
    "mode \<Rightarrow> string \<Rightarrow> nat \<Rightarrow> secure_options \<Rightarrow> security_header \<Rightarrow> nat \<Rightarrow> secure_chunker result" where
  "new_secure_chunker m msgType channelId options securityHeader generator =
     (let msgType = (if msgType = [] then ''OPN'' else msgType);
          size = (if so_chunkSize options = 0 then 8192 else so_chunkSize options);
          requestId = so_requestId options;
          headerSize = 12 + binaryStoreSize (security_header_ops securityHeader)
      in rbind (assert_js (requestId > 0)) (\<lambda>_.
           rbind (new_chunk_manager m
              \<lparr>opt_chunkSize = size, opt_headerSize = headerSize,
               opt_signatureLength = so_signatureLength options, opt_sequenceHeaderSize = Some 8,
               opt_cipherBlockSize = so_cipherBlockSize options,
               opt_plainBlockSize = so_plainBlockSize options,
               opt_writeHeaderFunc =
                 (\<lambda>b isLast n. write_header msgType channelId securityHeader (final_char False isLast) b n),
               opt_writeSequenceHeaderFunc = writeSequenceHeader requestId,
               opt_signBufferFunc = so_signBufferFunc options,
               opt_encryptBufferFunc = so_encryptBufferFunc options,
               opt_uninitialized = so_uninitialized options\<rparr> generator)
             (\<lambda>(cf, st). Inr \<lparr>sc_aborted = False, sc_msgType = msgType, sc_channelId = channelId,
                sc_securityHeader = securityHeader, sc_requestId = requestId, sc_config = cf, sc_chunks = st\<rparr>)))"

text \<open>The header writer is a closure over \<^verbatim>\<open>this.#aborted\<close>: it sees the flag as it is when a
  chunk is pushed.\<close>

definition live_config :: "secure_chunker \<Rightarrow> nat cm_config" where
  "live_config sc = (sc_config sc)\<lparr>writeHeaderFunc :=
     (\<lambda>b isLast n. write_header (sc_msgType sc) (sc_channelId sc) (sc_securityHeader sc)
        (final_char (sc_aborted sc) isLast) b n)\<rparr>"

text \<open>The chunk manager's output is a log: the events forwarded are the new entries.\<close>

definition forward_chunks :: "secure_chunker \<Rightarrow> nat cm_state \<Rightarrow> secure_chunker \<times> chunk_event list" where
  "forward_chunks sc st =
     (sc\<lparr>sc_chunks := st\<rparr>,
      map (\<lambda>(chunk, isLast). ChunkOut chunk (isLast \<or> sc_aborted sc))
        (drop (length (cm_out (sc_chunks sc))) (cm_out st)))"

definition sc_write ::
    "buffer \<Rightarrow> nat option \<Rightarrow> secure_chunker \<Rightarrow> (secure_chunker \<times> chunk_event list) result option" where
  "sc_write buffer len sc =
     (let l = (case len of None \<Rightarrow> length buffer | Some n \<Rightarrow> if n = 0 then length buffer else n) in
      case cm_write (live_config sc) buffer (Some l) (sc_chunks sc) of
        None \<Rightarrow> None
      | Some r \<Rightarrow> Some (rbind r (\<lambda>st. Inr (forward_chunks sc st))))"

definition sc_end :: "secure_chunker \<Rightarrow> (secure_chunker \<times> chunk_event list) result" where
  "sc_end sc =
     rbind (cm_end (live_config sc) (sc_chunks sc))
       (\<lambda>st. let (sc1, evs) = forward_chunks sc st in Inr (sc1, evs @ [Finished]))"

definition sc_abort :: "secure_chunker \<Rightarrow> (secure_chunker \<times> chunk_event list) result" where
  "sc_abort sc = sc_end (sc\<lparr>sc_aborted := True\<rparr>)"

section \<open>The bytes of the headers\<close>

definition security_header_bytes :: "security_header \<Rightarrow> buffer" where
  "security_header_bytes h = (case h of
     AsymmetricAlgorithmSecurityHeader a \<Rightarrow> string_bytes (ah_securityPolicyUri a)
       @ byte_string_bytes (ah_senderCertificate a) @ byte_string_bytes (ah_receiverCertificateThumbprint a)
   | SymmetricAlgorithmSecurityHeader t \<Rightarrow> le_bytes 4 t)"

definition security_header_ok :: "security_header \<Rightarrow> bool" where
  "security_header_ok h = (case h of
     AsymmetricAlgorithmSecurityHeader a \<Rightarrow> string_ok (ah_securityPolicyUri a) \<and>
       byte_string_ok (ah_senderCertificate a) \<and> byte_string_ok (ah_receiverCertificateThumbprint a)
   | SymmetricAlgorithmSecurityHeader t \<Rightarrow> t < 2 ^ 32)"

definition char_byte :: "char \<Rightarrow> byte" where
  "char_byte c = of_nat (of_char c)"

definition char_byte_at :: "string \<Rightarrow> nat \<Rightarrow> byte" where
  "char_byte_at m i = of_nat (nat (charCodeAt m i))"

definition header_bytes :: "string \<Rightarrow> nat \<Rightarrow> security_header \<Rightarrow> char \<Rightarrow> nat \<Rightarrow> buffer" where
  "header_bytes msgType channelId securityHeader finalC n =
     [char_byte_at msgType 0, char_byte_at msgType 1, char_byte_at msgType 2, char_byte finalC]
     @ le_bytes 4 n @ le_bytes 4 channelId @ security_header_bytes securityHeader"

lemma emits_nil: "emits Inr []"
  by (simp add: emits_def overwrite_def)

lemma emits_ops_Nil [codec_intros]: "emits (apply_ops []) []"
  using emits_nil by (simp add: emits_def)

lemma emits_ops_Cons:
  "emits (apply_op p) x \<Longrightarrow> emits (apply_ops ps) y \<Longrightarrow> emits (apply_ops (p # ps)) (x @ y)"
  using emits_bind [of "apply_op p" x "apply_ops ps" y] by (simp add: emits_def)

lemma emits_ops_append:
  "emits (apply_ops ps) x \<Longrightarrow> emits (apply_ops qs) y \<Longrightarrow>
     emits (\<lambda>st. rbind (apply_ops ps st) (apply_ops qs)) (x @ y)"
  by (rule emits_bind)

lemma emits_security_header:
  assumes "security_header_ok h"
  shows "emits (encode_security_header h) (security_header_bytes h)"
proof (cases h)
  case (AsymmetricAlgorithmSecurityHeader a)
  with assms have "emits (apply_ops (security_header_ops h))
     (string_bytes (ah_securityPolicyUri a) @ byte_string_bytes (ah_senderCertificate a)
       @ byte_string_bytes (ah_receiverCertificateThumbprint a) @ [])"
    unfolding AsymmetricAlgorithmSecurityHeader security_header_ops.simps
    by (intro emits_ops_Cons codec_intros) (simp_all add: security_header_ok_def codec_intros)
  with AsymmetricAlgorithmSecurityHeader show ?thesis
    by (simp add: security_header_bytes_def encode_security_header_def)
next
  case (SymmetricAlgorithmSecurityHeader t)
  with assms have "emits (apply_ops (security_header_ops h)) (le_bytes 4 t @ [])"
    unfolding SymmetricAlgorithmSecurityHeader security_header_ops.simps
    by (intro emits_ops_Cons codec_intros) (simp_all add: security_header_ok_def codec_intros)
  with SymmetricAlgorithmSecurityHeader show ?thesis
    by (simp add: security_header_bytes_def encode_security_header_def)
qed

lemma binaryStoreSize_security_header:
  "security_header_ok h \<Longrightarrow> binaryStoreSize (security_header_ops h) = length (security_header_bytes h)"
  by (auto simp: binaryStoreSize_def security_header_bytes_def security_header_ok_def string_bytes_def
      byte_string_bytes_def string_ok_def calculateByteLength_wf split: security_header.splits option.splits)

text \<open>Encoding and decoding the security headers.\<close>

lemma parses_security_header:
  assumes "security_header_ok h" "msgType = ''OPN'' \<longleftrightarrow> (\<exists>a. h = AsymmetricAlgorithmSecurityHeader a)"
  shows "parses (decode_security_header msgType) (security_header_bytes h) h"
proof (cases h)
  case (AsymmetricAlgorithmSecurityHeader a)
  obtain u c t where a: "a = \<lparr>ah_securityPolicyUri = u, ah_senderCertificate = c,
      ah_receiverCertificateThumbprint = t\<rparr>" by (cases a)
  have ok: "string_ok u" "byte_string_ok c" "byte_string_ok t"
    using assms(1) by (simp_all add: security_header_ok_def AsymmetricAlgorithmSecurityHeader a)
  have "parses decode_asymmetric (string_bytes u @ byte_string_bytes c @ byte_string_bytes t @ []) h"
    unfolding decode_asymmetric_def AsymmetricAlgorithmSecurityHeader a
    by (rule parses_bind parses_readString parses_readByteStream ok parses_return)+
  with AsymmetricAlgorithmSecurityHeader assms(2) a show ?thesis
    by (simp add: decode_security_header_def security_header_bytes_def)
next
  case (SymmetricAlgorithmSecurityHeader t)
  have ok: "t < 2 ^ 32"
    using assms(1) by (simp add: security_header_ok_def SymmetricAlgorithmSecurityHeader)
  have "parses decode_symmetric (le_bytes 4 t @ []) h"
    unfolding decode_symmetric_def SymmetricAlgorithmSecurityHeader
    by (rule parses_bind parses_readUInt32 ok parses_return)+
  with SymmetricAlgorithmSecurityHeader assms(2) show ?thesis
    by (simp add: decode_security_header_def security_header_bytes_def)
qed


section \<open>The manager honours the contract of its chunk manager\<close>

lemma of_char_less: "of_char c < (256 :: nat)"
  by (metis mod_less_divisor of_char_mod_256 zero_less_numeral)

lemma char_code_bounds: "0 \<le> charCodeAt m i" "charCodeAt m i < 256"
  using of_char_less [of "m ! i"] of_nat_of_char [of "m ! i", where ?'a = int, symmetric]
  by (simp_all add: charCodeAt_def)

lemma emits_charCode [codec_intros]: "emits (writeUInt8 (charCodeAt m i)) [char_byte_at m i]"
proof -
  have "emits (writeUInt8 (int (nat (charCodeAt m i)))) [of_nat (nat (charCodeAt m i))]"
    using char_code_bounds [of m i] by (intro emits_writeUInt8) linarith
  then show ?thesis using char_code_bounds [of m i] by (simp add: char_byte_at_def)
qed

lemma emits_char [codec_intros]: "emits (writeUInt8 (of_char c)) [char_byte c]"
  using emits_writeUInt8 [OF of_char_less, of c] by (simp add: char_byte_def of_nat_of_char)

lemma length_header_bytes [simp]:
  "length (header_bytes m c sh f n) = 12 + length (security_header_bytes sh)"
  by (simp add: header_bytes_def)

lemma security_header_bytes_length: "4 \<le> length (security_header_bytes h)"
  by (auto simp: security_header_bytes_def string_bytes_def split: security_header.split option.split)

lemma overwrite_all: "length b = length x \<Longrightarrow> overwrite b 0 x = x"
  by (simp add: overwrite_def)

lemma write_header_ok:
  assumes "security_header_ok sh" "c < 2 ^ 32" "n < 2 ^ 32"
    "length b = 12 + length (security_header_bytes sh)"
  shows "write_header m c sh f b n = Inr (header_bytes m c sh f n)"
proof -
  let ?ops = "[OpUInt8 (charCodeAt m 0), OpUInt8 (charCodeAt m 1), OpUInt8 (charCodeAt m 2),
     OpUInt8 (of_char f), OpUInt32 (int n), OpUInt32 (int c)]"
  let ?h = "[char_byte_at m 0] @ [char_byte_at m 1] @ [char_byte_at m 2] @ [char_byte f]
     @ le_bytes 4 n @ le_bytes 4 c @ []"
  let ?st = "\<lparr>bs_buffer = overwrite b 0 ?h, bs_length = 12\<rparr>"
  have e: "emits (apply_ops ?ops) ?h"
    using assms(2,3) by (intro emits_ops_Cons codec_intros) (simp_all only: apply_op.simps codec_intros)
  have "apply_ops ?ops (open_stream b) = Inr ((open_stream b)\<lparr>
      bs_buffer := overwrite (bs_buffer (open_stream b)) (bs_length (open_stream b)) ?h,
      bs_length := bs_length (open_stream b) + length ?h\<rparr>)"
    by (rule emitsD [OF e]) (use assms(4) in \<open>simp add: open_stream_def\<close>)
  then have a: "apply_ops ?ops (open_stream b) = Inr ?st" unfolding open_stream_def by simp
  have b: "encode_security_header sh ?st = Inr \<lparr>bs_buffer = header_bytes m c sh f n,
      bs_length = 12 + length (security_header_bytes sh)\<rparr>"
    using emits_security_header [OF assms(1)] assms(4) overwrite_twice [of 0 b ?h "security_header_bytes sh"]
    by (simp add: emits_def header_bytes_def overwrite_all)
  have "security_header_bytes sh \<noteq> []" using security_header_bytes_length [of sh] by auto
  then show ?thesis unfolding write_header_def a using assms(4) b by simp
qed

lemma emits_sequence_header:
  "sh_sequenceNumber h < 2 ^ 32 \<Longrightarrow> sh_requestId h < 2 ^ 32 \<Longrightarrow>
     emits (encode_sequence_header h) (sequence_header_bytes (sh_sequenceNumber h) (sh_requestId h))"
  unfolding encode_sequence_header_def sequence_header_bytes_def
  by (intro emits_bind codec_intros)

lemma writeSequenceHeader_ok:
  assumes "valid_generator g" "r < 2 ^ 32" "length b = 8"
  shows "writeSequenceHeader r g b = Inr (sequence_header_bytes g r, snd (seq_next g))"
proof -
  have "g < 2 ^ 32" using assms(1) by (simp add: valid_generator_def MAXVALUE_def)
  then have "encode_sequence_header \<lparr>sh_sequenceNumber = g, sh_requestId = r\<rparr> (open_stream b)
     = Inr \<lparr>bs_buffer = overwrite b 0 (sequence_header_bytes g r), bs_length = 8\<rparr>"
    using emits_sequence_header [of "\<lparr>sh_sequenceNumber = g, sh_requestId = r\<rparr>"] assms(2,3)
    by (simp add: emits_def open_stream_def sequence_header_bytes_def)
  then show ?thesis using assms(3)
    by (simp add: writeSequenceHeader_def seq_next_def Let_def overwrite_all sequence_header_bytes_def)
qed

text \<open>What the manager relies on: sizes that fit their fields, and the documented lengths of the
  crypto functions' results.\<close>

definition crypto_contract :: "mode \<Rightarrow> secure_options \<Rightarrow> bool" where
  "crypto_contract m o' \<longleftrightarrow>
     (m = ModeNone \<or> so_signBufferFunc o' = None \<longrightarrow> so_signatureLength o' = 0) \<and>
     (\<forall>sg b. m \<noteq> ModeNone \<longrightarrow> so_signBufferFunc o' = Some sg \<longrightarrow>
        0 < so_signatureLength o' \<and> length (sg b) = so_signatureLength o') \<and>
     (\<forall>en b. so_encryptBufferFunc o' = Some en \<longrightarrow> length b mod so_plainBlockSize o' = 0 \<longrightarrow>
        length (en b) = length b div so_plainBlockSize o' * so_cipherBlockSize o') \<and>
     (\<forall>n. length (so_uninitialized o' n) = n) \<and>
     so_plainBlockSize o' \<le> so_cipherBlockSize o' \<and> so_plainBlockSize o' \<le> 65536"

definition sender_sizes :: "nat \<Rightarrow> secure_options \<Rightarrow> security_header \<Rightarrow> bool" where
  "sender_sizes channelId o' sh \<longleftrightarrow>
     security_header_ok sh \<and> channelId < 2 ^ 32 \<and> so_requestId o' < 2 ^ 32 \<and> so_chunkSize o' < 2 ^ 32"

definition sc_header :: "secure_chunker \<Rightarrow> bool \<Rightarrow> nat \<Rightarrow> buffer" where
  "sc_header sc l n = header_bytes (sc_msgType sc) (sc_channelId sc) (sc_securityHeader sc)
     (final_char (sc_aborted sc) l) n"

definition sc_sequence :: "secure_chunker \<Rightarrow> nat \<Rightarrow> buffer" where
  "sc_sequence sc g = sequence_header_bytes g (sc_requestId sc)"

definition sc_next :: "nat \<Rightarrow> nat" where
  "sc_next g = snd (seq_next g)"

lemma new_secure_chunker_simps:
  assumes "new_secure_chunker m msgType ch o' sh g = Inr sc" "security_header_ok sh"
  shows "sc_aborted sc = False" "sc_msgType sc = (if msgType = [] then ''OPN'' else msgType)"
    "sc_channelId sc = ch" "sc_securityHeader sc = sh" "sc_requestId sc = so_requestId o'"
    "securityMode (sc_config sc) = m" "headerSize (sc_config sc) = 12 + length (security_header_bytes sh)"
    "chunkSize (sc_config sc) = (if so_chunkSize o' = 0 then 8192 else so_chunkSize o')"
    "signatureLength (sc_config sc) = so_signatureLength o'" "sequenceHeaderSize (sc_config sc) = 8"
    "cipherBlockSize (sc_config sc) = so_cipherBlockSize o'"
    "plainBlockSize (sc_config sc) = so_plainBlockSize o'"
    "writeSequenceHeaderFunc (sc_config sc) = writeSequenceHeader (so_requestId o')"
    "signBufferFunc (sc_config sc) = so_signBufferFunc o'"
    "encryptBufferFunc (sc_config sc) = (if so_cipherBlockSize o' = 0 then None else so_encryptBufferFunc o')"
    "uninitialized (sc_config sc) = so_uninitialized o'"
    "sc_chunks sc = \<lparr>cm_chunk = None, cm_cursor = 0, cm_pendingChunk = None, cm_dataEnd = 0,
       cm_env = g, cm_out = []\<rparr>"
  using assms
  by (auto simp: new_secure_chunker_def new_chunk_manager_def Let_def binaryStoreSize_security_header)

lemma new_secure_chunker_config_wf:
  assumes "new_secure_chunker m msgType ch o' sh g = Inr sc" "crypto_contract m o'"
  shows "cm_wf (sc_config sc)"
proof -
  have p: "so_plainBlockSize o' \<le> so_cipherBlockSize o'" "so_plainBlockSize o' \<le> 65536"
    using assms(2) by (simp_all add: crypto_contract_def)
  from assms(1) obtain opts st where o: "new_chunk_manager m opts g = Inr (sc_config sc, st)"
    "opt_plainBlockSize opts = so_plainBlockSize o'" "opt_cipherBlockSize opts = so_cipherBlockSize o'"
    unfolding new_secure_chunker_def Let_def rbind_eq_Inr by (auto split: prod.splits)
  show ?thesis by (rule new_chunk_manager_wf [OF o(1)]) (simp_all add: o p)
qed

text \<open>The manager of a secure channel is an owner in the sense of \<open>chunk_owner\<close>, aborted or not.\<close>

lemma secure_chunk_owner:
  assumes "new_secure_chunker m msgType ch o' sh g = Inr sc0" "crypto_contract m o'" "sender_sizes ch o' sh"
    "sc = sc0\<lparr>sc_aborted := a, sc_chunks := st\<rparr>"
  shows "chunk_owner (live_config sc) (sc_header sc) (sc_sequence sc) sc_next valid_generator"
proof -
  have sh: "security_header_ok sh" "ch < 2 ^ 32" "so_requestId o' < 2 ^ 32" "so_chunkSize o' < 2 ^ 32"
    using assms(3) by (simp_all add: sender_sizes_def)
  note cf = new_secure_chunker_simps [OF assms(1) sh(1)]
  have wf: "cm_wf (sc_config sc0)" by (rule new_secure_chunker_config_wf [OF assms(1,2)])
  have small: "chunkSize (sc_config sc0) < 2 ^ 32" using sh(4) cf(8) by simp
  have c: "live_config sc = (sc_config sc0)\<lparr>writeHeaderFunc :=
     (\<lambda>b isLast n. write_header (sc_msgType sc0) ch sh (final_char a isLast) b n)\<rparr>"
    by (simp add: live_config_def assms(4) cf)
  have s: "sc_msgType sc = sc_msgType sc0" "sc_channelId sc = ch" "sc_securityHeader sc = sh"
    "sc_aborted sc = a" "sc_requestId sc = so_requestId o'" by (simp_all add: assms(4) cf)
  show ?thesis
  proof unfold_locales
    show "cm_wf (live_config sc)" using wf by (simp add: c cm_wf_def)
  next
    fix b :: buffer and n l
    assume "length b = headerSize (live_config sc)" "n \<le> chunkSize (live_config sc)"
    then show "writeHeaderFunc (live_config sc) b l n = Inr (sc_header sc l n)"
      using sh small by (simp add: c cf(7) write_header_ok sc_header_def s)
  next
    fix b :: buffer and env
    assume "length b = sequenceHeaderSize (live_config sc)" "valid_generator env"
    then show "writeSequenceHeaderFunc (live_config sc) env b = Inr (sc_sequence sc env, sc_next env)"
      using sh(3) by (simp add: c cf writeSequenceHeader_ok sc_sequence_def sc_next_def s)
  next
    show "length (sc_header sc l n) = headerSize (live_config sc)" for n l
      by (simp add: sc_header_def c cf s)
  next
    show "length (sc_sequence sc env) = sequenceHeaderSize (live_config sc)" for env
      by (simp add: sc_sequence_def c cf sequence_header_bytes_def)
  next
    show "valid_generator env \<Longrightarrow> valid_generator (sc_next env)" for env
      by (simp add: sc_next_def seq_next_valid)
  qed (use assms(2) in \<open>auto simp: c cf crypto_contract_def split: if_splits\<close>)
qed


text \<open>The chunks of a message: the specification of \<^verbatim>\<open>write\<close> followed by \<^verbatim>\<open>end\<close>.\<close>

definition message_chunks :: "secure_chunker \<Rightarrow> nat \<Rightarrow> buffer \<Rightarrow> (buffer \<times> bool) list" where
  "message_chunks sc g d =
     emit (live_config sc) (sc_header sc) (sc_sequence sc) sc_next True g
       (pieces (maxBodySize (sc_config sc)) d)"

lemma maxBodySize_live [simp]: "maxBodySize (live_config sc) = maxBodySize (sc_config sc)"
  by (simp add: live_config_def)

lemma secure_fresh:
  assumes "new_secure_chunker m msgType ch o' sh g = Inr sc" "crypto_contract m o'" "sender_sizes ch o' sh"
  shows "chunk_owner (live_config sc) (sc_header sc) (sc_sequence sc) sc_next valid_generator"
    and "chunk_owner.written (live_config sc) (sc_header sc) (sc_sequence sc) sc_next [] g [] (sc_chunks sc)"
    and "cm_out (sc_chunks sc) = []" and "sc_aborted sc = False"
proof -
  have sh: "security_header_ok sh" using assms(3) by (simp add: sender_sizes_def)
  note cf = new_secure_chunker_simps [OF assms(1) sh]
  show own: "chunk_owner (live_config sc) (sc_header sc) (sc_sequence sc) sc_next valid_generator"
    by (rule secure_chunk_owner [OF assms, where a = False and st = "sc_chunks sc"]) (simp add: cf(1) [symmetric])
  show "chunk_owner.written (live_config sc) (sc_header sc) (sc_sequence sc) sc_next [] g [] (sc_chunks sc)"
    by (simp add: chunk_owner.written_def [OF own] cf)
  show "cm_out (sc_chunks sc) = []" "sc_aborted sc = False" by (simp_all add: cf)
qed

lemma live_config_chunks [simp]:
  "live_config (sc\<lparr>sc_chunks := st\<rparr>) = live_config sc"
  "sc_header (sc\<lparr>sc_chunks := st\<rparr>) = sc_header sc"
  "sc_sequence (sc\<lparr>sc_chunks := st\<rparr>) = sc_sequence sc"
  by (simp_all add: live_config_def sc_header_def sc_sequence_def fun_eq_iff)

lemma cm_write_some: "d \<noteq> [] \<Longrightarrow> cm_write cf d (Some (length d)) st = cm_write cf d None st"
  by (simp add: cm_write_def)

lemma secure_message:
  assumes "new_secure_chunker m msgType ch o' sh g = Inr sc" "crypto_contract m o'" "sender_sizes ch o' sh"
    "valid_generator g" "d \<noteq> []"
  obtains sc1 evs1 sc2 evs2 where "sc_write d None sc = Some (Inr (sc1, evs1))"
    "sc_end sc1 = Inr (sc2, evs2)"
    "evs1 @ evs2 = map (\<lambda>(c, l). ChunkOut c l) (message_chunks sc g d) @ [Finished]"
    "cm_env (sc_chunks sc2) = (sc_next ^^ length (message_chunks sc g d)) g"
    "cm_cursor (sc_chunks sc2) = 0" "cm_pendingChunk (sc_chunks sc2) = None"
proof -
  note fr = secure_fresh [OF assms(1-3)]
  obtain st1 where w: "cm_write (live_config sc) d None (sc_chunks sc) = Some (Inr st1)"
    "chunk_owner.written (live_config sc) (sc_header sc) (sc_sequence sc) sc_next [] g ([] @ d) st1"
    using chunk_owner.cm_write_ok [OF fr(1,2) assms(4,5)] by blast
  obtain st2 where e: "cm_end (live_config sc) st1 = Inr st2"
    "chunk_owner.written (live_config sc) (sc_header sc) (sc_sequence sc) sc_next
       ([] @ message_chunks sc g d) ((sc_next ^^ length (message_chunks sc g d)) g) [] st2"
    using chunk_owner.cm_end_ok [OF fr(1) w(2) assms(4)] unfolding message_chunks_def by auto
  have pre: "cm_out st1 = take (length (cm_out st1)) (message_chunks sc g d)"
    using chunk_owner.written_prefix [OF fr(1) w(2)] by (simp add: message_chunks_def)
  have idle: "cm_out st2 = message_chunks sc g d"
     "cm_env st2 = (sc_next ^^ length (message_chunks sc g d)) g" "cm_cursor st2 = 0"
     "cm_pendingChunk st2 = None"
    using e(2) by (auto simp: chunk_owner.written_def [OF fr(1)])
  let ?f = "\<lambda>(c, l). ChunkOut c l"
  show ?thesis
  proof (rule that [of "sc\<lparr>sc_chunks := st1\<rparr>" "map ?f (cm_out st1)" "sc\<lparr>sc_chunks := st2\<rparr>"
        "map ?f (drop (length (cm_out st1)) (message_chunks sc g d)) @ [Finished]"])
    show "sc_write d None sc = Some (Inr (sc\<lparr>sc_chunks := st1\<rparr>, map ?f (cm_out st1)))"
      using w(1) assms(5) fr(3,4) by (simp add: sc_write_def forward_chunks_def cm_write_some)
    show "sc_end (sc\<lparr>sc_chunks := st1\<rparr>) = Inr (sc\<lparr>sc_chunks := st2\<rparr>,
        map ?f (drop (length (cm_out st1)) (message_chunks sc g d)) @ [Finished])"
      using e(1) fr(4) idle by (simp add: sc_end_def forward_chunks_def)
    show "map ?f (cm_out st1) @ map ?f (drop (length (cm_out st1)) (message_chunks sc g d)) @ [Finished]
        = map ?f (message_chunks sc g d) @ [Finished]"
      by (subst pre) (metis append_assoc append_take_drop_id map_append)
  qed (simp_all add: idle)
qed


lemma flags_emit: "map snd (emit cf h s nx closing env ps) = (if ps = [] then [] else
   replicate (length ps - 1) False @ [closing])"
  by (induction ps arbitrary: env) (auto simp: frame_def neq_Nil_conv)

lemma message_chunk_header:
  assumes "new_secure_chunker m msgType ch o' sh g = Inr sc" "crypto_contract m o'" "sender_sizes ch o' sh"
    "valid_generator g'" "(c, l) \<in> set (message_chunks sc g' d)"
  shows "length c \<le> chunkSize (sc_config sc)" "16 \<le> length c"
    "take 12 c = [char_byte_at (sc_msgType sc) 0, char_byte_at (sc_msgType sc) 1,
        char_byte_at (sc_msgType sc) 2, char_byte (final_char False l)] @ le_bytes 4 (length c) @ le_bytes 4 ch"
proof -
  have sh: "security_header_ok sh" using assms(3) by (simp add: sender_sizes_def)
  note own = secure_fresh(1) [OF assms(1-3)] and na = secure_fresh(4) [OF assms(1-3)]
  note cf = new_secure_chunker_simps [OF assms(1) sh]
  have ps: "\<forall>p\<in>set (pieces (maxBodySize (live_config sc)) d). length p \<le> maxBodySize (live_config sc)"
    using pieces_length by blast
  note e = chunk_owner.emitted_chunk [OF own assms(5) [unfolded message_chunks_def] assms(4)] 
  have e: "length c \<le> chunkSize (live_config sc)" "take (headerSize (live_config sc)) c = sc_header sc l (length c)"
     "headerSize (live_config sc) \<le> length c"
    using e ps by simp_all
  have hs: "headerSize (live_config sc) = 12 + length (security_header_bytes sh)"
    by (simp add: live_config_def cf)
  show "length c \<le> chunkSize (sc_config sc)" using e(1) by (simp add: live_config_def)
  show "16 \<le> length c" using e(3) hs security_header_bytes_length [of sh] by linarith
  have "take 12 c = take 12 (take (headerSize (live_config sc)) c)" by (simp add: hs)
  then show "take 12 c = [char_byte_at (sc_msgType sc) 0, char_byte_at (sc_msgType sc) 1,
        char_byte_at (sc_msgType sc) 2, char_byte (final_char False l)] @ le_bytes 4 (length c) @ le_bytes 4 ch"
    unfolding e(2) by (simp add: sc_header_def header_bytes_def na cf)
qed

text \<open>The receiving assembler cuts the concatenated chunks where they were joined.\<close>

lemma split_concat:
  "\<forall>c\<in>set cs. 8 \<le> length c \<and> length c \<le> n \<and> le_value (subarray c 4 8) = length c \<Longrightarrow>
     split_stream (builder_assembler n) (concat cs) = (cs, Incomplete [])"
proof (induction cs)
  case Nil
  show ?case using asm.split_short [of "[]" n] by (simp add: builder_assembler_def)
next
  case (Cons c cs)
  have c: "8 \<le> length c" "length c \<le> n" "le_value (subarray c 4 8) = length c" using Cons.prems by auto
  have l: "pi_length (readChunkFunc (builder_assembler n) (c @ x)) = length c" for x
    using c by (simp add: builder_assembler_def readRaw_prefix readRaw_length)
  have "split_stream (builder_assembler n) (c @ concat cs)
      = (take (length c) (c @ concat cs) # fst (split_stream (builder_assembler n) (drop (length c) (c @ concat cs))),
         snd (split_stream (builder_assembler n) (drop (length c) (c @ concat cs))))"
    by (rule asm.split_complete) (simp_all only: l, use c in \<open>simp_all add: builder_assembler_def\<close>)
  then show ?case using Cons by simp
qed

lemma message_chunks_split:
  assumes "new_secure_chunker m msgType ch o' sh g = Inr sc" "crypto_contract m o'" "sender_sizes ch o' sh"
    "valid_generator g'" "chunkSize (sc_config sc) \<le> n"
  shows "split_stream (builder_assembler n) (concat (map fst (message_chunks sc g' d)))
    = (map fst (message_chunks sc g' d), Incomplete [])"
proof (rule split_concat, intro ballI)
  fix c assume "c \<in> set (map fst (message_chunks sc g' d))"
  then obtain l where cl: "(c, l) \<in> set (message_chunks sc g' d)" by auto
  note h = message_chunk_header [OF assms(1-4) cl]
  have "so_chunkSize o' < 2 ^ 32" "security_header_ok sh" using assms(3) by (simp_all add: sender_sizes_def)
  with new_secure_chunker_simps(8) [OF assms(1)] have small: "chunkSize (sc_config sc) < 2 ^ 32" by simp
  have "subarray c 4 8 = drop 4 (take 8 (take 12 c))" using h(2) by (simp add: subarray_def take_drop)
  also have "\<dots> = le_bytes 4 (length c)" unfolding h(3) by simp
  finally have "subarray c 4 8 = le_bytes 4 (length c)" .
  then show "8 \<le> length c \<and> length c \<le> n \<and> le_value (subarray c 4 8) = length c"
    using h(1,2) assms(5) small by simp
qed


text \<open>Aborting: the chunk at hand is the last one.\<close>

lemma secure_abort:
  assumes "new_secure_chunker m msgType ch o' sh g = Inr sc" "crypto_contract m o'" "sender_sizes ch o' sh"
    "valid_generator g" "d \<noteq> []" "sc_write d None sc = Some (Inr (sc1, evs1))"
  shows "\<exists>sc2 c. sc_abort sc1 = Inr (sc2, [ChunkOut c True, Finished])
     \<and> take 12 c = [char_byte_at (sc_msgType sc) 0, char_byte_at (sc_msgType sc) 1,
        char_byte_at (sc_msgType sc) 2, char_byte CHR ''A''] @ le_bytes 4 (length c) @ le_bytes 4 ch
     \<and> (\<forall>c' l. ChunkOut c' l \<in> set evs1 \<longrightarrow> \<not> l)"
proof -
  have sh: "security_header_ok sh" using assms(3) by (simp add: sender_sizes_def)
  note fr = secure_fresh [OF assms(1-3)] and cf = new_secure_chunker_simps [OF assms(1) sh]
  obtain st1 where w: "cm_write (live_config sc) d None (sc_chunks sc) = Some (Inr st1)"
    "chunk_owner.written (live_config sc) (sc_header sc) (sc_sequence sc) sc_next [] g ([] @ d) st1"
    using chunk_owner.cm_write_ok [OF fr(1,2) assms(4,5)] by blast
  have sc1: "sc1 = sc\<lparr>sc_chunks := st1\<rparr>" "evs1 = map (\<lambda>(c, l). ChunkOut c l) (cm_out st1)"
    using assms(5,6) w(1) fr(3,4) by (simp_all add: sc_write_def forward_chunks_def cm_write_some)
  define sa where "sa = sc\<lparr>sc_aborted := True, sc_chunks := st1\<rparr>"
  let ?max = "maxBodySize (sc_config sc)"
  let ?d = "last (pieces ?max d)"
  have own: "chunk_owner (live_config sa) (sc_header sa) (sc_sequence sa) sc_next valid_generator"
    unfolding sa_def by (rule secure_chunk_owner [OF assms(1-3)]) simp
  have l: "chunk_owner.written (live_config sc) (sc_header sc) (sc_sequence sc) sc_next (cm_out st1) (cm_env st1) ?d st1"
    "valid_generator (cm_env st1)" "?d \<noteq> []" "length ?d \<le> ?max"
    using chunk_owner.written_last [OF fr(1) w(2) _ assms(4)] assms(5) by simp_all
  have upd: "live_config sa = (live_config sc)\<lparr>writeHeaderFunc := writeHeaderFunc (live_config sa)\<rparr>"
    by (simp add: live_config_def sa_def)
  have sq: "sc_sequence sa = sc_sequence sc" by (simp add: sc_sequence_def fun_eq_iff sa_def)
  have own': "chunk_owner ((live_config sc)\<lparr>writeHeaderFunc := writeHeaderFunc (live_config sa)\<rparr>)
      (sc_header sa) (sc_sequence sc) sc_next valid_generator"
    using own unfolding sq by (subst upd [symmetric])
  have "chunk_owner.written (live_config sa) (sc_header sa) (sc_sequence sa) sc_next
      (cm_out st1) (cm_env st1) ?d st1"
    unfolding sq by (subst upd, rule written_header_writer [OF fr(1) own' l(1,3)]) (simp_all add: l(4))
  from chunk_owner.cm_end_ok [OF own this l(2)] obtain st2 where e: "cm_end (live_config sa) st1 = Inr st2"
    "chunk_owner.written (live_config sa) (sc_header sa) (sc_sequence sa) sc_next
      (cm_out st1 @ emit (live_config sa) (sc_header sa) (sc_sequence sa) sc_next True (cm_env st1)
         (pieces (maxBodySize (live_config sa)) ?d))
      ((sc_next ^^ length (pieces (maxBodySize (live_config sa)) ?d)) (cm_env st1)) [] st2" by blast
  have one: "pieces (maxBodySize (live_config sa)) ?d = [?d]"
    using pieces_unique [of ?d ?max "[]"] l(3,4) by (simp add: live_config_def sa_def)
  define c where "c = seal (live_config sa) (plain_chunk (live_config sa) (sc_header sa) (sc_sequence sa) True (cm_env st1) ?d)"
  have out: "cm_out st2 = cm_out st1 @ [(c, True)]"
    using e(2) unfolding one chunk_owner.written_def [OF own] by (auto simp: frame_def c_def)
  have "sc1\<lparr>sc_aborted := True\<rparr> = sa" "sc_aborted sa" "sc_chunks sa = st1" by (simp_all add: sa_def sc1(1))
  with e(1) out have ab: "sc_abort sc1 = Inr (sa\<lparr>sc_chunks := st2\<rparr>, [ChunkOut c True, Finished])"
    by (simp add: sc_abort_def sc_end_def forward_chunks_def)
  have hs: "headerSize (live_config sa) = 12 + length (security_header_bytes sh)"
    by (simp add: live_config_def cf sa_def)
  have "(c, True) \<in> set (emit (live_config sa) (sc_header sa) (sc_sequence sa) sc_next True (cm_env st1) [?d])"
    by (simp add: frame_def c_def)
  moreover have "\<forall>p\<in>set [?d]. length p \<le> maxBodySize (live_config sa)"
    using l(4) by (simp add: live_config_def sa_def)
  ultimately have "take (headerSize (live_config sa)) c = sc_header sa True (length c)"
    by (rule chunk_owner.emitted_chunk(2) [OF own _ l(2)])
  then have "take 12 c = take 12 (sc_header sa True (length c))"
    using hs by (metis le_add1 min.absorb1 take_take)
  then have h: "take 12 c = [char_byte_at (sc_msgType sc) 0, char_byte_at (sc_msgType sc) 1,
        char_byte_at (sc_msgType sc) 2, char_byte CHR ''A''] @ le_bytes 4 (length c) @ le_bytes 4 ch"
    by (simp add: sc_header_def header_bytes_def final_char_def cf sa_def)
  have "\<not> lf" if "ChunkOut c' lf \<in> set evs1" for c' lf
    using chunk_owner.written_flags [OF fr(1) w(2)] that sc1(2) by auto
  with ab h show ?thesis by blast
qed


lemma chunks_survive_transport_lemma:
  assumes "new_secure_chunker m msgType ch o' sh g0 = Inr sc" "crypto_contract m o'" "sender_sizes ch o' sh"
    "valid_generator g" "chunkSize (sc_config sc) \<le> n"
    "concat fragments = concat (map fst (message_chunks sc g d))"
  shows "\<exists>s evs. feed_all (builder_assembler n) empty_assembler fragments = Some (Inr (s, evs))
     \<and> chunks_of evs = map fst (message_chunks sc g d) \<and> errors_of evs = [] \<and> pending s = []"
proof -
  have e: "pending empty_assembler = []" by (simp add: pending_def empty_assembler_def)
  have "split_stream (builder_assembler n) (concat fragments) = (map fst (message_chunks sc g d), Incomplete [])"
    unfolding assms(6) by (rule message_chunks_split [OF assms(1-5)])
  with e show ?thesis
    using asm.feed_all_agrees [OF pa_inv_empty, of n fragments "[]"] by auto
qed

section \<open>The contract interpreted on the channel without security\<close>

text \<open>A channel in mode \<^verbatim>\<open>None\<close>: any channel id, request id and token, and any chunk size from
  the protocol's minimum of 8192 bytes on.\<close>

definition unsecured_options :: "32 word \<Rightarrow> 16 word \<Rightarrow> secure_options" where
  "unsecured_options r x =
     \<lparr>so_chunkSize = 8192 + unat x, so_requestId = max 1 (unat r), so_signatureLength = 0,
      so_plainBlockSize = 0, so_cipherBlockSize = 0, so_encryptBufferFunc = None, so_signBufferFunc = None,
      so_uninitialized = (\<lambda>n. replicate n 0)\<rparr>"

definition unsecured_chunker :: "32 word \<Rightarrow> 32 word \<Rightarrow> 16 word \<Rightarrow> 32 word \<Rightarrow> secure_chunker" where
  "unsecured_chunker c r x t =
     projr (new_secure_chunker ModeNone ''MSG'' (unat c) (unsecured_options r x)
       (SymmetricAlgorithmSecurityHeader (unat t)) 1)"

lemma unat_32_less: "unat (w :: 32 word) < 4294967296"
  using unsigned_less [of w] by simp

lemma unsecured_new:
  "new_secure_chunker ModeNone ''MSG'' (unat c) (unsecured_options r x)
     (SymmetricAlgorithmSecurityHeader (unat t)) 1 = Inr (unsecured_chunker c r x t)"
  by (simp add: unsecured_chunker_def new_secure_chunker_def new_chunk_manager_def unsecured_options_def
      max_body_size_def binaryStoreSize_def Let_def less_max_iff_disj)

lemma unsecured_contract: "crypto_contract ModeNone (unsecured_options r x)"
  by (simp add: crypto_contract_def unsecured_options_def)

lemma unsecured_sizes:
  "sender_sizes (unat (c :: 32 word)) (unsecured_options r x) (SymmetricAlgorithmSecurityHeader (unat (t :: 32 word)))"
  using unat_32_less [of r] unat_32_less [of c] unat_32_less [of t] unat_16_less [of x]
  by (simp add: sender_sizes_def unsecured_options_def security_header_ok_def max_def)

interpretation unsecured: chunk_owner "live_config (unsecured_chunker c r x t)"
    "sc_header (unsecured_chunker c r x t)" "sc_sequence (unsecured_chunker c r x t)" sc_next valid_generator
  for c r x t
  by (rule secure_fresh(1) [OF unsecured_new unsecured_contract unsecured_sizes])

lemma unsecured_sizes_of:
  "maxBodySize (sc_config (unsecured_chunker c r x t)) = 8168 + unat x"
  "chunkSize (sc_config (unsecured_chunker c r x t)) = 8192 + unat x"
  by (simp_all add: unsecured_chunker_def new_secure_chunker_def new_chunk_manager_def unsecured_options_def
      max_body_size_def binaryStoreSize_def Let_def nat_add_distrib less_max_iff_disj)

section \<open>Properties\<close>

text \<open>The security headers round-trip: the header written by \<^verbatim>\<open>encode\<close> at the start of a
  buffer of the size \<^verbatim>\<open>binaryStoreSize\<close> computes is read back unchanged by the decoder that
  \<^verbatim>\<open>chooseSecurityHeader\<close> selects for the message type, and both cursors end at that size.\<close>

theorem security_header_roundtrip:
  assumes "security_header_ok h" "msgType = ''OPN'' \<longleftrightarrow> (\<exists>a. h = AsymmetricAlgorithmSecurityHeader a)"
    "length b = binaryStoreSize (security_header_ops h)"
  shows "\<exists>st. encode_security_header h (open_stream b) = Inr st \<and> bs_length st = length b
     \<and> decode_security_header msgType (open_stream (bs_buffer st)) = Inr (h, st)"
proof -
  let ?h = "security_header_bytes h"
  have n: "length b = length ?h" using assms(1,3) binaryStoreSize_security_header by simp
  have "encode_security_header h (open_stream b) = Inr \<lparr>bs_buffer = ?h, bs_length = length ?h\<rparr>"
    using emitsD [OF emits_security_header [OF assms(1)], of "open_stream b"] n
    by (simp add: open_stream_def overwrite_all)
  moreover have "decode_security_header msgType (open_stream ?h) = Inr (h, \<lparr>bs_buffer = ?h, bs_length = length ?h\<rparr>)"
    using parses_security_header [OF assms(1,2)] unfolding parses_def open_stream_def
    by (metis append.left_neutral append.right_neutral list.size(3) plus_nat.add_0)
  ultimately show ?thesis using n by auto
qed

theorem security_header_roundtrip_witness:
  "\<exists>st. encode_security_header (SymmetricAlgorithmSecurityHeader 7) (open_stream [0, 0, 0, 0]) = Inr st
     \<and> bs_length st = length [0, 0, 0, 0 :: byte]
     \<and> decode_security_header ''MSG'' (open_stream (bs_buffer st)) = Inr (SymmetricAlgorithmSecurityHeader 7, st)"
  using security_header_roundtrip [of "SymmetricAlgorithmSecurityHeader 7" "''MSG''" "[0, 0, 0, 0]"]
  by (simp add: security_header_ok_def binaryStoreSize_def)

lemmas unsecured_example = unsecured_new [of 5 9 0 3] unsecured_contract [of 9 0] unsecured_sizes [of 5 9 0 3]

text \<open>C3: \<^verbatim>\<open>write\<close> followed by \<^verbatim>\<open>end\<close> never throws and never loops: whatever the
  security mode, it emits exactly the specified chunks of the message (the body in pieces of
  \<^verbatim>\<open>maxBodySize\<close>, each with its headers, padding, signature and encryption) in order, then
  \<^verbatim>\<open>finished\<close>, as many chunks as \<^verbatim>\<open>evaluateTotalLengthAndChunks\<close> announced, and
  takes one sequence number per chunk.\<close>

theorem secure_message_chunked:
  assumes "new_secure_chunker m msgType ch o' sh g = Inr sc" "crypto_contract m o'" "sender_sizes ch o' sh"
    "valid_generator g" "d \<noteq> []"
  shows "\<exists>sc1 evs1 sc2 evs2. sc_write d None sc = Some (Inr (sc1, evs1)) \<and> sc_end sc1 = Inr (sc2, evs2)
     \<and> evs1 @ evs2 = map (\<lambda>(c, l). ChunkOut c l) (message_chunks sc g d) @ [Finished]
     \<and> length (message_chunks sc g d) = snd (evaluateTotalLengthAndChunks (sc_config sc) (length d))
     \<and> cm_env (sc_chunks sc2) = (sc_next ^^ length (message_chunks sc g d)) g"
proof -
  have "0 < maxBodySize (sc_config sc)"
    using new_secure_chunker_config_wf [OF assms(1,2)] by (simp add: cm_wf_def)
  then have "length (message_chunks sc g d) = snd (evaluateTotalLengthAndChunks (sc_config sc) (length d))"
    by (simp add: message_chunks_def length_pieces evaluateTotalLengthAndChunks_def Let_def)
  then show ?thesis using secure_message [OF assms] by metis
qed

theorem secure_message_chunked_witness:
  "\<exists>sc1 evs1 sc2 evs2. sc_write (replicate 20000 1) None (unsecured_chunker 5 9 0 3) = Some (Inr (sc1, evs1))
     \<and> sc_end sc1 = Inr (sc2, evs2) \<and> length (evs1 @ evs2) = 4"
proof -
  let ?d = "replicate 20000 1 :: buffer"
  have n: "length (message_chunks (unsecured_chunker 5 9 0 3) 1 ?d) = 3"
    by (simp add: message_chunks_def length_pieces unsecured_sizes_of)
  have v: "valid_generator 1" "?d \<noteq> []" by (simp_all add: valid_generator_def MAXVALUE_def)
  obtain sc1 evs1 sc2 evs2 where e: "sc_write ?d None (unsecured_chunker 5 9 0 3) = Some (Inr (sc1, evs1))"
    "sc_end sc1 = Inr (sc2, evs2)"
    "evs1 @ evs2 = map (\<lambda>(c, l). ChunkOut c l) (message_chunks (unsecured_chunker 5 9 0 3) 1 ?d) @ [Finished]"
    using secure_message_chunked [OF unsecured_example v] by blast
  have "length (evs1 @ evs2) = 4" unfolding e(3) length_append length_map n by simp
  with e(1,2) show ?thesis by blast
qed

text \<open>Every chunk of a message is at most \<^verbatim>\<open>chunkSize\<close> bytes long and starts with the
  message type, its final flag, its own exact length and the channel id; only the last chunk of a
  message is flagged \<^verbatim>\<open>F\<close>, all the others \<^verbatim>\<open>C\<close>.\<close>

theorem secure_chunk_headers:
  assumes "new_secure_chunker m msgType ch o' sh g0 = Inr sc" "crypto_contract m o'" "sender_sizes ch o' sh"
    "valid_generator g" "(c, l) \<in> set (message_chunks sc g d)"
  shows "length c \<le> chunkSize (sc_config sc) \<and>
    take 12 c = [char_byte_at (sc_msgType sc) 0, char_byte_at (sc_msgType sc) 1,
        char_byte_at (sc_msgType sc) 2, char_byte (if l then CHR ''F'' else CHR ''C'')]
        @ le_bytes 4 (length c) @ le_bytes 4 ch \<and>
    map snd (message_chunks sc g d) = replicate (length (message_chunks sc g d) - 1) False @ [True]"
proof -
  have "message_chunks sc g d \<noteq> []" using assms(5) by auto
  then have "map snd (message_chunks sc g d) = replicate (length (message_chunks sc g d) - 1) False @ [True]"
    unfolding message_chunks_def flags_emit length_emit by (metis emit.simps(1))
  with message_chunk_header [OF assms] show ?thesis by (simp add: final_char_def)
qed

theorem secure_chunk_headers_witness:
  "\<exists>c l. (c, l) \<in> set (message_chunks (unsecured_chunker 5 9 0 3) 1 [1]) \<and> length c \<le> 8192"
proof -
  have "length (message_chunks (unsecured_chunker 5 9 0 3) 1 [1]) = 1"
    by (simp add: message_chunks_def length_pieces unsecured_sizes_of)
  then obtain c l where cl: "(c, l) \<in> set (message_chunks (unsecured_chunker 5 9 0 3) 1 [1])"
    by (cases "message_chunks (unsecured_chunker 5 9 0 3) 1 [1]") auto
  have "valid_generator 1" by (simp add: valid_generator_def MAXVALUE_def)
  with cl show ?thesis
    using secure_chunk_headers [OF unsecured_new unsecured_contract unsecured_sizes _ cl]
    by (auto simp: unsecured_sizes_of)
qed

text \<open>C2: What the sender chunks, the receiver's packet assembler cuts back: however the network
  fragments the bytes of the chunks of a message, secured or not, an assembler that accepts chunks
  of the sender's size emits exactly these chunks, no error, and has nothing left over.\<close>

theorem chunks_survive_transport:
  assumes "new_secure_chunker m msgType ch o' sh g0 = Inr sc" "crypto_contract m o'" "sender_sizes ch o' sh"
    "valid_generator g" "chunkSize (sc_config sc) \<le> n"
    "concat fragments = concat (map fst (message_chunks sc g d))"
  shows "\<exists>s evs. feed_all (builder_assembler n) empty_assembler fragments = Some (Inr (s, evs))
     \<and> chunks_of evs = map fst (message_chunks sc g d) \<and> errors_of evs = [] \<and> pending s = []"
  using chunks_survive_transport_lemma [OF assms] .

theorem chunks_survive_transport_witness:
  "\<exists>s evs. feed_all (builder_assembler 8192) empty_assembler
      (map (\<lambda>b. [b]) (concat (map fst (message_chunks (unsecured_chunker 5 9 0 3) 1 (replicate 9000 7)))))
      = Some (Inr (s, evs)) \<and> length (chunks_of evs) = 2 \<and> errors_of evs = []"
proof -
  let ?cs = "message_chunks (unsecured_chunker 5 9 0 3) 1 (replicate 9000 7)"
  have "length ?cs = 2" by (simp add: message_chunks_def length_pieces unsecured_sizes_of)
  moreover have "concat (map (\<lambda>b. [b]) x) = x" for x :: buffer by (induction x) simp_all
  moreover have "valid_generator 1" by (simp add: valid_generator_def MAXVALUE_def)
  ultimately show ?thesis
    using chunks_survive_transport [OF unsecured_example, where g = 1 and n = 8192
        and d = "replicate 9000 7" and fragments = "map (\<lambda>b. [b]) (concat (map fst ?cs))"]
    by (force simp: unsecured_sizes_of)
qed

text \<open>Aborting a message after any non-empty \<^verbatim>\<open>write\<close> emits exactly one more chunk, flagged
  as the last one and with \<^verbatim>\<open>A\<close> in its header, then \<^verbatim>\<open>finished\<close>; none of the chunks
  emitted before was flagged as last.\<close>

theorem abort_closes_message:
  assumes "new_secure_chunker m msgType ch o' sh g = Inr sc" "crypto_contract m o'" "sender_sizes ch o' sh"
    "valid_generator g" "d \<noteq> []" "sc_write d None sc = Some (Inr (sc1, evs1))"
  shows "\<exists>sc2 c. sc_abort sc1 = Inr (sc2, [ChunkOut c True, Finished])
     \<and> take 12 c = [char_byte_at (sc_msgType sc) 0, char_byte_at (sc_msgType sc) 1,
        char_byte_at (sc_msgType sc) 2, char_byte CHR ''A''] @ le_bytes 4 (length c) @ le_bytes 4 ch
     \<and> (\<forall>c' l. ChunkOut c' l \<in> set evs1 \<longrightarrow> \<not> l)"
  using secure_abort [OF assms] .

theorem abort_closes_message_witness:
  "\<exists>sc1 evs1 sc2 c. sc_write [1, 2, 3] None (unsecured_chunker 5 9 0 3) = Some (Inr (sc1, evs1))
     \<and> sc_abort sc1 = Inr (sc2, [ChunkOut c True, Finished])"
proof -
  have v: "valid_generator 1" by (simp add: valid_generator_def MAXVALUE_def)
  obtain sc1 evs1 where w: "sc_write [1, 2, 3] None (unsecured_chunker 5 9 0 3) = Some (Inr (sc1, evs1))"
    using secure_message [OF unsecured_new unsecured_contract unsecured_sizes v, of "[1, 2, 3]"] by blast
  with abort_closes_message [OF unsecured_new unsecured_contract unsecured_sizes v _ w]
  show ?thesis by auto
qed

end
