(* ===== verification/Message_Builder.thy ===== *)
theory Message_Builder
  imports Secure_Chunks
begin

text \<open>
  The receiving side: \<^verbatim>\<open>MessageBuilderBase\<close> of \<^verbatim>\<open>node-opcua-transport\<close> and its
  subclass \<^verbatim>\<open>MessageBuilder\<close> of \<^verbatim>\<open>node-opcua-secure-channel\<close>, with the padding
  helpers of \<^verbatim>\<open>utils.ts\<close> and the policy helpers of \<^verbatim>\<open>security_policy.ts\<close>. The two
  classes share one record of fields; what they emit is a log in that record. A step returns the
  new object with the value of the call; \<open>Inl\<close> is an exception that leaves the builder. Crypto
  primitives, derived keys and the object factory are fields of the environment. Error texts are
  left out, but for the text a peer sends in an \<^verbatim>\<open>ERR\<close> chunk; a decoded status code is kept
  as the number on the wire.
\<close>

section \<open>Security policies\<close>

definition js :: "string \<Rightarrow> js_string" where
  "js s = map (\<lambda>c. of_nat (of_char c)) s"

datatype security_policy =
    PolicyInvalid | PolicyNone | Basic128 | Basic192 | Basic192Rsa15 | Basic256Rsa15 | Basic256Sha256
  | Aes128_Sha256_RsaOaep | Aes256_Sha256_RsaPss | PubSub_Aes128_CTR | PubSub_Aes256_CTR
  | Basic128Rsa15 | Basic256 | UnknownPolicy js_string

definition policy_uris :: "(string \<times> security_policy) list" where
  "policy_uris =
     [(''None'', PolicyNone), (''Basic128'', Basic128), (''Basic192'', Basic192),
      (''Basic192Rsa15'', Basic192Rsa15), (''Basic256Rsa15'', Basic256Rsa15),
      (''Basic256Sha256'', Basic256Sha256), (''Aes128_Sha256_RsaOaep'', Aes128_Sha256_RsaOaep),
      (''Aes256_Sha256_RsaPss'', Aes256_Sha256_RsaPss), (''PubSub_Aes128_CTR'', PubSub_Aes128_CTR),
      (''PubSub_Aes256_CTR'', PubSub_Aes256_CTR), (''Basic128Rsa15'', Basic128Rsa15), (''Basic256'', Basic256)]"

definition short_policy_names :: "string list" where
  "short_policy_names =
     [''Basic128Rsa15'', ''Basic256'', ''Basic192Rsa15'', ''None'', ''Basic256Sha256'',
      ''Aes128_Sha256_RsaOaep'', ''Aes256_Sha256_RsaPss'', ''Basic256Rsa15'']"

definition policy_uri :: "string \<Rightarrow> js_string" where
  "policy_uri name = js (''http://opcfoundation.org/UA/SecurityPolicy#'' @ name)"

text \<open>An enum value of TypeScript is its string: any other string the peer sends is cast to the
  enum type unchecked (\<open>UnknownPolicy\<close>).\<close>

definition policy_of_string :: "js_string \<Rightarrow> security_policy" where
  "policy_of_string v =
     (if v = js ''invalid'' then PolicyInvalid
      else case List.find (\<lambda>(n, p). policy_uri n = v) policy_uris of
        Some (n, p) \<Rightarrow> p
      | None \<Rightarrow> UnknownPolicy v)"

definition coerceSecurityPolicy :: "js_string option \<Rightarrow> security_policy" where
  "coerceSecurityPolicy value =
     (case value of
        None \<Rightarrow> PolicyNone
      | Some v \<Rightarrow>
          (case List.find (\<lambda>n. js n = v) short_policy_names of
             Some n \<Rightarrow> policy_of_string (policy_uri n)
           | None \<Rightarrow> policy_of_string v))"

text \<open>\<^verbatim>\<open>reduceLength\<close>: a negative end index of \<^verbatim>\<open>subarray\<close> counts from the end.\<close>

definition reduceLength :: "buffer \<Rightarrow> nat \<Rightarrow> buffer" where
  "reduceLength buffer byteToRemove =
     (if byteToRemove \<le> length buffer then take (length buffer - byteToRemove) buffer
      else take (2 * length buffer - byteToRemove) buffer)"

definition asymmetricVerifyChunk ::
    "(buffer option \<Rightarrow> nat) \<Rightarrow> (buffer \<Rightarrow> buffer \<Rightarrow> buffer option \<Rightarrow> bool) \<Rightarrow> buffer \<Rightarrow> buffer option \<Rightarrow> nat \<times> bool" where
  "asymmetricVerifyChunk publicKeyLength asymmetricVerify chunk certificate =
     (let signatureLength = publicKeyLength certificate in
      if signatureLength \<notin> {128, 256, 384, 512} then (0, False)
      else let blockToVerify = reduceLength chunk signatureLength;
               signature = subarray_from chunk (int (length chunk) - int signatureLength)
           in (signatureLength, asymmetricVerify blockToVerify signature certificate))"

definition removePadding :: "buffer \<Rightarrow> buffer result" where
  "removePadding buffer =
     (if buffer = [] then Inl RangeError
      else let nbPaddingBytes = unat (last buffer) + 1 in Inr (reduceLength buffer nbPaddingBytes))"

section \<open>The builder\<close>

datatype message_security_mode = MsmInvalid | MsmNone | MsmSign | MsmSignAndEncrypt

datatype status_code =
    BadTcpMessageTooLarge | BadTcpSecureChannelUnknown | BadTcpInternalError | BadSecurityChecksFailed
  | BadSecureChannelTokenUnknown | BadTcpMessageTypeInvalid | BadNotSupported | StatusFromPeer nat

record derived_keys =
  dk_signatureLength :: nat
  dk_decrypt :: "buffer \<Rightarrow> buffer result"
  dk_verify :: "buffer \<Rightarrow> bool"

record crypto_factory =
  cf_asymmetricDecrypt :: "buffer \<Rightarrow> buffer result"
  cf_publicKeyLength :: "buffer option \<Rightarrow> nat"
  cf_asymmetricVerify :: "buffer \<Rightarrow> buffer \<Rightarrow> buffer option \<Rightarrow> bool"

record ('i, 'o) builder_env =
  be_maxMessageSize :: nat
  be_maxChunkCount :: nat
  be_maxChunkSize :: nat
  be_validPrivateKey :: bool
  be_getCryptoFactory :: "security_policy \<Rightarrow> crypto_factory option"
  be_getDerivedKey :: "nat \<Rightarrow> derived_keys option"
  be_decodeExpandedNodeId :: "bstream \<Rightarrow> ('i \<times> bstream) result"
  be_hasConstructor :: "'i \<Rightarrow> bool"
  be_constructObject :: "'i \<Rightarrow> bool"
  be_decodeObject :: "'i \<Rightarrow> bstream \<Rightarrow> 'o result"
  be_closeRequest :: 'o

datatype 'o mb_event =
    MbStartChunk packet_info buffer
  | MbChunk buffer
  | MbError status_code "js_string option" "nat option"
  | MbFullMessageBody buffer
  | MbAbandon nat
  | MbMessage 'o string security_header nat nat
  | MbInvalidMessage
  | MbInvalidSequenceNumber nat nat

record 'o builder =
  mb_securityDefeated :: bool
  mb_hasReceivedError :: bool
  mb_blocks :: "buffer list"
  mb_messageChunks :: "buffer list"
  mb_totalBodySize :: nat
  mb_totalMessageSize :: nat
  mb_channelId :: nat
  mb_offsetBodyStart :: nat
  mb_messageHeader :: "message_header option"
  mb_sequenceHeader :: "sequence_header option"
  mb_securityHeader :: "security_header option"
  mb_securityPolicy :: security_policy
  mb_securityMode :: message_security_mode
  mb_previousSequenceNumber :: "nat option"
  mb_events :: "'o mb_event list"

definition defaultMaxChunkCount :: nat where "defaultMaxChunkCount = 1000"
definition builderMaxMessageSize :: nat where "builderMaxMessageSize = 1024 * 64 * 1024"
definition defaultMaxChunkSize :: nat where "defaultMaxChunkSize = 1024 * 8"

text \<open>\<^verbatim>\<open>options.x || default\<close>.\<close>

definition or_default :: "nat \<Rightarrow> nat \<Rightarrow> nat" where
  "or_default n d = (if n = 0 then d else n)"

text \<open>The whole object: the packet assembler, which only \<^verbatim>\<open>feed\<close> touches, and the fields.\<close>

record 'o message_builder =
  mb_assembler :: pa_state
  mb_fields :: "'o builder"

text \<open>The constructors of the two classes: the limits of the environment are the options given.\<close>

definition new_builder ::
    "('i, 'o) builder_env \<Rightarrow> message_security_mode \<Rightarrow> (('i, 'o) builder_env \<times> 'o message_builder) result" where
  "new_builder options m =
     (let env = options\<lparr>be_maxMessageSize := or_default (be_maxMessageSize options) builderMaxMessageSize,
                        be_maxChunkCount := or_default (be_maxChunkCount options) defaultMaxChunkCount,
                        be_maxChunkSize := or_default (be_maxChunkSize options) defaultMaxChunkSize\<rparr>
      in rbind (new_packet_assembler readRawMessageHeader (Some 8) (Some (be_maxChunkSize env)))
           (\<lambda>(_, asm0). Inr (env, \<lparr>mb_assembler = asm0, mb_fields = \<lparr>mb_securityDefeated = False, mb_hasReceivedError = False,
              mb_blocks = [], mb_messageChunks = [], mb_totalBodySize = 0, mb_totalMessageSize = 0,
              mb_channelId = 0, mb_offsetBodyStart = 0, mb_messageHeader = None, mb_sequenceHeader = None,
              mb_securityHeader = None, mb_securityPolicy = PolicyInvalid, mb_securityMode = m,
              mb_previousSequenceNumber = None, mb_events = []\<rparr>\<rparr>)))"

definition setSecurity :: "message_security_mode \<Rightarrow> js_string option \<Rightarrow> 'o builder \<Rightarrow> 'o builder result" where
  "setSecurity m policy st =
     rbind (assert_js (mb_securityMode st = MsmInvalid))
       (\<lambda>_. let st1 = st\<lparr>mb_securityPolicy := coerceSecurityPolicy policy, mb_securityMode := m\<rparr> in
          rbind (assert_js (mb_securityPolicy st1 \<noteq> PolicyInvalid))
            (\<lambda>_. rbind (assert_js (mb_securityMode st1 \<noteq> MsmInvalid)) (\<lambda>_. Inr st1)))"

definition log_event :: "'o mb_event \<Rightarrow> 'o builder \<Rightarrow> 'o builder" where
  "log_event e st = st\<lparr>mb_events := mb_events st @ [e]\<rparr>"

text \<open>\<^verbatim>\<open>this.sequenceHeader?.requestId || null\<close>\<close>

definition current_request :: "'o builder \<Rightarrow> nat option" where
  "current_request st =
     (case mb_sequenceHeader st of None \<Rightarrow> None
      | Some h \<Rightarrow> if sh_requestId h = 0 then None else Some (sh_requestId h))"

definition report_error_text :: "status_code \<Rightarrow> js_string option \<Rightarrow> 'o builder \<Rightarrow> 'o builder" where
  "report_error_text code text st =
     (let st1 = st\<lparr>mb_hasReceivedError := True\<rparr> in log_event (MbError code text (current_request st1)) st1)"

definition report_error :: "status_code \<Rightarrow> 'o builder \<Rightarrow> 'o builder" where
  "report_error code st = report_error_text code None st"

definition report_abandon :: "sequence_header \<Rightarrow> 'o builder \<Rightarrow> 'o builder" where
  "report_abandon h st = log_event (MbAbandon (sh_requestId h)) (st\<lparr>mb_hasReceivedError := False\<rparr>)"

definition init_new :: "'o builder \<Rightarrow> 'o builder" where
  "init_new st = st\<lparr>mb_securityDefeated := False, mb_hasReceivedError := False, mb_totalBodySize := 0,
     mb_totalMessageSize := 0, mb_blocks := [], mb_messageChunks := []\<rparr>"

text \<open>\<^verbatim>\<open>#_expectedChannelId\<close> is set to 0 by the constructor and is read-only: the channel id
  is never checked.\<close>

definition expectedChannelId :: nat where
  "expectedChannelId = 0"

text \<open>A step that reads from the chunk's stream: \<open>Some\<close> the stream when the call returns true,
  \<open>None\<close> when it returns false (the error has been reported).\<close>

definition base_read_headers :: "bstream \<Rightarrow> 'o builder \<Rightarrow> bstream option \<times> 'o builder" where
  "base_read_headers bs st =
     (case readMessageHeader bs of
        Inl _ \<Rightarrow> (None, report_error BadTcpInternalError st)
      | Inr (h, bs1) \<Rightarrow>
          let st1 = st\<lparr>mb_messageHeader := Some h\<rparr> in
          (case readUInt32 bs1 of
             Inl _ \<Rightarrow> (None, report_error BadTcpInternalError st1)
           | Inr (ch, bs2) \<Rightarrow>
               let st2 = st1\<lparr>mb_channelId := ch\<rparr> in
               if expectedChannelId \<noteq> 0 \<and> ch \<noteq> expectedChannelId
               then (None, report_error BadTcpSecureChannelUnknown st2)
               else (Some bs2, st2)))"

definition validate_sequence_number :: "nat \<Rightarrow> 'o builder \<Rightarrow> bool \<times> 'o builder" where
  "validate_sequence_number n st =
     (case validateSequenceNumber (mb_previousSequenceNumber st) n of
        (SeqAccepted, prev) \<Rightarrow> (True, st\<lparr>mb_previousSequenceNumber := prev\<rparr>)
      | (SeqInvalid expected actual, prev) \<Rightarrow>
          (False, report_error BadTcpInternalError (log_event (MbInvalidSequenceNumber expected actual) st)))"

text \<open>\<^verbatim>\<open>decryptedBuffer.copy(binaryStream.buffer, binaryStream.length)\<close> followed by the
  truncation of the stream's buffer.\<close>

definition replace_decrypted :: "buffer \<Rightarrow> bstream \<Rightarrow> bstream" where
  "replace_decrypted d bs =
     bs\<lparr>bs_buffer := take (bs_length bs + length d) (buf_copy d (bs_buffer bs) (bs_length bs))\<rparr>"

definition decrypt_OPN ::
    "('i, 'o) builder_env \<Rightarrow> bstream \<Rightarrow> asymmetric_header \<Rightarrow> 'o builder \<Rightarrow> (bstream option result \<times> 'o builder)" where
  "decrypt_OPN env bs h st =
     (if mb_securityPolicy st = PolicyNone \<or> mb_securityPolicy st = PolicyInvalid \<or> mb_securityMode st = MsmNone
      then (Inl AssertionError, st)
      else case be_getCryptoFactory env (mb_securityPolicy st) of
        None \<Rightarrow> (Inr None, report_error BadTcpInternalError st)
      | Some factory \<Rightarrow>
          let encrypted = ah_receiverCertificateThumbprint h \<noteq> None in
          if encrypted \<and> \<not> be_validPrivateKey env then (Inl AssertionError, st)
          else if \<not> encrypted \<and> mb_securityMode st \<noteq> MsmNone
            then (Inr None, report_error BadTcpInternalError st)
          else
            (case (if encrypted
                   then rbind (cf_asymmetricDecrypt factory (drop (bs_length bs) (bs_buffer bs)))
                          (\<lambda>d. Inr (replace_decrypted d bs))
                   else Inr bs) of
               Inl _ \<Rightarrow> (Inr None, report_error BadTcpInternalError st)
             | Inr bs1 \<Rightarrow>
                 let (signatureLength, signatureIsOK) =
                       asymmetricVerifyChunk (cf_publicKeyLength factory) (cf_asymmetricVerify factory)
                         (bs_buffer bs1) (ah_senderCertificate h) in
                 if \<not> signatureIsOK then (Inr None, report_error BadTcpInternalError st)
                 else let bs2 = bs1\<lparr>bs_buffer := reduceLength (bs_buffer bs1) signatureLength\<rparr> in
                   if encrypted
                   then (rbind (removePadding (bs_buffer bs2)) (\<lambda>b. Inr (Some (bs2\<lparr>bs_buffer := b\<rparr>))), st)
                   else (Inr (Some bs2), st)))"

definition decrypt_MSG ::
    "('i, 'o) builder_env \<Rightarrow> bstream \<Rightarrow> nat \<Rightarrow> 'o builder \<Rightarrow> (bstream option result \<times> 'o builder)" where
  "decrypt_MSG env bs tokenId st =
     (if mb_securityMode st = MsmNone \<or> mb_securityMode st = MsmInvalid \<or>
         mb_securityPolicy st = PolicyNone \<or> mb_securityPolicy st = PolicyInvalid
      then (Inl AssertionError, st)
      else case be_getDerivedKey env tokenId of
        None \<Rightarrow> (Inr None, report_error BadSecureChannelTokenUnknown st)
      | Some keys \<Rightarrow>
          if dk_signatureLength keys = 0 then (Inr None, report_error BadSecureChannelTokenUnknown st)
          else
            (case (if mb_securityMode st = MsmSignAndEncrypt
                   then rbind (dk_decrypt keys (drop (bs_length bs) (bs_buffer bs)))
                          (\<lambda>d. Inr (replace_decrypted d bs))
                   else Inr bs) of
               Inl e \<Rightarrow> (Inl e, st)
             | Inr bs1 \<Rightarrow>
                 if \<not> dk_verify keys (bs_buffer bs1) then (Inr None, report_error BadTcpInternalError st)
                 else let bs2 = bs1\<lparr>bs_buffer := reduceLength (bs_buffer bs1) (dk_signatureLength keys)\<rparr> in
                   if mb_securityMode st = MsmSignAndEncrypt
                   then (rbind (removePadding (bs_buffer bs2)) (\<lambda>b. Inr (Some (bs2\<lparr>bs_buffer := b\<rparr>))), st)
                   else (Inr (Some bs2), st)))"

definition decrypt_chunk ::
    "('i, 'o) builder_env \<Rightarrow> string \<Rightarrow> bstream \<Rightarrow> security_header \<Rightarrow> 'o builder
      \<Rightarrow> (bstream option result \<times> 'o builder)" where
  "decrypt_chunk env msgType bs h st =
     (if msgType \<noteq> ''OPN'' \<and> mb_securityPolicy st = PolicyInvalid
      then (Inl (ThrownError ''internal error : invalid securityPolicy''), st)
      else if mb_securityPolicy st = PolicyNone then (Inr (Some bs), st\<lparr>mb_securityMode := MsmNone\<rparr>)
      else case h of
        AsymmetricAlgorithmSecurityHeader a \<Rightarrow> decrypt_OPN env bs a st
      | SymmetricAlgorithmSecurityHeader t \<Rightarrow> decrypt_MSG env bs t st)"

text \<open>\<^verbatim>\<open>MessageBuilder._read_headers\<close>. Every exception inside its \<^verbatim>\<open>try\<close> becomes a
  \<^verbatim>\<open>BadTcpInternalError\<close> report (\<open>caught\<close>).\<close>

definition caught :: "'o builder \<Rightarrow> bstream option \<times> 'o builder" where
  "caught st = (None, report_error BadTcpInternalError st)"

definition check_policy :: "security_header \<Rightarrow> 'o builder \<Rightarrow> bool \<times> 'o builder" where
  "check_policy h st =
     (case h of
        AsymmetricAlgorithmSecurityHeader a \<Rightarrow>
          (let received = coerceSecurityPolicy (ah_securityPolicyUri a) in
           if received = PolicyInvalid then (False, report_error BadSecurityChecksFailed st)
           else let st1 = (if mb_securityPolicy st = PolicyInvalid then st\<lparr>mb_securityPolicy := received\<rparr> else st) in
             if received \<noteq> mb_securityPolicy st1 then (False, report_error BadSecurityChecksFailed st1)
             else (True, st1))
      | SymmetricAlgorithmSecurityHeader t \<Rightarrow> (True, st))"

definition read_sequence ::
    "bstream \<Rightarrow> 'o builder \<Rightarrow> bstream option \<times> 'o builder" where
  "read_sequence bs st =
     (case decode_sequence_header bs of
        Inl _ \<Rightarrow> caught (st\<lparr>mb_sequenceHeader := Some \<lparr>sh_sequenceNumber = 0, sh_requestId = 0\<rparr>\<rparr>)
      | Inr (q, bs1) \<Rightarrow>
          (let (valid, st1) = validate_sequence_number (sh_sequenceNumber q) (st\<lparr>mb_sequenceHeader := Some q\<rparr>)
           in (if valid then Some bs1 else None, st1)))"

definition read_headers ::
    "('i, 'o) builder_env \<Rightarrow> bstream \<Rightarrow> 'o builder \<Rightarrow> bstream option \<times> 'o builder" where
  "read_headers env bs0 st0 =
     (case base_read_headers bs0 st0 of
        (None, st) \<Rightarrow> (None, st)
      | (Some bs, st) \<Rightarrow>
          (let msgType = (case mb_messageHeader st of None \<Rightarrow> [] | Some h \<Rightarrow> mh_msgType h) in
           if msgType = ''HEL'' \<or> msgType = ''ACK'' then (Some bs, st\<lparr>mb_securityPolicy := PolicyNone\<rparr>)
           else if msgType = ''ERR'' then
             (case rbind (readUInt32 (bs\<lparr>bs_length := 8\<rparr>)) (\<lambda>(_, bs1). readString bs1) of
                Inl _ \<Rightarrow> caught st
              | Inr (_, bs2) \<Rightarrow> (Some bs2, st))
           else
             (case decode_security_header msgType bs of
                Inl _ \<Rightarrow> caught st
              | Inr (h, bs1) \<Rightarrow>
                  (case check_policy h (st\<lparr>mb_securityHeader := Some h\<rparr>) of
                     (False, st1) \<Rightarrow> (None, st1)
                   | (True, st1) \<Rightarrow>
                       (case decrypt_chunk env msgType bs1 h st1 of
                          (Inl _, st2) \<Rightarrow> caught st2
                        | (Inr None, st2) \<Rightarrow> (None, st2)
                        | (Inr (Some bs2), st2) \<Rightarrow> read_sequence bs2 st2)))))"

definition append_chunk :: "('i, 'o) builder_env \<Rightarrow> buffer \<Rightarrow> 'o builder \<Rightarrow> bool \<times> 'o builder" where
  "append_chunk env chunk st =
     (if mb_hasReceivedError st then (False, st)
      else if length (mb_messageChunks st) + 1 > be_maxChunkCount env
        then (False, report_error BadTcpMessageTooLarge st)
      else
        (let st1 = st\<lparr>mb_messageChunks := mb_messageChunks st @ [chunk],
                      mb_totalMessageSize := mb_totalMessageSize st + length chunk\<rparr> in
         if mb_totalMessageSize st1 > be_maxMessageSize env
         then (False, report_error BadTcpMessageTooLarge st1)
         else case read_headers env (open_stream chunk) st1 of
           (None, st2) \<Rightarrow> (False, st2)
         | (Some bs, st2) \<Rightarrow>
             if map_option mh_length (mb_messageHeader st2) \<noteq> Some (length chunk)
             then (False, report_error BadTcpInternalError st2)
             else (True, st2\<lparr>mb_totalBodySize := mb_totalBodySize st2 + (length (bs_buffer bs) - bs_length bs),
                             mb_offsetBodyStart := bs_length bs,
                             mb_blocks := mb_blocks st2 @ [drop (bs_length bs) (bs_buffer bs)]\<rparr>)))"

text \<open>\<^verbatim>\<open>_decodeMessageBody\<close>, with the object factory of the environment.\<close>

definition decode_message_body :: "('i, 'o) builder_env \<Rightarrow> buffer \<Rightarrow> 'o builder \<Rightarrow> bool \<times> 'o builder" where
  "decode_message_body env body st =
     (case (mb_messageHeader st, mb_securityHeader st) of
        (Some mh, Some sh) \<Rightarrow>
          (let msgType = mh_msgType mh; requestId = (case mb_sequenceHeader st of None \<Rightarrow> 0 | Some q \<Rightarrow> sh_requestId q) in
           if msgType = ''HEL'' \<or> msgType = ''ACK'' \<or> msgType = ''ERR''
           then (False, report_error BadTcpMessageTypeInvalid st)
           else if msgType = ''CLO'' \<and> body = [] \<and> mb_sequenceHeader st \<noteq> None
           then (True, log_event (MbMessage (be_closeRequest env) msgType sh requestId (mb_channelId st)) st)
           else case be_decodeExpandedNodeId env (open_stream body) of
             Inl _ \<Rightarrow> (False, report_error BadTcpInternalError st)
           | Inr (i, bs) \<Rightarrow>
               if \<not> be_hasConstructor env i then (False, report_error BadNotSupported st)
               else if \<not> be_constructObject env i then (False, report_error BadNotSupported st)
               else case be_decodeObject env i bs of
                 Inl _ \<Rightarrow> (False, log_event MbInvalidMessage st)
               | Inr obj \<Rightarrow> (True, log_event (MbMessage obj msgType sh requestId (mb_channelId st)) st))
      | _ \<Rightarrow> (False, report_error BadTcpInternalError st))"

definition full_message_body :: "buffer list \<Rightarrow> buffer" where
  "full_message_body blocks = (if length blocks = 1 then blocks ! 0 else concat blocks)"

definition feed_message_chunk ::
    "('i, 'o) builder_env \<Rightarrow> buffer \<Rightarrow> 'o builder \<Rightarrow> (bool \<times> 'o builder) result" where
  "feed_message_chunk env chunk st0 =
     rbind (readMessageHeader (open_stream chunk)) (\<lambda>(h, hs).
       let st = log_event (MbChunk chunk) st0 in
       if mh_isFinal h = CHR ''F'' then
         (if mh_msgType h = ''ERR'' then
            rbind (readUInt32 \<lparr>bs_buffer = chunk, bs_length = 8\<rparr>) (\<lambda>(code, bs).
              rbind (readString bs) (\<lambda>(text, _).
                Inr (True, report_error_text (StatusFromPeer code) text st)))
          else
            (let (_, st1) = append_chunk env chunk st in
             if mb_hasReceivedError st1 then Inr (False, st1)
             else
               (let body = full_message_body (mb_blocks st1);
                    (messageOk, st2) = decode_message_body env body (log_event (MbFullMessageBody body) st1)
                in Inr (messageOk, init_new st2))))
       else if mh_isFinal h = CHR ''A'' then
         (case rbind (readUInt32 hs) (\<lambda>(_, bs1). rbind (readUInt32 bs1) (\<lambda>(_, bs2). decode_sequence_header bs2)) of
            Inl _ \<Rightarrow> Inr (False, report_error BadTcpInternalError st)
          | Inr (q, _) \<Rightarrow> Inr (False, report_abandon q st))
       else if mh_isFinal h = CHR ''C'' then Inr (append_chunk env chunk st)
       else Inr (False, st))"

text \<open>The three listeners on the packet assembler, and \<^verbatim>\<open>feed\<close>. The assembler calls its
  listeners while it cuts; its own state does not depend on what they do.\<close>

fun on_assembler_event ::
    "('i, 'o) builder_env \<Rightarrow> pa_event \<Rightarrow> 'o builder \<Rightarrow> 'o builder result" where
  "on_assembler_event env (Chunk c) st = rbind (feed_message_chunk env c st) (\<lambda>(_, st1). Inr st1)"
| "on_assembler_event env (StartChunk info d) st = Inr (log_event (MbStartChunk info d) st)"
| "on_assembler_event env (PAError e) st = Inr (report_error BadTcpMessageTooLarge st)"

fun on_assembler_events ::
    "('i, 'o) builder_env \<Rightarrow> pa_event list \<Rightarrow> 'o builder \<Rightarrow> 'o builder result" where
  "on_assembler_events env [] st = Inr st"
| "on_assembler_events env (e # es) st = rbind (on_assembler_event env e st) (on_assembler_events env es)"

definition mb_feed ::
    "('i, 'o) builder_env \<Rightarrow> buffer \<Rightarrow> 'o message_builder \<Rightarrow> 'o message_builder result option" where
  "mb_feed env data mb =
     (if \<not> mb_securityDefeated (mb_fields mb) \<and> \<not> mb_hasReceivedError (mb_fields mb) then
        (case feed (builder_assembler (be_maxChunkSize env)) (mb_assembler mb) data of
           None \<Rightarrow> None
         | Some (Inl e) \<Rightarrow> Some (Inl e)
         | Some (Inr (asm1, evs)) \<Rightarrow>
             Some (rbind (on_assembler_events env evs (mb_fields mb))
               (\<lambda>st. Inr \<lparr>mb_assembler = asm1, mb_fields = st\<rparr>)))
      else Some (Inr mb))"

fun mb_feed_all ::
    "('i, 'o) builder_env \<Rightarrow> buffer list \<Rightarrow> 'o message_builder \<Rightarrow> 'o message_builder result option" where
  "mb_feed_all env [] mb = Some (Inr mb)"
| "mb_feed_all env (d # ds) mb =
     (case mb_feed env d mb of
        None \<Rightarrow> None
      | Some (Inl e) \<Rightarrow> Some (Inl e)
      | Some (Inr mb1) \<Rightarrow> mb_feed_all env ds mb1)"

end
