(* ===== verification/Builder_Limits.thy ===== *)
theory Builder_Limits
  imports Message_Builder
begin

text \<open>
  The memory a peer can make the message builder use: an invariant of the builder, kept by every
  event of its packet assembler, whatever the bytes, the keys and the decoders, that bounds the
  number of chunks it holds and the size of the body it hands over.
\<close>

definition block_bytes :: "buffer list \<Rightarrow> nat" where
  "block_bytes bs = sum_list (map length bs)"

lemma block_bytes_simps [simp]:
  "block_bytes [] = 0" "block_bytes (b # bs) = length b + block_bytes bs"
  "block_bytes (as @ bs) = block_bytes as + block_bytes bs"
  by (simp_all add: block_bytes_def)

lemma length_full_message_body: "length (full_message_body bs) = block_bytes bs"
  by (cases bs) (simp_all add: full_message_body_def length_concat block_bytes_def)

definition bodies :: "'o mb_event list \<Rightarrow> buffer list" where
  "bodies evs = concat (map (\<lambda>e. case e of MbFullMessageBody b \<Rightarrow> [b] | _ \<Rightarrow> []) evs)"

definition within_limits :: "('i, 'o) builder_env \<Rightarrow> 'o builder \<Rightarrow> bool" where
  "within_limits env st \<longleftrightarrow>
     length (mb_messageChunks st) \<le> be_maxChunkCount env \<and>
     length (mb_blocks st) \<le> length (mb_messageChunks st) \<and>
     block_bytes (mb_blocks st) \<le> mb_totalMessageSize st \<and>
     block_bytes (mb_blocks st) \<le> be_maxMessageSize env \<and>
     (\<forall>b\<in>set (bodies (mb_events st)). length b \<le> be_maxMessageSize env)"

text \<open>What the invariant speaks of; most steps leave it alone.\<close>

definition view :: "'o builder \<Rightarrow> buffer list \<times> buffer list \<times> nat \<times> buffer list" where
  "view st = (mb_messageChunks st, mb_blocks st, mb_totalMessageSize st, bodies (mb_events st))"

lemma view_limits: "view b = view a \<Longrightarrow> within_limits env a \<Longrightarrow> within_limits env b"
  by (simp add: view_def within_limits_def)

lemma view_log [simp]: "\<not> (\<exists>b. e = MbFullMessageBody b) \<Longrightarrow> view (log_event e st) = view st"
  by (cases e) (simp_all add: view_def log_event_def bodies_def)

lemma view_update [simp]:
  "view (st\<lparr>mb_messageHeader := a\<rparr>) = view st" "view (st\<lparr>mb_channelId := n\<rparr>) = view st"
  "view (st\<lparr>mb_securityHeader := b\<rparr>) = view st" "view (st\<lparr>mb_sequenceHeader := c\<rparr>) = view st"
  "view (st\<lparr>mb_securityPolicy := p\<rparr>) = view st" "view (st\<lparr>mb_securityMode := m\<rparr>) = view st"
  "view (st\<lparr>mb_previousSequenceNumber := q\<rparr>) = view st" "view (st\<lparr>mb_hasReceivedError := f\<rparr>) = view st"
  by (simp_all add: view_def)

lemma view_report [simp]: "view (report_error_text c t st) = view st" "view (report_error c st) = view st"
  by (simp_all add: report_error_text_def report_error_def Let_def)

lemma view_abandon [simp]: "view (report_abandon q st) = view st"
  by (simp add: report_abandon_def)

lemma view_base [simp]: "view (snd (base_read_headers bs st)) = view st"
  by (simp add: base_read_headers_def Let_def split: sum.split prod.split)

lemma view_policy [simp]: "view (snd (check_policy h st)) = view st"
  by (simp add: check_policy_def Let_def split: security_header.split)

lemma view_OPN [simp]: "view (snd (decrypt_OPN env bs h st)) = view st"
  by (simp add: decrypt_OPN_def Let_def split: option.split sum.split prod.split)

lemma view_MSG [simp]: "view (snd (decrypt_MSG env bs t st)) = view st"
  by (simp add: decrypt_MSG_def Let_def split: option.split sum.split prod.split)

lemma view_decrypt [simp]: "view (snd (decrypt_chunk env m bs h st)) = view st"
  by (simp add: decrypt_chunk_def split: security_header.split)

lemma view_validate [simp]: "view (snd (validate_sequence_number n st)) = view st"
  by (simp add: validate_sequence_number_def split: prod.split seq_check.split)

lemma view_caught [simp]: "view (snd (caught st)) = view st"
  by (simp add: caught_def)

lemma view_sequence [simp]: "view (snd (read_sequence bs st)) = view st"
  by (simp add: read_sequence_def Let_def split_beta split: sum.split)

lemma view_read_headers [simp]: "view (snd (read_headers env bs st)) = view st"
proof -
  obtain r1 st1 where b: "base_read_headers bs st = (r1, st1)" by (cases "base_read_headers bs st")
  have 1: "view st1 = view st" using view_base [of bs st] b by simp
  show ?thesis
  proof (cases r1)
    case None
    with b 1 show ?thesis by (simp add: read_headers_def)
  next
    case (Some bs1)
    let ?m = "case mb_messageHeader st1 of None \<Rightarrow> [] | Some h \<Rightarrow> mh_msgType h"
    show ?thesis
    proof (cases "decode_security_header ?m bs1")
      case (Inl e)
      with b Some 1 show ?thesis by (simp add: read_headers_def Let_def split: sum.split prod.split)
    next
      case (Inr hb)
      obtain h bs2 where hb: "hb = (h, bs2)" by (cases hb)
      obtain ok st2 where c: "check_policy h (st1\<lparr>mb_securityHeader := Some h\<rparr>) = (ok, st2)"
        by (cases "check_policy h (st1\<lparr>mb_securityHeader := Some h\<rparr>)")
      obtain r st3 where d: "decrypt_chunk env ?m bs2 h st2 = (r, st3)" by (cases "decrypt_chunk env ?m bs2 h st2")
      have 2: "view st2 = view st" using view_policy [of h "st1\<lparr>mb_securityHeader := Some h\<rparr>"] c 1 by simp
      have 3: "view st3 = view st" using view_decrypt [of env ?m bs2 h st2] d 2 by simp
      from b Some Inr hb c d 1 2 3 show ?thesis
        by (simp add: read_headers_def Let_def split: sum.split prod.split bool.split option.split)
    qed
  qed
qed

section \<open>The stream never grows\<close>

lemma read_le_buffer: "read_le n bs = Inr (v, bs') \<Longrightarrow> bs_buffer bs' = bs_buffer bs"
  by (auto simp: read_le_def)

lemma readers_keep_buffer:
  "readUInt8 bs = Inr (v, bs') \<Longrightarrow> bs_buffer bs' = bs_buffer bs"
  "readUInt32 bs = Inr (v, bs') \<Longrightarrow> bs_buffer bs' = bs_buffer bs"
  by (simp_all add: readUInt8_def readUInt32_def read_le_buffer)

lemma readString_buffer: "readString bs = Inr (s, bs') \<Longrightarrow> bs_buffer bs' = bs_buffer bs"
  by (auto simp: readString_def split: if_splits dest: readers_keep_buffer)

lemma readByteStream_buffer: "readByteStream bs = Inr (s, bs') \<Longrightarrow> bs_buffer bs' = bs_buffer bs"
  by (auto simp: readByteStream_def split: if_splits dest: readers_keep_buffer)

lemma readMessageHeader_buffer: "readMessageHeader bs = Inr (h, bs') \<Longrightarrow> bs_buffer bs' = bs_buffer bs"
  by (auto simp: readMessageHeader_def dest!: readers_keep_buffer)

lemma decode_security_header_buffer:
  "decode_security_header m bs = Inr (h, bs') \<Longrightarrow> bs_buffer bs' = bs_buffer bs"
  by (auto simp: decode_security_header_def decode_asymmetric_def decode_symmetric_def split: if_splits
      dest!: readers_keep_buffer readString_buffer readByteStream_buffer)

lemma decode_sequence_header_buffer:
  "decode_sequence_header bs = Inr (h, bs') \<Longrightarrow> bs_buffer bs' = bs_buffer bs"
  by (auto simp: decode_sequence_header_def dest!: readers_keep_buffer)

lemma base_read_headers_buffer:
  "base_read_headers bs st = (Some bs', st') \<Longrightarrow> bs_buffer bs' = bs_buffer bs"
  by (auto simp: base_read_headers_def Let_def split: sum.splits if_splits
      dest!: readMessageHeader_buffer readers_keep_buffer)

lemma length_reduceLength: "length (reduceLength b n) \<le> length b"
  by (auto simp: reduceLength_def)

lemma removePadding_shorter: "removePadding b = Inr b' \<Longrightarrow> length b' \<le> length b"
  by (auto simp: removePadding_def Let_def length_reduceLength split: if_splits)

lemma length_buf_copy: "length (buf_copy d b n) = length b"
  by (cases "n \<le> length b") (simp_all add: buf_copy_def overwrite_def)

lemma replace_decrypted_shorter: "length (bs_buffer (replace_decrypted d bs)) \<le> length (bs_buffer bs)"
  by (simp add: replace_decrypted_def length_buf_copy)

lemma decrypt_OPN_shorter:
  "decrypt_OPN env bs h st = (Inr (Some bs'), st') \<Longrightarrow>
     length (bs_buffer bs') \<le> length (bs_buffer bs)"
  by (auto simp: decrypt_OPN_def Let_def split: option.splits sum.splits if_splits prod.splits
      dest!: removePadding_shorter
      intro: order_trans [OF _ order_trans [OF length_reduceLength replace_decrypted_shorter]]
        order_trans [OF length_reduceLength])

lemma decrypt_MSG_shorter:
  "decrypt_MSG env bs t st = (Inr (Some bs'), st') \<Longrightarrow>
     length (bs_buffer bs') \<le> length (bs_buffer bs)"
  by (auto simp: decrypt_MSG_def Let_def split: option.splits sum.splits if_splits prod.splits
      dest!: removePadding_shorter
      intro: order_trans [OF _ order_trans [OF length_reduceLength replace_decrypted_shorter]]
        order_trans [OF length_reduceLength])

lemma decrypt_chunk_shorter:
  "decrypt_chunk env m bs h st = (Inr (Some bs'), st') \<Longrightarrow>
     length (bs_buffer bs') \<le> length (bs_buffer bs)"
  by (auto simp: decrypt_chunk_def split: security_header.splits if_splits
      dest: decrypt_OPN_shorter decrypt_MSG_shorter)

lemma read_headers_shorter:
  assumes "read_headers env bs st = (Some bs', st')"
  shows "length (bs_buffer bs') \<le> length (bs_buffer bs)"
proof -
  obtain bs1 st1 where b: "base_read_headers bs st = (Some bs1, st1)"
    using assms by (auto simp: read_headers_def split: prod.splits option.splits)
  have 1: "bs_buffer bs1 = bs_buffer bs" by (rule base_read_headers_buffer [OF b])
  let ?m = "case mb_messageHeader st1 of None \<Rightarrow> [] | Some h \<Rightarrow> mh_msgType h"
  consider "bs_buffer bs' = bs_buffer bs1"
    | h bs2 st2 bs3 st3 where "decode_security_header ?m bs1 = Inr (h, bs2)"
      "decrypt_chunk env ?m bs2 h st2 = (Inr (Some bs3), st3)" "read_sequence bs3 st3 = (Some bs', st')"
    using assms b
    by (auto simp: read_headers_def Let_def caught_def
        split: if_splits sum.splits prod.splits bool.splits option.splits
        dest!: readers_keep_buffer readString_buffer)
  then show ?thesis
  proof cases
    case 2
    have "bs_buffer bs' = bs_buffer bs3" using 2(3) decode_sequence_header_buffer
      by (auto simp: read_sequence_def Let_def caught_def split: sum.splits prod.splits if_splits)
    then show ?thesis
      using decrypt_chunk_shorter [OF 2(2)] decode_security_header_buffer [OF 2(1)] 1 by simp
  qed (simp add: 1)
qed

section \<open>The invariant\<close>

lemma append_within_limits:
  assumes "within_limits env st" "append_chunk env c st = (r, st')"
  shows "within_limits env st'"
proof -
  let ?st1 = "st\<lparr>mb_messageChunks := mb_messageChunks st @ [c],
                mb_totalMessageSize := mb_totalMessageSize st + length c\<rparr>"
  show ?thesis
  proof (cases "mb_hasReceivedError st \<or> length (mb_messageChunks st) + 1 > be_maxChunkCount env")
    case True
    with assms show ?thesis by (auto simp: append_chunk_def intro: view_limits split: if_splits)
  next
    case False
    then have 1: "within_limits env ?st1" using assms(1) by (auto simp: within_limits_def)
    show ?thesis
    proof (cases "mb_totalMessageSize ?st1 > be_maxMessageSize env")
      case True
      with False assms(2) show ?thesis
        by (auto simp: append_chunk_def Let_def intro: view_limits [OF _ 1])
    next
      case fits: False
      obtain o1 st2 where rh: "read_headers env (open_stream c) ?st1 = (o1, st2)"
        by (cases "read_headers env (open_stream c) ?st1")
      have v: "view st2 = view ?st1" using view_read_headers [of env "open_stream c" ?st1] rh by simp
      then have 2: "within_limits env st2" by (rule view_limits [OF _ 1])
      show ?thesis
      proof (cases o1)
        case None
        with False fits rh 2 assms(2) show ?thesis by (simp add: append_chunk_def Let_def)
      next
        case (Some bs)
        have "length (bs_buffer bs) \<le> length c"
          using read_headers_shorter rh Some by (fastforce simp: open_stream_def)
        then have d: "length (drop (bs_length bs) (bs_buffer bs)) \<le> length c" by simp
        have f: "mb_messageChunks st2 = mb_messageChunks st @ [c]" "mb_blocks st2 = mb_blocks st"
          "mb_totalMessageSize st2 = mb_totalMessageSize st + length c"
          "bodies (mb_events st2) = bodies (mb_events st)" using v by (simp_all add: view_def)
        have l: "length (mb_messageChunks st) + 1 \<le> be_maxChunkCount env" using False by simp
        have "within_limits env (st2\<lparr>mb_totalBodySize := x, mb_offsetBodyStart := y,
            mb_blocks := mb_blocks st2 @ [drop (bs_length bs) (bs_buffer bs)]\<rparr>)" for x y
          using assms(1) d fits l by (auto simp: within_limits_def f)
        moreover have "within_limits env (report_error BadTcpInternalError st2)"
          by (rule view_limits [OF _ 2]) simp
        ultimately show ?thesis using False fits rh Some assms(2)
          by (auto simp: append_chunk_def Let_def split: if_splits)
      qed
    qed
  qed
qed

lemma init_within_limits: "within_limits env st \<Longrightarrow> within_limits env (init_new st)"
  by (simp add: within_limits_def init_new_def)

lemma view_decode_body: "view (snd (decode_message_body env body st)) = view st"
  by (simp add: decode_message_body_def Let_def split: option.split sum.split prod.split)

lemma feed_within_limits:
  assumes "within_limits env st" "feed_message_chunk env c st = Inr (r, st')"
  shows "within_limits env st'"
proof -
  let ?st = "log_event (MbChunk c) st"
  have l: "within_limits env ?st" by (rule view_limits [OF _ assms(1)]) simp
  obtain r1 st1 where a: "append_chunk env c ?st = (r1, st1)" by (cases "append_chunk env c ?st")
  have limits1: "within_limits env st1" by (rule append_within_limits [OF l a])
  let ?body = "full_message_body (mb_blocks st1)"
  obtain r2 st2 where d: "decode_message_body env ?body (log_event (MbFullMessageBody ?body) st1) = (r2, st2)"
    by (cases "decode_message_body env ?body (log_event (MbFullMessageBody ?body) st1)")
  have "within_limits env (log_event (MbFullMessageBody ?body) st1)"
    using limits1 by (auto simp: within_limits_def log_event_def bodies_def length_full_message_body)
  then have limits2: "within_limits env st2"
    using view_limits view_decode_body [of env ?body "log_event (MbFullMessageBody ?body) st1"] d by (metis snd_conv)
  have errors: "within_limits env (report_error e ?st)" "within_limits env (report_error_text e t ?st)"
    "within_limits env (report_abandon q ?st)" for e t q
    by (rule view_limits [OF _ l], simp)+
  obtain h hs where rd: "readMessageHeader (open_stream c) = Inr (h, hs)"
    using assms(2) by (auto simp: feed_message_chunk_def)
  consider "mh_isFinal h = CHR ''F''" "mh_msgType h = ''ERR''" | "mh_isFinal h = CHR ''F''" "mh_msgType h \<noteq> ''ERR''"
    | "mh_isFinal h = CHR ''A''" | "mh_isFinal h = CHR ''C''"
    | "mh_isFinal h \<noteq> CHR ''F''" "mh_isFinal h \<noteq> CHR ''A''" "mh_isFinal h \<noteq> CHR ''C''" by blast
  then show ?thesis
  proof cases
    case 1
    then show ?thesis using assms(2) rd errors by (auto simp: feed_message_chunk_def)
  next
    case 2
    then show ?thesis using assms(2) rd a d limits1 init_within_limits [OF limits2]
      by (auto simp: feed_message_chunk_def Let_def split: if_splits)
  next
    case 3
    then show ?thesis using assms(2) rd errors
      by (simp add: feed_message_chunk_def Let_def split: sum.splits prod.splits) auto
  next
    case 4
    then show ?thesis using assms(2) rd a limits1 by (auto simp: feed_message_chunk_def Let_def)
  next
    case 5
    then show ?thesis using assms(2) rd l by (auto simp: feed_message_chunk_def)
  qed
qed

lemma events_within_limits:
  "within_limits env st \<Longrightarrow> on_assembler_events env evs st = Inr st' \<Longrightarrow> within_limits env st'"
proof (induction evs arbitrary: st)
  case (Cons e evs)
  obtain st1 where s: "on_assembler_event env e st = Inr st1" "on_assembler_events env evs st1 = Inr st'"
    using Cons.prems(2) by auto
  have "within_limits env st1"
  proof (cases e)
    case (Chunk c)
    with s(1) Cons.prems(1) feed_within_limits show ?thesis by auto
  qed (use s(1) Cons.prems(1) in \<open>auto intro: view_limits\<close>)
  with Cons.IH s(2) show ?case by blast
qed simp

text \<open>C5: Whatever a peer sends, in whatever fragments, and whatever the keys and decoders do, the
  builder never holds more than \<^verbatim>\<open>maxChunkCount\<close> chunks nor more than
  \<^verbatim>\<open>maxMessageSize\<close> bytes of body, and never hands over a body longer than
  \<^verbatim>\<open>maxMessageSize\<close>.\<close>

theorem builder_within_limits:
  assumes "mb_feed_all env ds mb = Some (Inr mb')" "within_limits env (mb_fields mb)"
  shows "within_limits env (mb_fields mb')"
  using assms
proof (induction ds arbitrary: mb)
  case (Cons d ds)
  obtain mb1 where m: "mb_feed env d mb = Some (Inr mb1)" "mb_feed_all env ds mb1 = Some (Inr mb')"
    using Cons.prems(1) by (auto split: option.splits sum.splits)
  have "within_limits env (mb_fields mb1)"
    using m(1) Cons.prems(2) events_within_limits
    by (auto simp: mb_feed_def split: if_splits option.splits sum.splits prod.splits)
  with Cons.IH m(2) show ?case by blast
qed simp

definition limited_env :: "(unit, buffer) builder_env" where
  "limited_env = \<lparr>be_maxMessageSize = 100, be_maxChunkCount = 2, be_maxChunkSize = 8192,
     be_validPrivateKey = False, be_getCryptoFactory = (\<lambda>_. None), be_getDerivedKey = (\<lambda>_. None),
     be_decodeExpandedNodeId = (\<lambda>bs. Inr ((), bs)), be_hasConstructor = (\<lambda>_. True),
     be_constructObject = (\<lambda>_. True), be_decodeObject = (\<lambda>_ bs. Inr (bs_buffer bs)), be_closeRequest = []\<rparr>"

definition limited_start :: "buffer message_builder" where
  "limited_start = projr (rbind (new_builder limited_env MsmNone) (\<lambda>(env, mb). Inr mb))"

lemma limited_start_within: "within_limits limited_env (mb_fields limited_start)"
  by (simp add: limited_start_def new_builder_def limited_env_def or_default_def new_packet_assembler_def
      within_limits_def bodies_def Let_def)

theorem builder_within_limits_witness:
  "\<exists>mb'. mb_feed_all limited_env [[77, 83], [71, 70, 20]] limited_start = Some (Inr mb') \<and>
     within_limits limited_env (mb_fields mb')"
proof -
  have f: "\<exists>mb1. mb_feed limited_env d mb = Some (Inr mb1) \<and> \<not> mb_hasReceivedError (mb_fields mb1) \<and>
      \<not> mb_securityDefeated (mb_fields mb1) \<and> pa_expectedLength (mb_assembler mb1) = 0 \<and>
      pa_currentLength (mb_assembler mb1) = pa_currentLength (mb_assembler mb) + length d"
    if "pa_expectedLength (mb_assembler mb) = 0" "pa_currentLength (mb_assembler mb) + length d < 8"
      "\<not> mb_hasReceivedError (mb_fields mb)" "\<not> mb_securityDefeated (mb_fields mb)" for d mb
    using that by (simp add: mb_feed_def feed.simps feed_start_def builder_assembler_def)
  have s: "pa_expectedLength (mb_assembler limited_start) = 0" "pa_currentLength (mb_assembler limited_start) = 0"
    "\<not> mb_hasReceivedError (mb_fields limited_start)" "\<not> mb_securityDefeated (mb_fields limited_start)"
    by (simp_all add: limited_start_def new_builder_def limited_env_def or_default_def new_packet_assembler_def Let_def)
  obtain mb1 where 1: "mb_feed limited_env [77, 83] limited_start = Some (Inr mb1)"
    "\<not> mb_hasReceivedError (mb_fields mb1)" "\<not> mb_securityDefeated (mb_fields mb1)"
    "pa_expectedLength (mb_assembler mb1) = 0" "pa_currentLength (mb_assembler mb1) = 2"
    using f [of limited_start "[77, 83]"] s by auto
  obtain mb2 where 2: "mb_feed limited_env [71, 70, 20] mb1 = Some (Inr mb2)"
    using f [of mb1 "[71, 70, 20]"] 1 by auto
  have "mb_feed_all limited_env [[77, 83], [71, 70, 20]] limited_start = Some (Inr mb2)" using 1(1) 2 by simp
  with builder_within_limits [OF this limited_start_within] show ?thesis by blast
qed

end
