(* ===== verification/Message_Chunker.thy ===== *)
theory Message_Chunker
  imports Secure_Chunks
begin

text \<open>
  \<^verbatim>\<open>MessageChunker\<close> of \<^verbatim>\<open>node-opcua-secure-channel\<close>: the sender's front end. It
  owns the channel's sequence number generator, checks a message against the limits the two ends
  negotiated, and drives one secure chunk manager per message. The message's encoder is the list of
  the writes it makes (the type's node id, then its fields), which the code runs twice: on a size
  calculator, then on a stream of that size.
\<close>

datatype chunker_status = ChGood | ChBadTcpMessageTooLarge | ChBadTcpInternalError | ChBadInternalError

record message_chunker =
  mk_maxMessageSize :: nat
  mk_maxChunkCount :: nat
  mk_securityMode :: mode
  mk_generator :: nat

definition defaultMaxChunkerSize :: nat where "defaultMaxChunkerSize = 16 * 1024 * 1024"
definition defaultChunkCount :: nat where "defaultChunkCount = 0"

definition new_message_chunker :: "mode option \<Rightarrow> nat \<Rightarrow> nat option \<Rightarrow> message_chunker" where
  "new_message_chunker m maxSize maxCount =
     \<lparr>mk_maxMessageSize = (if maxSize = 0 then defaultMaxChunkerSize else maxSize),
      mk_maxChunkCount = (case maxCount of None \<Rightarrow> defaultChunkCount | Some n \<Rightarrow> n),
      mk_securityMode = (case m of None \<Rightarrow> ModeNone | Some m' \<Rightarrow> m'), mk_generator = new_generator\<rparr>"

record chunk_parameters =
  cp_channelId :: nat
  cp_securityHeader :: security_header
  cp_securityOptions :: secure_options

definition makeAbandonChunk ::
    "nat \<Rightarrow> security_header option \<Rightarrow> nat \<Rightarrow> message_chunker \<Rightarrow> (buffer \<times> message_chunker) result" where
  "makeAbandonChunk channelId optHeader requestId mk =
     (let securityHeader = (case optHeader of None \<Rightarrow> SymmetricAlgorithmSecurityHeader 0 | Some h \<Rightarrow> h);
          (n, g) = seq_next (mk_generator mk)
      in rbind (apply_ops [OpUInt8 (charCodeAt ''MSG'' 0), OpUInt8 (charCodeAt ''MSG'' 1),
                 OpUInt8 (charCodeAt ''MSG'' 2), OpUInt8 (of_char CHR ''A''), OpUInt32 0, OpUInt32 (int channelId)]
                 (open_stream (replicate 24 0)))
           (\<lambda>st1. rbind (encode_security_header securityHeader st1)
              (\<lambda>st2. rbind (encode_sequence_header \<lparr>sh_sequenceNumber = n, sh_requestId = requestId\<rparr> st2)
                 (\<lambda>st3. rbind (writeUInt32 (int (bs_length st3)) (st3\<lparr>bs_length := 4\<rparr>))
                    (\<lambda>st4. Inr (bs_buffer st4, mk\<lparr>mk_generator := g\<rparr>))))))"

definition build_chunk_manager ::
    "string \<Rightarrow> chunk_parameters \<Rightarrow> message_chunker \<Rightarrow> secure_chunker result" where
  "build_chunk_manager msgType params mk =
     rbind (if msgType = ''OPN'' then assert_js (\<exists>a. cp_securityHeader params = AsymmetricAlgorithmSecurityHeader a)
            else if msgType = ''MSG'' then assert_js (\<exists>t. cp_securityHeader params = SymmetricAlgorithmSecurityHeader t)
            else Inr ())
       (\<lambda>_. new_secure_chunker (mk_securityMode mk) msgType (cp_channelId params) (cp_securityOptions params)
              (cp_securityHeader params) (mk_generator mk))"

definition prepareChunk ::
    "string \<Rightarrow> chunk_parameters \<Rightarrow> nat \<Rightarrow> message_chunker \<Rightarrow> chunker_status \<times> secure_chunker option" where
  "prepareChunk msgType params messageLength mk =
     (case build_chunk_manager msgType params mk of
        Inl _ \<Rightarrow> (ChBadTcpInternalError, None)
      | Inr manager \<Rightarrow>
          (let (totalLength, chunkCount) = evaluateTotalLengthAndChunks (sc_config manager) messageLength in
           if mk_maxChunkCount mk > 0 \<and> chunkCount > mk_maxChunkCount mk then (ChBadTcpMessageTooLarge, None)
           else if mk_maxMessageSize mk > 0 \<and> totalLength > mk_maxMessageSize mk
             then (ChBadTcpMessageTooLarge, None)
           else (ChGood, Some manager)))"

text \<open>The callback is given each chunk and, when the message is finished, null (\<open>None\<close>).\<close>

definition callbacks :: "chunk_event list \<Rightarrow> buffer option list" where
  "callbacks evs = map (\<lambda>e. case e of ChunkOut c _ \<Rightarrow> Some c | Finished \<Rightarrow> None) evs"

definition chunkSecureMessage ::
    "string \<Rightarrow> chunk_parameters \<Rightarrow> stream_op list \<Rightarrow> message_chunker
      \<Rightarrow> (chunker_status \<times> buffer option list \<times> message_chunker) result option" where
  "chunkSecureMessage msgType params encoder mk =
     (let messageLength = binaryStoreSize encoder in
      case prepareChunk msgType params messageLength mk of
        (ChGood, None) \<Rightarrow> Some (Inr (ChBadInternalError, [], mk))
      | (ChGood, Some manager) \<Rightarrow>
          (case apply_ops encoder (open_stream (so_uninitialized (cp_securityOptions params) messageLength)) of
             Inl e \<Rightarrow> Some (Inl e)
           | Inr stream \<Rightarrow>
               (case sc_write (bs_buffer stream) (Some (length (bs_buffer stream))) manager of
                  None \<Rightarrow> None
                | Some (Inl e) \<Rightarrow> Some (Inl e)
                | Some (Inr (manager1, evs1)) \<Rightarrow>
                    Some (rbind (sc_end manager1) (\<lambda>(manager2, evs2).
                      Inr (ChGood, callbacks (evs1 @ evs2),
                           mk\<lparr>mk_generator := cm_env (sc_chunks manager2)\<rparr>)))))
      | (status, _) \<Rightarrow> Some (Inr (status, [], mk)))"

section \<open>Properties\<close>

lemma length_overwrite_room: "length x \<le> length b - n \<Longrightarrow> length (overwrite b n x) = length b"
  by (cases "n \<le> length b") (simp_all add: overwrite_def)

lemma utf8_fit_room: "length (utf8_fit room us) \<le> room"
  by (induction room us rule: utf8_fit.induct) auto

lemma apply_op_buffer_length: "apply_op p st = Inr st' \<Longrightarrow> length (bs_buffer st') = length (bs_buffer st)"
proof (cases p)
  case (OpByteStream b)
  assume a: "apply_op p st = Inr st'"
  show ?thesis
  proof (cases b)
    case None
    with a OpByteStream show ?thesis
      by (auto simp: writeByteStream_def writeInteger_def dest!: write_int_le_length)
  next
    case (Some c)
    with a OpByteStream show ?thesis
      by (auto simp: writeByteStream_def writeInteger_def length_overwrite_room split: if_splits
          dest!: write_int_le_length)
  qed
next
  case (OpString s)
  assume a: "apply_op p st = Inr st'"
  show ?thesis
  proof (cases s)
    case None
    with a OpString show ?thesis by (auto simp: writeString_def writeUInt32_def dest!: write_le_length)
  next
    case (Some c)
    with a OpString show ?thesis
      by (auto simp: writeString_def writeInteger_def Let_def length_overwrite_room utf8_fit_room split: if_splits
          dest!: write_int_le_length)
  qed
next
  case (OpArrayBuffer b off n)
  assume "apply_op p st = Inr st'"
  with OpArrayBuffer show ?thesis by (auto simp: writeArrayBuffer_def Let_def length_overwrite_room)
qed (auto simp: stream_defs dest!: write_le_length write_int_le_length)

lemma apply_ops_buffer_length: "apply_ops ps st = Inr st' \<Longrightarrow> length (bs_buffer st') = length (bs_buffer st)"
  by (induction ps arbitrary: st) (auto dest: apply_op_buffer_length)

lemma callbacks_message: "callbacks (map (\<lambda>(c, l). ChunkOut c l) cs @ [Finished]) = map (Some \<circ> fst) cs @ [None]"
  by (induction cs) (auto simp: callbacks_def)

lemma prepareChunk_good:
  "prepareChunk msgType params n mk = (ChGood, Some manager) \<Longrightarrow>
     new_secure_chunker (mk_securityMode mk) msgType (cp_channelId params) (cp_securityOptions params)
        (cp_securityHeader params) (mk_generator mk) = Inr manager"
  by (auto simp: prepareChunk_def build_chunk_manager_def Let_def split: sum.splits if_splits prod.splits)

lemma sum_length_bound:
  "\<forall>c\<in>set cs. length (fst c) \<le> n \<Longrightarrow> sum_list (map (length \<circ> fst) cs) \<le> n * length cs"
  by (induction cs) auto

text \<open>A message within the limits is sent whole: when its encoder accepts the buffer of the
  computed size, \<^verbatim>\<open>chunkSecureMessage\<close> hands the callback exactly the specified chunks of
  the encoded bytes and then null, advances the channel's generator by one number per chunk, and
  the chunks number at most \<^verbatim>\<open>maxChunkCount\<close> and add up to at most
  \<^verbatim>\<open>maxMessageSize\<close> bytes, where these limits are set.\<close>

theorem chunkSecureMessage_sent:
  assumes "prepareChunk msgType params (binaryStoreSize encoder) mk = (ChGood, Some manager)"
    "crypto_contract (mk_securityMode mk) (cp_securityOptions params)"
    "sender_sizes (cp_channelId params) (cp_securityOptions params) (cp_securityHeader params)"
    "valid_generator (mk_generator mk)" "0 < binaryStoreSize encoder"
    "apply_ops encoder (open_stream (so_uninitialized (cp_securityOptions params) (binaryStoreSize encoder))) = Inr stream"
  shows "let cs = message_chunks manager (mk_generator mk) (bs_buffer stream) in
     chunkSecureMessage msgType params encoder mk
       = Some (Inr (ChGood, map (Some \<circ> fst) cs @ [None], mk\<lparr>mk_generator := (sc_next ^^ length cs) (mk_generator mk)\<rparr>))
     \<and> (0 < mk_maxChunkCount mk \<longrightarrow> length cs \<le> mk_maxChunkCount mk)
     \<and> (0 < mk_maxMessageSize mk \<longrightarrow> sum_list (map (length \<circ> fst) cs) \<le> mk_maxMessageSize mk)
     \<and> bs_length stream = length (bs_buffer stream)"
proof -
  let ?g = "mk_generator mk" and ?b = "bs_buffer stream" and ?n = "binaryStoreSize encoder"
  let ?cs = "message_chunks manager ?g ?b"
  note new = prepareChunk_good [OF assms(1)]
  have u: "length (so_uninitialized (cp_securityOptions params) ?n) = ?n"
    using assms(2) by (simp add: crypto_contract_def)
  have bl: "bs_length stream = ?n"
    using apply_ops_length [OF assms(6)] by (simp add: open_stream_def binaryStoreSize_def)
  have lb: "length ?b = ?n" using apply_ops_buffer_length [OF assms(6)] u by (simp add: open_stream_def)
  with assms(5) have ne: "?b \<noteq> []" by auto
  obtain sc1 evs1 sc2 evs2 where w: "sc_write ?b None manager = Some (Inr (sc1, evs1))"
    "sc_end sc1 = Inr (sc2, evs2)"
    "evs1 @ evs2 = map (\<lambda>(c, l). ChunkOut c l) ?cs @ [Finished]"
    "cm_env (sc_chunks sc2) = (sc_next ^^ length ?cs) ?g"
    by (rule secure_message [OF new assms(2-4) ne])
  have w': "sc_write ?b (Some (length ?b)) manager = Some (Inr (sc1, evs1))"
    using w(1) by (simp add: sc_write_def)
  have call: "chunkSecureMessage msgType params encoder mk
       = Some (Inr (ChGood, map (Some \<circ> fst) ?cs @ [None], mk\<lparr>mk_generator := (sc_next ^^ length ?cs) ?g\<rparr>))"
    unfolding chunkSecureMessage_def Let_def assms(1) prod.case chunker_status.case option.case assms(6) sum.case w'
    by (simp add: w(2-4) callbacks_message)
  have "0 < maxBodySize (sc_config manager)"
    using new_secure_chunker_config_wf [OF new assms(2)] by (simp add: cm_wf_def)
  then have n: "length ?cs = (?n + maxBodySize (sc_config manager) - 1) div maxBodySize (sc_config manager)"
    by (simp add: message_chunks_def length_pieces lb)
  have lim: "0 < mk_maxChunkCount mk \<longrightarrow> length ?cs \<le> mk_maxChunkCount mk"
    "0 < mk_maxMessageSize mk \<longrightarrow> chunkSize (sc_config manager) * length ?cs \<le> mk_maxMessageSize mk"
    using assms(1) unfolding prepareChunk_def
    by (auto simp: n evaluateTotalLengthAndChunks_def Let_def split: sum.splits if_splits)
  have "\<forall>c\<in>set ?cs. length (fst c) \<le> chunkSize (sc_config manager)"
    using message_chunk_header(1) [OF new assms(2-4)] by auto
  then have "sum_list (map (length \<circ> fst) ?cs) \<le> chunkSize (sc_config manager) * length ?cs"
    by (rule sum_length_bound)
  with lim(2) have "0 < mk_maxMessageSize mk \<longrightarrow> sum_list (map (length \<circ> fst) ?cs) \<le> mk_maxMessageSize mk"
    by linarith
  with call lim(1) bl lb show ?thesis unfolding Let_def by simp
qed

definition example_parameters :: chunk_parameters where
  "example_parameters = \<lparr>cp_channelId = 5, cp_securityHeader = SymmetricAlgorithmSecurityHeader 3,
     cp_securityOptions = unsecured_options 9 0\<rparr>"

theorem chunkSecureMessage_sent_witness:
  "\<exists>c mk'. chunkSecureMessage ''MSG'' example_parameters [OpUInt32 7, OpByteStream (Some [1, 2])]
       (new_message_chunker None 0 (Some 1)) = Some (Inr (ChGood, [Some c, None], mk'))"
proof -
  let ?mk = "new_message_chunker None 0 (Some 1)" and ?e = "[OpUInt32 7, OpByteStream (Some [1, 2])]"
  let ?sc = "unsecured_chunker 5 9 0 3"
  have n: "binaryStoreSize ?e = 10" by (simp add: binaryStoreSize_def)
  have mk: "mk_securityMode ?mk = ModeNone" "mk_generator ?mk = 1" "mk_maxChunkCount ?mk = 1"
     "mk_maxMessageSize ?mk = defaultMaxChunkerSize"
    by (simp_all add: new_message_chunker_def new_generator_def)
  have new: "new_secure_chunker ModeNone ''MSG'' 5 (unsecured_options 9 0) (SymmetricAlgorithmSecurityHeader 3) 1
      = Inr ?sc" using unsecured_new [of 5 9 0 3] by simp
  have p: "prepareChunk ''MSG'' example_parameters (binaryStoreSize ?e) ?mk = (ChGood, Some ?sc)"
    unfolding n prepareChunk_def build_chunk_manager_def mk example_parameters_def using new
    by (simp add: evaluateTotalLengthAndChunks_def unsecured_sizes_of defaultMaxChunkerSize_def Let_def)
  have c: "crypto_contract (mk_securityMode ?mk) (cp_securityOptions example_parameters)"
    unfolding mk using unsecured_contract [of 9 0] by (simp add: example_parameters_def)
  have s: "sender_sizes (cp_channelId example_parameters) (cp_securityOptions example_parameters) (cp_securityHeader example_parameters)"
    using unsecured_sizes [of 5 9 0 3] by (simp add: example_parameters_def)
  have v: "valid_generator (mk_generator ?mk)" unfolding mk by (simp add: valid_generator_def MAXVALUE_def)
  obtain stream where st: "apply_ops ?e (open_stream (so_uninitialized (cp_securityOptions example_parameters) (binaryStoreSize ?e))) = Inr stream"
    unfolding n by (simp add: example_parameters_def unsecured_options_def stream_defs stream_eval)
  have "length (bs_buffer stream) = 10"
    using apply_ops_buffer_length [OF st] unfolding n
    by (simp add: open_stream_def example_parameters_def unsecured_options_def)
  then have one: "length (message_chunks ?sc (mk_generator ?mk) (bs_buffer stream)) = 1"
    by (simp add: message_chunks_def length_pieces unsecured_sizes_of)
  then obtain c where "message_chunks ?sc (mk_generator ?mk) (bs_buffer stream) = [c]"
    by (auto simp: length_Suc_conv)
  with chunkSecureMessage_sent [OF p c s v _ st] n show ?thesis by (auto simp: Let_def)
qed

end
