(* ===== verification/Token_Stack.thy ===== *)
theory Token_Stack
  imports Prelude
begin

text \<open>
  \<^verbatim>\<open>TokenStack\<close> of \<^verbatim>\<open>node-opcua-secure-channel\<close>: the security tokens of a channel
  with the keys derived for each. The clock is an argument (\<open>now\<close>, milliseconds). The two
  \<^verbatim>\<open>IDerivedKeyProvider\<close> objects it hands out, for the client's and for the server's keys,
  are the two interpretations of one contract.
\<close>

record security_token =
  tk_tokenId :: nat
  tk_createdAt :: "int option"
  tk_revisedLifetime :: nat
  tk_channelId :: nat

record 'k derived_pair =
  derivedClientKeys :: "'k option"
  derivedServerKeys :: "'k option"

type_synonym 'k token_stack = "(security_token \<times> 'k derived_pair option) list"

text \<open>\<^verbatim>\<open>age > revisedLifetime * 1.25\<close>, over integers.\<close>

definition hasTokenReallyExpired :: "int \<Rightarrow> security_token \<Rightarrow> bool" where
  "hasTokenReallyExpired now token =
     (let age = now - (case tk_createdAt token of None \<Rightarrow> 0 | Some t \<Rightarrow> t)
      in 4 * age > 5 * int (tk_revisedLifetime token))"

definition removeOldTokens :: "int \<Rightarrow> 'k token_stack \<Rightarrow> 'k token_stack" where
  "removeOldTokens now st = filter (\<lambda>(tok, _). \<not> hasTokenReallyExpired now tok) st"

definition pushNewToken ::
    "int \<Rightarrow> security_token \<Rightarrow> 'k derived_pair option \<Rightarrow> 'k token_stack \<Rightarrow> 'k token_stack result" where
  "pushNewToken now securityToken derivedKeys st =
     (let st1 = removeOldTokens now st in
      rbind (assert_js (st1 = [] \<or> tk_tokenId (fst (st1 ! 0)) \<noteq> tk_tokenId securityToken))
        (\<lambda>_. Inr (st1 @ [(securityToken, derivedKeys)])))"

definition tokenIds :: "'k token_stack \<Rightarrow> nat list" where
  "tokenIds st = map (tk_tokenId \<circ> fst) st"

definition find_token :: "nat \<Rightarrow> 'k token_stack \<Rightarrow> (security_token \<times> 'k derived_pair option) option" where
  "find_token tokenId st = List.find (\<lambda>a. tk_tokenId (fst a) = tokenId) st"

definition getToken :: "nat \<Rightarrow> 'k token_stack \<Rightarrow> security_token option" where
  "getToken tokenId st = map_option fst (find_token tokenId st)"

definition getTokenDerivedKeys :: "int \<Rightarrow> nat \<Rightarrow> 'k token_stack \<Rightarrow> 'k derived_pair option" where
  "getTokenDerivedKeys now tokenId st =
     (case find_token tokenId st of
        None \<Rightarrow> None
      | Some (tok, keys) \<Rightarrow> if hasTokenReallyExpired now tok then None else keys)"

definition client_getDerivedKey :: "'k token_stack \<Rightarrow> int \<Rightarrow> nat \<Rightarrow> 'k option" where
  "client_getDerivedKey st now tokenId =
     (case getTokenDerivedKeys now tokenId st of None \<Rightarrow> None | Some d \<Rightarrow> derivedClientKeys d)"

definition server_getDerivedKey :: "'k token_stack \<Rightarrow> int \<Rightarrow> nat \<Rightarrow> 'k option" where
  "server_getDerivedKey st now tokenId =
     (case getTokenDerivedKeys now tokenId st of None \<Rightarrow> None | Some d \<Rightarrow> derivedServerKeys d)"

text \<open>The loop of \<^verbatim>\<open>getLatestTokenDerivedKeys\<close>, from index \<open>n - 1\<close> down.\<close>

fun latest_from :: "int \<Rightarrow> 'k token_stack \<Rightarrow> nat \<Rightarrow> (nat \<times> 'k derived_pair) option" where
  "latest_from now st 0 = None"
| "latest_from now st (Suc i) =
     (case st ! i of
        (tok, Some keys) \<Rightarrow>
          if \<not> hasTokenReallyExpired now tok then Some (tk_tokenId tok, keys) else latest_from now st i
      | (tok, None) \<Rightarrow> latest_from now st i)"

definition getLatestTokenDerivedKeys :: "int \<Rightarrow> 'k token_stack \<Rightarrow> (nat \<times> 'k derived_pair) option" where
  "getLatestTokenDerivedKeys now st = latest_from now st (length st)"

section \<open>Lookups\<close>

lemma expired_mono: "hasTokenReallyExpired now tok \<Longrightarrow> now \<le> t \<Longrightarrow> hasTokenReallyExpired t tok"
  by (simp add: hasTokenReallyExpired_def Let_def split: option.splits)

lemma tokenIds_simps [simp]:
  "tokenIds [] = []" "tokenIds (e # st) = tk_tokenId (fst e) # tokenIds st"
  "tokenIds (xs @ ys) = tokenIds xs @ tokenIds ys"
  by (simp_all add: tokenIds_def)

lemma find_token_simps [simp]:
  "find_token i [] = None"
  "find_token i (e # st) = (if tk_tokenId (fst e) = i then Some e else find_token i st)"
  by (simp_all add: find_token_def)

lemma find_token_append:
  "find_token i (xs @ ys) = (case find_token i xs of None \<Rightarrow> find_token i ys | Some e \<Rightarrow> Some e)"
  by (induction xs) auto

lemma find_token_None: "find_token i st = None \<longleftrightarrow> i \<notin> set (tokenIds st)"
  by (induction st) auto

lemma removeOldTokens_ids: "set (tokenIds (removeOldTokens now st)) \<subseteq> set (tokenIds st)"
  by (auto simp: tokenIds_def removeOldTokens_def)

lemma removeOldTokens_distinct: "distinct (tokenIds st) \<Longrightarrow> distinct (tokenIds (removeOldTokens now st))"
  by (simp add: tokenIds_def removeOldTokens_def distinct_map_filter)

text \<open>Dropping expired tokens changes no lookup, now or later.\<close>

lemma removeOldTokens_lookup:
  assumes "distinct (tokenIds st)" "now \<le> t"
  shows "getTokenDerivedKeys t i (removeOldTokens now st) = getTokenDerivedKeys t i st"
  using assms(1)
proof (induction st)
  case (Cons e st)
  obtain tok keys where e: "e = (tok, keys)" by (cases e)
  have IH: "getTokenDerivedKeys t i (removeOldTokens now st) = getTokenDerivedKeys t i st"
    using Cons by simp
  show ?case
  proof (cases "tk_tokenId tok = i \<and> hasTokenReallyExpired now tok")
    case True
    then have "i \<notin> set (tokenIds (removeOldTokens now st))"
      using Cons.prems e removeOldTokens_ids [of now st] by auto
    then have "find_token i (removeOldTokens now st) = None" by (simp add: find_token_None)
    with True expired_mono [OF _ assms(2)] show ?thesis
      by (simp add: e getTokenDerivedKeys_def removeOldTokens_def)
  next
    case False
    with IH show ?thesis by (auto simp: e getTokenDerivedKeys_def removeOldTokens_def)
  qed
qed (simp add: removeOldTokens_def)

lemma push_lookup:
  assumes "pushNewToken now tok keys st = Inr st'" "distinct (tokenIds st)" "tk_tokenId tok \<notin> set (tokenIds st)"
    "now \<le> t"
  shows "getTokenDerivedKeys t i st' =
    (if i = tk_tokenId tok then if hasTokenReallyExpired t tok then None else keys
     else getTokenDerivedKeys t i st)"
proof -
  have st': "st' = removeOldTokens now st @ [(tok, keys)]"
    using assms(1) by (simp add: pushNewToken_def Let_def)
  show ?thesis
  proof (cases "i = tk_tokenId tok")
    case True
    then have "find_token i (removeOldTokens now st) = None"
      using assms(3) removeOldTokens_ids [of now st] by (auto simp: find_token_None)
    with True show ?thesis by (simp add: st' getTokenDerivedKeys_def find_token_append)
  next
    case False
    have "getTokenDerivedKeys t i st' = getTokenDerivedKeys t i (removeOldTokens now st)"
      using False by (auto simp: st' getTokenDerivedKeys_def find_token_append split: option.split)
    with False removeOldTokens_lookup [OF assms(2,4)] show ?thesis by simp
  qed
qed

lemma push_distinct:
  assumes "pushNewToken now tok keys st = Inr st'" "distinct (tokenIds st)" "tk_tokenId tok \<notin> set (tokenIds st)"
  shows "distinct (tokenIds st')" "set (tokenIds st') \<subseteq> insert (tk_tokenId tok) (set (tokenIds st))"
proof -
  have st': "st' = removeOldTokens now st @ [(tok, keys)]"
    using assms(1) by (simp add: pushNewToken_def Let_def)
  show "distinct (tokenIds st')"
    using removeOldTokens_distinct [OF assms(2)] removeOldTokens_ids [of now st] assms(3) by (auto simp: st')
  show "set (tokenIds st') \<subseteq> insert (tk_tokenId tok) (set (tokenIds st))"
    using removeOldTokens_ids [of now st] by (auto simp: st')
qed

lemma push_fresh: "tk_tokenId tok \<notin> set (tokenIds st) \<Longrightarrow> \<exists>st'. pushNewToken now tok keys st = Inr st'"
proof -
  assume a: "tk_tokenId tok \<notin> set (tokenIds st)"
  have "removeOldTokens now st = [] \<or> tk_tokenId (fst (removeOldTokens now st ! 0)) \<noteq> tk_tokenId tok"
    using a removeOldTokens_ids [of now st] by (cases "removeOldTokens now st") auto
  then show ?thesis by (simp add: pushNewToken_def Let_def assert_js_def)
qed

section \<open>The contract of a key provider\<close>

text \<open>What the message builder relies on when it asks its \<^verbatim>\<open>IDerivedKeyProvider\<close> for the
  keys of a token: \<open>lookup\<close> is \<^verbatim>\<open>getDerivedKey\<close>, \<open>part\<close> the side whose keys are meant.\<close>

locale key_provider =
  fixes lookup :: "'s \<Rightarrow> int \<Rightarrow> nat \<Rightarrow> 'k option"
    and push :: "int \<Rightarrow> security_token \<Rightarrow> 'k derived_pair option \<Rightarrow> 's \<Rightarrow> 's result"
    and ids :: "'s \<Rightarrow> nat set" and wf :: "'s \<Rightarrow> bool" and part :: "'k derived_pair \<Rightarrow> 'k option"
  assumes push_total: "tk_tokenId tok \<notin> ids s \<Longrightarrow> \<exists>s'. push now tok e s = Inr s'"
    and push_wf: "push now tok e s = Inr s' \<Longrightarrow> wf s \<Longrightarrow> tk_tokenId tok \<notin> ids s \<Longrightarrow> wf s'"
    and push_ids: "push now tok e s = Inr s' \<Longrightarrow> wf s \<Longrightarrow> tk_tokenId tok \<notin> ids s \<Longrightarrow>
      ids s' \<subseteq> insert (tk_tokenId tok) (ids s)"
    and lookup_new: "push now tok (Some d) s = Inr s' \<Longrightarrow> wf s \<Longrightarrow> tk_tokenId tok \<notin> ids s \<Longrightarrow> now \<le> t \<Longrightarrow>
      lookup s' t (tk_tokenId tok) = (if hasTokenReallyExpired t tok then None else part d)"
    and lookup_old: "push now tok e s = Inr s' \<Longrightarrow> wf s \<Longrightarrow> tk_tokenId tok \<notin> ids s \<Longrightarrow> now \<le> t \<Longrightarrow>
      i \<noteq> tk_tokenId tok \<Longrightarrow> lookup s' t i = lookup s t i"
begin

text \<open>Renewing a token keeps the previous one usable until it really expires, and takes the keys of no
  other token away.\<close>

lemma renewal:
  assumes "wf s" "tk_tokenId a \<notin> ids s" "tk_tokenId b \<notin> ids s" "tk_tokenId a \<noteq> tk_tokenId b"
    "push t0 a (Some ka) s = Inr s1" "t0 \<le> t1" "t1 \<le> t"
  shows "\<exists>s2. push t1 b (Some kb) s1 = Inr s2 \<and>
    lookup s2 t (tk_tokenId a) = (if hasTokenReallyExpired t a then None else part ka) \<and>
    lookup s2 t (tk_tokenId b) = (if hasTokenReallyExpired t b then None else part kb) \<and>
    (\<forall>i. i \<noteq> tk_tokenId a \<longrightarrow> i \<noteq> tk_tokenId b \<longrightarrow> lookup s2 t i = lookup s t i)"
proof -
  have w: "wf s1" "tk_tokenId b \<notin> ids s1"
    using push_wf [OF assms(5,1,2)] push_ids [OF assms(5,1,2)] assms(3,4) by auto
  obtain s2 where s2: "push t1 b (Some kb) s1 = Inr s2" using push_total [OF w(2)] by blast
  have t: "t0 \<le> t" using assms(6,7) by simp
  then have "lookup s2 t (tk_tokenId a) = (if hasTokenReallyExpired t a then None else part ka)"
    using lookup_old [OF s2 w assms(7,4)] lookup_new [OF assms(5,1,2)] by simp
  moreover have "lookup s2 t i = lookup s t i" if "i \<noteq> tk_tokenId a" "i \<noteq> tk_tokenId b" for i
    using lookup_old [OF s2 w assms(7) that(2)] lookup_old [OF assms(5,1,2) t that(1)] by simp
  ultimately show ?thesis using s2 lookup_new [OF s2 w assms(7)] by blast
qed

end

interpretation client: key_provider client_getDerivedKey pushNewToken "\<lambda>st. set (tokenIds st)"
    "\<lambda>st. distinct (tokenIds st)" derivedClientKeys
  by unfold_locales (auto simp: push_fresh push_distinct push_lookup client_getDerivedKey_def
      dest: push_distinct(2))

interpretation server: key_provider server_getDerivedKey pushNewToken "\<lambda>st. set (tokenIds st)"
    "\<lambda>st. distinct (tokenIds st)" derivedServerKeys
  by unfold_locales (auto simp: push_fresh push_distinct push_lookup server_getDerivedKey_def
      dest: push_distinct(2))

section \<open>Properties\<close>

lemma expires_at:
  "tk_createdAt tok = Some c \<Longrightarrow> hasTokenReallyExpired t tok \<longleftrightarrow> \<not> 4 * (t - c) \<le> 5 * int (tk_revisedLifetime tok)"
  by (auto simp: hasTokenReallyExpired_def)

text \<open>C20: Renewing a channel's token. Two tokens \<open>a\<close> and \<open>b\<close> with ids that differ and that the
  stack does not hold yet are pushed one after the other, on a stack whose ids are distinct. The second push succeeds,
  and at any later time \<open>t\<close> the providers of both ends find the keys of \<open>a\<close> under its id exactly as long as no
  more than 5/4 of its revised lifetime has passed since it was created, and those of \<open>b\<close> under its own id by the
  same rule; after that time they find none. Under every other id both providers find what they would have found on the
  stack before the two pushes: the pruning of expired tokens on each push takes no key away that a lookup at that time
  would still return.\<close>

theorem token_renewal:
  assumes "distinct (tokenIds st)" "tk_tokenId a \<notin> set (tokenIds st)" "tk_tokenId b \<notin> set (tokenIds st)"
    "tk_tokenId a \<noteq> tk_tokenId b" "tk_createdAt a = Some ca" "tk_createdAt b = Some cb"
    "pushNewToken t0 a (Some ka) st = Inr st1" "t0 \<le> t1" "t1 \<le> t"
  shows "\<exists>st2. pushNewToken t1 b (Some kb) st1 = Inr st2
     \<and> client_getDerivedKey st2 t (tk_tokenId a)
         = (if 4 * (t - ca) \<le> 5 * int (tk_revisedLifetime a) then derivedClientKeys ka else None)
     \<and> client_getDerivedKey st2 t (tk_tokenId b)
         = (if 4 * (t - cb) \<le> 5 * int (tk_revisedLifetime b) then derivedClientKeys kb else None)
     \<and> server_getDerivedKey st2 t (tk_tokenId a)
         = (if 4 * (t - ca) \<le> 5 * int (tk_revisedLifetime a) then derivedServerKeys ka else None)
     \<and> server_getDerivedKey st2 t (tk_tokenId b)
         = (if 4 * (t - cb) \<le> 5 * int (tk_revisedLifetime b) then derivedServerKeys kb else None)
     \<and> (\<forall>i. i \<noteq> tk_tokenId a \<longrightarrow> i \<noteq> tk_tokenId b \<longrightarrow>
          client_getDerivedKey st2 t i = client_getDerivedKey st t i \<and> server_getDerivedKey st2 t i = server_getDerivedKey st t i)"
proof -
  note A = assms(1-4,7-9)
  from client.renewal [OF A, of kb] server.renewal [OF A, of kb] show ?thesis
    by (auto simp: expires_at [OF assms(5)] expires_at [OF assms(6)])
qed

text \<open>A renewal at 900 of a token created at 0 with a lifetime of 1000, while a third token of the stack is still
  good: at 1250 the three keys are found, at 1251 the first has gone.\<close>

theorem token_renewal_witness:
  "\<exists>st2. pushNewToken 900 \<lparr>tk_tokenId = 2, tk_createdAt = Some 900, tk_revisedLifetime = 1000, tk_channelId = 5\<rparr>
       (Some \<lparr>derivedClientKeys = Some 21, derivedServerKeys = Some (22 :: nat)\<rparr>)
       [(\<lparr>tk_tokenId = 3, tk_createdAt = Some 0, tk_revisedLifetime = 5000, tk_channelId = 5\<rparr>,
         Some \<lparr>derivedClientKeys = Some 31, derivedServerKeys = Some 32\<rparr>),
        (\<lparr>tk_tokenId = 1, tk_createdAt = Some 0, tk_revisedLifetime = 1000, tk_channelId = 5\<rparr>,
         Some \<lparr>derivedClientKeys = Some 11, derivedServerKeys = Some 12\<rparr>)] = Inr st2
     \<and> client_getDerivedKey st2 1250 1 = Some 11 \<and> server_getDerivedKey st2 1250 2 = Some 22
     \<and> client_getDerivedKey st2 1251 1 = None \<and> client_getDerivedKey st2 1251 3 = Some 31"
proof -
  let ?a = "\<lparr>tk_tokenId = 1, tk_createdAt = Some 0, tk_revisedLifetime = 1000, tk_channelId = 5\<rparr>"
  let ?b = "\<lparr>tk_tokenId = 2, tk_createdAt = Some 900, tk_revisedLifetime = 1000, tk_channelId = 5\<rparr>"
  let ?c = "\<lparr>tk_tokenId = 3, tk_createdAt = Some 0, tk_revisedLifetime = 5000, tk_channelId = 5\<rparr>"
  let ?ka = "\<lparr>derivedClientKeys = Some 11, derivedServerKeys = Some (12 :: nat)\<rparr>"
  let ?kb = "\<lparr>derivedClientKeys = Some 21, derivedServerKeys = Some (22 :: nat)\<rparr>"
  let ?kc = "\<lparr>derivedClientKeys = Some 31, derivedServerKeys = Some (32 :: nat)\<rparr>"
  have p: "pushNewToken 0 ?a (Some ?ka) [(?c, Some ?kc)] = Inr [(?c, Some ?kc), (?a, Some ?ka)]"
    by (simp add: pushNewToken_def removeOldTokens_def hasTokenReallyExpired_def)
  have i: "client_getDerivedKey [(?c, Some ?kc)] 1251 3 = Some 31"
    by (simp add: client_getDerivedKey_def getTokenDerivedKeys_def hasTokenReallyExpired_def)
  show ?thesis
    using token_renewal [OF _ _ _ _ _ _ p, of ?b 0 900 900 1250 ?kb] token_renewal [OF _ _ _ _ _ _ p, of ?b 0 900 900 1251 ?kb] i
    by auto
qed

text \<open>\<^verbatim>\<open>getLatestTokenDerivedKeys\<close> returns the newest token that has keys and has not
  really expired: none is pushed after it that qualifies, and it finds one whenever there is one.\<close>

theorem latest_token_is_newest:
  "(case getLatestTokenDerivedKeys now st of
      Some (i, k) \<Rightarrow> \<exists>xs tok ys. st = xs @ (tok, Some k) # ys \<and> tk_tokenId tok = i \<and>
        \<not> hasTokenReallyExpired now tok \<and> (\<forall>(u, d) \<in> set ys. d = None \<or> hasTokenReallyExpired now u)
    | None \<Rightarrow> \<forall>(u, d) \<in> set st. d = None \<or> hasTokenReallyExpired now u)"
proof -
  have "case latest_from now st n of
      Some (i, k) \<Rightarrow> \<exists>xs tok ys. take n st = xs @ (tok, Some k) # ys \<and> tk_tokenId tok = i \<and>
        \<not> hasTokenReallyExpired now tok \<and> (\<forall>(u, d) \<in> set ys. d = None \<or> hasTokenReallyExpired now u)
    | None \<Rightarrow> \<forall>(u, d) \<in> set (take n st). d = None \<or> hasTokenReallyExpired now u" if "n \<le> length st" for n
    using that
  proof (induction n)
    case (Suc n)
    obtain tok d where e: "st ! n = (tok, d)" by (cases "st ! n")
    have t: "take (Suc n) st = take n st @ [(tok, d)]" using Suc.prems e by (simp add: take_Suc_conv_app_nth)
    show ?case
    proof (cases "d \<noteq> None \<and> \<not> hasTokenReallyExpired now tok")
      case True
      then obtain k where "d = Some k" by auto
      with True e have "latest_from now st (Suc n) = Some (tk_tokenId tok, k)" by simp
      moreover have "take (Suc n) st = take n st @ (tok, Some k) # []" using t \<open>d = Some k\<close> by simp
      ultimately show ?thesis using True by fastforce
    next
      case False
      then have l: "latest_from now st (Suc n) = latest_from now st n" using e by (cases d) auto
      have IH: "case latest_from now st n of
        Some (i, k) \<Rightarrow> \<exists>xs tok ys. take n st = xs @ (tok, Some k) # ys \<and> tk_tokenId tok = i \<and>
          \<not> hasTokenReallyExpired now tok \<and> (\<forall>(u, d) \<in> set ys. d = None \<or> hasTokenReallyExpired now u)
        | None \<Rightarrow> \<forall>(u, d) \<in> set (take n st). d = None \<or> hasTokenReallyExpired now u" using Suc by simp
      show ?thesis
      proof (cases "latest_from now st n")
        case None
        with IH l False show ?thesis by (auto simp: t)
      next
        case (Some r)
        obtain i k where r: "r = (i, k)" by (cases r)
        with Some IH obtain xs tok' ys where x: "take n st = xs @ (tok', Some k) # ys" "tk_tokenId tok' = i"
          "\<not> hasTokenReallyExpired now tok'" "\<forall>(u, d) \<in> set ys. d = None \<or> hasTokenReallyExpired now u" by auto
        have "take (Suc n) st = xs @ (tok', Some k) # (ys @ [(tok, d)])" by (simp add: t x(1))
        moreover have "\<forall>(u, d) \<in> set (ys @ [(tok, d)]). d = None \<or> hasTokenReallyExpired now u"
          using x(4) False by auto
        ultimately have "\<exists>xs tok ys. take (Suc n) st = xs @ (tok, Some k) # ys \<and> tk_tokenId tok = i \<and>
          \<not> hasTokenReallyExpired now tok \<and> (\<forall>(u, d) \<in> set ys. d = None \<or> hasTokenReallyExpired now u)"
          using x(2,3) by blast
        with l Some r show ?thesis by (simp only: option.case prod.case)
      qed
    qed
  qed simp
  from this [OF order_refl, unfolded take_all [OF order_refl]] show ?thesis
    unfolding getLatestTokenDerivedKeys_def .
qed

theorem latest_token_is_newest_witness:
  "getLatestTokenDerivedKeys 1300
     [(\<lparr>tk_tokenId = 1, tk_createdAt = Some 0, tk_revisedLifetime = 1000, tk_channelId = 5\<rparr>,
       Some \<lparr>derivedClientKeys = Some 11, derivedServerKeys = Some (12 :: nat)\<rparr>)] = None"
proof -
  let ?st = "[(\<lparr>tk_tokenId = 1, tk_createdAt = Some 0, tk_revisedLifetime = 1000, tk_channelId = 5\<rparr>,
       Some \<lparr>derivedClientKeys = Some 11, derivedServerKeys = Some (12 :: nat)\<rparr>)]"
  show ?thesis using latest_token_is_newest [where now = 1300 and st = ?st]
    by (auto simp: hasTokenReallyExpired_def Cons_eq_append_conv split: option.splits)
qed

end
