(* ===== verification/Message_Delivery.thy ===== *)
theory Message_Delivery
  imports Message_Builder
begin

text \<open>
  What the sending and the receiving side guarantee together: a message that the
  \<^verbatim>\<open>SecureMessageChunkManager\<close> cuts into chunks and a network fragments is delivered by the
  \<^verbatim>\<open>MessageBuilder\<close> as one body, without security, signed, or signed and encrypted. The
  facts about the builder alone (limits, errors, abandoned messages) follow.
\<close>

section \<open>Opening a chunk\<close>

definition matching_keys :: "mode \<Rightarrow> secure_options \<Rightarrow> derived_keys \<Rightarrow> bool" where
  "matching_keys m o' k \<longleftrightarrow>
     dk_signatureLength k = so_signatureLength o' \<and>
     (\<exists>sg. so_signBufferFunc o' = Some sg \<and> (\<forall>p. dk_verify k (p @ sg p))) \<and>
     (m = ModeSign \<longrightarrow> so_cipherBlockSize o' = 0) \<and>
     (m = ModeSignAndEncrypt \<longrightarrow> so_plainBlockSize o' \<le> 256 \<and>
        (\<exists>en. so_encryptBufferFunc o' = Some en \<and>
           (\<forall>p. length p mod so_plainBlockSize o' = 0 \<longrightarrow> dk_decrypt k (en p) = Inr p)))"

text \<open>Both ends have agreed on the security of the channel: the receiver's policy, its mode and its
  keys for the token \<open>t\<close>.\<close>

definition receiver_secured ::
    "mode \<Rightarrow> secure_options \<Rightarrow> nat \<Rightarrow> ('i, 'o) builder_env \<Rightarrow> 'o builder \<Rightarrow> bool" where
  "receiver_secured m o' t env st =
     (if m = ModeNone then mb_securityPolicy st = PolicyNone
      else mb_securityPolicy st \<noteq> PolicyNone \<and> mb_securityPolicy st \<noteq> PolicyInvalid \<and>
        mb_securityMode st = (if m = ModeSign then MsmSign else MsmSignAndEncrypt) \<and>
        (\<exists>k. be_getDerivedKey env t = Some k \<and> matching_keys m o' k))"

lemma removePadding_padding:
  assumes "plainBlockSize cf \<le> 256" "0 < plainBlockSize cf"
  shows "removePadding (x @ padding cf k) = Inr x"
proof -
  let ?n = "nb_padding cf k"
  have n: "?n < 256" using nb_padding_less [OF assms(2), of k] assms(1) by simp
  have p: "padding cf k = replicate (Suc ?n) (of_nat ?n)" using assms n by (simp add: padding_def Let_def)
  have "unat (last (x @ replicate (Suc ?n) (of_nat ?n :: byte))) = ?n" using n by simp
  then show ?thesis unfolding p removePadding_def reduceLength_def Let_def by simp
qed

lemma buf_copy_tail:
  "length a = n \<Longrightarrow> length x \<le> length y \<Longrightarrow> buf_copy x (a @ y) n = a @ x @ drop (length x) y"
  by (simp add: buf_copy_def overwrite_def)

text \<open>The state of the builder after a chunk is opened: without security the mode is recorded.\<close>

definition opened_state :: "mode \<Rightarrow> 'o builder \<Rightarrow> 'o builder" where
  "opened_state m st = (if m = ModeNone then st\<lparr>mb_securityMode := MsmNone\<rparr> else st)"

lemma receiver_secured_opened [simp]:
  "receiver_secured m o' t env (opened_state m st) = receiver_secured m o' t env st"
  by (simp add: receiver_secured_def opened_state_def)

lemma open_sealed:
  assumes sc: "new_secure_chunker m msgType ch o' (SymmetricAlgorithmSecurityHeader t) g0 = Inr sc"
    and cc: "crypto_contract m o'" and sz: "sender_sizes ch o' (SymmetricAlgorithmSecurityHeader t)"
    and rs: "receiver_secured m o' t env st"
    and d: "length d \<le> maxBodySize (sc_config sc)" and g: "valid_generator g"
    and p: "p = plain_chunk (live_config sc) (sc_header sc) (sc_sequence sc) l g d"
  shows "decrypt_chunk env ''MSG'' \<lparr>bs_buffer = seal (live_config sc) p, bs_length = 16\<rparr>
       (SymmetricAlgorithmSecurityHeader t) st
     = (Inr (Some \<lparr>bs_buffer = take 16 p @ sc_sequence sc g @ d, bs_length = 16\<rparr>), opened_state m st)"
proof -
  let ?cf = "live_config sc"
  have sh: "security_header_ok (SymmetricAlgorithmSecurityHeader t)" using sz by (simp add: sender_sizes_def)
  note cf = new_secure_chunker_simps [OF sc sh]
  have c: "securityMode ?cf = m" "headerSize ?cf = 16" "signatureLength ?cf = so_signatureLength o'"
    "cipherBlockSize ?cf = so_cipherBlockSize o'" "plainBlockSize ?cf = so_plainBlockSize o'"
    "signBufferFunc ?cf = so_signBufferFunc o'" "sequenceHeaderSize ?cf = 8" "maxBodySize ?cf = maxBodySize (sc_config sc)"
    "encryptBufferFunc ?cf = (if so_cipherBlockSize o' = 0 then None else so_encryptBufferFunc o')"
    by (simp_all add: live_config_def cf security_header_bytes_def)
  note own = secure_fresh(1) [OF sc cc sz]
  have wf: "cm_wf ?cf" using own by (simp add: chunk_owner_def)
  have lp: "length p = data_end ?cf (length d)"
    unfolding p using chunk_owner.length_plain_chunk [OF own g] d c(8) by simp
  have hd: "take 16 p = sc_header sc l (chunk_length ?cf (length d))"
    by (simp add: p plain_chunk_def sc_header_def cf security_header_bytes_def)
  have pb: "p = take 16 p @ sc_sequence sc g @ d @ padding ?cf (length d)"
    unfolding hd by (simp add: p plain_chunk_def)
  have ls: "length (signature_of ?cf p) = so_signatureLength o'"
    using chunk_owner.length_signature [OF own] c(3) by simp
  have red: "reduceLength (p @ signature_of ?cf p) (so_signatureLength o') = p"
    using ls by (simp add: reduceLength_def)
  show ?thesis
  proof (cases m)
    case ModeNone
    have "so_cipherBlockSize o' = 0" "so_plainBlockSize o' = 0" using wf c ModeNone
      by (auto simp: cm_wf_def split: if_splits)
    then have "padding ?cf (length d) = []" "seal ?cf p = p"
      using c ModeNone by (simp_all add: padding_def seal_def signature_of_def)
    with pb rs ModeNone show ?thesis by (simp add: decrypt_chunk_def receiver_secured_def opened_state_def)
  next
    case ModeSign
    with rs obtain k sg where k: "be_getDerivedKey env t = Some k" "matching_keys m o' k"
      "so_signBufferFunc o' = Some sg" "\<forall>p. dk_verify k (p @ sg p)" "so_cipherBlockSize o' = 0"
      by (auto simp: receiver_secured_def matching_keys_def)
    have plain: "so_plainBlockSize o' = 0" using wf c k(5) by (auto simp: cm_wf_def split: if_splits)
    have s: "signature_of ?cf p = sg p" using c ModeSign k(3) by (simp add: signature_of_def)
    have "seal ?cf p = p @ sg p" using c k(5) s by (simp add: seal_def)
    moreover have "so_signatureLength o' \<noteq> 0" using cc k(3) ModeSign by (auto simp: crypto_contract_def)
    moreover have "padding ?cf (length d) = []" using c plain by (simp add: padding_def)
    ultimately show ?thesis using rs ModeSign k pb red s
      by (simp add: decrypt_chunk_def decrypt_MSG_def receiver_secured_def opened_state_def matching_keys_def)
  next
    case ModeSignAndEncrypt
    with rs obtain k sg en where k: "be_getDerivedKey env t = Some k" "matching_keys m o' k"
      "so_signBufferFunc o' = Some sg" "\<forall>p. dk_verify k (p @ sg p)" "so_plainBlockSize o' \<le> 256"
      "so_encryptBufferFunc o' = Some en" "\<forall>p. length p mod so_plainBlockSize o' = 0 \<longrightarrow> dk_decrypt k (en p) = Inr p"
      by (auto simp: receiver_secured_def matching_keys_def)
    have cipher: "so_cipherBlockSize o' \<noteq> 0" "0 < so_plainBlockSize o'" "so_plainBlockSize o' \<le> so_cipherBlockSize o'"
      using wf c ModeSignAndEncrypt by (auto simp: cm_wf_def split: if_splits)
    have s: "signature_of ?cf p = sg p" using c ModeSignAndEncrypt k(3) by (simp add: signature_of_def)
    let ?x = "drop 16 (p @ sg p)"
    have "headerSize ?cf \<le> data_end ?cf (length d)" using chunk_owner.offset [OF own] by (simp add: data_end_def)
    then have h16: "16 \<le> length p" using lp c(2) by simp
    have "length ?x = nb_block ?cf (length d) * plainBlockSize ?cf"
      using padded_length_block [of ?cf "length d"] cipher(2) c lp ls s chunk_owner.offset [OF own]
      by (simp del: drop_append add: data_end_def)
    then have x: "length ?x mod so_plainBlockSize o' = 0" "length ?x div so_plainBlockSize o' = nb_block ?cf (length d)"
      using c(5) cipher(2) by simp_all
    have dec: "dk_decrypt k (en ?x) = Inr ?x" by (rule k(7) [rule_format, OF x(1)])
    have "length (en ?x) = length ?x div so_plainBlockSize o' * so_cipherBlockSize o'"
      using cc k(6) x(1) by (simp add: crypto_contract_def)
    moreover have "length ?x = length ?x div so_plainBlockSize o' * so_plainBlockSize o'" using x(1)
      by (metis add.right_neutral div_mult_mod_eq)
    ultimately have lx: "length ?x \<le> length (en ?x)" using cipher(3) by (metis mult_le_mono2)
    have seal: "seal ?cf p = take 16 p @ en ?x"
      using c cipher(1) k(6) s h16 by (simp del: drop_append add: seal_def Let_def)
    have rep: "replace_decrypted ?x \<lparr>bs_buffer = seal ?cf p, bs_length = 16\<rparr>
        = \<lparr>bs_buffer = p @ sg p, bs_length = 16\<rparr>"
    proof -
      have "buf_copy ?x (take 16 p @ en ?x) 16 = take 16 p @ ?x @ drop (length ?x) (en ?x)"
        using h16 lx by (intro buf_copy_tail) simp_all
      moreover have "take 16 p @ ?x = p @ sg p" using h16 by simp
      ultimately show ?thesis using h16 unfolding seal replace_decrypted_def
        by (simp del: drop_append)
    qed
    have "removePadding p = Inr (take 16 p @ sc_sequence sc g @ d)"
      using removePadding_padding [of ?cf "take 16 p @ sc_sequence sc g @ d" "length d"] c k(5) cipher(2) pb
      by simp
    moreover have "so_signatureLength o' \<noteq> 0" using cc k(3) ModeSignAndEncrypt by (auto simp: crypto_contract_def)
    moreover have "drop 16 (seal ?cf p) = en ?x" using h16 unfolding seal by simp
    ultimately show ?thesis using rs ModeSignAndEncrypt k(1,2,4) red s rep dec
      by (simp del: drop_append add: decrypt_chunk_def decrypt_MSG_def receiver_secured_def opened_state_def
          matching_keys_def Let_def)
  qed
qed

section \<open>Reading the headers of a chunk\<close>

lemma read_message_header_bytes:
  assumes "c = [char_byte_at m 0, char_byte_at m 1, char_byte_at m 2, char_byte f] @ le_bytes 4 n @ x"
    "n < 2 ^ 32" "length m = 3"
  shows "readMessageHeader (open_stream c) = Inr (\<lparr>mh_msgType = m, mh_isFinal = f, mh_length = n\<rparr>,
     \<lparr>bs_buffer = c, bs_length = 8\<rparr>)"
proof -
  have code: "fromCharCode (unat (char_byte a)) = a" for a
    using of_char_less [of a] by (simp add: char_byte_def fromCharCode_def)
  have at: "fromCharCode (unat (char_byte_at m i)) = m ! i" if "i < 3" for i
    using of_char_less [of "m ! i"] that assms(3) by (simp add: char_byte_at_def charCodeAt_def fromCharCode_def)
  have m: "m = [m ! 0, m ! 1, m ! 2]" using assms(3)
    by (cases m rule: remdups_adj.cases) (auto simp: numeral_2_eq_2 length_Suc_conv numeral_3_eq_3)
  have len: "8 \<le> length c" by (simp add: assms(1))
  have nth: "c ! 0 = char_byte_at m 0" "c ! 1 = char_byte_at m 1" "c ! 2 = char_byte_at m 2" "c ! 3 = char_byte f"
    by (simp_all add: assms(1) numeral_2_eq_2 numeral_3_eq_3)
  have sub: "subarray c 4 8 = le_bytes 4 n" by (simp add: assms(1) subarray_def)
  show ?thesis unfolding readMessageHeader_ok [OF len] nth sub
    using assms(2) m by (simp add: code at [of 0] at [of 1, simplified] at [of 2])
qed

lemma readUInt32_at:
  assumes "c = pre @ le_bytes 4 v @ x" "v < 2 ^ 32" "length pre = k"
  shows "readUInt32 \<lparr>bs_buffer = c, bs_length = k\<rparr> = Inr (v, \<lparr>bs_buffer = c, bs_length = k + 4\<rparr>)"
  using readUInt32_prefix [OF assms(2), of pre x "[]"] assms(1,3) by simp

text \<open>A chunk that reads as one of the given message: what it contains once opened.\<close>

definition openable ::
    "('i, 'o) builder_env \<Rightarrow> mode \<Rightarrow> nat \<Rightarrow> nat \<Rightarrow> nat \<Rightarrow> 'o builder \<Rightarrow> buffer \<Rightarrow> char \<Rightarrow> nat \<Rightarrow> buffer \<Rightarrow> bool" where
  "openable env m ch t r st c f n d \<longleftrightarrow>
     (\<exists>x. c = [char_byte_at ''MSG'' 0, char_byte_at ''MSG'' 1, char_byte_at ''MSG'' 2, char_byte f]
        @ le_bytes 4 (length c) @ le_bytes 4 ch @ le_bytes 4 t @ x) \<and>
     length c < 2 ^ 32 \<and> ch < 2 ^ 32 \<and> t < 2 ^ 32 \<and> n < 2 ^ 32 \<and> r < 2 ^ 32 \<and>
     (\<forall>st'. mb_securityPolicy st' = mb_securityPolicy st \<longrightarrow> mb_securityMode st' = mb_securityMode st \<longrightarrow>
        decrypt_chunk env ''MSG'' \<lparr>bs_buffer = c, bs_length = 16\<rparr> (SymmetricAlgorithmSecurityHeader t) st'
        = (Inr (Some \<lparr>bs_buffer = take 16 c @ sequence_header_bytes n r @ d, bs_length = 16\<rparr>), opened_state m st'))"

lemma openable_headers:
  assumes "openable env m ch t r st c f n d"
  shows "readMessageHeader (open_stream c) = Inr (\<lparr>mh_msgType = ''MSG'', mh_isFinal = f, mh_length = length c\<rparr>,
       \<lparr>bs_buffer = c, bs_length = 8\<rparr>)"
    and "readUInt32 \<lparr>bs_buffer = c, bs_length = 8\<rparr> = Inr (ch, \<lparr>bs_buffer = c, bs_length = 12\<rparr>)"
    and "readUInt32 \<lparr>bs_buffer = c, bs_length = 12\<rparr> = Inr (t, \<lparr>bs_buffer = c, bs_length = 16\<rparr>)"
    and "16 \<le> length c"
proof -
  obtain x where c: "c = [char_byte_at ''MSG'' 0, char_byte_at ''MSG'' 1, char_byte_at ''MSG'' 2, char_byte f]
        @ le_bytes 4 (length c) @ le_bytes 4 ch @ le_bytes 4 t @ x"
    and b: "length c < 2 ^ 32" "ch < 2 ^ 32" "t < 2 ^ 32" using assms unfolding openable_def by blast
  let ?h = "[char_byte_at ''MSG'' 0, char_byte_at ''MSG'' 1, char_byte_at ''MSG'' 2, char_byte f]"
  show "readMessageHeader (open_stream c) = Inr (\<lparr>mh_msgType = ''MSG'', mh_isFinal = f, mh_length = length c\<rparr>,
       \<lparr>bs_buffer = c, bs_length = 8\<rparr>)"
    by (rule read_message_header_bytes [OF c b(1)]) simp
  show "readUInt32 \<lparr>bs_buffer = c, bs_length = 8\<rparr> = Inr (ch, \<lparr>bs_buffer = c, bs_length = 12\<rparr>)"
    using readUInt32_at [OF _ b(2), of c "?h @ le_bytes 4 (length c)" "le_bytes 4 t @ x" 8] c by simp
  show "readUInt32 \<lparr>bs_buffer = c, bs_length = 12\<rparr> = Inr (t, \<lparr>bs_buffer = c, bs_length = 16\<rparr>)"
    using readUInt32_at [OF _ b(3), of c "?h @ le_bytes 4 (length c) @ le_bytes 4 ch" x 12] c by simp
  have "length c = 16 + length x" by (subst c) simp
  then show "16 \<le> length c" by simp
qed

lemma decode_sequence_header_at:
  assumes "n < 2 ^ 32" "r < 2 ^ 32" "length pre = k"
  shows "decode_sequence_header \<lparr>bs_buffer = pre @ sequence_header_bytes n r @ d, bs_length = k\<rparr>
     = Inr (\<lparr>sh_sequenceNumber = n, sh_requestId = r\<rparr>,
            \<lparr>bs_buffer = pre @ sequence_header_bytes n r @ d, bs_length = k + 8\<rparr>)"
  using readUInt32_at [OF _ assms(1,3), of "pre @ sequence_header_bytes n r @ d" "le_bytes 4 r @ d"]
    readUInt32_at [OF _ assms(2), of "pre @ sequence_header_bytes n r @ d" "pre @ le_bytes 4 n" d "k + 4"] assms(3)
  by (simp add: decode_sequence_header_def sequence_header_bytes_def)

text \<open>The builder after a chunk of the message has been appended.\<close>

definition appended ::
    "mode \<Rightarrow> nat \<Rightarrow> nat \<Rightarrow> nat \<Rightarrow> buffer \<Rightarrow> char \<Rightarrow> nat \<Rightarrow> buffer \<Rightarrow> 'o builder \<Rightarrow> 'o builder" where
  "appended m ch t r c f n d st =
     (opened_state m (st\<lparr>
        mb_messageChunks := mb_messageChunks st @ [c],
        mb_totalMessageSize := mb_totalMessageSize st + length c,
        mb_messageHeader := Some \<lparr>mh_msgType = ''MSG'', mh_isFinal = f, mh_length = length c\<rparr>,
        mb_channelId := ch, mb_securityHeader := Some (SymmetricAlgorithmSecurityHeader t)\<rparr>))\<lparr>
        mb_sequenceHeader := Some \<lparr>sh_sequenceNumber = n, sh_requestId = r\<rparr>,
        mb_previousSequenceNumber := Some n,
        mb_totalBodySize := mb_totalBodySize st + length d,
        mb_offsetBodyStart := 24,
        mb_blocks := mb_blocks st @ [d]\<rparr>"

lemma validate_accepts:
  "mb_previousSequenceNumber st \<in> {None, Some (n - 1)} \<Longrightarrow> 0 < n \<Longrightarrow>
     validate_sequence_number n st = (True, st\<lparr>mb_previousSequenceNumber := Some n\<rparr>)"
  by (auto simp: validate_sequence_number_def validateSequenceNumber_def split: option.splits)

lemma append_chunk_ok:
  assumes "openable env m ch t r st c f n d" "0 < n"
    "mb_previousSequenceNumber st \<in> {None, Some (n - 1)}" "\<not> mb_hasReceivedError st"
    "length (mb_messageChunks st) < be_maxChunkCount env"
    "mb_totalMessageSize st + length c \<le> be_maxMessageSize env"
  shows "append_chunk env c st = (True, appended m ch t r c f n d st)"
proof -
  note h = openable_headers [OF assms(1)]
  have dec: "decrypt_chunk env ''MSG'' \<lparr>bs_buffer = c, bs_length = 16\<rparr> (SymmetricAlgorithmSecurityHeader t) st'
        = (Inr (Some \<lparr>bs_buffer = take 16 c @ sequence_header_bytes n r @ d, bs_length = 16\<rparr>), opened_state m st')"
    if "mb_securityPolicy st' = mb_securityPolicy st" "mb_securityMode st' = mb_securityMode st" for st'
    using assms(1) that unfolding openable_def by blast
  have nr: "n < 2 ^ 32" "r < 2 ^ 32" using assms(1) by (simp_all add: openable_def)
  let ?st1 = "st\<lparr>mb_messageChunks := mb_messageChunks st @ [c],
                mb_totalMessageSize := mb_totalMessageSize st + length c\<rparr>"
  let ?st2 = "?st1\<lparr>mb_messageHeader := Some \<lparr>mh_msgType = ''MSG'', mh_isFinal = f, mh_length = length c\<rparr>,
        mb_channelId := ch\<rparr>"
  let ?st3 = "?st2\<lparr>mb_securityHeader := Some (SymmetricAlgorithmSecurityHeader t)\<rparr>"
  have base: "base_read_headers (open_stream c) ?st1 = (Some \<lparr>bs_buffer = c, bs_length = 12\<rparr>, ?st2)"
    using h(1,2) by (simp add: base_read_headers_def expectedChannelId_def)
  have sec: "decode_security_header ''MSG'' \<lparr>bs_buffer = c, bs_length = 12\<rparr>
      = Inr (SymmetricAlgorithmSecurityHeader t, \<lparr>bs_buffer = c, bs_length = 16\<rparr>)"
    using h(3) by (simp add: decode_security_header_def decode_symmetric_def)
  let ?bs = "take 16 c @ sequence_header_bytes n r @ d"
  let ?st4 = "(opened_state m ?st3)\<lparr>mb_sequenceHeader := Some \<lparr>sh_sequenceNumber = n, sh_requestId = r\<rparr>\<rparr>"
  have seq: "decode_sequence_header \<lparr>bs_buffer = ?bs, bs_length = 16\<rparr>
      = Inr (\<lparr>sh_sequenceNumber = n, sh_requestId = r\<rparr>, \<lparr>bs_buffer = ?bs, bs_length = 24\<rparr>)"
    using decode_sequence_header_at [OF nr, of "take 16 c" 16 d] h(4) by simp
  have val: "validate_sequence_number n ?st4 = (True, ?st4\<lparr>mb_previousSequenceNumber := Some n\<rparr>)"
    using assms(2,3) by (intro validate_accepts) (simp_all add: opened_state_def)
  have rh: "read_headers env (open_stream c) ?st1
      = (Some \<lparr>bs_buffer = ?bs, bs_length = 24\<rparr>, ?st4\<lparr>mb_previousSequenceNumber := Some n\<rparr>)"
    using base sec dec [of ?st3] seq val
    by (simp add: read_headers_def check_policy_def read_sequence_def)
  have l: "length (sequence_header_bytes n r) = 8" by (simp add: sequence_header_bytes_def)
  have nth: "\<not> length (mb_messageChunks st) + 1 > be_maxChunkCount env" using assms(5) by simp
  show ?thesis
    using assms(4,6) nth rh h(4) l
    by (simp add: append_chunk_def Let_def appended_def opened_state_def)
qed

fun significant :: "'o mb_event \<Rightarrow> bool" where
  "significant (MbStartChunk _ _) = False"
| "significant (MbChunk _) = False"
| "significant _ = True"

text \<open>A chunk whose number is not the expected one.\<close>

lemma append_chunk_gap:
  assumes "openable env m ch t r st c f n d" "mb_previousSequenceNumber st = Some p" "n \<noteq> p + 1"
    "\<not> mb_hasReceivedError st" "length (mb_messageChunks st) < be_maxChunkCount env"
    "mb_totalMessageSize st + length c \<le> be_maxMessageSize env"
  obtains st' where "append_chunk env c st = (False, st')" "mb_blocks st' = mb_blocks st" "mb_hasReceivedError st'"
    "filter significant (mb_events st') = filter significant (mb_events st) @ [MbInvalidSequenceNumber (p + 1) n,
       MbError BadTcpInternalError None (if r = 0 then None else Some r)]"
proof -
  note h = openable_headers [OF assms(1)]
  have dec: "decrypt_chunk env ''MSG'' \<lparr>bs_buffer = c, bs_length = 16\<rparr> (SymmetricAlgorithmSecurityHeader t) st'
        = (Inr (Some \<lparr>bs_buffer = take 16 c @ sequence_header_bytes n r @ d, bs_length = 16\<rparr>), opened_state m st')"
    if "mb_securityPolicy st' = mb_securityPolicy st" "mb_securityMode st' = mb_securityMode st" for st'
    using assms(1) that unfolding openable_def by blast
  have nr: "n < 2 ^ 32" "r < 2 ^ 32" using assms(1) by (simp_all add: openable_def)
  let ?st1 = "st\<lparr>mb_messageChunks := mb_messageChunks st @ [c],
                mb_totalMessageSize := mb_totalMessageSize st + length c\<rparr>"
  let ?st2 = "?st1\<lparr>mb_messageHeader := Some \<lparr>mh_msgType = ''MSG'', mh_isFinal = f, mh_length = length c\<rparr>,
        mb_channelId := ch\<rparr>"
  let ?st3 = "?st2\<lparr>mb_securityHeader := Some (SymmetricAlgorithmSecurityHeader t)\<rparr>"
  have base: "base_read_headers (open_stream c) ?st1 = (Some \<lparr>bs_buffer = c, bs_length = 12\<rparr>, ?st2)"
    using h(1,2) by (simp add: base_read_headers_def expectedChannelId_def)
  have sec: "decode_security_header ''MSG'' \<lparr>bs_buffer = c, bs_length = 12\<rparr>
      = Inr (SymmetricAlgorithmSecurityHeader t, \<lparr>bs_buffer = c, bs_length = 16\<rparr>)"
    using h(3) by (simp add: decode_security_header_def decode_symmetric_def)
  let ?bs = "take 16 c @ sequence_header_bytes n r @ d"
  let ?st4 = "(opened_state m ?st3)\<lparr>mb_sequenceHeader := Some \<lparr>sh_sequenceNumber = n, sh_requestId = r\<rparr>\<rparr>"
  let ?st5 = "report_error BadTcpInternalError (log_event (MbInvalidSequenceNumber (p + 1) n) ?st4)"
  have seq: "decode_sequence_header \<lparr>bs_buffer = ?bs, bs_length = 16\<rparr>
      = Inr (\<lparr>sh_sequenceNumber = n, sh_requestId = r\<rparr>, \<lparr>bs_buffer = ?bs, bs_length = 24\<rparr>)"
    using decode_sequence_header_at [OF nr, of "take 16 c" 16 d] h(4) by simp
  have val: "validate_sequence_number n ?st4 = (False, ?st5)"
    using assms(2,3) by (simp add: validate_sequence_number_def validateSequenceNumber_def opened_state_def)
  have "read_headers env (open_stream c) ?st1 = (None, ?st5)"
    using base sec dec [of ?st3] seq val by (simp add: read_headers_def check_policy_def read_sequence_def)
  moreover have "\<not> length (mb_messageChunks st) + 1 > be_maxChunkCount env" using assms(5) by simp
  ultimately have "append_chunk env c st = (False, ?st5)"
    using assms(4,6) by (simp add: append_chunk_def Let_def)
  then show ?thesis
    by (rule that) (simp_all add: report_error_def report_error_text_def log_event_def opened_state_def
        current_request_def)
qed

section \<open>Chunks in order\<close>

definition decodes_to :: "('i, 'o) builder_env \<Rightarrow> buffer \<Rightarrow> 'o \<Rightarrow> bool" where
  "decodes_to env body obj \<longleftrightarrow>
     (\<exists>i bs. be_decodeExpandedNodeId env (open_stream body) = Inr (i, bs) \<and> be_hasConstructor env i \<and>
        be_constructObject env i \<and> be_decodeObject env i bs = Inr obj)"

definition outcome :: "'o builder \<Rightarrow> 'o mb_event list" where
  "outcome st = filter significant (mb_events st)"

lemma appended_simps [simp]:
  "mb_hasReceivedError (appended m ch t r c f n d st) = mb_hasReceivedError st"
  "mb_securityDefeated (appended m ch t r c f n d st) = mb_securityDefeated st"
  "mb_blocks (appended m ch t r c f n d st) = mb_blocks st @ [d]"
  "mb_messageChunks (appended m ch t r c f n d st) = mb_messageChunks st @ [c]"
  "mb_totalMessageSize (appended m ch t r c f n d st) = mb_totalMessageSize st + length c"
  "mb_previousSequenceNumber (appended m ch t r c f n d st) = Some n"
  "mb_sequenceHeader (appended m ch t r c f n d st) = Some \<lparr>sh_sequenceNumber = n, sh_requestId = r\<rparr>"
  "mb_securityHeader (appended m ch t r c f n d st) = Some (SymmetricAlgorithmSecurityHeader t)"
  "mb_messageHeader (appended m ch t r c f n d st) = Some \<lparr>mh_msgType = ''MSG'', mh_isFinal = f, mh_length = length c\<rparr>"
  "mb_channelId (appended m ch t r c f n d st) = ch"
  "outcome (appended m ch t r c f n d st) = outcome st"
  "receiver_secured m o' t' env (appended m ch t r c f n d st) = receiver_secured m o' t' env st"
  by (simp_all add: appended_def opened_state_def outcome_def receiver_secured_def)

lemma log_event_simps [simp]:
  "mb_hasReceivedError (log_event e st) = mb_hasReceivedError st"
  "mb_securityDefeated (log_event e st) = mb_securityDefeated st"
  "mb_blocks (log_event e st) = mb_blocks st"
  "mb_messageChunks (log_event e st) = mb_messageChunks st"
  "mb_totalMessageSize (log_event e st) = mb_totalMessageSize st"
  "mb_previousSequenceNumber (log_event e st) = mb_previousSequenceNumber st"
  "mb_sequenceHeader (log_event e st) = mb_sequenceHeader st"
  "mb_securityHeader (log_event e st) = mb_securityHeader st"
  "mb_messageHeader (log_event e st) = mb_messageHeader st"
  "mb_channelId (log_event e st) = mb_channelId st"
  "mb_securityPolicy (log_event e st) = mb_securityPolicy st"
  "mb_securityMode (log_event e st) = mb_securityMode st"
  "outcome (log_event e st) = outcome st @ (if significant e then [e] else [])"
  "receiver_secured m o' t env (log_event e st) = receiver_secured m o' t env st"
  by (simp_all add: log_event_def outcome_def receiver_secured_def)

lemma openable_log [simp]: "openable env m ch t r (log_event e st) c f n d = openable env m ch t r st c f n d"
  by (simp add: openable_def)

lemma full_message_body_concat: "full_message_body bs = concat bs"
  by (cases bs) (simp_all add: full_message_body_def)

lemma feed_intermediate:
  assumes "openable env m ch t r st c CHR ''C'' n d" "0 < n"
    "mb_previousSequenceNumber st \<in> {None, Some (n - 1)}" "\<not> mb_hasReceivedError st"
    "length (mb_messageChunks st) < be_maxChunkCount env"
    "mb_totalMessageSize st + length c \<le> be_maxMessageSize env"
  shows "feed_message_chunk env c st = Inr (True, appended m ch t r c CHR ''C'' n d (log_event (MbChunk c) st))"
  using openable_headers(1) [OF assms(1)] append_chunk_ok [of env m ch t r "log_event (MbChunk c) st"] assms
  by (simp add: feed_message_chunk_def)

text \<open>The last chunk: the body is handed over, decoded, and the builder starts afresh.\<close>

lemma feed_final:
  assumes "openable env m ch t r st c CHR ''F'' n d" "0 < n"
    "mb_previousSequenceNumber st \<in> {None, Some (n - 1)}" "\<not> mb_hasReceivedError st"
    "length (mb_messageChunks st) < be_maxChunkCount env"
    "mb_totalMessageSize st + length c \<le> be_maxMessageSize env"
    "decodes_to env (concat (mb_blocks st) @ d) obj"
  shows "\<exists>st'. feed_message_chunk env c st = Inr (True, st') \<and> \<not> mb_hasReceivedError st' \<and>
     \<not> mb_securityDefeated st' \<and> mb_blocks st' = [] \<and> mb_messageChunks st' = [] \<and> mb_totalMessageSize st' = 0 \<and>
     mb_previousSequenceNumber st' = Some n \<and> receiver_secured m' o' t' env st' = receiver_secured m' o' t' env (appended m ch t r c CHR ''F'' n d st) \<and>
     outcome st' = outcome st @ [MbFullMessageBody (concat (mb_blocks st) @ d),
       MbMessage obj ''MSG'' (SymmetricAlgorithmSecurityHeader t) r ch]"
proof -
  let ?st1 = "appended m ch t r c CHR ''F'' n d (log_event (MbChunk c) st)"
  let ?body = "concat (mb_blocks st) @ d"
  let ?msg = "MbMessage obj ''MSG'' (SymmetricAlgorithmSecurityHeader t) r ch"
  let ?st2 = "log_event ?msg (log_event (MbFullMessageBody ?body) ?st1)"
  have ap: "append_chunk env c (log_event (MbChunk c) st) = (True, ?st1)"
    using append_chunk_ok [of env m ch t r "log_event (MbChunk c) st"] assms by simp
  have dec: "decode_message_body env ?body (log_event (MbFullMessageBody ?body) ?st1) = (True, ?st2)"
    using assms(7) by (auto simp: decodes_to_def decode_message_body_def)
  have "feed_message_chunk env c st = Inr (True, init_new ?st2)"
    using openable_headers(1) [OF assms(1)] ap dec assms(4)
    by (simp add: feed_message_chunk_def full_message_body_concat)
  moreover have "outcome (init_new ?st2) = outcome ?st2" by (simp add: init_new_def outcome_def)
  moreover have "receiver_secured m' o' t' env (init_new ?st2) = receiver_secured m' o' t' env (appended m ch t r c CHR ''F'' n d st)"
    by (simp add: init_new_def receiver_secured_def log_event_def appended_def opened_state_def)
  ultimately show ?thesis by (simp add: init_new_def)
qed

text \<open>A run of assembler events in which the builder never meets one in error mode.\<close>

fun clean_run :: "('i, 'o) builder_env \<Rightarrow> pa_event list \<Rightarrow> 'o builder \<Rightarrow> 'o builder option" where
  "clean_run env [] st = (if mb_hasReceivedError st \<or> mb_securityDefeated st then None else Some st)"
| "clean_run env (e # es) st =
     (if mb_hasReceivedError st \<or> mb_securityDefeated st then None
      else case on_assembler_event env e st of Inl _ \<Rightarrow> None | Inr st1 \<Rightarrow> clean_run env es st1)"

lemma clean_run_start: "clean_run env es st = Some st' \<Longrightarrow> \<not> mb_hasReceivedError st \<and> \<not> mb_securityDefeated st"
  by (cases es) (simp_all split: if_splits)

lemma clean_run_append:
  "clean_run env (es1 @ es2) st = Some st' \<Longrightarrow>
     \<exists>st1. on_assembler_events env es1 st = Inr st1 \<and> clean_run env es2 st1 = Some st'"
proof (induction es1 arbitrary: st)
  case (Cons e es1)
  then obtain st1 where "on_assembler_event env e st = Inr st1" "clean_run env (es1 @ es2) st1 = Some st'"
    by (auto split: if_splits sum.splits)
  with Cons.IH show ?case by simp
qed simp

lemma mb_feed_all_clean:
  assumes "feed_all (builder_assembler (be_maxChunkSize env)) a ds = Some (Inr (s, evs))"
    "clean_run env evs st = Some st'"
  shows "mb_feed_all env ds \<lparr>mb_assembler = a, mb_fields = st\<rparr> = Some (Inr \<lparr>mb_assembler = s, mb_fields = st'\<rparr>)"
  using assms
proof (induction ds arbitrary: a st evs)
  case Nil
  then show ?case by (simp split: if_splits)
next
  case (Cons d ds)
  obtain a1 evs1 evs2 where f: "feed (builder_assembler (be_maxChunkSize env)) a d = Some (Inr (a1, evs1))"
    "feed_all (builder_assembler (be_maxChunkSize env)) a1 ds = Some (Inr (s, evs2))" "evs = evs1 @ evs2"
    using Cons.prems(1) by (auto split: bind_split_asm sum.splits)
  obtain st1 where r: "on_assembler_events env evs1 st = Inr st1" "clean_run env evs2 st1 = Some st'"
    using clean_run_append Cons.prems(2) f(3) by blast
  have "mb_feed env d \<lparr>mb_assembler = a, mb_fields = st\<rparr> = Some (Inr \<lparr>mb_assembler = a1, mb_fields = st1\<rparr>)"
    using f(1) r(1) clean_run_start [OF Cons.prems(2)] by (simp add: mb_feed_def)
  with Cons.IH [OF f(2) r(2)] show ?case by simp
qed

section \<open>Delivering a message\<close>

lemma openable_frame:
  assumes sc: "new_secure_chunker m ''MSG'' ch o' (SymmetricAlgorithmSecurityHeader t) g0 = Inr sc"
    and cc: "crypto_contract m o'" and sz: "sender_sizes ch o' (SymmetricAlgorithmSecurityHeader t)"
    and rs: "receiver_secured m o' t env st"
    and d: "length d \<le> maxBodySize (sc_config sc)" and e: "valid_generator e"
  shows "openable env m ch t (so_requestId o') st
     (fst (frame (live_config sc) (sc_header sc) (sc_sequence sc) l e d)) (final_char False l) e d"
proof -
  let ?cf = "live_config sc"
  define p where "p = plain_chunk ?cf (sc_header sc) (sc_sequence sc) l e d"
  let ?c = "seal ?cf p"
  have sh: "security_header_ok (SymmetricAlgorithmSecurityHeader t)" using sz by (simp add: sender_sizes_def)
  note cf = new_secure_chunker_simps [OF sc sh]
  note own = secure_fresh(1) [OF sc cc sz]
  have wf: "cm_wf ?cf" using own by (simp add: chunk_owner_def)
  have mx: "length d \<le> maxBodySize ?cf" using d by (simp add: live_config_def)
  have lp: "length p = data_end ?cf (length d)"
    unfolding p_def by (rule chunk_owner.length_plain_chunk [OF own e mx])
  have lc: "length ?c = chunk_length ?cf (length d)" by (rule chunk_owner.length_seal [OF own lp])
  have hs: "headerSize ?cf = 16" by (simp add: live_config_def cf security_header_bytes_def)
  have "chunkSize ?cf < 2 ^ 32" using sz cf(8) by (simp add: live_config_def sender_sizes_def)
  then have small: "length ?c < 2 ^ 32" using chunk_length_bound [OF wf mx] lc by simp
  have "take 16 ?c = take 16 p" using chunk_owner.take_seal [OF own lp] hs by simp
  also have "\<dots> = sc_header sc l (length ?c)"
    unfolding lc by (simp add: p_def plain_chunk_def sc_header_def cf security_header_bytes_def)
  finally have t16: "take 16 ?c = sc_header sc l (length ?c)" .
  have c: "?c = [char_byte_at ''MSG'' 0, char_byte_at ''MSG'' 1, char_byte_at ''MSG'' 2, char_byte (final_char False l)]
        @ le_bytes 4 (length ?c) @ le_bytes 4 ch @ le_bytes 4 t @ drop 16 ?c"
    using append_take_drop_id [of 16 ?c] unfolding t16
    by (simp add: sc_header_def header_bytes_def security_header_bytes_def cf)
  have sq: "sc_sequence sc e = sequence_header_bytes e (so_requestId o')" by (simp add: sc_sequence_def cf)
  have t: "take 16 p = take 16 ?c" using chunk_owner.take_seal [OF own lp] hs by simp
  have "decrypt_chunk env ''MSG'' \<lparr>bs_buffer = ?c, bs_length = 16\<rparr> (SymmetricAlgorithmSecurityHeader t) st'
        = (Inr (Some \<lparr>bs_buffer = take 16 ?c @ sequence_header_bytes e (so_requestId o') @ d, bs_length = 16\<rparr>), opened_state m st')"
    if "mb_securityPolicy st' = mb_securityPolicy st" "mb_securityMode st' = mb_securityMode st" for st'
  proof -
    have "receiver_secured m o' t env st'" using rs that by (simp add: receiver_secured_def)
    from open_sealed [OF sc cc sz this d e p_def] show ?thesis unfolding t sq .
  qed
  moreover have "ch < 2 ^ 32" "t < 2 ^ 32" "so_requestId o' < 2 ^ 32" "e < 2 ^ 32"
    using sz e by (simp_all add: sender_sizes_def security_header_ok_def valid_generator_def MAXVALUE_def)
  ultimately show ?thesis using c small unfolding openable_def frame_def fst_conv p_def [symmetric] by blast
qed

definition total_size :: "(buffer \<times> bool) list \<Rightarrow> nat" where
  "total_size cs = sum_list (map (length \<circ> fst) cs)"

definition receiving ::
    "mode \<Rightarrow> secure_options \<Rightarrow> nat \<Rightarrow> ('i, 'o) builder_env \<Rightarrow> nat \<Rightarrow> nat \<Rightarrow> nat \<Rightarrow> 'o builder \<Rightarrow> bool" where
  "receiving m o' t env e count bytes st \<longleftrightarrow>
     receiver_secured m o' t env st \<and> valid_generator e \<and> mb_previousSequenceNumber st \<in> {None, Some (e - 1)} \<and>
     e + count \<le> MAXVALUE + 1 \<and> length (mb_messageChunks st) + count \<le> be_maxChunkCount env \<and>
     mb_totalMessageSize st + bytes \<le> be_maxMessageSize env"

lemma sc_next_valid: "valid_generator e \<Longrightarrow> e + 2 \<le> MAXVALUE + 1 \<Longrightarrow> sc_next e = e + 1 \<and> valid_generator (e + 1)"
  by (simp add: sc_next_def seq_next_def valid_generator_def Let_def)

lemma run_message:
  assumes sc: "new_secure_chunker m ''MSG'' ch o' (SymmetricAlgorithmSecurityHeader t) g0 = Inr sc"
    and cc: "crypto_contract m o'" and sz: "sender_sizes ch o' (SymmetricAlgorithmSecurityHeader t)"
  shows "errors_of evs = [] \<Longrightarrow>
    chunks_of evs = map fst (emit (live_config sc) (sc_header sc) (sc_sequence sc) sc_next True e ps) \<Longrightarrow>
    \<forall>p\<in>set ps. length p \<le> maxBodySize (sc_config sc) \<Longrightarrow>
    \<not> mb_hasReceivedError st \<Longrightarrow> \<not> mb_securityDefeated st \<Longrightarrow>
    ps \<noteq> [] \<longrightarrow> receiving m o' t env e (length ps)
       (total_size (emit (live_config sc) (sc_header sc) (sc_sequence sc) sc_next True e ps)) st \<Longrightarrow>
    ps \<noteq> [] \<longrightarrow> decodes_to env (concat (mb_blocks st) @ concat ps) obj \<Longrightarrow>
    \<exists>st'. clean_run env evs st = Some st' \<and> outcome st' = outcome st @ (if ps = [] then [] else
      [MbFullMessageBody (concat (mb_blocks st) @ concat ps),
       MbMessage obj ''MSG'' (SymmetricAlgorithmSecurityHeader t) (so_requestId o') ch])"
proof (induction evs arbitrary: ps e st)
  case Nil
  then have "ps = []" by (cases ps) simp_all
  with Nil show ?case by simp
next
  case (Cons ev evs)
  show ?case
  proof (cases ev)
    case (StartChunk i b)
    let ?st = "log_event (MbStartChunk i b) st"
    have "\<exists>st'. clean_run env evs ?st = Some st' \<and> outcome st' = outcome ?st @ (if ps = [] then [] else
      [MbFullMessageBody (concat (mb_blocks ?st) @ concat ps),
       MbMessage obj ''MSG'' (SymmetricAlgorithmSecurityHeader t) (so_requestId o') ch])"
      using Cons.prems StartChunk by (intro Cons.IH [where e = e]) (simp_all add: receiving_def)
    then show ?thesis using StartChunk Cons.prems(4,5) by (cases "ps = []") simp_all
  next
    case (PAError x)
    with Cons.prems(1) show ?thesis by simp
  next
    case (Chunk c)
    with Cons.prems(2) obtain p qs where ps: "ps = p # qs" by (cases ps) auto
    let ?fr = "\<lambda>l. frame (live_config sc) (sc_header sc) (sc_sequence sc) l e p"
    let ?rest = "emit (live_config sc) (sc_header sc) (sc_sequence sc) sc_next True (sc_next e) qs"
    have c: "c = fst (?fr (qs = []))" and rest: "chunks_of evs = map fst ?rest" "errors_of evs = []"
      using Cons.prems(1,2) Chunk ps by auto
    have rc: "receiving m o' t env e (Suc (length qs)) (length c + total_size ?rest) st"
      using Cons.prems(6) ps c by (simp add: total_size_def)
    then have r: "receiver_secured m o' t env st" "valid_generator e" "0 < e"
      "mb_previousSequenceNumber st \<in> {None, Some (e - 1)}"
      "length (mb_messageChunks st) < be_maxChunkCount env"
      "mb_totalMessageSize st + length c \<le> be_maxMessageSize env"
      by (auto simp: receiving_def valid_generator_def)
    have op: "openable env m ch t (so_requestId o') st c (final_char False (qs = [])) e p"
      unfolding c using Cons.prems(3) ps by (intro openable_frame [OF sc cc sz r(1) _ r(2)]) simp
    show ?thesis
    proof (cases "qs = []")
      case True
      have dec: "decodes_to env (concat (mb_blocks st) @ p) obj" using Cons.prems(7) ps True by simp
      from op True have opf: "openable env m ch t (so_requestId o') st c CHR ''F'' e p" by (simp add: final_char_def)
      obtain st1 where st1: "feed_message_chunk env c st = Inr (True, st1)" "\<not> mb_hasReceivedError st1"
        "\<not> mb_securityDefeated st1"
        "outcome st1 = outcome st @ [MbFullMessageBody (concat (mb_blocks st) @ p),
           MbMessage obj ''MSG'' (SymmetricAlgorithmSecurityHeader t) (so_requestId o') ch]"
        using feed_final [OF opf r(3,4) Cons.prems(4) r(5,6) dec] by blast
      have "\<exists>st'. clean_run env evs st1 = Some st' \<and> outcome st' = outcome st1 @ (if ([] :: buffer list) = [] then [] else
        [MbFullMessageBody (concat (mb_blocks st1) @ concat []),
         MbMessage obj ''MSG'' (SymmetricAlgorithmSecurityHeader t) (so_requestId o') ch])"
        using rest True st1(2,3) by (intro Cons.IH [where e = "sc_next e"]) simp_all
      then show ?thesis using Chunk Cons.prems(4,5) st1(1,4) ps True by simp
    next
      case False
      from op False have opc: "openable env m ch t (so_requestId o') st c CHR ''C'' e p" by (simp add: final_char_def)
      let ?st = "appended m ch t (so_requestId o') c CHR ''C'' e p (log_event (MbChunk c) st)"
      have f: "feed_message_chunk env c st = Inr (True, ?st)"
        by (rule feed_intermediate [OF opc r(3,4) Cons.prems(4) r(5,6)])
      have "0 < length qs" "e + Suc (length qs) \<le> MAXVALUE + 1" using rc False by (simp_all add: receiving_def)
      then have "e + 2 \<le> MAXVALUE + 1" by linarith
      then have nx: "sc_next e = e + 1" "valid_generator (e + 1)" using sc_next_valid [OF r(2)] by simp_all
      have "receiving m o' t env (e + 1) (length qs) (total_size ?rest) ?st"
        using rc nx by (simp add: receiving_def)
      then have "\<exists>st'. clean_run env evs ?st = Some st' \<and> outcome st' = outcome ?st @ (if qs = [] then [] else
        [MbFullMessageBody (concat (mb_blocks ?st) @ concat qs),
         MbMessage obj ''MSG'' (SymmetricAlgorithmSecurityHeader t) (so_requestId o') ch])"
        using rest Cons.prems(3-5,7) ps nx(1) by (intro Cons.IH [where e = "e + 1"]) simp_all
      then show ?thesis using Chunk Cons.prems(4,5) f ps False by simp
    qed
  qed
qed

section \<open>A signed and encrypted channel to try the properties on\<close>

definition example_options :: secure_options where
  "example_options =
     \<lparr>so_chunkSize = 8192, so_requestId = 9, so_signatureLength = 32, so_plainBlockSize = 16,
      so_cipherBlockSize = 16, so_encryptBufferFunc = Some (map (\<lambda>b. b + 1)),
      so_signBufferFunc = Some (\<lambda>p. replicate 32 (of_nat (length p))),
      so_uninitialized = (\<lambda>n. replicate n 0)\<rparr>"

definition example_sender :: secure_chunker where
  "example_sender = projr (new_secure_chunker ModeSignAndEncrypt ''MSG'' 5 example_options
     (SymmetricAlgorithmSecurityHeader 3) 1)"

definition example_keys :: derived_keys where
  "example_keys = \<lparr>dk_signatureLength = 32, dk_decrypt = (\<lambda>b. Inr (map (\<lambda>x. x - 1) b)),
     dk_verify = (\<lambda>b. drop (length b - 32) b = replicate 32 (of_nat (length b - 32)))\<rparr>"

definition example_env :: "(unit, buffer) builder_env" where
  "example_env = \<lparr>be_maxMessageSize = builderMaxMessageSize, be_maxChunkCount = 1000, be_maxChunkSize = 8192,
     be_validPrivateKey = False, be_getCryptoFactory = (\<lambda>_. None),
     be_getDerivedKey = (\<lambda>t. if t = 3 then Some example_keys else None),
     be_decodeExpandedNodeId = (\<lambda>bs. Inr ((), bs)), be_hasConstructor = (\<lambda>_. True),
     be_constructObject = (\<lambda>_. True), be_decodeObject = (\<lambda>_ bs. Inr (bs_buffer bs)), be_closeRequest = []\<rparr>"

definition example_receiver :: "buffer builder" where
  "example_receiver = \<lparr>mb_securityDefeated = False, mb_hasReceivedError = False, mb_blocks = [],
     mb_messageChunks = [], mb_totalBodySize = 0, mb_totalMessageSize = 0, mb_channelId = 0,
     mb_offsetBodyStart = 0, mb_messageHeader = None, mb_sequenceHeader = None, mb_securityHeader = None,
     mb_securityPolicy = Basic256Sha256, mb_securityMode = MsmSignAndEncrypt,
     mb_previousSequenceNumber = None, mb_events = []\<rparr>"

lemma example_new:
  "new_secure_chunker ModeSignAndEncrypt ''MSG'' 5 example_options (SymmetricAlgorithmSecurityHeader 3) 1
     = Inr example_sender"
  by (simp add: example_sender_def new_secure_chunker_def new_chunk_manager_def example_options_def
      max_body_size_def binaryStoreSize_def Let_def)

lemma example_contract: "crypto_contract ModeSignAndEncrypt example_options"
  by (auto simp: crypto_contract_def example_options_def)

lemma example_sizes: "sender_sizes 5 example_options (SymmetricAlgorithmSecurityHeader 3)"
  by (simp add: sender_sizes_def example_options_def security_header_ok_def)

lemma example_secured: "receiver_secured ModeSignAndEncrypt example_options 3 example_env example_receiver"
  by (simp add: receiver_secured_def example_env_def example_receiver_def example_keys_def matching_keys_def
      example_options_def comp_def)

lemma example_sender_sizes:
  "maxBodySize (sc_config example_sender) = 8135" "chunkSize (sc_config example_sender) = 8192"
  by (simp_all add: example_sender_def new_secure_chunker_def new_chunk_manager_def example_options_def
      max_body_size_def binaryStoreSize_def Let_def)

lemma total_size_bound: "\<forall>c\<in>set cs. length (fst c) \<le> n \<Longrightarrow> total_size cs \<le> n * length cs"
  by (induction cs) (auto simp: total_size_def)

lemma example_receiving:
  assumes "d \<noteq> []" "length d \<le> 16270"
  shows "receiving ModeSignAndEncrypt example_options 3 example_env 1 (length (message_chunks example_sender 1 d))
     (total_size (message_chunks example_sender 1 d)) example_receiver"
proof -
  have v: "valid_generator 1" by (simp add: valid_generator_def MAXVALUE_def)
  have "length (message_chunks example_sender 1 d) = (length d + 8135 - 1) div 8135"
    by (simp add: message_chunks_def length_pieces example_sender_sizes)
  moreover have "(length d + 8135 - 1) div 8135 \<le> (16270 + 8135 - 1) div 8135" using assms(2) by (intro div_le_mono) simp
  ultimately have n: "length (message_chunks example_sender 1 d) \<le> 2" by simp
  have "\<forall>c\<in>set (message_chunks example_sender 1 d). length (fst c) \<le> 8192"
    using message_chunk_header(1) [OF example_new example_contract example_sizes v] by (auto simp: example_sender_sizes)
  then have "total_size (message_chunks example_sender 1 d) \<le> 8192 * 2"
    using total_size_bound n by (meson le_trans mult_le_mono2)
  with n v example_secured show ?thesis
    by (simp add: receiving_def example_env_def example_receiver_def MAXVALUE_def builderMaxMessageSize_def)
qed

lemma example_decodes: "decodes_to example_env d d"
  by (simp add: decodes_to_def example_env_def open_stream_def)

section \<open>Properties of the channel\<close>

text \<open>C1: End-to-end delivery. A message body \<open>d\<close> that the sender cuts into chunks (without
  security, signed, or signed and encrypted with blocks of at most 256 bytes) and the network
  delivers in any fragments makes the receiving builder emit exactly the body \<open>d\<close> and the decoded
  message with the request id, token and channel of the sender, and no error, provided that both
  ends share the keys, that the builder expects the sender's next sequence number, that the message
  is within the receiver's limits, and that no number wraps during the message.\<close>

theorem message_delivered:
  assumes "new_secure_chunker m ''MSG'' ch o' (SymmetricAlgorithmSecurityHeader t) g0 = Inr sc"
    "crypto_contract m o'" "sender_sizes ch o' (SymmetricAlgorithmSecurityHeader t)"
    "d \<noteq> []" "chunkSize (sc_config sc) \<le> be_maxChunkSize env"
    "receiving m o' t env g (length (message_chunks sc g d)) (total_size (message_chunks sc g d)) st"
    "\<not> mb_hasReceivedError st" "\<not> mb_securityDefeated st" "mb_blocks st = []" "decodes_to env d obj"
    "concat fragments = concat (map fst (message_chunks sc g d))"
  shows "\<exists>a st'. mb_feed_all env fragments \<lparr>mb_assembler = empty_assembler, mb_fields = st\<rparr>
       = Some (Inr \<lparr>mb_assembler = a, mb_fields = st'\<rparr>)
     \<and> outcome st' = outcome st @ [MbFullMessageBody d,
         MbMessage obj ''MSG'' (SymmetricAlgorithmSecurityHeader t) (so_requestId o') ch]"
proof -
  let ?max = "maxBodySize (sc_config sc)"
  have g: "valid_generator g" using assms(6) by (simp add: receiving_def)
  obtain s evs where f: "feed_all (builder_assembler (be_maxChunkSize env)) empty_assembler fragments = Some (Inr (s, evs))"
    "chunks_of evs = map fst (message_chunks sc g d)" "errors_of evs = []"
    using chunks_survive_transport_lemma [OF assms(1-3) g assms(5,11)] by blast
  have "0 < ?max" using new_secure_chunker_config_wf [OF assms(1,2)] by (simp add: cm_wf_def)
  then have ps: "concat (pieces ?max d) = d" by (rule concat_pieces)
  then have ne: "pieces ?max d \<noteq> []" using assms(4) by auto
  have "\<exists>st'. clean_run env evs st = Some st' \<and> outcome st' = outcome st @ (if pieces ?max d = [] then [] else
      [MbFullMessageBody (concat (mb_blocks st) @ concat (pieces ?max d)),
       MbMessage obj ''MSG'' (SymmetricAlgorithmSecurityHeader t) (so_requestId o') ch])"
    using f(2,3) assms(6-10) ps pieces_length [of _ ?max d]
    by (intro run_message [OF assms(1-3)]) (auto simp: message_chunks_def)
  with mb_feed_all_clean [OF f(1)] ne ps assms(9) show ?thesis by fastforce
qed

theorem message_delivered_witness:
  "\<exists>a st'. mb_feed_all example_env
       (map (\<lambda>b. [b]) (concat (map fst (message_chunks example_sender 1 (replicate 10000 7)))))
       \<lparr>mb_assembler = empty_assembler, mb_fields = example_receiver\<rparr>
     = Some (Inr \<lparr>mb_assembler = a, mb_fields = st'\<rparr>)
     \<and> outcome st' = [MbFullMessageBody (replicate 10000 7),
         MbMessage (replicate 10000 7) ''MSG'' (SymmetricAlgorithmSecurityHeader 3) 9 5]"
proof -
  let ?d = "replicate 10000 7 :: buffer"
  have "concat (map (\<lambda>b. [b]) x) = x" for x :: buffer by (induction x) simp_all
  then have f: "concat (map (\<lambda>b. [b]) (concat (map fst (message_chunks example_sender 1 ?d))))
     = concat (map fst (message_chunks example_sender 1 ?d))" .
  have d: "?d \<noteq> []" "length ?d \<le> 16270" by simp_all
  have st: "\<not> mb_hasReceivedError example_receiver" "\<not> mb_securityDefeated example_receiver"
    "mb_blocks example_receiver = []" "outcome example_receiver = []"
    by (simp_all add: example_receiver_def outcome_def)
  have c: "chunkSize (sc_config example_sender) \<le> be_maxChunkSize example_env"
    by (simp add: example_sender_sizes example_env_def)
  have r: "so_requestId example_options = 9" by (simp add: example_options_def)
  show ?thesis
    using message_delivered [OF example_new example_contract example_sizes d(1) c example_receiving [OF d] st(1-3)
        example_decodes f] by (simp add: st(4) r)
qed

text \<open>The receiver strips exactly the padding the sender wrote if and only if the cipher's plain
  block has at most 256 bytes. With larger blocks (asymmetric keys over 2048 bits) the sender adds
  a second size byte after the padding, which the receiver takes for the whole size.\<close>

theorem removePadding_inverse_iff:
  assumes "0 < plainBlockSize cf" "plainBlockSize cf \<le> 65536"
  shows "removePadding (x @ padding cf k) = Inr x \<longleftrightarrow> plainBlockSize cf \<le> 256"
proof (cases "plainBlockSize cf \<le> 256")
  case True
  with removePadding_padding [OF True assms(1)] show ?thesis by simp
next
  case False
  let ?n = "nb_padding cf k"
  let ?p = "of_nat (?n mod 256) # replicate ?n (of_nat (?n mod 256)) @ [of_nat (?n div 256)] :: buffer"
  have p: "padding cf k = ?p" using False assms(1) by (simp add: padding_def Let_def)
  have "?n div 256 < 256" using nb_padding_less [OF assms(1), of k] assms(2) by simp
  then have l: "unat (last (x @ ?p)) = ?n div 256" by simp
  have "?n div 256 + 1 \<le> length (x @ ?p)" using div_le_dividend [of ?n 256] by simp
  then have "removePadding (x @ ?p) = Inr (take (length (x @ ?p) - (?n div 256 + 1)) (x @ ?p))"
    unfolding removePadding_def reduceLength_def Let_def l by simp
  moreover have "length (take (length (x @ ?p) - (?n div 256 + 1)) (x @ ?p)) \<noteq> length x"
    using div_le_dividend [of ?n 256] by simp
  ultimately have "removePadding (x @ ?p) \<noteq> Inr x" by auto
  with p False show ?thesis by simp
qed

theorem removePadding_inverse_iff_witness:
  "removePadding ([1, 2, 3] @ padding (sc_config example_sender) 100) = Inr [1, 2, 3]"
proof -
  have "plainBlockSize (sc_config example_sender) = 16"
    by (simp add: example_sender_def new_secure_chunker_def new_chunk_manager_def example_options_def
        max_body_size_def binaryStoreSize_def Let_def)
  then show ?thesis using removePadding_inverse_iff [of "sc_config example_sender" "[1, 2, 3]" 100] by simp
qed

text \<open>A chunk whose sequence number is not the successor of the previous one is never appended:
  the builder announces the number, reports the error, delivers nothing, and ignores all further
  data.\<close>

theorem sequence_gap_rejected:
  assumes "openable env m ch t r st c f n d" "f = CHR ''C'' \<or> f = CHR ''F''"
    "mb_previousSequenceNumber st = Some p" "n \<noteq> p + 1" "\<not> mb_hasReceivedError st"
    "length (mb_messageChunks st) < be_maxChunkCount env"
    "mb_totalMessageSize st + length c \<le> be_maxMessageSize env"
  shows "\<exists>st'. feed_message_chunk env c st = Inr (False, st') \<and> mb_blocks st' = mb_blocks st
     \<and> outcome st' = outcome st @ [MbInvalidSequenceNumber (p + 1) n,
         MbError BadTcpInternalError None (if r = 0 then None else Some r)]
     \<and> (\<forall>a ds. mb_feed_all env ds \<lparr>mb_assembler = a, mb_fields = st'\<rparr>
          = Some (Inr \<lparr>mb_assembler = a, mb_fields = st'\<rparr>))"
proof -
  let ?st = "log_event (MbChunk c) st"
  have l: "openable env m ch t r ?st c f n d" "mb_previousSequenceNumber ?st = Some p"
    "\<not> mb_hasReceivedError ?st" "length (mb_messageChunks ?st) < be_maxChunkCount env"
    "mb_totalMessageSize ?st + length c \<le> be_maxMessageSize env" using assms by simp_all
  have o': "filter significant (mb_events ?st) = outcome st" by (simp add: outcome_def log_event_def)
  obtain st' where st': "append_chunk env c ?st = (False, st')"
    "mb_blocks st' = mb_blocks st" "mb_hasReceivedError st'"
    "outcome st' = outcome st @ [MbInvalidSequenceNumber (p + 1) n,
         MbError BadTcpInternalError None (if r = 0 then None else Some r)]"
    using append_chunk_gap [OF l(1,2) assms(4) l(3-5)] unfolding o' by (auto simp: outcome_def)
  have "mb_feed_all env ds \<lparr>mb_assembler = a, mb_fields = st'\<rparr> = Some (Inr \<lparr>mb_assembler = a, mb_fields = st'\<rparr>)"
    for a ds using st'(3) by (induction ds) (simp_all add: mb_feed_def)
  moreover have "feed_message_chunk env c st = Inr (False, st')"
    using openable_headers(1) [OF assms(1)] assms(2) st'(1,3) by (auto simp: feed_message_chunk_def)
  ultimately show ?thesis using st'(2,4) by blast
qed

definition example_chunk :: "nat \<Rightarrow> buffer" where
  "example_chunk n = header_bytes ''MSG'' 5 (SymmetricAlgorithmSecurityHeader 3) CHR ''C'' 25
     @ sequence_header_bytes n 9 @ [42]"

definition plain_receiver :: "buffer builder" where
  "plain_receiver = example_receiver\<lparr>mb_securityPolicy := PolicyNone, mb_securityMode := MsmNone,
     mb_previousSequenceNumber := Some 4, mb_blocks := [[1]], mb_messageChunks := [[1]]\<rparr>"

lemma example_chunk_openable:
  assumes "n < 2 ^ 32" "mb_securityPolicy st = PolicyNone"
  shows "openable example_env ModeNone 5 3 9 st (example_chunk n) CHR ''C'' n [42]"
proof -
  have l: "length (example_chunk n) = 25"
    by (simp add: example_chunk_def security_header_bytes_def sequence_header_bytes_def)
  have t: "take 16 (example_chunk n) = header_bytes ''MSG'' 5 (SymmetricAlgorithmSecurityHeader 3) CHR ''C'' 25"
    by (simp add: example_chunk_def security_header_bytes_def)
  have "example_chunk n = take 16 (example_chunk n) @ sequence_header_bytes n 9 @ [42]"
    unfolding t by (simp add: example_chunk_def)
  then show ?thesis using assms
    by (auto simp: openable_def l decrypt_chunk_def opened_state_def)
      (simp add: example_chunk_def header_bytes_def security_header_bytes_def)
qed

theorem sequence_gap_rejected_witness:
  "\<exists>st'. feed_message_chunk example_env (example_chunk 6) plain_receiver = Inr (False, st')
     \<and> outcome st' = [MbInvalidSequenceNumber 5 6, MbError BadTcpInternalError None (Some 9)]"
proof -
  have op: "openable example_env ModeNone 5 3 9 plain_receiver (example_chunk 6) CHR ''C'' 6 [42]"
    by (rule example_chunk_openable) (simp_all add: plain_receiver_def)
  have "length (example_chunk 6) = 25"
    by (simp add: example_chunk_def security_header_bytes_def sequence_header_bytes_def)
  then show ?thesis using sequence_gap_rejected [OF op, of 4]
    by (auto simp: plain_receiver_def example_receiver_def example_env_def outcome_def builderMaxMessageSize_def)
qed

text \<open>C27: An abandoned message poisons the channel. When the sender aborts a message, its abort chunk
  takes a sequence number, but the receiver reports the abandon without recording that number and
  without dropping the blocks received so far; the first chunk of the next message is then rejected
  as out of sequence, although the code expects that the connection can continue.\<close>

theorem abandon_poisons_next_message:
  assumes "abort = header_bytes ''MSG'' ch (SymmetricAlgorithmSecurityHeader t) CHR ''A'' (length abort)
      @ sequence_header_bytes (p + 1) r @ rest" "length abort < 2 ^ 32" "ch < 2 ^ 32" "t < 2 ^ 32" "p + 1 < 2 ^ 32" "r < 2 ^ 32"
    "mb_previousSequenceNumber st = Some p" "\<not> mb_hasReceivedError st"
    "openable env m ch t r' st c f (p + 2) d" "f = CHR ''C'' \<or> f = CHR ''F''"
    "length (mb_messageChunks st) < be_maxChunkCount env"
    "mb_totalMessageSize st + length c \<le> be_maxMessageSize env"
  shows "\<exists>st1 st2. feed_message_chunk env abort st = Inr (False, st1) \<and> mb_blocks st1 = mb_blocks st
     \<and> feed_message_chunk env c st1 = Inr (False, st2) \<and> mb_hasReceivedError st2
     \<and> outcome st2 = outcome st @ [MbAbandon r, MbInvalidSequenceNumber (p + 1) (p + 2),
         MbError BadTcpInternalError None (if r' = 0 then None else Some r')]"
proof -
  let ?pre = "[char_byte_at ''MSG'' 0, char_byte_at ''MSG'' 1, char_byte_at ''MSG'' 2, char_byte CHR ''A'']"
  let ?st = "log_event (MbAbandon r) (log_event (MbChunk abort) st)"
  have a: "abort = ?pre @ le_bytes 4 (length abort) @ (le_bytes 4 ch @ le_bytes 4 t @ sequence_header_bytes (p + 1) r @ rest)"
    using assms(1) by (simp add: header_bytes_def security_header_bytes_def)
  have h: "readMessageHeader (open_stream abort) = Inr (\<lparr>mh_msgType = ''MSG'', mh_isFinal = CHR ''A'', mh_length = length abort\<rparr>,
     \<lparr>bs_buffer = abort, bs_length = 8\<rparr>)"
    by (rule read_message_header_bytes [OF a assms(2)]) simp
  have c1: "readUInt32 \<lparr>bs_buffer = abort, bs_length = 8\<rparr> = Inr (ch, \<lparr>bs_buffer = abort, bs_length = 12\<rparr>)"
    using readUInt32_at [OF _ assms(3), of abort "?pre @ le_bytes 4 (length abort)" _ 8] a by simp
  have c2: "readUInt32 \<lparr>bs_buffer = abort, bs_length = 12\<rparr> = Inr (t, \<lparr>bs_buffer = abort, bs_length = 16\<rparr>)"
    using readUInt32_at [OF _ assms(4), of abort "?pre @ le_bytes 4 (length abort) @ le_bytes 4 ch" _ 12] a by simp
  have c3: "decode_sequence_header \<lparr>bs_buffer = abort, bs_length = 16\<rparr>
      = Inr (\<lparr>sh_sequenceNumber = p + 1, sh_requestId = r\<rparr>, \<lparr>bs_buffer = abort, bs_length = 24\<rparr>)"
    using decode_sequence_header_at [OF assms(5,6), of "?pre @ le_bytes 4 (length abort) @ le_bytes 4 ch @ le_bytes 4 t" 16 rest] a
    by simp
  have "mb_hasReceivedError st = False" using assms(8) by simp
  then have same: "(log_event (MbChunk abort) st)\<lparr>mb_hasReceivedError := False\<rparr> = log_event (MbChunk abort) st"
    by (simp add: log_event_def)
  have f1: "feed_message_chunk env abort st = Inr (False, ?st)"
    using h c1 c2 c3 by (simp add: feed_message_chunk_def report_abandon_def same)
  let ?sc = "log_event (MbChunk c) ?st"
  have l: "openable env m ch t r' ?sc c f (p + 2) d" "mb_previousSequenceNumber ?sc = Some p" "p + 2 \<noteq> p + 1"
    "\<not> mb_hasReceivedError ?sc" "length (mb_messageChunks ?sc) < be_maxChunkCount env"
    "mb_totalMessageSize ?sc + length c \<le> be_maxMessageSize env" using assms by simp_all
  have o': "filter significant (mb_events ?sc) = outcome st @ [MbAbandon r]" by (simp add: outcome_def log_event_def)
  obtain st2 where st2: "append_chunk env c ?sc = (False, st2)" "mb_hasReceivedError st2"
    "outcome st2 = outcome st @ [MbAbandon r, MbInvalidSequenceNumber (p + 1) (p + 2),
         MbError BadTcpInternalError None (if r' = 0 then None else Some r')]"
    using append_chunk_gap [OF l] unfolding o' by (auto simp: outcome_def)
  have f2: "feed_message_chunk env c ?st = Inr (False, st2)"
    using openable_headers(1) [OF assms(9)] assms(10) st2(1,2) by (auto simp: feed_message_chunk_def)
  show ?thesis
    by (rule exI [of _ ?st], rule exI [of _ st2]) (use f1 f2 st2(2,3) in simp)
qed

theorem abandon_poisons_next_message_witness:
  "\<exists>st1 st2. feed_message_chunk example_env
       (header_bytes ''MSG'' 5 (SymmetricAlgorithmSecurityHeader 3) CHR ''A'' 24 @ sequence_header_bytes 5 8) plain_receiver
       = Inr (False, st1) \<and> mb_blocks st1 = [[1]]
     \<and> feed_message_chunk example_env (example_chunk 6) st1 = Inr (False, st2) \<and> mb_hasReceivedError st2"
proof -
  let ?a = "header_bytes ''MSG'' 5 (SymmetricAlgorithmSecurityHeader 3) CHR ''A'' 24 @ sequence_header_bytes 5 8"
  have la: "length ?a = 24" by (simp add: security_header_bytes_def sequence_header_bytes_def)
  have op: "openable example_env ModeNone 5 3 9 plain_receiver (example_chunk 6) CHR ''C'' (4 + 2) [42]"
    using example_chunk_openable [of 6 plain_receiver] by (simp add: plain_receiver_def)
  have lc: "length (example_chunk 6) = 25"
    by (simp add: example_chunk_def security_header_bytes_def sequence_header_bytes_def)
  have ab: "?a = header_bytes ''MSG'' 5 (SymmetricAlgorithmSecurityHeader 3) CHR ''A'' (length ?a)
      @ sequence_header_bytes (4 + 1) 8 @ []" unfolding la by simp
  have small: "length ?a < 2 ^ 32" unfolding la by simp
  have st: "mb_previousSequenceNumber plain_receiver = Some 4" "\<not> mb_hasReceivedError plain_receiver"
    "length (mb_messageChunks plain_receiver) < be_maxChunkCount example_env"
    "mb_totalMessageSize plain_receiver + length (example_chunk 6) \<le> be_maxMessageSize example_env"
    "mb_blocks plain_receiver = [[1]]"
    by (simp_all add: lc plain_receiver_def example_receiver_def example_env_def builderMaxMessageSize_def)
  show ?thesis
    using abandon_poisons_next_message [OF ab small _ _ _ _ st(1,2) op disjI1 [OF refl] st(3,4)] st(5) by auto
qed

end
