(* ===== verification/Data_Value.thy ===== *)
theory Data_Value
  imports Prelude
begin

unbundle bit_operations_syntax

text \<open>
  Status codes and data values: \<^verbatim>\<open>node-opcua-status-code\<close> (\<^verbatim>\<open>opcua_status_code.ts\<close>)
  and \<^verbatim>\<open>node-opcua-data-value\<close> (\<^verbatim>\<open>datavalue.ts\<close>). The variant inside a data value is
  the type parameter \<open>'v\<close>; what the code asks of variants (equality, range extraction) is an
  argument of the definitions that use it. Timestamps are milliseconds, \<open>None\<close> is \<^verbatim>\<open>null\<close>.
\<close>

section \<open>Status codes\<close>

text \<open>A \<^verbatim>\<open>ModifiableStatusCode\<close> is a constant code with extra bits; a constant has none.\<close>

record status_code =
  sc_base :: "32 word"
  sc_extraBits :: "32 word"

definition constant_status :: "32 word \<Rightarrow> status_code" where
  "constant_status v = \<lparr>sc_base = v, sc_extraBits = 0\<rparr>"

definition sc_value :: "status_code \<Rightarrow> nat" where
  "sc_value s = unat (sc_base s) + unat (sc_extraBits s)"

definition Good :: status_code where "Good = constant_status 0"
definition BadDataUnavailable :: status_code where "BadDataUnavailable = constant_status 0x809E0000"
definition BadNodeIdInvalid :: status_code where "BadNodeIdInvalid = constant_status 0x80330000"

definition bit_Overflow :: "32 word" where "bit_Overflow = 0x80"
definition bit_InfoTypeDataValue :: "32 word" where "bit_InfoTypeDataValue = 0x400"
definition bit_SemanticChanged :: "32 word" where "bit_SemanticChanged = 0x4000"

definition sc_set :: "32 word list \<Rightarrow> status_code \<Rightarrow> status_code" where
  "sc_set bits s = s\<lparr>sc_extraBits := fold (\<lambda>b e. e OR b) bits (sc_extraBits s)\<rparr>"

definition sc_unset :: "32 word list \<Rightarrow> status_code \<Rightarrow> status_code" where
  "sc_unset bits s = s\<lparr>sc_extraBits := fold (\<lambda>b e. e AND NOT b) bits (sc_extraBits s)\<rparr>"

text \<open>\<^verbatim>\<open>makeStatusCode\<close> copies the base and the extra bits, then sets the new ones.\<close>

definition makeStatusCode :: "status_code \<Rightarrow> 32 word list \<Rightarrow> status_code" where
  "makeStatusCode s bits = sc_set bits s"

definition overflow_flags :: "32 word list" where
  "overflow_flags = [bit_Overflow, bit_InfoTypeDataValue]"

definition checkBit :: "status_code \<Rightarrow> 32 word \<Rightarrow> bool" where
  "checkBit s bits \<longleftrightarrow> word_of_nat (sc_value s) AND bits = bits"

definition hasOverflowBit :: "status_code \<Rightarrow> bool" where
  "hasOverflowBit s = checkBit s bit_Overflow"

definition isGood :: "status_code \<Rightarrow> bool" where
  "isGood s \<longleftrightarrow> sc_value s = 0"

definition sameStatusCode :: "status_code \<Rightarrow> status_code \<Rightarrow> bool" where
  "sameStatusCode s1 s2 \<longleftrightarrow> sc_value s1 = sc_value s2"

definition GoodWithOverflowBit :: status_code where
  "GoodWithOverflowBit = makeStatusCode Good overflow_flags"

lemma sc_value_GoodWithOverflowBit: "sc_value GoodWithOverflowBit = 0x480"
  by (simp add: GoodWithOverflowBit_def makeStatusCode_def sc_set_def overflow_flags_def Good_def
      constant_status_def sc_value_def bit_Overflow_def bit_InfoTypeDataValue_def)

lemma sc_value_Good [simp]: "sc_value Good = 0"
  by (simp add: Good_def constant_status_def sc_value_def)

lemma sc_value_zero_iff: "sc_value s = 0 \<longleftrightarrow> sc_base s = 0 \<and> sc_extraBits s = 0"
  by (auto simp: sc_value_def unat_eq_0)

lemma good_with_overflow:
  assumes "sc_value s = 0"
  shows "makeStatusCode s overflow_flags = GoodWithOverflowBit"
  using assms by (cases s)
    (simp add: sc_value_zero_iff makeStatusCode_def sc_set_def GoodWithOverflowBit_def Good_def constant_status_def)

lemma hasOverflowBit_GoodWithOverflowBit [simp]: "hasOverflowBit GoodWithOverflowBit"
  by (simp add: hasOverflowBit_def checkBit_def sc_value_GoodWithOverflowBit bit_Overflow_def)

lemma unset_overflow_good:
  assumes "sc_value s = 0"
  shows "sc_unset overflow_flags (makeStatusCode s overflow_flags) = Good"
  using assms by (cases s)
    (simp add: sc_value_zero_iff makeStatusCode_def sc_set_def sc_unset_def overflow_flags_def Good_def
      constant_status_def bit_Overflow_def bit_InfoTypeDataValue_def)

section \<open>Data values\<close>

record 'v data_value =
  dv_value :: 'v
  dv_statusCode :: status_code
  dv_sourceTimestamp :: "int option"
  dv_sourcePicoseconds :: nat
  dv_serverTimestamp :: "int option"
  dv_serverPicoseconds :: nat

datatype timestamps_to_return = TsSource | TsServer | TsBoth | TsNeither

definition partial_clone :: "'v data_value \<Rightarrow> 'v data_value" where
  "partial_clone dv = dv\<lparr>dv_sourceTimestamp := None, dv_sourcePicoseconds := 0,
     dv_serverTimestamp := None, dv_serverPicoseconds := 0\<rparr>"

text \<open>
  \<open>now\<close> is \<^verbatim>\<open>getCurrentClock()\<close>: milliseconds and picoseconds. \<open>is_value\<close> tells whether the
  attribute is \<^verbatim>\<open>AttributeIds.Value\<close>. A timestamp of zero milliseconds is a \<^verbatim>\<open>Date\<close>, thus truthy.
\<close>

definition copy_server :: "int \<times> nat \<Rightarrow> 'v data_value \<Rightarrow> 'v data_value \<Rightarrow> 'v data_value" where
  "copy_server now dv c =
     (case dv_serverTimestamp dv of
        Some t \<Rightarrow> c\<lparr>dv_serverTimestamp := Some t, dv_serverPicoseconds := dv_serverPicoseconds dv\<rparr>
      | None \<Rightarrow> c\<lparr>dv_serverTimestamp := Some (fst now), dv_serverPicoseconds := snd now\<rparr>)"

definition copy_source :: "'v data_value \<Rightarrow> 'v data_value \<Rightarrow> 'v data_value" where
  "copy_source dv c = c\<lparr>dv_sourceTimestamp := dv_sourceTimestamp dv,
     dv_sourcePicoseconds := dv_sourcePicoseconds dv\<rparr>"

definition apply_timestamps ::
    "int \<times> nat \<Rightarrow> 'v data_value \<Rightarrow> timestamps_to_return \<Rightarrow> bool \<Rightarrow> 'v data_value" where
  "apply_timestamps now dv ts is_value =
     (let c = (case ts of
          TsNeither \<Rightarrow> partial_clone dv
        | TsServer \<Rightarrow> copy_server now dv (partial_clone dv)
        | TsSource \<Rightarrow> copy_source dv (partial_clone dv)
        | TsBoth \<Rightarrow> copy_source dv (copy_server now dv (partial_clone dv)))
      in if is_value then c else c\<lparr>dv_sourceTimestamp := None\<rparr>)"

definition sourceTimestampHasChanged :: "'v data_value \<Rightarrow> 'v data_value \<Rightarrow> bool" where
  "sourceTimestampHasChanged a b \<longleftrightarrow>
     dv_sourceTimestamp a \<noteq> dv_sourceTimestamp b \<or> dv_sourcePicoseconds a \<noteq> dv_sourcePicoseconds b"

definition serverTimestampHasChanged :: "'v data_value \<Rightarrow> 'v data_value \<Rightarrow> bool" where
  "serverTimestampHasChanged a b \<longleftrightarrow>
     dv_serverTimestamp a \<noteq> dv_serverTimestamp b \<or> dv_serverPicoseconds a \<noteq> dv_serverPicoseconds b"

definition dv_timestampHasChanged ::
    "'v data_value \<Rightarrow> 'v data_value \<Rightarrow> timestamps_to_return option \<Rightarrow> bool" where
  "dv_timestampHasChanged a b ts =
     (case ts of
        None \<Rightarrow> sourceTimestampHasChanged a b
      | Some TsNeither \<Rightarrow> False
      | Some TsBoth \<Rightarrow> sourceTimestampHasChanged a b \<or> serverTimestampHasChanged a b
      | Some TsSource \<Rightarrow> sourceTimestampHasChanged a b
      | Some TsServer \<Rightarrow> serverTimestampHasChanged a b)"

definition sameDataValue ::
    "('v \<Rightarrow> 'v \<Rightarrow> bool) \<Rightarrow> 'v data_value \<Rightarrow> 'v data_value \<Rightarrow> timestamps_to_return option \<Rightarrow> bool" where
  "sameDataValue same_variant a b ts \<longleftrightarrow>
     sameStatusCode (dv_statusCode a) (dv_statusCode b) \<and> \<not> dv_timestampHasChanged a b ts \<and>
     same_variant (dv_value a) (dv_value b)"

lemma apply_timestamps_keeps [simp]:
  "dv_value (apply_timestamps now dv ts v) = dv_value dv"
  "dv_statusCode (apply_timestamps now dv ts v) = dv_statusCode dv"
  by (cases ts; simp add: apply_timestamps_def partial_clone_def copy_server_def copy_source_def
      Let_def split: option.split)+

end
