(* ===== verification/Monitored_Item.thy ===== *)
theory Monitored_Item
  imports Data_Value Complex_Main
begin

text \<open>
  The server's \<^verbatim>\<open>MonitoredItem\<close> (\<^verbatim>\<open>node-opcua-server/source/monitored_item.ts\<close>): the
  change test of a sampled value, the notification queue with its discard policies and overflow
  bit, the links to triggered items, and the revision of the requested parameters. The node an
  item watches is an argument (\<open>nd\<close>, \<open>None\<close> when the item has no node): its current
  \<^verbatim>\<open>semantic_version\<close> and \<^verbatim>\<open>EURange\<close>. A method that throws leaves the object as it is at
  that point, so a step that can fail returns the item beside the outcome. Sampling itself
  (timers, address-space listeners) is outside the model: \<open>mi_start\<close> records what
  \<^verbatim>\<open>_start_sampling\<close> has scheduled.
\<close>

section \<open>State\<close>

datatype monitoring_mode = MmInvalid | MmDisabled | MmSampling | MmReporting

datatype 'v queue_item =
    DataItem (qi_clientHandle: nat) (qi_value: "'v data_value")
  | EventItem (qi_clientHandle: nat) (qi_fields: "'v list")

datatype dc_trigger = TriggerStatus | TriggerStatusValue | TriggerStatusValueTimestamp

datatype deadband = DeadbandNone | DeadbandAbsolute rat | DeadbandPercent rat

datatype monitoring_filter = DataChangeFilter dc_trigger deadband | EventFilter

record ('v, 'r, 'e) value_ops =
  vo_same :: "'v \<Rightarrow> 'v \<Rightarrow> bool"
  vo_extract :: "'v data_value \<Rightarrow> 'r option \<Rightarrow> 'v data_value"
  vo_overlap :: "'r \<Rightarrow> 'r \<Rightarrow> bool"
  vo_isEmpty :: "'r \<Rightarrow> bool"
  vo_outsideNone :: "'v \<Rightarrow> 'v \<Rightarrow> bool"
  vo_outsideAbsolute :: "'v \<Rightarrow> 'v \<Rightarrow> rat \<Rightarrow> bool"
  vo_outsidePercent :: "'v \<Rightarrow> 'v \<Rightarrow> rat \<Rightarrow> 'e \<Rightarrow> bool"

record 'e item_node =
  nd_semantic_version :: nat
  nd_euRange :: "'e option"
  nd_minimumSamplingInterval :: rat
  nd_is_variable :: bool

record monitoring_parameters =
  mp_clientHandle :: nat
  mp_samplingInterval :: rat
  mp_discardOldest :: bool
  mp_queueSize :: nat
  mp_filter :: "monitoring_filter option"

record ('v, 'r) monitored_item =
  mi_monitoredItemId :: nat
  mi_clientHandle :: nat
  mi_samplingInterval :: rat
  mi_monitoringMode :: monitoring_mode
  mi_timestampsToReturn :: timestamps_to_return
  mi_itemToMonitor :: bool
  mi_attributeId :: nat
  mi_indexRange :: "'r option"
  mi_filter :: "monitoring_filter option"
  mi_discardOldest :: bool
  mi_queueSize :: nat
  mi_queue :: "'v queue_item list"
  mi_overflow :: bool
  mi_oldDataValue :: "'v data_value option"
  mi_semantic_version :: nat
  mi_linkedItems :: "nat list option"
  mi_triggered :: "'v queue_item list option"
  mi_overflowCount :: nat
  mi_start :: "bool option"

definition attribute_Value :: nat where "attribute_Value = 13"

section \<open>Revision of the requested parameters\<close>

definition minimumSamplingInterval :: rat where "minimumSamplingInterval = 50"
definition defaultSamplingInterval :: rat where "defaultSamplingInterval = 1500"
definition maximumSamplingInterval :: rat where "maximumSamplingInterval = 1000 * 60 * 60"
definition maxQueueSize :: nat where "maxQueueSize = 5000"

definition adjust_sampling_interval :: "rat \<Rightarrow> rat \<Rightarrow> rat result" where
  "adjust_sampling_interval samplingInterval node_min =
     (if samplingInterval = 0
      then Inr (if node_min = 0 then samplingInterval else max minimumSamplingInterval node_min)
      else rbind (assert_js (samplingInterval \<ge> 0)) (\<lambda>_.
        let si = (if samplingInterval = 0 then defaultSamplingInterval else samplingInterval);
            si = min (max si minimumSamplingInterval) maximumSamplingInterval
        in Inr (if node_min = 0 then si else max si node_min)))"

definition adjust_queue_size :: "nat \<Rightarrow> nat" where
  "adjust_queue_size queueSize = max 1 (min queueSize maxQueueSize)"

text \<open>
  \<^verbatim>\<open>_set_parameters\<close>: the client handle is set before the sampling interval is checked, so
  it stays set when the check throws.
\<close>

definition set_parameters ::
    "'e item_node option \<Rightarrow> monitoring_parameters \<Rightarrow> ('v, 'r) monitored_item \<Rightarrow>
     ('v, 'r) monitored_item \<times> js_error option" where
  "set_parameters nd p m =
     (let m1 = (if mp_clientHandle p \<noteq> 0 \<and> mp_clientHandle p \<noteq> 4294967295
                then m\<lparr>mi_clientHandle := mp_clientHandle p\<rparr> else m);
          node_min = (case nd of Some n \<Rightarrow> if nd_is_variable n then nd_minimumSamplingInterval n else 0
                      | None \<Rightarrow> 0)
      in case adjust_sampling_interval (mp_samplingInterval p) node_min of
           Inl e \<Rightarrow> (m1, Some e)
         | Inr si \<Rightarrow> (m1\<lparr>mi_samplingInterval := si, mi_discardOldest := mp_discardOldest p,
                       mi_queueSize := adjust_queue_size (mp_queueSize p), mi_filter := mp_filter p\<rparr>, None))"

definition new_monitored_item ::
    "nat \<Rightarrow> nat \<Rightarrow> 'r option \<Rightarrow> timestamps_to_return \<Rightarrow> monitoring_parameters \<Rightarrow>
     ('v, 'r) monitored_item result" where
  "new_monitored_item itemId attributeId idxRange ts p =
     (case set_parameters (None :: unit item_node option) p
         \<lparr>mi_monitoredItemId = itemId, mi_clientHandle = 0, mi_samplingInterval = -1,
          mi_monitoringMode = MmInvalid, mi_timestampsToReturn = ts, mi_itemToMonitor = True,
          mi_attributeId = attributeId, mi_indexRange = idxRange, mi_filter = None, mi_discardOldest = True,
          mi_queueSize = 0, mi_queue = [], mi_overflow = False, mi_oldDataValue = None,
          mi_semantic_version = 0, mi_linkedItems = None, mi_triggered = None,
          mi_overflowCount = 0, mi_start = None\<rparr> of
        (m, Some e) \<Rightarrow> Inl e
      | (m, None) \<Rightarrow> Inr m)"

definition setNode :: "'e item_node \<Rightarrow> ('v, 'r) monitored_item \<Rightarrow> ('v, 'r) monitored_item" where
  "setNode n m = m\<lparr>mi_semantic_version := nd_semantic_version n\<rparr>"

section \<open>The notification queue\<close>

text \<open>
  \<^verbatim>\<open>_setOverflowBit\<close>: only a data-change notification carries a value, and its status code is
  asserted to be Good. \<open>counted\<close> is false when the assertion throws, as the diagnostics counter
  of the subscription is then not reached.
\<close>

definition setOverflowBit :: "'v queue_item \<Rightarrow> 'v queue_item result" where
  "setOverflowBit n =
     (case n of
        DataItem h dv \<Rightarrow>
          rbind (assert_js (isGood (dv_statusCode dv))) (\<lambda>_.
            let sc = makeStatusCode (dv_statusCode dv) overflow_flags in
            rbind (assert_js (sameStatusCode sc GoodWithOverflowBit)) (\<lambda>_.
            rbind (assert_js (hasOverflowBit sc)) (\<lambda>_.
              Inr (DataItem h (dv\<lparr>dv_statusCode := sc\<rparr>)))))
      | EventItem h f \<Rightarrow> Inr n)"

definition enqueue_notification ::
    "'v queue_item \<Rightarrow> ('v, 'r) monitored_item \<Rightarrow> ('v, 'r) monitored_item \<times> js_error option" where
  "enqueue_notification n m =
     (if mi_queueSize m = 1 then (m\<lparr>mi_queue := [n]\<rparr>, None)
      else if mi_discardOldest m then
        (let q = mi_queue m @ [n] in
         if length q > mi_queueSize m then
           (case setOverflowBit (hd (tl q)) of
              Inl e \<Rightarrow> (m\<lparr>mi_queue := tl q, mi_overflow := True\<rparr>, Some e)
            | Inr h \<Rightarrow> (m\<lparr>mi_queue := h # tl (tl q), mi_overflow := True,
                          mi_overflowCount := mi_overflowCount m + 1\<rparr>, None))
         else (m\<lparr>mi_queue := q\<rparr>, None))
      else if length (mi_queue m) < mi_queueSize m then (m\<lparr>mi_queue := mi_queue m @ [n]\<rparr>, None)
      else (case setOverflowBit n of
              Inl e \<Rightarrow> (m\<lparr>mi_overflow := True\<rparr>, Some e)
            | Inr n' \<Rightarrow> (m\<lparr>mi_queue := butlast (mi_queue m) @ [n'], mi_overflow := True,
                           mi_overflowCount := mi_overflowCount m + 1\<rparr>, None)))"

definition makeDataChangeNotification ::
    "int \<times> nat \<Rightarrow> ('v, 'r) monitored_item \<Rightarrow> 'v data_value \<Rightarrow> 'v queue_item" where
  "makeDataChangeNotification now m dv =
     DataItem (mi_clientHandle m)
       (apply_timestamps now dv (mi_timestampsToReturn m) (mi_attributeId m = attribute_Value))"

definition enqueue_value ::
    "int \<times> nat \<Rightarrow> 'v data_value \<Rightarrow> ('v, 'r) monitored_item \<Rightarrow> ('v, 'r) monitored_item \<times> js_error option" where
  "enqueue_value now dv m =
     enqueue_notification (makeDataChangeNotification now m dv) (m\<lparr>mi_oldDataValue := Some dv\<rparr>)"

definition enqueue_event ::
    "'v list \<Rightarrow> ('v, 'r) monitored_item \<Rightarrow> ('v, 'r) monitored_item \<times> js_error option" where
  "enqueue_event eventFields m = enqueue_notification (EventItem (mi_clientHandle m) eventFields) m"

definition empty_queue :: "('v, 'r) monitored_item \<Rightarrow> ('v, 'r) monitored_item" where
  "empty_queue m = m\<lparr>mi_queue := [], mi_overflow := False\<rparr>"

text \<open>An overflow bit is taken off the last notification left when the queue shrinks to one.\<close>

definition unset_overflow :: "'v queue_item \<Rightarrow> 'v queue_item" where
  "unset_overflow n =
     (case n of
        DataItem h dv \<Rightarrow>
          if hasOverflowBit (dv_statusCode dv)
          then DataItem h (dv\<lparr>dv_statusCode := sc_unset overflow_flags (dv_statusCode dv)\<rparr>) else n
      | EventItem h f \<Rightarrow> n)"

definition adjust_queue_to_match_new_queue_size ::
    "('v, 'r) monitored_item \<Rightarrow> ('v, 'r) monitored_item" where
  "adjust_queue_to_match_new_queue_size m =
     (let q = mi_queue m;
          q1 = (if mi_queueSize m < length q
                then if mi_discardOldest m then drop (length q - mi_queueSize m) q
                     else (take (mi_queueSize m) q)[mi_queueSize m - 1 := last q]
                else q)
      in if mi_queueSize m \<le> 1
         then m\<lparr>mi_queue := (if length q1 = 1 then [unset_overflow (hd q1)] else q1), mi_overflow := False\<rparr>
         else m\<lparr>mi_queue := q1\<rparr>)"

section \<open>The change test\<close>

definition statusCodeHasChanged :: "'v data_value \<Rightarrow> 'v data_value \<Rightarrow> bool" where
  "statusCodeHasChanged new old \<longleftrightarrow> sc_value (dv_statusCode new) \<noteq> sc_value (dv_statusCode old)"

definition valueHasChanged ::
    "('v, 'r, 'e) value_ops \<Rightarrow> 'e option \<Rightarrow> 'v data_value \<Rightarrow> 'v data_value \<Rightarrow> deadband \<Rightarrow> bool result" where
  "valueHasChanged ops euRange new old d =
     (case d of
        DeadbandNone \<Rightarrow> Inr (vo_outsideNone ops (dv_value old) (dv_value new))
      | DeadbandAbsolute v \<Rightarrow> Inr (vo_outsideAbsolute ops (dv_value old) (dv_value new) v)
      | DeadbandPercent v \<Rightarrow>
          rbind (assert_js (0 \<le> v \<and> v \<le> 100)) (\<lambda>_.
            case euRange of
              Some r \<Rightarrow> Inr (vo_outsidePercent ops (dv_value old) (dv_value new) v r)
            | None \<Rightarrow> Inr True))"

text \<open>The first guard of \<^verbatim>\<open>timestampHasChanged\<close> is \<^verbatim>\<open>t1 || !t2 || t2 || !t1\<close>.\<close>

definition timestampHasChanged :: "int option \<Rightarrow> int option \<Rightarrow> bool" where
  "timestampHasChanged t1 t2 =
     (if t1 \<noteq> None \<or> t2 = None \<or> t2 \<noteq> None \<or> t1 = None then True
      else if t1 = None \<or> t2 = None then False
      else t1 \<noteq> t2)"

definition apply_dataChange_filter ::
    "('v, 'r, 'e) value_ops \<Rightarrow> 'e option \<Rightarrow> dc_trigger \<Rightarrow> deadband \<Rightarrow> 'v data_value \<Rightarrow> 'v data_value \<Rightarrow> bool result" where
  "apply_dataChange_filter ops euRange trig d new old =
     (case trig of
        TriggerStatus \<Rightarrow> Inr (statusCodeHasChanged new old)
      | TriggerStatusValue \<Rightarrow>
          if statusCodeHasChanged new old then Inr True else valueHasChanged ops euRange new old d
      | TriggerStatusValueTimestamp \<Rightarrow>
          if timestampHasChanged (dv_sourceTimestamp new) (dv_sourceTimestamp old) then Inr True
          else if statusCodeHasChanged new old then Inr True
          else valueHasChanged ops euRange new old d)"

definition apply_filter ::
    "('v, 'r, 'e) value_ops \<Rightarrow> 'e option \<Rightarrow> 'v data_value \<Rightarrow> ('v, 'r) monitored_item \<Rightarrow> bool result" where
  "apply_filter ops euRange new m =
     (case mi_oldDataValue m of
        None \<Rightarrow> Inr True
      | Some old \<Rightarrow>
          (case mi_filter m of
             Some (DataChangeFilter trig d) \<Rightarrow> apply_dataChange_filter ops euRange trig d new old
           | _ \<Rightarrow> if sc_value (dv_statusCode new) \<noteq> sc_value (dv_statusCode old) then Inr True
                  else Inr (\<not> vo_same ops (dv_value new) (dv_value old))))"

definition setSemanticChangeBit :: "'v data_value \<Rightarrow> 'v data_value" where
  "setSemanticChangeBit dv =
     dv\<lparr>dv_statusCode := makeStatusCode (dv_statusCode dv) [bit_SemanticChanged]\<rparr>"

datatype record_outcome = NotRecorded | Recorded bool | RecordThrew js_error

text \<open>
  \<^verbatim>\<open>recordValue\<close>. \<open>Recorded True\<close> is a recording that triggers the linked items first.
  \<^verbatim>\<open>badDataUnavailable\<close>, the value before the first sample, is \<open>None\<close>; its status code and
  null variant take part in \<^verbatim>\<open>sameDataValue\<close> through \<open>unset\<close>.
\<close>

definition outcome_of :: "bool \<Rightarrow> ('v, 'r) monitored_item \<times> js_error option \<Rightarrow>
    ('v, 'r) monitored_item \<times> record_outcome" where
  "outcome_of b r = (fst r, case snd r of None \<Rightarrow> Recorded b | Some e \<Rightarrow> RecordThrew e)"

definition unset_value :: "'v \<Rightarrow> 'v data_value" where
  "unset_value nullVariant = \<lparr>dv_value = nullVariant, dv_statusCode = BadDataUnavailable, dv_sourceTimestamp = None,
     dv_sourcePicoseconds = 0, dv_serverTimestamp = None, dv_serverPicoseconds = 0\<rparr>"

definition recordValue ::
    "('v, 'r, 'e) value_ops \<Rightarrow> 'v \<Rightarrow> 'e item_node option \<Rightarrow> int \<times> nat \<Rightarrow> 'v data_value \<Rightarrow> bool \<Rightarrow> 'r option \<Rightarrow>
     ('v, 'r) monitored_item \<Rightarrow> ('v, 'r) monitored_item \<times> record_outcome" where
  "recordValue ops nullVariant nd now dataValue skipChangeTest indexRange m =
     (if \<not> mi_itemToMonitor m then (m, NotRecorded) else
      let hasSemanticChanged =
            (case nd of None \<Rightarrow> False | Some n \<Rightarrow> nd_semantic_version n \<noteq> mi_semantic_version m);
          disjoint = (case (indexRange, mi_indexRange m) of
              (Some r, Some mine) \<Rightarrow> \<not> vo_overlap ops r mine | _ \<Rightarrow> False)
      in
      if \<not> hasSemanticChanged \<and> disjoint then (m, NotRecorded) else
      let dv = vo_extract ops dataValue (mi_indexRange m) in
      if hasSemanticChanged then
        outcome_of False (enqueue_value now (setSemanticChangeBit dv)
          (m\<lparr>mi_semantic_version := (case nd of Some n \<Rightarrow> nd_semantic_version n | None \<Rightarrow> 0)\<rparr>))
      else
      let old = (case mi_oldDataValue m of Some v \<Rightarrow> v | None \<Rightarrow> unset_value nullVariant);
          useIndexRange = (case mi_indexRange m of None \<Rightarrow> False | Some r \<Rightarrow> \<not> vo_isEmpty ops r)
      in
      if \<not> skipChangeTest \<and> sameDataValue (vo_same ops) dv old None then (m, NotRecorded) else
      case (if skipChangeTest then Inr True
            else apply_filter ops (case nd of Some n \<Rightarrow> nd_euRange n | None \<Rightarrow> None) dv m) of
        Inl e \<Rightarrow> (m, RecordThrew e)
      | Inr False \<Rightarrow> (m, NotRecorded)
      | Inr True \<Rightarrow>
          if useIndexRange \<and> mi_oldDataValue m \<noteq> None \<and> vo_same ops (dv_value dv) (dv_value old)
          then (m, NotRecorded)
          else outcome_of True (enqueue_value now dv m))"

section \<open>Linked items\<close>

definition findIndex :: "nat \<Rightarrow> nat list \<Rightarrow> int" where
  "findIndex x xs = (if x \<in> set xs then int (length (takeWhile (\<lambda>y. y \<noteq> x) xs)) else -1)"

definition hasLinkItem :: "nat \<Rightarrow> ('v, 'r) monitored_item \<Rightarrow> bool" where
  "hasLinkItem i m = (case mi_linkedItems m of None \<Rightarrow> False | Some xs \<Rightarrow> findIndex i xs > 0)"

datatype mi_status = MiGood | MiBadMonitoredItemIdInvalid | MiBadNothingToDo | MiBadInvalidArgument

definition addLinkItem :: "nat \<Rightarrow> ('v, 'r) monitored_item \<Rightarrow> ('v, 'r) monitored_item \<times> mi_status" where
  "addLinkItem i m =
     (if i = mi_monitoredItemId m then (m, MiBadMonitoredItemIdInvalid)
      else let xs = (case mi_linkedItems m of None \<Rightarrow> [] | Some xs \<Rightarrow> xs);
               m1 = m\<lparr>mi_linkedItems := Some xs\<rparr>
           in if hasLinkItem i m1 then (m1, MiBadMonitoredItemIdInvalid)
              else (m1\<lparr>mi_linkedItems := Some (xs @ [i])\<rparr>, MiGood))"

definition removeLinkItem :: "nat \<Rightarrow> ('v, 'r) monitored_item \<Rightarrow> ('v, 'r) monitored_item \<times> mi_status" where
  "removeLinkItem i m =
     (case mi_linkedItems m of
        None \<Rightarrow> (m, MiBadMonitoredItemIdInvalid)
      | Some xs \<Rightarrow>
          if i = mi_monitoredItemId m \<or> findIndex i xs = -1 then (m, MiBadMonitoredItemIdInvalid)
          else (m\<lparr>mi_linkedItems := Some (take (nat (findIndex i xs)) xs @ drop (nat (findIndex i xs) + 1) xs)\<rparr>,
                MiGood))"

text \<open>\<^verbatim>\<open>triggerLinkedItems\<close> schedules \<^verbatim>\<open>trigger\<close> on each linked item in Sampling mode.\<close>

definition triggerLinkedItems ::
    "(nat \<Rightarrow> ('v, 'r) monitored_item option) \<Rightarrow> ('v, 'r) monitored_item \<Rightarrow> nat list" where
  "triggerLinkedItems getItem m =
     (case mi_linkedItems m of
        None \<Rightarrow> []
      | Some xs \<Rightarrow> filter (\<lambda>i. case getItem i of None \<Rightarrow> False | Some x \<Rightarrow> mi_monitoringMode x = MmSampling) xs)"

section \<open>Extraction\<close>

definition hasMonitoredItemNotifications :: "('v, 'r) monitored_item \<Rightarrow> bool" where
  "hasMonitoredItemNotifications m \<longleftrightarrow>
     mi_queue m \<noteq> [] \<or> (case mi_triggered m of None \<Rightarrow> False | Some xs \<Rightarrow> xs \<noteq> [])"

definition semantic_bit_item :: "'v queue_item \<Rightarrow> 'v queue_item" where
  "semantic_bit_item n =
     (case n of DataItem h dv \<Rightarrow> DataItem h (setSemanticChangeBit dv) | EventItem h f \<Rightarrow> n)"

definition extractMonitoredItemNotifications ::
    "'e item_node option \<Rightarrow> bool \<Rightarrow> ('v, 'r) monitored_item \<Rightarrow> 'v queue_item list \<times> ('v, 'r) monitored_item" where
  "extractMonitoredItemNotifications nd bForce m =
     (if \<not> bForce \<and> mi_monitoringMode m = MmSampling \<and> mi_triggered m \<noteq> None
      then (the (mi_triggered m), m\<lparr>mi_triggered := None\<rparr>)
      else if \<not> bForce \<and> mi_monitoringMode m \<noteq> MmReporting then ([], m)
      else let ns = mi_queue m; m1 = empty_queue m in
        (case nd of
           Some n \<Rightarrow> if ns \<noteq> [] \<and> mi_semantic_version m1 < nd_semantic_version n
             then (butlast ns @ [semantic_bit_item (last ns)],
                   m1\<lparr>mi_semantic_version := nd_semantic_version n\<rparr>)
             else (ns, m1)
         | None \<Rightarrow> (ns, m1)))"

definition run_trigger :: "'e item_node option \<Rightarrow> ('v, 'r) monitored_item \<Rightarrow> ('v, 'r) monitored_item" where
  "run_trigger nd m =
     (let old = (case mi_triggered m of None \<Rightarrow> [] | Some xs \<Rightarrow> xs);
          (ns, m1) = extractMonitoredItemNotifications nd True m
      in m1\<lparr>mi_triggered := Some (old @ ns)\<rparr>)"

section \<open>Modes, modification, disposal\<close>

definition start_sampling ::
    "'e item_node option \<Rightarrow> bool \<Rightarrow> ('v, 'r) monitored_item \<Rightarrow> ('v, 'r) monitored_item" where
  "start_sampling nd recordInitialValue m =
     (case nd of None \<Rightarrow> m | Some _ \<Rightarrow> m\<lparr>mi_oldDataValue := None, mi_start := Some recordInitialValue\<rparr>)"

definition setMonitoringMode ::
    "'e item_node option \<Rightarrow> monitoring_mode \<Rightarrow> ('v, 'r) monitored_item \<Rightarrow>
     ('v, 'r) monitored_item \<times> mi_status result" where
  "setMonitoringMode nd mode m =
     (if mode = mi_monitoringMode m then (m, Inr MiBadNothingToDo)
      else if mode = MmInvalid then (m, Inr MiBadInvalidArgument)
      else if mode = MmDisabled then
        (let m1 = m\<lparr>mi_monitoringMode := mode\<rparr> in
         case nd of None \<Rightarrow> (m1, Inl (ThrownError ''Internal Error''))
         | Some _ \<Rightarrow> (empty_queue m1, Inr MiGood))
      else (start_sampling nd
              (mi_monitoringMode m = MmInvalid \<or> mi_monitoringMode m = MmDisabled)
              (m\<lparr>mi_monitoringMode := mode\<rparr>), Inr MiGood))"

datatype modify_result = ModifyOk nat rat | ModifyBadFilter nat | ModifyThrew js_error

text \<open>
  \<open>validate\<close> is \<^verbatim>\<open>validateFilter\<close>, \<open>Some code\<close> for a filter it refuses. The parameters have
  been applied by then, whatever it says.
\<close>

definition mi_modify ::
    "'e item_node option \<Rightarrow> (monitoring_filter \<Rightarrow> nat option) \<Rightarrow> timestamps_to_return option \<Rightarrow> monitoring_parameters \<Rightarrow>
     ('v, 'r) monitored_item \<Rightarrow> ('v, 'r) monitored_item \<times> modify_result" where
  "mi_modify nd validate ts p m =
     (let old_samplingInterval = mi_samplingInterval m;
          m0 = (case ts of None \<Rightarrow> m | Some t \<Rightarrow> m\<lparr>mi_timestampsToReturn := t\<rparr>);
          p1 = (if old_samplingInterval \<noteq> 0 \<and> mp_samplingInterval p = 0
                then p\<lparr>mp_samplingInterval := minimumSamplingInterval\<rparr> else p)
      in case set_parameters nd p1 m0 of
           (m1, Some e) \<Rightarrow> (m1, ModifyThrew e)
         | (m1, None) \<Rightarrow>
             let m2 = adjust_queue_to_match_new_queue_size m1;
                 m3 = (if old_samplingInterval \<noteq> mi_samplingInterval m2 then start_sampling nd False m2 else m2)
             in case mp_filter p1 of
                  None \<Rightarrow> (m3, ModifyOk (mi_queueSize m3) (mi_samplingInterval m3))
                | Some f \<Rightarrow> (case validate f of
                      Some code \<Rightarrow> (m3, ModifyBadFilter code)
                    | None \<Rightarrow> (m3, ModifyOk (mi_queueSize m3) (mi_samplingInterval m3))))"

text \<open>\<open>readValue\<close> is what \<^verbatim>\<open>node.readAttribute\<close> returns.\<close>

definition resendInitialValue ::
    "'e item_node option \<Rightarrow> 'v data_value \<Rightarrow> int \<times> nat \<Rightarrow> ('v, 'r) monitored_item \<Rightarrow>
     ('v, 'r) monitored_item \<times> js_error option" where
  "resendInitialValue nd readValue now m =
     (if nd = None then (m, None)
      else if mi_queue m \<noteq> [] then (m, None)
      else enqueue_value now (case mi_oldDataValue m of Some v \<Rightarrow> v | None \<Rightarrow> readValue)
             (m\<lparr>mi_oldDataValue := None\<rparr>))"

section \<open>What the queue retains\<close>

text \<open>
  The notifications that can carry the overflow bit without tripping the assertion of
  \<^verbatim>\<open>_setOverflowBit\<close>, and the notification with the bit set.
\<close>

definition markable :: "'v queue_item \<Rightarrow> bool" where
  "markable n = (case n of DataItem h dv \<Rightarrow> isGood (dv_statusCode dv) | EventItem h f \<Rightarrow> True)"

definition marked :: "'v queue_item \<Rightarrow> 'v queue_item" where
  "marked n = (case n of
      DataItem h dv \<Rightarrow> DataItem h (dv\<lparr>dv_statusCode := GoodWithOverflowBit\<rparr>)
    | EventItem h f \<Rightarrow> n)"

lemma setOverflowBit_cases:
  "setOverflowBit n = (if markable n then Inr (marked n) else Inl AssertionError)"
proof (cases n)
  case (DataItem h dv)
  show ?thesis
  proof (cases "isGood (dv_statusCode dv)")
    case True
    then have "makeStatusCode (dv_statusCode dv) overflow_flags = GoodWithOverflowBit"
      by (intro good_with_overflow) (simp add: isGood_def)
    with True DataItem show ?thesis
      by (simp add: setOverflowBit_def markable_def marked_def sameStatusCode_def)
  next
    case False
    with DataItem show ?thesis by (simp add: setOverflowBit_def markable_def)
  qed
next
  case (EventItem h f)
  then show ?thesis by (simp add: setOverflowBit_def markable_def marked_def)
qed

definition retained :: "bool \<Rightarrow> nat \<Rightarrow> 'v queue_item list \<Rightarrow> 'v queue_item list" where
  "retained keepNewest q ns =
     (if length ns \<le> q then ns
      else if q = 1 then [last ns]
      else if keepNewest then marked (ns ! (length ns - q)) # drop (length ns - q + 1) ns
      else take (q - 1) ns @ [marked (last ns)])"

fun enqueue_all ::
    "'v queue_item list \<Rightarrow> ('v, 'r) monitored_item \<Rightarrow> ('v, 'r) monitored_item \<times> js_error option" where
  "enqueue_all [] m = (m, None)"
| "enqueue_all (n # ns) m =
     (case enqueue_notification n m of (m1, Some e) \<Rightarrow> (m1, Some e) | (m1, None) \<Rightarrow> enqueue_all ns m1)"

lemma enqueue_all_append:
  "enqueue_all (ns @ ms) m =
     (case enqueue_all ns m of (m1, Some e) \<Rightarrow> (m1, Some e) | (m1, None) \<Rightarrow> enqueue_all ms m1)"
  by (induction ns arbitrary: m) (auto split: prod.splits option.splits)

lemma retained_snoc_room: "length ns < q \<Longrightarrow> retained b q (ns @ [n]) = retained b q ns @ [n]"
  by (simp add: retained_def)

lemma length_retained: "q \<ge> 1 \<Longrightarrow> length (retained b q ns) = min (length ns) q"
  by (auto simp: retained_def min_def)

lemma retained_snoc_newest:
  assumes q: "q > 1" and full: "q \<le> length ns"
  shows "tl (retained True q ns @ [n]) = ns ! (length ns + 1 - q) # drop (length ns + 2 - q) ns @ [n]
    \<or> q = 1"
proof -
  have i: "length ns + 1 - q < length ns" and s: "Suc (length ns + 1 - q) = length ns + 2 - q"
    using q full by auto
  have t: "tl (retained True q ns) = drop (length ns + 1 - q) ns"
  proof (cases "length ns = q")
    case True
    then show ?thesis by (simp add: retained_def drop_Suc)
  next
    case False
    then show ?thesis using full q by (simp add: retained_def Suc_diff_le)
  qed
  have "retained True q ns \<noteq> []" using length_retained[of q True ns] q full by fastforce
  then have "tl (retained True q ns @ [n]) = tl (retained True q ns) @ [n]" by simp
  also have "\<dots> = ns ! (length ns + 1 - q) # drop (length ns + 2 - q) ns @ [n]"
    unfolding t using Cons_nth_drop_Suc[OF i] s by simp
  finally show ?thesis by simp
qed

text \<open>\<open>m'\<close> is \<open>m\<close> with the queue \<open>q\<close>, up to the overflow flag and the diagnostics counter.\<close>

definition requeued :: "('v, 'r) monitored_item \<Rightarrow> 'v queue_item list \<Rightarrow> ('v, 'r) monitored_item \<Rightarrow> bool" where
  "requeued m q m' \<longleftrightarrow>
     m' = m\<lparr>mi_queue := q, mi_overflow := mi_overflow m', mi_overflowCount := mi_overflowCount m'\<rparr>"

lemma requeuedI:
  "requeued m q (m\<lparr>mi_queue := q\<rparr>)"
  "requeued m q (m\<lparr>mi_queue := q, mi_overflow := b, mi_overflowCount := c\<rparr>)"
  by (simp_all add: requeued_def)

lemma requeuedD:
  assumes "requeued m q m'"
  shows "mi_queue m' = q" "mi_queueSize m' = mi_queueSize m" "mi_discardOldest m' = mi_discardOldest m"
  using arg_cong[OF assms[unfolded requeued_def], of mi_queue]
    arg_cong[OF assms[unfolded requeued_def], of mi_queueSize]
    arg_cong[OF assms[unfolded requeued_def], of mi_discardOldest] by simp_all

lemma requeued_trans:
  assumes "requeued m q m1" and "requeued m1 q' m2"
  shows "requeued m q' m2"
proof -
  obtain b c where "m1 = m\<lparr>mi_queue := q, mi_overflow := b, mi_overflowCount := c\<rparr>"
    using assms(1) unfolding requeued_def by blast
  moreover obtain b' c' where "m2 = m1\<lparr>mi_queue := q', mi_overflow := b', mi_overflowCount := c'\<rparr>"
    using assms(2) unfolding requeued_def by blast
  ultimately have "m2 = m\<lparr>mi_queue := q', mi_overflow := b', mi_overflowCount := c'\<rparr>" by simp
  then show ?thesis using requeuedI(2) by blast
qed

lemma enqueue_retained:
  assumes q: "mi_queueSize m \<ge> 1" and room: "mi_queue m = retained (mi_discardOldest m) (mi_queueSize m) ns"
    and good: "\<forall>x \<in> set (ns @ [n]). markable x"
  obtains m' where "enqueue_notification n m = (m', None)"
    and "requeued m (retained (mi_discardOldest m) (mi_queueSize m) (ns @ [n])) m'"
proof -
  let ?q = "mi_queueSize m"
  note len = length_retained[OF q, of "mi_discardOldest m" ns]
  consider (one) "?q = 1" | (fits) "?q > 1" "length ns < ?q"
    | (newest) "?q > 1" "?q \<le> length ns" "mi_discardOldest m"
    | (oldest) "?q > 1" "?q \<le> length ns" "\<not> mi_discardOldest m"
    using q by linarith
  then show thesis
  proof cases
    case one
    have r: "retained (mi_discardOldest m) ?q (ns @ [n]) = [n]" using one by (simp add: retained_def)
    have "enqueue_notification n m = (m\<lparr>mi_queue := [n]\<rparr>, None)"
      using one by (simp add: enqueue_notification_def)
    then show thesis using that requeuedI(1) r by metis
  next
    case fits
    then have "length (mi_queue m) < ?q" using len room by simp
    then have "enqueue_notification n m = (m\<lparr>mi_queue := mi_queue m @ [n]\<rparr>, None)"
      using fits by (simp add: enqueue_notification_def)
    then show thesis
      using that requeuedI(1) retained_snoc_room[OF fits(2)] room by metis
  next
    case newest
    have l: "length (mi_queue m) = ?q" using len room newest by simp
    have t: "tl (mi_queue m @ [n]) = ns ! (length ns + 1 - ?q) # drop (length ns + 2 - ?q) ns @ [n]"
      using retained_snoc_newest[OF newest(1,2), of n] room newest by auto
    have "length ns + 1 - ?q < length ns" using newest by simp
    then have mk: "markable (ns ! (length ns + 1 - ?q))" using good by auto
    have r: "retained (mi_discardOldest m) ?q (ns @ [n]) =
        marked (ns ! (length ns + 1 - ?q)) # drop (length ns + 2 - ?q) ns @ [n]"
    proof -
      have "Suc (length ns - ?q) < length ns" using newest by linarith
      then show ?thesis using newest by (simp add: retained_def nth_append Suc_diff_le)
    qed
    have "enqueue_notification n m =
        (m\<lparr>mi_queue := marked (ns ! (length ns + 1 - ?q)) # drop (length ns + 2 - ?q) ns @ [n],
           mi_overflow := True, mi_overflowCount := mi_overflowCount m + 1\<rparr>, None)"
      using newest l mk unfolding enqueue_notification_def Let_def t setOverflowBit_cases by simp
    then show thesis using that requeuedI(2) r by metis
  next
    case oldest
    have l: "length (mi_queue m) = ?q" using len room oldest by simp
    have mk: "markable n" using good by simp
    have "butlast (mi_queue m) = take (?q - 1) ns"
      using oldest room by (cases "length ns = ?q") (auto simp: retained_def butlast_conv_take)
    then have r: "retained (mi_discardOldest m) ?q (ns @ [n]) = butlast (mi_queue m) @ [marked n]"
      using oldest by (simp add: retained_def)
    have "enqueue_notification n m = (m\<lparr>mi_queue := butlast (mi_queue m) @ [marked n],
        mi_overflow := True, mi_overflowCount := mi_overflowCount m + 1\<rparr>, None)"
      using oldest l mk unfolding enqueue_notification_def Let_def setOverflowBit_cases by simp
    then show thesis using that requeuedI(2) r by metis
  qed
qed

text \<open>An empty notification queue of size \<open>q\<close> that receives the notifications \<open>ns\<close>, all with a
  Good status, holds exactly what the discard policy promises and nothing throws: everything when it
  fits, the newest one for a queue of one, the \<open>q\<close> newest with the overflow bit on the oldest of them
  when the oldest are discarded, and otherwise the \<open>q - 1\<close> first and the newest, which carries the bit.\<close>

theorem queue_retains:
  assumes "mi_queue m = []" and "1 \<le> mi_queueSize m" and "\<forall>n \<in> set ns. markable n"
  shows "snd (enqueue_all ns m) = None \<and>
    mi_queue (fst (enqueue_all ns m)) = retained (mi_discardOldest m) (mi_queueSize m) ns"
proof -
  have "\<exists>m'. enqueue_all ns m = (m', None) \<and>
      requeued m (retained (mi_discardOldest m) (mi_queueSize m) ns) m'"
    using assms(3)
  proof (induction ns rule: rev_induct)
    case Nil
    have "requeued m [] m" using assms(1) by (simp add: requeued_def)
    then show ?case by (simp add: retained_def)
  next
    case (snoc n ns)
    then obtain m1 where e: "enqueue_all ns m = (m1, None)"
      and r: "requeued m (retained (mi_discardOldest m) (mi_queueSize m) ns) m1" by auto
    obtain m2 where e2: "enqueue_notification n m1 = (m2, None)"
      and r2: "requeued m1 (retained (mi_discardOldest m) (mi_queueSize m) (ns @ [n])) m2"
      using enqueue_retained[of m1 ns n] requeuedD[OF r] assms(2) snoc.prems by auto
    show ?case
      using requeued_trans[OF r r2] by (simp add: enqueue_all_append e e2)
  qed
  then show ?thesis using requeuedD(1) by fastforce
qed

text \<open>An item with room for two notifications, for the witnesses.\<close>

definition example_item :: "bool \<Rightarrow> (int, unit) monitored_item" where
  "example_item keepNewest =
     \<lparr>mi_monitoredItemId = 7, mi_clientHandle = 1, mi_samplingInterval = 100, mi_monitoringMode = MmReporting,
      mi_timestampsToReturn = TsNeither, mi_itemToMonitor = True, mi_attributeId = attribute_Value,
      mi_indexRange = None, mi_filter = None, mi_discardOldest = keepNewest, mi_queueSize = 2, mi_queue = [],
      mi_overflow = False, mi_oldDataValue = None, mi_semantic_version = 0, mi_linkedItems = None,
      mi_triggered = None, mi_overflowCount = 0, mi_start = None\<rparr>"

definition example_value :: "int \<Rightarrow> status_code \<Rightarrow> int data_value" where
  "example_value x sc = \<lparr>dv_value = x, dv_statusCode = sc, dv_sourceTimestamp = None, dv_sourcePicoseconds = 0,
     dv_serverTimestamp = None, dv_serverPicoseconds = 0\<rparr>"

theorem queue_retains_witness:
  "mi_queue (fst (enqueue_all (map (\<lambda>x. DataItem 1 (example_value x Good)) [1, 2, 3]) (example_item True))) =
     [DataItem 1 (example_value 2 GoodWithOverflowBit), DataItem 1 (example_value 3 Good)]"
  using queue_retains[of "example_item True" "map (\<lambda>x. DataItem 1 (example_value x Good)) [1, 2, 3]"]
  by (simp add: example_item_def retained_def markable_def isGood_def marked_def example_value_def)

lemma enqueue_full:
  assumes "1 < mi_queueSize m" and "length (mi_queue m) = mi_queueSize m"
  shows "mi_discardOldest m \<Longrightarrow> enqueue_notification n m =
      (if markable (mi_queue m ! 1)
       then (m\<lparr>mi_queue := marked (mi_queue m ! 1) # drop 2 (mi_queue m) @ [n], mi_overflow := True,
               mi_overflowCount := mi_overflowCount m + 1\<rparr>, None)
       else (m\<lparr>mi_queue := tl (mi_queue m) @ [n], mi_overflow := True\<rparr>, Some AssertionError))"
    and "\<not> mi_discardOldest m \<Longrightarrow> enqueue_notification n m =
      (if markable n
       then (m\<lparr>mi_queue := butlast (mi_queue m) @ [marked n], mi_overflow := True,
               mi_overflowCount := mi_overflowCount m + 1\<rparr>, None)
       else (m\<lparr>mi_overflow := True\<rparr>, Some AssertionError))"
proof -
  obtain a b q where q: "mi_queue m = a # b # q"
    using assms by (cases "mi_queue m" rule: list.exhaust; cases "tl (mi_queue m)") auto
  show "mi_discardOldest m \<Longrightarrow> enqueue_notification n m =
      (if markable (mi_queue m ! 1)
       then (m\<lparr>mi_queue := marked (mi_queue m ! 1) # drop 2 (mi_queue m) @ [n], mi_overflow := True,
               mi_overflowCount := mi_overflowCount m + 1\<rparr>, None)
       else (m\<lparr>mi_queue := tl (mi_queue m) @ [n], mi_overflow := True\<rparr>, Some AssertionError))"
    using assms by (simp add: q enqueue_notification_def setOverflowBit_cases Let_def)
  show "\<not> mi_discardOldest m \<Longrightarrow> enqueue_notification n m =
      (if markable n
       then (m\<lparr>mi_queue := butlast (mi_queue m) @ [marked n], mi_overflow := True,
               mi_overflowCount := mi_overflowCount m + 1\<rparr>, None)
       else (m\<lparr>mi_overflow := True\<rparr>, Some AssertionError))"
    using assms by (simp add: enqueue_notification_def setOverflowBit_cases Let_def)
qed

text \<open>C21: Recording on a full queue of more than one throws exactly when the notification due to carry the overflow
  bit (the oldest one left, or the new one when the newest are discarded) is a data value whose status is not Good.
  When it does not throw, that notification gets the bit, the oldest (or the newest) of the queue has made room for the
  new one, and the overflow is counted. When it throws, no status of the queue is changed and the overflow is not
  counted: the oldest has been dropped and the new one stored, or, when the newest are discarded, the queue stays as
  it was and the new one is lost.\<close>

theorem overflow_throws_iff:
  assumes "1 < mi_queueSize m" and "length (mi_queue m) = mi_queueSize m"
  shows "let (m', thrown) = enqueue_notification n m in
    if markable (if mi_discardOldest m then mi_queue m ! 1 else n)
    then thrown = None \<and> mi_overflowCount m' = mi_overflowCount m + 1 \<and>
      mi_queue m' =
        (if mi_discardOldest m then marked (mi_queue m ! 1) # drop 2 (mi_queue m) @ [n]
         else butlast (mi_queue m) @ [marked n])
    else thrown = Some AssertionError \<and> mi_overflowCount m' = mi_overflowCount m \<and>
      mi_queue m' = (if mi_discardOldest m then tl (mi_queue m) @ [n] else mi_queue m)"
  using enqueue_full [OF assms, of n] by (cases "mi_discardOldest m") simp_all

theorem overflow_throws_iff_witness:
  "snd (enqueue_notification (DataItem 1 (example_value 3 BadDataUnavailable))
     ((example_item False)\<lparr>mi_queue := map (\<lambda>x. DataItem 1 (example_value x Good)) [1, 2]\<rparr>)) = Some AssertionError \<and>
   mi_queue (fst (enqueue_notification (DataItem 1 (example_value 3 Good))
     ((example_item False)\<lparr>mi_queue := map (\<lambda>x. DataItem 1 (example_value x Good)) [1, 2]\<rparr>))) =
     [DataItem 1 (example_value 1 Good), DataItem 1 (example_value 3 GoodWithOverflowBit)]"
proof -
  let ?m = "(example_item False)\<lparr>mi_queue := map (\<lambda>x. DataItem 1 (example_value x Good)) [1, 2]\<rparr>"
  let ?bad = "DataItem 1 (example_value 3 BadDataUnavailable)"
  let ?good = "DataItem 1 (example_value 3 Good)"
  have "\<not> markable ?bad" "markable ?good"
    by (simp_all add: markable_def isGood_def example_value_def BadDataUnavailable_def Good_def constant_status_def sc_value_def)
  with overflow_throws_iff [of ?m ?bad] overflow_throws_iff [of ?m ?good] show ?thesis
    by (simp add: example_item_def split_beta marked_def example_value_def)
qed

section \<open>The queue stays bounded\<close>

definition item_ok :: "('v, 'r) monitored_item \<Rightarrow> bool" where
  "item_ok m \<longleftrightarrow> 1 \<le> mi_queueSize m \<and> mi_queueSize m \<le> maxQueueSize \<and> length (mi_queue m) \<le> mi_queueSize m"

inductive item_step :: "('v, 'r, 'e) value_ops \<Rightarrow> 'v \<Rightarrow> ('v, 'r) monitored_item \<Rightarrow> ('v, 'r) monitored_item \<Rightarrow> bool"
  for ops nullVariant where
  Record: "item_step ops nullVariant m (fst (recordValue ops nullVariant nd now dv skip r m))"
| Event: "item_step ops nullVariant m (fst (enqueue_event fs m))"
| Extract: "item_step ops nullVariant m (snd (extractMonitoredItemNotifications (nd :: 'e item_node option) f m))"
| Trigger: "item_step ops nullVariant m (run_trigger (nd :: 'e item_node option) m)"
| Set_mode: "item_step ops nullVariant m (fst (setMonitoringMode (nd :: 'e item_node option) mode m))"
| Modify: "item_step ops nullVariant m (fst (mi_modify (nd :: 'e item_node option) validate ts p m))"
| Resend: "item_step ops nullVariant m (fst (resendInitialValue (nd :: 'e item_node option) v now m))"
| Add_link: "item_step ops nullVariant m (fst (addLinkItem i m))"
| Remove_link: "item_step ops nullVariant m (fst (removeLinkItem i m))"
| Set_node: "item_step ops nullVariant m (setNode (n :: 'e item_node) m)"

lemma item_ok_cong:
  "mi_queueSize m' = mi_queueSize m \<Longrightarrow> mi_queue m' = mi_queue m \<Longrightarrow> item_ok m \<Longrightarrow> item_ok m'"
  by (simp add: item_ok_def)

lemma enqueue_notification_ok: "item_ok m \<Longrightarrow> item_ok (fst (enqueue_notification n m))"
  by (auto simp: item_ok_def enqueue_notification_def Let_def setOverflowBit_cases maxQueueSize_def split: if_splits)

lemma enqueue_value_ok: "item_ok m \<Longrightarrow> item_ok (fst (enqueue_value now dv m))"
  unfolding enqueue_value_def by (intro enqueue_notification_ok) (simp add: item_ok_def)

lemma recordValue_ok:
  assumes "item_ok m"
  shows "item_ok (fst (recordValue ops nullVariant nd now dv skip r m))"
proof -
  have sem: "item_ok (m\<lparr>mi_semantic_version := v\<rparr>)" for v using assms by (simp add: item_ok_def)
  show ?thesis
    using assms enqueue_value_ok[OF assms] enqueue_value_ok[OF sem]
    unfolding recordValue_def Let_def outcome_of_def
    by (auto split: sum.splits bool.splits)
qed

lemma extract_ok: "item_ok m \<Longrightarrow> item_ok (snd (extractMonitoredItemNotifications nd f m))"
  by (auto simp: extractMonitoredItemNotifications_def item_ok_def empty_queue_def Let_def split: option.split)

lemma start_sampling_ok: "item_ok m \<Longrightarrow> item_ok (start_sampling nd b m)"
  by (simp add: start_sampling_def item_ok_def split: option.split)

lemma adjust_queue_size_bounds: "1 \<le> adjust_queue_size q \<and> adjust_queue_size q \<le> maxQueueSize"
  by (auto simp: adjust_queue_size_def maxQueueSize_def)

lemma set_parameters_queue:
  "set_parameters nd p m = (m', e) \<Longrightarrow> mi_queue m' = mi_queue m"
  by (auto simp: set_parameters_def Let_def split: sum.splits if_splits)

lemma set_parameters_size:
  "set_parameters nd p m = (m', None) \<Longrightarrow> mi_queueSize m' = adjust_queue_size (mp_queueSize p)"
  "set_parameters nd p m = (m', Some e) \<Longrightarrow> mi_queueSize m' = mi_queueSize m"
  by (auto simp: set_parameters_def Let_def split: sum.splits if_splits)

lemma adjust_queue_ok:
  assumes "1 \<le> mi_queueSize m" "mi_queueSize m \<le> maxQueueSize"
  shows "item_ok (adjust_queue_to_match_new_queue_size m)"
  using assms by (auto simp: adjust_queue_to_match_new_queue_size_def Let_def item_ok_def)

lemma mi_modify_ok:
  assumes "item_ok m"
  shows "item_ok (fst (mi_modify nd validate ts p m))"
proof -
  define m0 where "m0 = (case ts of None \<Rightarrow> m | Some t \<Rightarrow> m\<lparr>mi_timestampsToReturn := t\<rparr>)"
  define p1 where "p1 = (if mi_samplingInterval m \<noteq> 0 \<and> mp_samplingInterval p = 0
                then p\<lparr>mp_samplingInterval := minimumSamplingInterval\<rparr> else p)"
  have m0: "item_ok m0" using assms by (simp add: m0_def item_ok_def split: option.split)
  obtain m1 e where s: "set_parameters nd p1 m0 = (m1, e)" by (cases "set_parameters nd p1 m0")
  show ?thesis
  proof (cases e)
    case (Some x)
    then have "item_ok m1"
      using m0 set_parameters_queue[OF s] set_parameters_size(2)[of nd p1 m0 m1 x] s
      by (intro item_ok_cong[OF _ _ m0]) simp_all
    then show ?thesis using s Some by (simp add: mi_modify_def Let_def m0_def[symmetric] p1_def[symmetric])
  next
    case None
    then have "item_ok (adjust_queue_to_match_new_queue_size m1)"
      using set_parameters_size(1)[of nd p1 m0 m1] s adjust_queue_size_bounds by (intro adjust_queue_ok) auto
    then show ?thesis
      using s None
      by (simp add: start_sampling_ok mi_modify_def Let_def m0_def[symmetric] p1_def[symmetric] split: option.split)
  qed
qed

lemma item_step_ok:
  assumes "item_step ops nullVariant m m'" and "item_ok m"
  shows "item_ok m'"
  using assms
proof (cases rule: item_step.cases)
  case (Record nd now dv skip r) then show ?thesis using assms(2) by (simp add: recordValue_ok)
next
  case (Event fs) then show ?thesis using assms enqueue_notification_ok by (simp add: enqueue_event_def)
next
  case (Extract nd f) then show ?thesis using assms(2) by (simp add: extract_ok)
next
  case (Trigger nd)
  then show ?thesis using assms extract_ok[OF assms(2), of nd True]
    by (auto simp: run_trigger_def Let_def item_ok_def split: prod.splits)
next
  case (Set_mode nd mode)
  then show ?thesis using assms
    by (auto simp: setMonitoringMode_def start_sampling_def empty_queue_def item_ok_def Let_def split: option.split)
next
  case (Modify nd validate ts p) then show ?thesis using assms(2) by (simp add: mi_modify_ok)
next
  case (Resend nd v now)
  then show ?thesis
    using assms enqueue_value_ok[of "m\<lparr>mi_oldDataValue := None\<rparr>"] by (auto simp: resendInitialValue_def item_ok_def)
next
  case (Add_link i) then show ?thesis using assms by (auto simp: addLinkItem_def item_ok_def Let_def split: option.split)
next
  case (Remove_link i) then show ?thesis using assms by (auto simp: removeLinkItem_def item_ok_def split: option.split)
next
  case (Set_node n) then show ?thesis using assms by (simp add: setNode_def item_ok_def)
qed

lemma new_monitored_item_ok:
  assumes "new_monitored_item itemId attr r ts p = Inr m"
  shows "item_ok m"
proof -
  define z :: "('a, 'b) monitored_item" where "z =
      \<lparr>mi_monitoredItemId = itemId, mi_clientHandle = 0, mi_samplingInterval = -1,
       mi_monitoringMode = MmInvalid, mi_timestampsToReturn = ts, mi_itemToMonitor = True,
       mi_attributeId = attr, mi_indexRange = r, mi_filter = None, mi_discardOldest = True,
       mi_queueSize = 0, mi_queue = [], mi_overflow = False, mi_oldDataValue = None,
       mi_semantic_version = 0, mi_linkedItems = None, mi_triggered = None,
       mi_overflowCount = 0, mi_start = None\<rparr>"
  have q: "mi_queue z = []" by (simp add: z_def)
  have s: "set_parameters (None :: unit item_node option) p z = (m, None)"
    using assms unfolding new_monitored_item_def z_def[symmetric] by (auto split: prod.splits option.splits)
  show ?thesis
    using q set_parameters_queue[OF s] set_parameters_size(1)[OF s] adjust_queue_size_bounds
    by (simp add: item_ok_def)
qed

text \<open>Whatever is recorded, extracted, triggered, modified or resent, and whether or not it throws,
  the notification queue of a monitored item never holds more than its revised queue size, which stays
  between 1 and 5000.\<close>

theorem queue_bounded:
  assumes "new_monitored_item itemId attr r ts p = Inr m0" and "(item_step ops nullVariant)\<^sup>*\<^sup>* m0 m"
  shows "length (mi_queue m) \<le> mi_queueSize m \<and> 1 \<le> mi_queueSize m \<and> mi_queueSize m \<le> maxQueueSize"
proof -
  from assms(2) have "item_ok m"
  proof (induction rule: rtranclp_induct)
    case base
    show ?case by (rule new_monitored_item_ok[OF assms(1)])
  next
    case (step y z)
    show ?case by (rule item_step_ok[OF step.hyps(2) step.IH])
  qed
  then show ?thesis by (simp add: item_ok_def)
qed

definition example_request :: monitoring_parameters where
  "example_request = \<lparr>mp_clientHandle = 1, mp_samplingInterval = 100, mp_discardOldest = True,
     mp_queueSize = 9000, mp_filter = None\<rparr>"

theorem queue_bounded_witness:
  "\<exists>m0 :: (int, unit) monitored_item. new_monitored_item 7 13 None TsNeither example_request = Inr m0 \<and>
     length (mi_queue (fst (enqueue_event [4] m0))) \<le> mi_queueSize (fst (enqueue_event [4] m0))"
proof -
  obtain m0 :: "(int, unit) monitored_item" where
    m0: "new_monitored_item 7 13 None TsNeither example_request = Inr m0"
    by (simp add: new_monitored_item_def set_parameters_def adjust_sampling_interval_def example_request_def Let_def)
  define m1 where "m1 = fst (enqueue_event [4] m0)"
  have "(item_step ops (0 :: int))\<^sup>*\<^sup>* m0 m1" for ops :: "(int, unit, unit) value_ops"
    unfolding m1_def by (rule r_into_rtranclp, rule item_step.Event)
  then have "length (mi_queue m1) \<le> mi_queueSize m1" using queue_bounded[OF m0] by blast
  then show ?thesis using m0 unfolding m1_def by blast
qed

section \<open>The timestamp trigger\<close>

text \<open>With a DataChangeFilter whose trigger is StatusValueTimestamp every sample that differs from the
  last recorded one in value, status or source timestamp is recorded, whatever deadband the filter asks
  for: the deadband is never consulted.\<close>

theorem timestamp_trigger_ignores_deadband:
  assumes "mi_itemToMonitor m" and "mi_indexRange m = None" and "nd_semantic_version n = mi_semantic_version m"
    and "mi_filter m = Some (DataChangeFilter TriggerStatusValueTimestamp d)"
    and "mi_oldDataValue m = Some old" and "\<not> sameDataValue (vo_same ops) (vo_extract ops dv None) old None"
  shows "recordValue ops nullVariant (Some n) now dv False None m =
    outcome_of True (enqueue_value now (vo_extract ops dv None) m)"
proof -
  have "timestampHasChanged t1 t2" for t1 t2 by (auto simp: timestampHasChanged_def)
  then have "apply_filter ops (nd_euRange n) (vo_extract ops dv None) m = Inr True"
    using assms by (simp add: apply_filter_def apply_dataChange_filter_def)
  then show ?thesis using assms by (simp add: recordValue_def)
qed

definition plain_ops :: "(int, unit, unit) value_ops" where
  "plain_ops = \<lparr>vo_same = (=), vo_extract = (\<lambda>dv _. dv), vo_overlap = (\<lambda>_ _. True), vo_isEmpty = (\<lambda>_. True),
     vo_outsideNone = (\<noteq>), vo_outsideAbsolute = (\<lambda>a b d. of_int \<bar>a - b\<bar> > d),
     vo_outsidePercent = (\<lambda>_ _ _ _. True)\<rparr>"

theorem timestamp_trigger_ignores_deadband_witness:
  "snd (recordValue plain_ops 0 (Some \<lparr>nd_semantic_version = 0, nd_euRange = None, nd_minimumSamplingInterval = 0,
       nd_is_variable = True\<rparr>) (0, 0) (example_value 11 Good) False None
     ((example_item True)\<lparr>mi_filter := Some (DataChangeFilter TriggerStatusValueTimestamp (DeadbandAbsolute 50)),
        mi_oldDataValue := Some (example_value 10 Good)\<rparr>)) = Recorded True"
  by (subst timestamp_trigger_ignores_deadband[where d = "DeadbandAbsolute 50" and old = "example_value 10 Good"])
    (simp_all add: example_item_def plain_ops_def example_value_def sameDataValue_def outcome_of_def enqueue_value_def
      enqueue_notification_def makeDataChangeNotification_def Let_def)

text \<open>
  Two more behaviours of the code: the first link of an item is not seen by \<^verbatim>\<open>hasLinkItem\<close>, so it
  can be added twice, and a negative sampling interval other than -1 makes \<^verbatim>\<open>modify\<close> throw.
\<close>

lemma first_link_added_twice:
  assumes "mi_linkedItems m = None" and "i \<noteq> mi_monitoredItemId m"
  shows "mi_linkedItems (fst (addLinkItem i (fst (addLinkItem i m)))) = Some [i, i]"
  using assms by (simp add: addLinkItem_def hasLinkItem_def findIndex_def Let_def)

lemma modify_negative_interval:
  assumes "mp_samplingInterval p < 0"
  shows "snd (mi_modify nd validate ts p m) = ModifyThrew AssertionError"
  using assms
  by (simp add: mi_modify_def set_parameters_def adjust_sampling_interval_def Let_def split: option.split)

end
