(* ===== verification/Notification_Queue.thy ===== *)
theory Notification_Queue
  imports Prelude
begin

text \<open>
  \<^verbatim>\<open>Queue\<close> of \<^verbatim>\<open>node-opcua-server/source/queue.ts\<close>: a counter over a doubly linked
  list (the \<^verbatim>\<open>dequeue\<close> package; its \<^verbatim>\<open>push\<close>, \<^verbatim>\<open>shift\<close>, \<^verbatim>\<open>first\<close> and node removal
  are list operations). What the subscription relies on is the contract \<open>fifo\<close>; the code's queue
  provides it as long as the counter agrees with the list, which every operation but \<^verbatim>\<open>clear\<close>
  keeps.
\<close>

record 'a queue =
  q_size :: nat
  q_items :: "'a list"

definition new_queue :: "'a queue" where
  "new_queue = \<lparr>q_size = 0, q_items = []\<rparr>"

definition queue_clear :: "'a queue \<Rightarrow> 'a queue" where
  "queue_clear q = q\<lparr>q_size := 0\<rparr>"

definition queue_first :: "'a queue \<Rightarrow> 'a option" where
  "queue_first q = (if q_size q = 0 then None
     else case q_items q of [] \<Rightarrow> None | x # _ \<Rightarrow> Some x)"

definition queue_shift :: "'a queue \<Rightarrow> 'a option \<times> 'a queue" where
  "queue_shift q = (if q_size q = 0 then (None, q)
     else case q_items q of
       [] \<Rightarrow> (None, q\<lparr>q_size := q_size q - 1\<rparr>)
     | x # xs \<Rightarrow> (Some x, q\<lparr>q_size := q_size q - 1, q_items := xs\<rparr>))"

definition queue_push :: "'a \<Rightarrow> 'a queue \<Rightarrow> 'a queue" where
  "queue_push x q = q\<lparr>q_size := q_size q + 1, q_items := q_items q @ [x]\<rparr>"

text \<open>\<^verbatim>\<open>filterOut\<close> removes node after node and counts the removals.\<close>

definition queue_filterOut :: "('a \<Rightarrow> bool) \<Rightarrow> 'a queue \<Rightarrow> nat \<times> 'a queue" where
  "queue_filterOut p q =
     (let removed = length (filter p (q_items q))
      in (removed, q\<lparr>q_size := q_size q - removed, q_items := filter (\<lambda>x. \<not> p x) (q_items q)\<rparr>))"

definition queue_values :: "'a queue \<Rightarrow> 'a list" where
  "queue_values q = q_items q"

definition queue_ok :: "'a queue \<Rightarrow> bool" where
  "queue_ok q \<longleftrightarrow> q_size q = length (q_items q)"

section \<open>The contract\<close>

locale fifo =
  fixes view :: "'q \<Rightarrow> 'a list" and ok :: "'q \<Rightarrow> bool" and empty :: 'q
    and push :: "'a \<Rightarrow> 'q \<Rightarrow> 'q" and shift :: "'q \<Rightarrow> 'a option \<times> 'q" and first :: "'q \<Rightarrow> 'a option"
    and filterOut :: "('a \<Rightarrow> bool) \<Rightarrow> 'q \<Rightarrow> nat \<times> 'q" and count :: "'q \<Rightarrow> nat"
  assumes empty_ok: "ok empty" and empty_view: "view empty = []"
    and push_ok: "ok q \<Longrightarrow> ok (push x q)" and push_view: "ok q \<Longrightarrow> view (push x q) = view q @ [x]"
    and shift_ok: "ok q \<Longrightarrow> ok (snd (shift q))" and shift_view: "ok q \<Longrightarrow> view (snd (shift q)) = tl (view q)"
    and shift_first: "ok q \<Longrightarrow> fst (shift q) = first q"
    and first_view: "ok q \<Longrightarrow> first q = (case view q of [] \<Rightarrow> None | x # _ \<Rightarrow> Some x)"
    and filterOut_ok: "ok q \<Longrightarrow> ok (snd (filterOut p q))"
    and filterOut_view: "ok q \<Longrightarrow> view (snd (filterOut p q)) = filter (\<lambda>x. \<not> p x) (view q)"
    and count_view: "ok q \<Longrightarrow> count q = length (view q)"
begin

lemma push_all_view:
  assumes "ok q"
  shows "ok (fold push xs q) \<and> view (fold push xs q) = view q @ xs"
  using assms
proof (induction xs arbitrary: q)
  case (Cons x xs)
  from Cons.IH[OF push_ok[OF Cons.prems], of x] push_view[OF Cons.prems] show ?case by simp
qed simp

lemma not_empty_first:
  assumes "ok q" and "count q > 0"
  obtains x where "first q = Some x" and "view q = x # view (snd (shift q))"
  using assms count_view first_view shift_view by (cases "view q") auto

end

lemma length_filter_not: "length (filter (\<lambda>x. \<not> p x) xs) = length xs - length (filter p xs)"
  using sum_length_filter_compl[of p xs] by linarith

interpretation nq: fifo queue_values queue_ok new_queue queue_push queue_shift queue_first queue_filterOut q_size
  by unfold_locales
    (auto simp: queue_values_def queue_ok_def new_queue_def queue_push_def queue_shift_def queue_first_def
      queue_filterOut_def Let_def length_filter_not split: list.split)

text \<open>\<^verbatim>\<open>clear\<close> only resets the counter: what was in the list comes out again after the next push.\<close>

lemma clear_keeps_elements:
  "fst (queue_shift (queue_push y (queue_clear (queue_push x new_queue)))) = Some x"
  by (simp add: queue_shift_def queue_push_def queue_clear_def new_queue_def)

end
