(* ===== verification/Subscription.thy ===== *)
theory Subscription
  imports Monitored_Item Notification_Queue Sequence_Numbers
begin

text \<open>
  The server's \<^verbatim>\<open>Subscription\<close> (\<^verbatim>\<open>node-opcua-server/source/server_subscription.ts\<close>): its
  state, the revision of its parameters, its counters, its queue of pending notifications and its
  retransmission queue, and what it does with its monitored items. The operations that also
  act on the publish engine (publishing, keep-alive, the tick, termination, transfer) are in the theory
  of the engine. Intervals are rationals (milliseconds), counters natural numbers; \<open>nodes\<close> gives
  the node of each monitored item. Monitored items are kept in the order of their ids, the order in
  which \<^verbatim>\<open>Object.keys\<close> and \<^verbatim>\<open>Object.values\<close> enumerate integer keys.
\<close>

section \<open>State\<close>

datatype subscription_state = SsClosed | SsCreating | SsNormal | SsLate | SsKeepAlive | SsTerminated

datatype 'v notification =
    ItemNotification "'v queue_item"
  | StatusChange status_code

record 'v internal_notification =
  in_monitoredItemId :: "nat option"
  in_notification :: "'v notification"
  in_start_tick :: nat

datatype 'v notification_data =
    DataChangeNotification "'v queue_item list"
  | EventNotificationList "'v queue_item list"
  | StatusChangeNotification status_code

record 'v notification_message =
  nm_sequenceNumber :: nat
  nm_notificationData :: "'v notification_data list"

record subscription_diagnostics =
  sd_modifyCount :: nat
  sd_enableCount :: nat
  sd_disableCount :: nat
  sd_publishRequestCount :: nat
  sd_dataChangeNotificationsCount :: nat
  sd_eventNotificationsCount :: nat
  sd_notificationsCount :: nat
  sd_unacknowledgedMessageCount :: int

record ('v, 'r) subscription =
  sub_id :: nat
  sub_priority :: nat
  sub_publishingInterval :: rat
  sub_maxKeepAliveCount :: nat
  sub_lifeTimeCount :: nat
  sub_maxNotificationsPerPublish :: nat
  sub_publishingEnabled :: bool
  sub_state :: subscription_state
  sub_messageSent :: bool
  sub_life_time_counter :: nat
  sub_keep_alive_counter :: nat
  sub_publishIntervalCount :: nat
  sub_pending :: "'v internal_notification queue"
  sub_sent :: "'v notification_message list"
  sub_items :: "(nat \<times> ('v, 'r) monitored_item) list"
  sub_hasUncollected :: bool
  sub_timer :: bool
  sub_diagnostics :: subscription_diagnostics

definition bad_timeout :: status_code where "bad_timeout = constant_status 0x800A0000"
definition good_subscription_transferred :: status_code where
  "good_subscription_transferred = constant_status 0x002D0000"

section \<open>Revision of the parameters\<close>

definition minimumPublishingInterval :: rat where "minimumPublishingInterval = 50"
definition defaultPublishingInterval :: rat where "defaultPublishingInterval = 1000"
definition maximumPublishingInterval :: rat where "maximumPublishingInterval = 1000 * 60"
definition maxNotificationPerPublishHighLimit :: nat where "maxNotificationPerPublishHighLimit = 1000"
definition minimumLifetimeDuration :: rat where "minimumLifetimeDuration = 5 * 1000"
definition maximumLifetimeDuration :: rat where "maximumLifetimeDuration = 60 * 60 * 1000"
definition minimumMaxKeepAliveCount :: nat where "minimumMaxKeepAliveCount = 2"
definition maximumMaxKeepAliveCount :: nat where "maximumMaxKeepAliveCount = 12000"
definition MaxUint32 :: nat where "MaxUint32 = 0xffffffff"
definition maxNotificationMessagesInQueue :: nat where "maxNotificationMessagesInQueue = 100"

text \<open>\<open>None\<close> is \<^verbatim>\<open>undefined\<close> or \<^verbatim>\<open>NaN\<close>.\<close>

definition adjust_publishing_interval :: "rat option \<Rightarrow> rat" where
  "adjust_publishing_interval publishingInterval =
     (let p = (case publishingInterval of None \<Rightarrow> defaultPublishingInterval | Some p \<Rightarrow> p)
      in min (max p minimumPublishingInterval) maximumPublishingInterval)"

definition adjust_maxKeepAliveCount :: "nat option \<Rightarrow> nat" where
  "adjust_maxKeepAliveCount maxKeepAliveCount =
     (let n = (case maxKeepAliveCount of None \<Rightarrow> minimumMaxKeepAliveCount
               | Some n \<Rightarrow> if n = 0 then minimumMaxKeepAliveCount else n)
      in min (max n minimumMaxKeepAliveCount) maximumMaxKeepAliveCount)"

definition adjust_lifeTimeCount :: "nat \<Rightarrow> nat \<Rightarrow> rat \<Rightarrow> nat" where
  "adjust_lifeTimeCount lifeTimeCount maxKeepAliveCount publishingInterval =
     (let n = (if lifeTimeCount = 0 then 1 else lifeTimeCount);
          minTicks = nat \<lceil>minimumLifetimeDuration / publishingInterval\<rceil>;
          maxTicks = nat \<lfloor>maximumLifetimeDuration / publishingInterval\<rfloor>;
          n = min maxTicks (max minTicks n)
      in max n (min (maxKeepAliveCount * 3) MaxUint32))"

definition adjust_publishingEnable :: "bool option \<Rightarrow> bool" where
  "adjust_publishingEnable publishingEnabled = (case publishingEnabled of None \<Rightarrow> True | Some b \<Rightarrow> b)"

text \<open>The requested value is a number; \<open>None\<close> is \<^verbatim>\<open>undefined\<close>.\<close>

definition adjust_maxNotificationsPerPublish :: "int option \<Rightarrow> nat" where
  "adjust_maxNotificationsPerPublish maxNotificationsPerPublish =
     (let n = (case maxNotificationsPerPublish of None \<Rightarrow> 0 | Some n \<Rightarrow> if n \<ge> 0 then n else 0)
      in if n = 0 then maxNotificationPerPublishHighLimit
         else min maxNotificationPerPublishHighLimit (nat n))"

section \<open>Counters and timer\<close>

definition resetKeepAliveCounter :: "('v, 'r) subscription \<Rightarrow> ('v, 'r) subscription" where
  "resetKeepAliveCounter s = s\<lparr>sub_keep_alive_counter := 0\<rparr>"

definition increaseKeepAliveCounter :: "('v, 'r) subscription \<Rightarrow> ('v, 'r) subscription" where
  "increaseKeepAliveCounter s = s\<lparr>sub_keep_alive_counter := sub_keep_alive_counter s + 1\<rparr>"

definition resetLifeTimeCounter :: "('v, 'r) subscription \<Rightarrow> ('v, 'r) subscription" where
  "resetLifeTimeCounter s = s\<lparr>sub_life_time_counter := 0\<rparr>"

definition increaseLifeTimeCounter :: "('v, 'r) subscription \<Rightarrow> ('v, 'r) subscription" where
  "increaseLifeTimeCounter s = s\<lparr>sub_life_time_counter := sub_life_time_counter s + 1\<rparr>"

definition resetLifeTimeAndKeepAliveCounters :: "('v, 'r) subscription \<Rightarrow> ('v, 'r) subscription" where
  "resetLifeTimeAndKeepAliveCounters s = resetKeepAliveCounter (resetLifeTimeCounter s)"

definition keepAliveCounterHasExpired :: "('v, 'r) subscription \<Rightarrow> bool" where
  "keepAliveCounterHasExpired s \<longleftrightarrow>
     sub_keep_alive_counter s \<ge> sub_maxKeepAliveCount s \<or> sub_state s = SsLate"

definition lifeTimeHasExpired :: "('v, 'r) subscription \<Rightarrow> bool result" where
  "lifeTimeHasExpired s = rbind (assert_js (sub_lifeTimeCount s > 0)) (\<lambda>_.
     Inr (sub_life_time_counter s \<ge> sub_lifeTimeCount s))"

definition timeToExpiration :: "('v, 'r) subscription \<Rightarrow> rat" where
  "timeToExpiration s =
     (of_nat (sub_lifeTimeCount s) - of_nat (sub_life_time_counter s)) * sub_publishingInterval s"

definition timeToKeepAlive :: "('v, 'r) subscription \<Rightarrow> rat" where
  "timeToKeepAlive s =
     (of_nat (sub_maxKeepAliveCount s) - of_nat (sub_keep_alive_counter s)) * sub_publishingInterval s"

definition stop_timer :: "('v, 'r) subscription \<Rightarrow> ('v, 'r) subscription" where
  "stop_timer s = s\<lparr>sub_timer := False\<rparr>"

definition start_timer :: "bool \<Rightarrow> ('v, 'r) subscription \<Rightarrow> ('v, 'r) subscription result" where
  "start_timer firstTime s =
     rbind (assert_js (\<not> sub_timer s)) (\<lambda>_.
     let s1 = s\<lparr>sub_keep_alive_counter := sub_maxKeepAliveCount s - 1\<rparr> in
     rbind (assert_js (\<not> firstTime \<or> \<not> sub_messageSent s)) (\<lambda>_.
     rbind (assert_js (\<not> firstTime \<or> sub_state s = SsCreating)) (\<lambda>_.
     rbind (assert_js (sub_publishingInterval s \<ge> minimumPublishingInterval)) (\<lambda>_.
       Inr (s1\<lparr>sub_timer := True\<rparr>)))))"

record subscription_options =
  so_id :: nat
  so_priority :: nat
  so_publishingInterval :: "rat option"
  so_maxKeepAliveCount :: "nat option"
  so_lifeTimeCount :: nat
  so_maxNotificationsPerPublish :: "int option"
  so_publishingEnabled :: "bool option"

definition no_diagnostics :: subscription_diagnostics where
  "no_diagnostics = \<lparr>sd_modifyCount = 0, sd_enableCount = 0, sd_disableCount = 0, sd_publishRequestCount = 0,
     sd_dataChangeNotificationsCount = 0, sd_eventNotificationsCount = 0, sd_notificationsCount = 0,
     sd_unacknowledgedMessageCount = 0\<rparr>"

definition new_subscription :: "subscription_options \<Rightarrow> ('v, 'r) subscription result" where
  "new_subscription o1 =
     (let p = adjust_publishing_interval (so_publishingInterval o1);
          k = adjust_maxKeepAliveCount (so_maxKeepAliveCount o1)
      in start_timer True
        \<lparr>sub_id = so_id o1, sub_priority = so_priority o1, sub_publishingInterval = p, sub_maxKeepAliveCount = k,
         sub_lifeTimeCount = adjust_lifeTimeCount (so_lifeTimeCount o1) k p,
         sub_maxNotificationsPerPublish = adjust_maxNotificationsPerPublish (so_maxNotificationsPerPublish o1),
         sub_publishingEnabled = adjust_publishingEnable (so_publishingEnabled o1),
         sub_state = SsCreating, sub_messageSent = False, sub_life_time_counter = 0, sub_keep_alive_counter = 0,
         sub_publishIntervalCount = 0, sub_pending = new_queue, sub_sent = [], sub_items = [],
         sub_hasUncollected = False, sub_timer = False, sub_diagnostics = no_diagnostics\<rparr>)"

record modify_parameters =
  mo_requestedPublishingInterval :: rat
  mo_requestedMaxKeepAliveCount :: nat
  mo_requestedLifetimeCount :: nat
  mo_maxNotificationsPerPublish :: int
  mo_priority :: nat

definition sub_modify :: "modify_parameters \<Rightarrow> ('v, 'r) subscription \<Rightarrow> ('v, 'r) subscription result" where
  "sub_modify param s =
     (let keepAlive = (if mo_requestedMaxKeepAliveCount param = 0 then sub_maxKeepAliveCount s
                       else mo_requestedMaxKeepAliveCount param);
          lifetime = (if mo_requestedLifetimeCount param = 0 then sub_lifeTimeCount s
                      else mo_requestedLifetimeCount param);
          p = adjust_publishing_interval (Some (mo_requestedPublishingInterval param));
          k = adjust_maxKeepAliveCount (Some keepAlive);
          d = sub_diagnostics s
      in start_timer False (stop_timer (resetLifeTimeAndKeepAliveCounters
        (s\<lparr>sub_diagnostics := d\<lparr>sd_modifyCount := sd_modifyCount d + 1\<rparr>,
           sub_publishingInterval := p, sub_maxKeepAliveCount := k,
           sub_lifeTimeCount := adjust_lifeTimeCount lifetime k p,
           sub_maxNotificationsPerPublish :=
             adjust_maxNotificationsPerPublish (Some (mo_maxNotificationsPerPublish param)),
           sub_priority := mo_priority param\<rparr>))))"

definition setPublishingMode :: "bool \<Rightarrow> ('v, 'r) subscription \<Rightarrow> ('v, 'r) subscription" where
  "setPublishingMode b s =
     (let d = sub_diagnostics s;
          s1 = s\<lparr>sub_publishingEnabled := b,
                 sub_diagnostics := (if b then d\<lparr>sd_enableCount := sd_enableCount d + 1\<rparr>
                                     else d\<lparr>sd_disableCount := sd_disableCount d + 1\<rparr>)\<rparr>;
          s2 = resetLifeTimeCounter s1
      in if \<not> b \<and> sub_state s2 \<noteq> SsClosed then s2\<lparr>sub_state := SsNormal\<rparr> else s2)"

section \<open>Pending notifications\<close>

definition pendingNotificationsCount :: "('v, 'r) subscription \<Rightarrow> nat" where
  "pendingNotificationsCount s = q_size (sub_pending s)"

definition hasPendingNotifications :: "('v, 'r) subscription \<Rightarrow> bool" where
  "hasPendingNotifications s \<longleftrightarrow> pendingNotificationsCount s > 0"

definition addNotificationMessage ::
    "'v notification \<Rightarrow> nat option \<Rightarrow> ('v, 'r) subscription \<Rightarrow> ('v, 'r) subscription" where
  "addNotificationMessage n monitoredItemId s =
     s\<lparr>sub_pending := queue_push \<lparr>in_monitoredItemId = monitoredItemId, in_notification = n,
        in_start_tick = sub_publishIntervalCount s\<rparr> (sub_pending s)\<rparr>"

definition removePendingNotificationsFor :: "nat \<Rightarrow> ('v, 'r) subscription \<Rightarrow> ('v, 'r) subscription" where
  "removePendingNotificationsFor monitoredItemId s =
     s\<lparr>sub_pending := snd (queue_filterOut (\<lambda>e. in_monitoredItemId e = Some monitoredItemId) (sub_pending s))\<rparr>"

definition notificationHasExpired :: "nat \<Rightarrow> ('v, 'r) subscription \<Rightarrow> bool" where
  "notificationHasExpired start_tick s \<longleftrightarrow> start_tick + sub_maxKeepAliveCount s < sub_publishIntervalCount s"

definition is_status_change :: "'v notification \<Rightarrow> bool" where
  "is_status_change n = (case n of StatusChange _ \<Rightarrow> True | _ \<Rightarrow> False)"

text \<open>
  The loop of \<^verbatim>\<open>_popNotificationToSend\<close>: at most \<open>m\<close> turns, data changes and events apart,
  and a status change only as the first notification of a message, which it ends.
\<close>

fun pop_loop ::
    "nat \<Rightarrow> 'v internal_notification queue \<Rightarrow> 'v queue_item list \<Rightarrow> 'v queue_item list \<Rightarrow>
     'v queue_item list \<times> 'v queue_item list \<times> status_code option \<times> 'v internal_notification queue" where
  "pop_loop 0 q items events = (items, events, None, q)"
| "pop_loop (Suc m) q items events =
     (if q_size q = 0 then (items, events, None, q)
      else if (events \<noteq> [] \<or> items \<noteq> []) \<and>
          (case queue_first q of None \<Rightarrow> False | Some n \<Rightarrow> is_status_change (in_notification n))
        then (items, events, None, q)
      else case queue_shift q of
          (None, q1) \<Rightarrow> pop_loop m q1 items events
        | (Some n, q1) \<Rightarrow>
            (case in_notification n of
               ItemNotification (DataItem h dv) \<Rightarrow> pop_loop m q1 (items @ [DataItem h dv]) events
             | ItemNotification (EventItem h f) \<Rightarrow> pop_loop m q1 items (events @ [EventItem h f])
             | StatusChange st \<Rightarrow> (items, events, Some st, q1)))"

definition notification_data_of ::
    "'v queue_item list \<Rightarrow> 'v queue_item list \<Rightarrow> status_code option \<Rightarrow> 'v notification_data list" where
  "notification_data_of items events st =
     (if items \<noteq> [] then [DataChangeNotification items] else []) @
     (if events \<noteq> [] then [EventNotificationList events] else []) @
     (case st of None \<Rightarrow> [] | Some c \<Rightarrow> [StatusChangeNotification c])"

definition popNotificationToSend ::
    "('v, 'r) subscription \<Rightarrow> ('v notification_data list \<times> ('v, 'r) subscription) result" where
  "popNotificationToSend s =
     rbind (assert_js (q_size (sub_pending s) > 0)) (\<lambda>_.
       let (items, events, st, q) = pop_loop (sub_maxNotificationsPerPublish s) (sub_pending s) [] []
       in Inr (notification_data_of items events st, s\<lparr>sub_pending := q\<rparr>))"

section \<open>Sent messages\<close>

definition getAvailableSequenceNumbers :: "('v, 'r) subscription \<Rightarrow> nat list" where
  "getAvailableSequenceNumbers s = map nm_sequenceNumber (sub_sent s)"

definition getMessageForSequenceNumber :: "nat \<Rightarrow> ('v, 'r) subscription \<Rightarrow> 'v notification_message option" where
  "getMessageForSequenceNumber sequenceNumber s =
     List.find (\<lambda>e. nm_sequenceNumber e = sequenceNumber) (sub_sent s)"

text \<open>The \<^verbatim>\<open>forEach\<close> of \<^verbatim>\<open>acknowledgeNotification\<close> keeps the last index that matches.\<close>

fun last_index :: "('a \<Rightarrow> bool) \<Rightarrow> 'a list \<Rightarrow> nat \<Rightarrow> nat option \<Rightarrow> nat option" where
  "last_index p [] i found = found"
| "last_index p (x # xs) i found = last_index p xs (i + 1) (if p x then Some i else found)"

datatype ack_status = AckGood | AckBadSequenceNumberUnknown | AckBadSubscriptionIdInvalid

definition acknowledgeNotification :: "nat \<Rightarrow> ('v, 'r) subscription \<Rightarrow> ('v, 'r) subscription \<times> ack_status" where
  "acknowledgeNotification sequenceNumber s =
     (case last_index (\<lambda>e. nm_sequenceNumber e = sequenceNumber) (sub_sent s) 0 None of
        None \<Rightarrow> (s, AckBadSequenceNumberUnknown)
      | Some i \<Rightarrow>
          (s\<lparr>sub_sent := take i (sub_sent s) @ drop (i + 1) (sub_sent s),
             sub_diagnostics := (sub_diagnostics s)\<lparr>sd_unacknowledgedMessageCount :=
               sd_unacknowledgedMessageCount (sub_diagnostics s) - 1\<rparr>\<rparr>, AckGood))"

definition discardOldSentNotifications :: "('v, 'r) subscription \<Rightarrow> ('v, 'r) subscription" where
  "discardOldSentNotifications s =
     (if maxNotificationMessagesInQueue < length (sub_sent s)
      then s\<lparr>sub_sent := drop (length (sub_sent s) - maxNotificationMessagesInQueue) (sub_sent s)\<rparr> else s)"

definition updateCounters :: "'v notification_data list \<Rightarrow> subscription_diagnostics \<Rightarrow> subscription_diagnostics" where
  "updateCounters ds d0 =
     fold (\<lambda>x d. case x of
        DataChangeNotification ns \<Rightarrow>
          d\<lparr>sd_dataChangeNotificationsCount := sd_dataChangeNotificationsCount d + length ns,
            sd_notificationsCount := sd_notificationsCount d + length ns\<rparr>
      | EventNotificationList ns \<Rightarrow>
          d\<lparr>sd_eventNotificationsCount := sd_eventNotificationsCount d + length ns,
            sd_notificationsCount := sd_notificationsCount d + length ns\<rparr>
      | StatusChangeNotification _ \<Rightarrow> d) ds d0"

section \<open>Monitored items\<close>

definition getMonitoredItem :: "('v, 'r) subscription \<Rightarrow> nat \<Rightarrow> ('v, 'r) monitored_item option" where
  "getMonitoredItem s i = map_of (sub_items s) i"

definition put_item ::
    "nat \<Rightarrow> ('v, 'r) monitored_item \<Rightarrow> ('v, 'r) subscription \<Rightarrow> ('v, 'r) subscription" where
  "put_item i m s = s\<lparr>sub_items := map (\<lambda>(j, x). if j = i then (j, m) else (j, x)) (sub_items s)\<rparr>"

definition monitoredItemCount :: "('v, 'r) subscription \<Rightarrow> nat" where
  "monitoredItemCount s = length (sub_items s)"

definition disabledMonitoredItemCount :: "('v, 'r) subscription \<Rightarrow> nat" where
  "disabledMonitoredItemCount s = length (filter (\<lambda>(_, m). mi_monitoringMode m = MmDisabled) (sub_items s))"

text \<open>The getter caches a positive answer until the next harvest.\<close>

definition hasUncollectedMonitoredItemNotifications ::
    "('v, 'r) subscription \<Rightarrow> bool \<times> ('v, 'r) subscription" where
  "hasUncollectedMonitoredItemNotifications s =
     (if sub_hasUncollected s then (True, s)
      else if \<exists>m \<in> set (sub_items s). hasMonitoredItemNotifications (snd m)
      then (True, s\<lparr>sub_hasUncollected := True\<rparr>) else (False, s))"

fun harvest_items ::
    "(nat \<Rightarrow> 'e item_node option) \<Rightarrow> (nat \<times> ('v, 'r) monitored_item) list \<Rightarrow> ('v, 'r) subscription \<Rightarrow>
     ('v, 'r) subscription" where
  "harvest_items nodes [] s = s"
| "harvest_items nodes ((i, m) # ms) s =
     (let (ns, m1) = extractMonitoredItemNotifications (nodes i) False m
      in harvest_items nodes ms
           (fold (\<lambda>n. addNotificationMessage (ItemNotification n) (Some (mi_monitoredItemId m))) ns (put_item i m1 s)))"

definition harvestMonitoredItems ::
    "(nat \<Rightarrow> 'e item_node option) \<Rightarrow> ('v, 'r) subscription \<Rightarrow> ('v, 'r) subscription" where
  "harvestMonitoredItems nodes s = (harvest_items nodes (sub_items s) s)\<lparr>sub_hasUncollected := False\<rparr>"

text \<open>
  \<^verbatim>\<open>removeMonitoredItem\<close>: \<^verbatim>\<open>terminate\<close> stops the sampling of the item, which throws when it has no
  node; the item is then disposed of and its pending notifications are dropped.
\<close>

definition removeMonitoredItem ::
    "(nat \<Rightarrow> 'e item_node option) \<Rightarrow> nat \<Rightarrow> ('v, 'r) subscription \<Rightarrow>
     (('v, 'r) subscription \<times> mi_status) result" where
  "removeMonitoredItem nodes i s =
     (if getMonitoredItem s i = None then Inr (s, MiBadMonitoredItemIdInvalid)
      else if nodes i = None then Inl (ThrownError ''Internal Error'')
      else Inr (removePendingNotificationsFor i (s\<lparr>sub_items := filter (\<lambda>(j, _). j \<noteq> i) (sub_items s)\<rparr>), MiGood))"

fun remove_items ::
    "(nat \<Rightarrow> 'e item_node option) \<Rightarrow> nat list \<Rightarrow> ('v, 'r) subscription \<Rightarrow> ('v, 'r) subscription result" where
  "remove_items nodes [] s = Inr s"
| "remove_items nodes (i # is) s =
     rbind (removeMonitoredItem nodes i s) (\<lambda>(s1, st).
       rbind (assert_js (st = MiGood)) (\<lambda>_. remove_items nodes is s1))"

text \<open>\<^verbatim>\<open>setTriggering\<close>: all ids are looked up first, the removals come before the additions.\<close>

fun link_all ::
    "(nat \<Rightarrow> ('v, 'r) monitored_item \<Rightarrow> ('v, 'r) monitored_item \<times> mi_status) \<Rightarrow> ('v, 'r) subscription \<Rightarrow> nat list \<Rightarrow>
     ('v, 'r) monitored_item \<Rightarrow> ('v, 'r) monitored_item \<times> mi_status list" where
  "link_all op s [] t = (t, [])"
| "link_all op s (i # is) t =
     (case getMonitoredItem s i of
        None \<Rightarrow> (let (t1, rs) = link_all op s is t in (t1, MiBadMonitoredItemIdInvalid # rs))
      | Some m \<Rightarrow> (let (t1, r) = op (mi_monitoredItemId m) t; (t2, rs) = link_all op s is t1 in (t2, r # rs)))"

definition setTriggering ::
    "nat \<Rightarrow> nat list \<Rightarrow> nat list \<Rightarrow> ('v, 'r) subscription \<Rightarrow>
     ('v, 'r) subscription \<times> mi_status \<times> mi_status list \<times> mi_status list" where
  "setTriggering triggeringItemId linksToAdd linksToRemove s =
     (if linksToAdd = [] \<and> linksToRemove = [] then (s, MiBadNothingToDo, [], [])
      else case getMonitoredItem s triggeringItemId of
        None \<Rightarrow>
          (let known = (\<lambda>i. if getMonitoredItem s i = None then MiBadMonitoredItemIdInvalid else MiGood)
           in (s, MiBadMonitoredItemIdInvalid, map known linksToAdd, map known linksToRemove))
      | Some t \<Rightarrow>
          (let (t1, removeResults) = link_all removeLinkItem s linksToRemove t;
               (t2, addResults) = link_all addLinkItem s linksToAdd t1
           in (put_item triggeringItemId t2 s, MiGood, addResults, removeResults)))"

text \<open>\<^verbatim>\<open>getMonitoredItems\<close>: server handles and client handles, in the order of the ids.\<close>

definition getMonitoredItems :: "('v, 'r) subscription \<Rightarrow> nat list \<times> nat list" where
  "getMonitoredItems s = (map fst (sub_items s), map (mi_clientHandle \<circ> snd) (sub_items s))"

text \<open>
  \<^verbatim>\<open>resendInitialValues\<close>: an item whose resend throws is skipped. \<open>readValue\<close> is what reading the
  node of an item returns.
\<close>

definition resendInitialValues ::
    "(nat \<Rightarrow> 'e item_node option) \<Rightarrow> (nat \<Rightarrow> 'v data_value) \<Rightarrow> int \<times> nat \<Rightarrow> ('v, 'r) subscription \<Rightarrow>
     ('v, 'r) subscription" where
  "resendInitialValues nodes readValue now s =
     harvestMonitoredItems nodes
       (s\<lparr>sub_items := map (\<lambda>(i, m). (i, fst (resendInitialValue (nodes i) (readValue i) now m))) (sub_items s),
          sub_keep_alive_counter := sub_maxKeepAliveCount s - 1, sub_state := SsNormal\<rparr>)"

text \<open>
  \<^verbatim>\<open>adjustSamplingInterval\<close>. \<open>node_attr\<close> is the MinimumSamplingInterval attribute read from the node
  (\<open>None\<close> when its status is not Good), \<open>node_min\<close> the \<^verbatim>\<open>minimumSamplingInterval\<close> property of
  the node, 0 when it has none; \<open>has_node\<close> tells that a node is given.
\<close>

definition adjustSamplingInterval ::
    "rat \<Rightarrow> bool \<Rightarrow> rat option \<Rightarrow> rat \<Rightarrow> ('v, 'r) subscription \<Rightarrow> rat result" where
  "adjustSamplingInterval samplingInterval has_node node_attr node_min s =
     rbind
       (if samplingInterval < 0 then Inr (sub_publishingInterval s)
        else if samplingInterval = 0 then
          (if \<not> has_node then Inl (ThrownError ''Internal Error'')
           else case node_attr of
             None \<Rightarrow> Inr samplingInterval
           | Some v \<Rightarrow> rbind (assert_js (0 \<le> v \<and> v \<le> maximumSamplingInterval)) (\<lambda>_. Inr v))
        else if samplingInterval < minimumSamplingInterval then Inr minimumSamplingInterval
        else if samplingInterval > maximumSamplingInterval then Inr maximumSamplingInterval
        else Inr samplingInterval)
       (\<lambda>si. Inr (max si (if has_node then node_min else 0)))"

section \<open>The revised parameters\<close>

definition revised :: "('v, 'r) subscription \<Rightarrow> bool" where
  "revised s \<longleftrightarrow>
     50 \<le> sub_publishingInterval s \<and> sub_publishingInterval s \<le> 60000
   \<and> 2 \<le> sub_maxKeepAliveCount s \<and> sub_maxKeepAliveCount s \<le> 12000
   \<and> 3 * sub_maxKeepAliveCount s \<le> sub_lifeTimeCount s
   \<and> 5000 \<le> of_nat (sub_lifeTimeCount s) * sub_publishingInterval s
   \<and> (of_nat (sub_lifeTimeCount s) * sub_publishingInterval s \<le> 3600000
      \<or> sub_lifeTimeCount s = 3 * sub_maxKeepAliveCount s)
   \<and> 1 \<le> sub_maxNotificationsPerPublish s \<and> sub_maxNotificationsPerPublish s \<le> 1000"

lemma adjust_publishing_interval_bounds:
  "50 \<le> adjust_publishing_interval p \<and> adjust_publishing_interval p \<le> 60000"
  by (simp add: adjust_publishing_interval_def Let_def minimumPublishingInterval_def
      maximumPublishingInterval_def defaultPublishingInterval_def)

lemma adjust_maxKeepAliveCount_bounds:
  "2 \<le> adjust_maxKeepAliveCount k \<and> adjust_maxKeepAliveCount k \<le> 12000"
  by (simp add: adjust_maxKeepAliveCount_def Let_def minimumMaxKeepAliveCount_def maximumMaxKeepAliveCount_def)

lemma adjust_maxNotificationsPerPublish_bounds:
  "1 \<le> adjust_maxNotificationsPerPublish n \<and> adjust_maxNotificationsPerPublish n \<le> 1000"
  by (auto simp: adjust_maxNotificationsPerPublish_def Let_def maxNotificationPerPublishHighLimit_def
      split: option.split)

lemma ticks_cover:
  fixes p :: rat
  assumes "50 \<le> p" "p \<le> 60000"
  shows "5000 \<le> of_nat (nat \<lceil>5000 / p\<rceil>) * p"
    and "nat \<lceil>5000 / p\<rceil> \<le> nat \<lfloor>3600000 / p\<rfloor>"
    and "of_nat (nat \<lfloor>3600000 / p\<rfloor>) * p \<le> 3600000"
proof -
  have pos: "0 < p" using assms by simp
  have "0 \<le> 5000 / p" "0 \<le> 3600000 / p" using pos by simp_all
  then have a: "0 \<le> \<lceil>5000 / p\<rceil>" "0 \<le> \<lfloor>3600000 / p\<rfloor>" by linarith+
  show "5000 \<le> of_nat (nat \<lceil>5000 / p\<rceil>) * p"
  proof -
    have "5000 \<le> of_int \<lceil>5000 / p\<rceil> * p"
      using le_of_int_ceiling[of "5000 / p"] by (simp only: pos_divide_le_eq[OF pos])
    moreover have "(of_nat (nat \<lceil>5000 / p\<rceil>) :: rat) = of_int \<lceil>5000 / p\<rceil>" using a(1) by simp
    ultimately show ?thesis by simp
  qed
  show "of_nat (nat \<lfloor>3600000 / p\<rfloor>) * p \<le> 3600000"
  proof -
    have "of_int \<lfloor>3600000 / p\<rfloor> * p \<le> 3600000"
      using of_int_floor_le[of "3600000 / p"] by (simp only: pos_le_divide_eq[OF pos])
    moreover have "(of_nat (nat \<lfloor>3600000 / p\<rfloor>) :: rat) = of_int \<lfloor>3600000 / p\<rfloor>" using a(2) by simp
    ultimately show ?thesis by simp
  qed
  have "5000 / p + 1 \<le> 3600000 / p"
    using assms pos by (simp add: field_simps)
  then have "\<lceil>5000 / p\<rceil> \<le> \<lfloor>3600000 / p\<rfloor>" by linarith
  then show "nat \<lceil>5000 / p\<rceil> \<le> nat \<lfloor>3600000 / p\<rfloor>" by (rule nat_mono)
qed

lemma adjust_lifeTimeCount_bounds:
  assumes p: "50 \<le> p" "p \<le> 60000" and k: "k \<le> 12000"
  shows "3 * k \<le> adjust_lifeTimeCount n k p"
    and "5000 \<le> of_nat (adjust_lifeTimeCount n k p) * p"
    and "of_nat (adjust_lifeTimeCount n k p) * p \<le> 3600000 \<or> adjust_lifeTimeCount n k p = 3 * k"
proof -
  define lo hi where "lo = nat \<lceil>5000 / p\<rceil>" and "hi = nat \<lfloor>3600000 / p\<rfloor>"
  define c where "c = min hi (max lo (if n = 0 then 1 else n))"
  have r: "adjust_lifeTimeCount n k p = max c (3 * k)"
    using k by (simp add: adjust_lifeTimeCount_def Let_def minimumLifetimeDuration_def
        maximumLifetimeDuration_def MaxUint32_def c_def lo_def hi_def mult.commute)
  note t = ticks_cover[OF p, folded lo_def hi_def]
  have pos: "0 \<le> p" using p by simp
  have c: "lo \<le> c" "c \<le> hi" using t(2) by (auto simp: c_def)
  show "3 * k \<le> adjust_lifeTimeCount n k p" by (simp add: r)
  have "of_nat lo * p \<le> of_nat (max c (3 * k)) * p"
    using c pos by (intro mult_right_mono) auto
  then show "5000 \<le> of_nat (adjust_lifeTimeCount n k p) * p" using t(1) unfolding r by linarith
  have "of_nat c * p \<le> of_nat hi * p" using c pos by (intro mult_right_mono) auto
  then show "of_nat (adjust_lifeTimeCount n k p) * p \<le> 3600000 \<or> adjust_lifeTimeCount n k p = 3 * k"
    using t(3) unfolding r by (cases "c \<le> 3 * k") (auto simp: max_def)
qed

lemmas adjust_bounds = adjust_publishing_interval_bounds adjust_maxKeepAliveCount_bounds
  adjust_maxNotificationsPerPublish_bounds

lemma new_subscription_revised: "\<exists>s :: ('v, 'r) subscription. new_subscription o1 = Inr s \<and> revised s"
proof -
  note b = adjust_publishing_interval_bounds[of "so_publishingInterval o1"]
  show ?thesis
    using b adjust_bounds
      adjust_lifeTimeCount_bounds[of "adjust_publishing_interval (so_publishingInterval o1)"
        "adjust_maxKeepAliveCount (so_maxKeepAliveCount o1)" "so_lifeTimeCount o1"]
    by (simp add: new_subscription_def start_timer_def Let_def revised_def minimumPublishingInterval_def)
qed

lemma sub_modify_revised: "\<exists>s'. sub_modify p s = Inr s' \<and> revised s'"
proof -
  define ka where "ka = adjust_maxKeepAliveCount (Some (if mo_requestedMaxKeepAliveCount p = 0
    then sub_maxKeepAliveCount s else mo_requestedMaxKeepAliveCount p))"
  define pi where "pi = adjust_publishing_interval (Some (mo_requestedPublishingInterval p))"
  have b: "50 \<le> pi" "pi \<le> 60000" "2 \<le> ka" "ka \<le> 12000"
    using adjust_bounds unfolding ka_def pi_def by auto
  show ?thesis
    using b adjust_maxNotificationsPerPublish_bounds
      adjust_lifeTimeCount_bounds[OF b(1,2,4), of "if mo_requestedLifetimeCount p = 0 then sub_lifeTimeCount s
        else mo_requestedLifetimeCount p"]
    by (simp add: sub_modify_def Let_def start_timer_def stop_timer_def resetLifeTimeAndKeepAliveCounters_def
        resetKeepAliveCounter_def resetLifeTimeCounter_def revised_def minimumPublishingInterval_def
        ka_def[symmetric] pi_def[symmetric])
qed

text \<open>Whatever a client asks for, creating a subscription and then modifying it succeed and leave the
  revised parameters in bounds: a publishing interval between 50 ms and one minute, a keep-alive count
  between 2 and 12000, a lifetime count of at least three times the keep-alive count that covers at least 5
  seconds and at most one hour unless three keep-alive periods are longer, and 1 to 1000 notifications
  per message.\<close>

theorem parameters_revised:
  "\<exists>s s'. new_subscription o1 = Inr (s :: ('v, 'r) subscription) \<and> revised s \<and>
     sub_modify p s = Inr s' \<and> revised s'"
  using new_subscription_revised sub_modify_revised by blast

section \<open>What a message takes from the queue\<close>

definition is_data :: "'v notification \<Rightarrow> bool" where
  "is_data n = (case n of ItemNotification (DataItem _ _) \<Rightarrow> True | _ \<Rightarrow> False)"

definition is_event :: "'v notification \<Rightarrow> bool" where
  "is_event n = (case n of ItemNotification (EventItem _ _) \<Rightarrow> True | _ \<Rightarrow> False)"

fun item_of :: "'v notification \<Rightarrow> 'v queue_item" where
  "item_of (ItemNotification i) = i"
| "item_of (StatusChange c) = EventItem 0 []"

definition pending_list :: "('v, 'r) subscription \<Rightarrow> 'v notification list" where
  "pending_list s = map in_notification (queue_values (sub_pending s))"

definition batch_size :: "nat \<Rightarrow> 'v notification list \<Rightarrow> nat" where
  "batch_size m ns = min m (length (takeWhile (\<lambda>n. \<not> is_status_change n) ns))"

lemma notification_kinds [simp]:
  "is_data (ItemNotification (DataItem h dv))" "\<not> is_event (ItemNotification (DataItem h dv))"
  "is_event (ItemNotification (EventItem h f))" "\<not> is_data (ItemNotification (EventItem h f))"
  "is_status_change (StatusChange c)" "\<not> is_status_change (ItemNotification i)"
  by (simp_all add: is_data_def is_event_def is_status_change_def)

lemma batch_size_simps [simp]:
  "batch_size 0 ns = 0" "batch_size m [] = 0" "batch_size m (StatusChange c # ns) = 0"
  "batch_size (Suc m) (ItemNotification i # ns) = Suc (batch_size m ns)"
  by (simp_all add: batch_size_def)

lemma pop_loop_stops:
  assumes "queue_ok q" and "items \<noteq> [] \<or> events \<noteq> []"
  shows "\<exists>q'. pop_loop m q items events =
      (items @ map item_of (filter is_data (take (batch_size m (map in_notification (q_items q))) (map in_notification (q_items q)))),
       events @ map item_of (filter is_event (take (batch_size m (map in_notification (q_items q))) (map in_notification (q_items q)))),
       None, q') \<and> queue_ok q' \<and> q_items q' = drop (batch_size m (map in_notification (q_items q))) (q_items q)"
  using assms
proof (induction m q items events rule: pop_loop.induct)
  case (1 q items events)
  then show ?case by simp
next
  case (2 m q items events)
  show ?case
  proof (cases "q_items q")
    case Nil
    then show ?thesis using 2 by (simp add: queue_ok_def)
  next
    case (Cons n ns)
    have sz: "q_size q = Suc (length ns)" using 2(4) Cons by (simp add: queue_ok_def)
    define q1 where "q1 = q\<lparr>q_size := length ns, q_items := ns\<rparr>"
    have f: "queue_first q = Some n" "queue_shift q = (Some n, q1)"
      using sz Cons by (simp_all add: queue_first_def queue_shift_def q1_def)
    have ok1: "queue_ok q1" "q_items q1 = ns" by (simp_all add: q1_def queue_ok_def)
    show ?thesis
    proof (cases "in_notification n")
      case (StatusChange c)
      then show ?thesis using 2(4,5) f sz Cons by auto
    next
      case (ItemNotification i)
      then have ns: "\<not> is_status_change (in_notification n)" by simp
      show ?thesis
      proof (cases i)
        case (DataItem h dv)
        have "\<exists>q'. pop_loop m q1 (items @ [DataItem h dv]) events =
            ((items @ [DataItem h dv]) @ map item_of (filter is_data (take (batch_size m (map in_notification ns)) (map in_notification ns))),
             events @ map item_of (filter is_event (take (batch_size m (map in_notification ns)) (map in_notification ns))), None, q')
            \<and> queue_ok q' \<and> q_items q' = drop (batch_size m (map in_notification ns)) ns"
          using 2(2)[OF _ _ f(2)[symmetric] refl ItemNotification DataItem ok1(1)] sz f ns ok1(2) by simp
        then show ?thesis
          using sz f ns ItemNotification DataItem Cons by simp
      next
        case (EventItem h ff)
        have "\<exists>q'. pop_loop m q1 items (events @ [EventItem h ff]) =
            (items @ map item_of (filter is_data (take (batch_size m (map in_notification ns)) (map in_notification ns))),
             (events @ [EventItem h ff]) @ map item_of (filter is_event (take (batch_size m (map in_notification ns)) (map in_notification ns))), None, q')
            \<and> queue_ok q' \<and> q_items q' = drop (batch_size m (map in_notification ns)) ns"
          using 2(3)[OF _ _ f(2)[symmetric] refl ItemNotification EventItem ok1(1)] sz f ns ok1(2) by simp
        then show ?thesis
          using sz f ns ItemNotification EventItem Cons by simp
      qed
    qed
  qed
qed

definition batch :: "nat \<Rightarrow> 'v notification list \<Rightarrow> 'v notification_data list" where
  "batch m ns =
     (case ns of
        StatusChange c # _ \<Rightarrow> [StatusChangeNotification c]
      | _ \<Rightarrow> (let taken = take (batch_size m ns) ns
             in notification_data_of (map item_of (filter is_data taken)) (map item_of (filter is_event taken)) None))"

definition left_over :: "nat \<Rightarrow> 'v notification list \<Rightarrow> 'v notification list" where
  "left_over m ns = (case ns of StatusChange c # ns' \<Rightarrow> ns' | _ \<Rightarrow> drop (batch_size m ns) ns)"

lemma notification_data_of_simps:
  "notification_data_of [] [] None = []"
  by (simp add: notification_data_of_def)

lemma pop_batch:
  assumes ok: "queue_ok (sub_pending s)" and ne: "pending_list s \<noteq> []"
    and m: "1 \<le> sub_maxNotificationsPerPublish s"
  obtains q where "popNotificationToSend s =
      Inr (batch (sub_maxNotificationsPerPublish s) (pending_list s), s\<lparr>sub_pending := q\<rparr>)"
    and "queue_ok q" and "map in_notification (queue_values q) =
      left_over (sub_maxNotificationsPerPublish s) (pending_list s)"
proof -
  obtain m' where m': "sub_maxNotificationsPerPublish s = Suc m'" using m by (cases "sub_maxNotificationsPerPublish s") auto
  define q where "q = sub_pending s"
  have okq: "queue_ok q" using ok by (simp add: q_def)
  obtain n ns where q: "q_items q = n # ns"
    using ne by (cases "q_items q") (auto simp: pending_list_def queue_values_def q_def)
  have sz: "q_size q = Suc (length ns)" using okq q by (simp add: queue_ok_def)
  define q1 where "q1 = q\<lparr>q_size := length ns, q_items := ns\<rparr>"
  have f: "queue_first q = Some n" "queue_shift q = (Some n, q1)"
    using sz q by (simp_all add: queue_first_def queue_shift_def q1_def)
  have ok1: "queue_ok q1" "q_items q1 = ns" by (simp_all add: q1_def queue_ok_def)
  have pl: "pending_list s = in_notification n # map in_notification ns"
    by (simp add: pending_list_def queue_values_def q_def[symmetric] q)
  show thesis
  proof (cases "in_notification n")
    case (StatusChange c)
    have "popNotificationToSend s =
        Inr (batch (sub_maxNotificationsPerPublish s) (pending_list s), s\<lparr>sub_pending := q1\<rparr>)"
      using sz f StatusChange
      by (simp add: popNotificationToSend_def q_def[symmetric] m' pl batch_def notification_data_of_def)
    then show thesis using that ok1 StatusChange by (simp add: queue_values_def pl left_over_def)
  next
    case (ItemNotification i)
    show thesis
    proof (cases i)
      case (DataItem h dv)
      obtain q' where l: "pop_loop m' q1 [DataItem h dv] [] =
          ([DataItem h dv] @ map item_of (filter is_data (take (batch_size m' (map in_notification ns)) (map in_notification ns))),
           map item_of (filter is_event (take (batch_size m' (map in_notification ns)) (map in_notification ns))), None, q')"
        and q': "queue_ok q'" "q_items q' = drop (batch_size m' (map in_notification ns)) ns"
        using pop_loop_stops[OF ok1(1), of "[DataItem h dv]" "[]" m'] ok1(2) by auto
      have "popNotificationToSend s =
          Inr (batch (sub_maxNotificationsPerPublish s) (pending_list s), s\<lparr>sub_pending := q'\<rparr>)"
        using sz f ItemNotification DataItem l
        by (simp add: popNotificationToSend_def q_def[symmetric] m' pl batch_def)
      then show thesis
        using that q' ItemNotification by (simp add: queue_values_def pl left_over_def m' drop_map)
    next
      case (EventItem h ff)
      obtain q' where l: "pop_loop m' q1 [] [EventItem h ff] =
          (map item_of (filter is_data (take (batch_size m' (map in_notification ns)) (map in_notification ns))),
           [EventItem h ff] @ map item_of (filter is_event (take (batch_size m' (map in_notification ns)) (map in_notification ns))), None, q')"
        and q': "queue_ok q'" "q_items q' = drop (batch_size m' (map in_notification ns)) ns"
        using pop_loop_stops[OF ok1(1), of "[]" "[EventItem h ff]" m'] ok1(2) by auto
      have "popNotificationToSend s =
          Inr (batch (sub_maxNotificationsPerPublish s) (pending_list s), s\<lparr>sub_pending := q'\<rparr>)"
        using sz f ItemNotification EventItem l
        by (simp add: popNotificationToSend_def q_def[symmetric] m' pl batch_def)
      then show thesis
        using that q' ItemNotification by (simp add: queue_values_def pl left_over_def m' drop_map)
    qed
  qed
qed

text \<open>A notification message takes a batch off the front of the pending queue and loses nothing: a
  pending status change travels alone, otherwise the message holds, in order, the data changes and
  the events among the first notifications, up to the next status change and never more than
  \<^verbatim>\<open>maxNotificationsPerPublish\<close>, and what follows stays pending in its order.\<close>

theorem pop_takes_batch:
  assumes "queue_ok (sub_pending s)" and "pending_list s \<noteq> []" and "1 \<le> sub_maxNotificationsPerPublish s"
  shows "\<exists>s'. popNotificationToSend s = Inr (batch (sub_maxNotificationsPerPublish s) (pending_list s), s') \<and>
    pending_list s' = left_over (sub_maxNotificationsPerPublish s) (pending_list s)"
  using assms by (rule pop_batch[of s thesis for thesis]) (auto simp: pending_list_def)

definition example_options :: subscription_options where
  "example_options = \<lparr>so_id = 1, so_priority = 0, so_publishingInterval = Some 100, so_maxKeepAliveCount = Some 3,
     so_lifeTimeCount = 60, so_maxNotificationsPerPublish = Some 2, so_publishingEnabled = None\<rparr>"

definition example_subscription :: "(int, unit) subscription" where
  "example_subscription =
     \<lparr>sub_id = 1, sub_priority = 0, sub_publishingInterval = 100, sub_maxKeepAliveCount = 3, sub_lifeTimeCount = 60,
      sub_maxNotificationsPerPublish = 2, sub_publishingEnabled = True, sub_state = SsCreating,
      sub_messageSent = False, sub_life_time_counter = 0, sub_keep_alive_counter = 2,
      sub_publishIntervalCount = 0, sub_pending = new_queue, sub_sent = [], sub_items = [],
      sub_hasUncollected = False, sub_timer = True, sub_diagnostics = no_diagnostics\<rparr>"

lemma example_subscription_created: "new_subscription example_options = Inr example_subscription"
proof -
  have "nat \<lceil>(5000 :: rat) / 100\<rceil> = 50" "nat \<lfloor>(3600000 :: rat) / 100\<rfloor> = 36000" by simp_all
  then show ?thesis
    by (simp add: new_subscription_def example_options_def example_subscription_def start_timer_def Let_def
        adjust_publishing_interval_def adjust_maxKeepAliveCount_def adjust_lifeTimeCount_def
        adjust_maxNotificationsPerPublish_def adjust_publishingEnable_def minimumPublishingInterval_def
        maximumPublishingInterval_def minimumMaxKeepAliveCount_def maximumMaxKeepAliveCount_def
        minimumLifetimeDuration_def maximumLifetimeDuration_def MaxUint32_def maxNotificationPerPublishHighLimit_def)
qed

definition sample :: "int \<Rightarrow> int queue_item" where
  "sample x = DataItem 1 \<lparr>dv_value = x, dv_statusCode = Good, dv_sourceTimestamp = None, dv_sourcePicoseconds = 0,
     dv_serverTimestamp = None, dv_serverPicoseconds = 0\<rparr>"

definition example_pending :: "(int, unit) subscription" where
  "example_pending = fold (\<lambda>n. addNotificationMessage n None)
     [ItemNotification (sample 10), ItemNotification (sample 11), ItemNotification (sample 12)] example_subscription"

lemma example_pending_eq:
  "pending_list example_pending = [ItemNotification (sample 10), ItemNotification (sample 11), ItemNotification (sample 12)]"
  "queue_ok (sub_pending example_pending)" "sub_maxNotificationsPerPublish example_pending = 2"
  by (simp_all add: example_pending_def addNotificationMessage_def example_subscription_def pending_list_def
      queue_values_def queue_push_def new_queue_def queue_ok_def)

theorem pop_takes_batch_witness:
  "\<exists>s'. popNotificationToSend example_pending = Inr ([DataChangeNotification [sample 10, sample 11]], s') \<and>
     pending_list s' = [ItemNotification (sample 12)]"
  using pop_takes_batch[of example_pending]
  by (simp add: example_pending_eq batch_def left_over_def notification_data_of_def numeral_2_eq_2 Let_def)
    (simp add: sample_def)

section \<open>Acknowledgement\<close>

lemma last_index_none: "last_index p xs i found = None \<longleftrightarrow> found = None \<and> (\<forall>x \<in> set xs. \<not> p x)"
  by (induction xs arbitrary: i found) auto

lemma last_index_split:
  assumes "\<forall>x \<in> set xs. \<not> p x" "p y" "\<forall>x \<in> set ys. \<not> p x"
  shows "last_index p (xs @ y # ys) i found = Some (i + length xs)"
  using assms
proof (induction xs arbitrary: i found)
  case Nil
  have "last_index p ys j (Some i) = Some i" for j using Nil.prems(3) by (induction ys arbitrary: j) auto
  then show ?case using Nil by simp
qed simp

text \<open>The retransmission queue serves a sent message until it is acknowledged, and then exactly that
  message is gone: an unknown sequence number changes nothing and is answered
  \<^verbatim>\<open>BadSequenceNumberUnknown\<close>, a known one is answered Good, its message can no longer be republished
  and the others keep their order.\<close>

theorem acknowledge_releases:
  assumes "distinct (getAvailableSequenceNumbers s)"
  shows "if n \<in> set (getAvailableSequenceNumbers s)
    then \<exists>m s'. getMessageForSequenceNumber n s = Some m \<and> nm_sequenceNumber m = n \<and>
        acknowledgeNotification n s = (s', AckGood) \<and> getMessageForSequenceNumber n s' = None \<and>
        getAvailableSequenceNumbers s' = remove1 n (getAvailableSequenceNumbers s)
    else getMessageForSequenceNumber n s = None \<and>
        acknowledgeNotification n s = (s, AckBadSequenceNumberUnknown)"
proof (cases "n \<in> set (getAvailableSequenceNumbers s)")
  case True
  then obtain m where m: "m \<in> set (sub_sent s)" "nm_sequenceNumber m = n"
    by (auto simp: getAvailableSequenceNumbers_def)
  then obtain xs ys where sp: "sub_sent s = xs @ m # ys" by (meson split_list)
  have no: "\<forall>x \<in> set xs. nm_sequenceNumber x \<noteq> n" "\<forall>x \<in> set ys. nm_sequenceNumber x \<noteq> n"
    using assms m(2) sp by (auto simp: getAvailableSequenceNumbers_def image_iff)
  have i: "last_index (\<lambda>e. nm_sequenceNumber e = n) (sub_sent s) 0 None = Some (length xs)"
    using last_index_split[of xs "\<lambda>e. nm_sequenceNumber e = n" m ys 0 None] no m(2) sp by simp
  have "List.find (\<lambda>e. nm_sequenceNumber e = n) (xs @ m # ys) = Some m"
    using no(1) m(2) by (induction xs) auto
  moreover have "List.find (\<lambda>e. nm_sequenceNumber e = n) (xs @ ys) = None"
    using no by (auto simp: find_None_iff)
  moreover have "remove1 n (map nm_sequenceNumber (xs @ m # ys)) = map nm_sequenceNumber (xs @ ys)"
    using no(1) m(2) by (induction xs) auto
  ultimately show ?thesis
    using True m(2)
    by (simp add: acknowledgeNotification_def i[unfolded sp] getMessageForSequenceNumber_def getAvailableSequenceNumbers_def sp)
next
  case False
  then have "\<forall>x \<in> set (sub_sent s). nm_sequenceNumber x \<noteq> n"
    by (auto simp: getAvailableSequenceNumbers_def)
  then have "last_index (\<lambda>e. nm_sequenceNumber e = n) (sub_sent s) 0 None = None"
    and "List.find (\<lambda>e. nm_sequenceNumber e = n) (sub_sent s) = None"
    by (simp_all add: last_index_none find_None_iff)
  then show ?thesis
    using False by (simp add: acknowledgeNotification_def getMessageForSequenceNumber_def)
qed

theorem acknowledge_releases_witness:
  "snd (acknowledgeNotification 4 (example_subscription\<lparr>sub_sent :=
     [\<lparr>nm_sequenceNumber = 3, nm_notificationData = []\<rparr>, \<lparr>nm_sequenceNumber = 4, nm_notificationData = []\<rparr>]\<rparr>)) = AckGood"
  using acknowledge_releases[of "example_subscription\<lparr>sub_sent :=
     [\<lparr>nm_sequenceNumber = 3, nm_notificationData = []\<rparr>, \<lparr>nm_sequenceNumber = 4, nm_notificationData = []\<rparr>]\<rparr>" 4]
  by (auto simp: getAvailableSequenceNumbers_def)

end
