(* ===== verification/Publish_Engine.thy ===== *)
theory Publish_Engine
  imports Subscription "HOL-Library.Multiset"
begin

text \<open>
  \<^verbatim>\<open>ServerSidePublishEngine\<close> (\<^verbatim>\<open>server_publish_engine.ts\<close>) and the operations of
  \<^verbatim>\<open>Subscription\<close> that work with it (publishing, keep-alive, tick, termination, transfer), both of
  \<^verbatim>\<open>node-opcua-server/source\<close>. The engine of a session queues the client's publish requests,
  holds the subscriptions by id (in ascending order, as \<^verbatim>\<open>Object.values\<close> lists them), the closed or
  transferred ones that still owe a notification, and answers a request by calling its callback: the
  answers are the list \<open>pe_responses\<close>. \<^verbatim>\<open>setImmediate\<close> callbacks are the list \<open>pe_tasks\<close>. A
  sequence number generator is an object that a subscription shares with the
  \<^verbatim>\<open>TransferredSubscription\<close> it leaves behind: \<open>pe_generators\<close> is the store of these objects, by
  subscription id. Time (\<open>now\<close>) is an argument. A failed assertion is \<open>Inl\<close>.
\<close>

section \<open>State\<close>

datatype fault =
    BadTooManyPublishRequests
  | BadNoSubscription
  | BadSessionClosed
  | BadTimeout
  | BadSecureChannelClosed

record publish_request =
  rq_requestHandle :: nat
  rq_timeoutHint :: nat
  rq_subscriptionAcknowledgements :: "(nat \<times> nat) list"

record publish_data =
  pd_request :: publish_request
  pd_results :: "ack_status list"
  pd_serverTimeWhenReceived :: int

record 'v publish_response =
  pr_subscriptionId :: nat
  pr_availableSequenceNumbers :: "nat list"
  pr_moreNotifications :: bool
  pr_notificationMessage :: "'v notification_message"
  pr_results :: "ack_status list"

datatype 'v response = ServiceFault fault | PublishResponse "'v publish_response"

datatype ('v, 'r) closed_entry =
    ClosedSubscription "('v, 'r) subscription"
  | TransferredSubscription nat "status_code option"

datatype task = FeedLate | Tick nat

record ('v, 'r) engine =
  pe_maxPublishRequestInQueue :: nat
  pe_isSessionClosed :: bool
  pe_queue :: "publish_data list"
  pe_subscriptions :: "(nat \<times> ('v, 'r) subscription) list"
  pe_closed :: "('v, 'r) closed_entry list"
  pe_responses :: "(publish_request \<times> 'v response) list"
  pe_tasks :: "task list"
  pe_generators :: "nat \<Rightarrow> nat"
  pe_totalMonitoredItemCount :: nat

text \<open>
  What the code gets from outside: the node of each monitored item, and \<^verbatim>\<open>Array.prototype.sort\<close>, whose
  result for an inconsistent comparator is up to the JavaScript engine.
\<close>

record ('v, 'r, 'e) engine_env =
  ev_nodes :: "nat \<Rightarrow> 'e item_node option"
  ev_sort :: "(('v, 'r) subscription \<Rightarrow> ('v, 'r) subscription \<Rightarrow> int) \<Rightarrow>
     ('v, 'r) subscription list \<Rightarrow> ('v, 'r) subscription list"

definition new_publish_engine :: "nat \<Rightarrow> ('v, 'r) engine" where
  "new_publish_engine maxPublishRequestInQueue =
     \<lparr>pe_maxPublishRequestInQueue = (if maxPublishRequestInQueue = 0 then 100 else maxPublishRequestInQueue),
      pe_isSessionClosed = False, pe_queue = [], pe_subscriptions = [], pe_closed = [], pe_responses = [],
      pe_tasks = [], pe_generators = (\<lambda>_. new_generator), pe_totalMonitoredItemCount = 0\<rparr>"

definition pendingPublishRequestCount :: "('v, 'r) engine \<Rightarrow> nat" where
  "pendingPublishRequestCount e = length (pe_queue e)"

definition subscriptionCount :: "('v, 'r) engine \<Rightarrow> nat" where
  "subscriptionCount e = length (pe_subscriptions e)"

definition currentMonitoredItemCount :: "('v, 'r) engine \<Rightarrow> nat" where
  "currentMonitoredItemCount e = sum_list (map (monitoredItemCount \<circ> snd) (pe_subscriptions e))"

definition getSubscriptionById :: "('v, 'r) engine \<Rightarrow> nat \<Rightarrow> ('v, 'r) subscription option" where
  "getSubscriptionById e i = map_of (pe_subscriptions e) i"

text \<open>The subscription object is mutated in place: the engine sees its new state.\<close>

definition put_sub :: "('v, 'r) subscription \<Rightarrow> ('v, 'r) engine \<Rightarrow> ('v, 'r) engine" where
  "put_sub s e = e\<lparr>pe_subscriptions :=
     map (\<lambda>(i, x). if i = sub_id s then (i, s) else (i, x)) (pe_subscriptions e)\<rparr>"

section \<open>Answers\<close>

definition send_error_for_request :: "fault \<Rightarrow> publish_data \<Rightarrow> ('v, 'r) engine \<Rightarrow> ('v, 'r) engine" where
  "send_error_for_request st pd e = e\<lparr>pe_responses := pe_responses e @ [(pd_request pd, ServiceFault st)]\<rparr>"

definition cancelPendingPublishRequest_with :: "fault \<Rightarrow> ('v, 'r) engine \<Rightarrow> ('v, 'r) engine" where
  "cancelPendingPublishRequest_with st e =
     (fold (send_error_for_request st) (pe_queue e) e)\<lparr>pe_queue := []\<rparr>"

definition send_response :: "'v publish_response \<Rightarrow> ('v, 'r) engine \<Rightarrow> ('v, 'r) engine result" where
  "send_response r e =
     rbind (assert_js (pendingPublishRequestCount e > 0)) (\<lambda>_.
     rbind (assert_js (pr_subscriptionId r \<noteq> 0xffffff)) (\<lambda>_.
       case pe_queue e of
         [] \<Rightarrow> Inr e
       | pd # q \<Rightarrow> Inr (e\<lparr>pe_queue := q, pe_responses := pe_responses e @
           [(pd_request pd, PublishResponse (r\<lparr>pr_results := pd_results pd\<rparr>))]\<rparr>)))"

definition timeout_filter :: "int \<Rightarrow> publish_data \<Rightarrow> bool" where
  "timeout_filter now pd \<longleftrightarrow> rq_timeoutHint (pd_request pd) \<noteq> 0 \<and>
     pd_serverTimeWhenReceived pd + int (rq_timeoutHint (pd_request pd)) < now"

definition cancelTimeoutRequests :: "int \<Rightarrow> ('v, 'r) engine \<Rightarrow> ('v, 'r) engine" where
  "cancelTimeoutRequests now e =
     (if pe_queue e = [] then e
      else let (invalid, valid) = partition (timeout_filter now) (pe_queue e)
           in fold (send_error_for_request BadTimeout) invalid (e\<lparr>pe_queue := valid\<rparr>))"

definition handle_too_many_requests :: "('v, 'r) engine \<Rightarrow> ('v, 'r) engine result" where
  "handle_too_many_requests e =
     (if pendingPublishRequestCount e > pe_maxPublishRequestInQueue e then
        rbind (assert_js (pendingPublishRequestCount e = pe_maxPublishRequestInQueue e + 1)) (\<lambda>_.
          case pe_queue e of
            [] \<Rightarrow> Inr e
          | pd # q \<Rightarrow> Inr (send_error_for_request BadTooManyPublishRequests pd (e\<lparr>pe_queue := q\<rparr>)))
      else Inr e)"

definition send_keep_alive_response :: "nat \<Rightarrow> nat \<Rightarrow> ('v, 'r) engine \<Rightarrow> (bool \<times> ('v, 'r) engine) result" where
  "send_keep_alive_response subscriptionId future_sequence_number e =
     (case getSubscriptionById e subscriptionId of
        None \<Rightarrow> Inr (False, e)
      | Some s \<Rightarrow>
          if pendingPublishRequestCount e = 0 \<or> hasPendingNotifications s then Inr (False, e)
          else rbind (send_response
              \<lparr>pr_subscriptionId = subscriptionId, pr_availableSequenceNumbers = getAvailableSequenceNumbers s,
               pr_moreNotifications = False,
               pr_notificationMessage = \<lparr>nm_sequenceNumber = future_sequence_number, nm_notificationData = []\<rparr>,
               pr_results = []\<rparr> e)
            (\<lambda>e1. Inr (True, e1)))"

section \<open>Publishing\<close>

definition count_published :: "'v notification_data list \<Rightarrow> subscription_diagnostics \<Rightarrow> subscription_diagnostics" where
  "count_published ds d = (let d1 = updateCounters ds d in d1\<lparr>sd_publishRequestCount := sd_publishRequestCount d1 + 1\<rparr>)"

definition publish_pending_notifications ::
    "('v, 'r) subscription \<Rightarrow> ('v, 'r) engine \<Rightarrow> (('v, 'r) subscription \<times> ('v, 'r) engine) result" where
  "publish_pending_notifications s e =
     rbind (assert_js (pendingPublishRequestCount e > 0)) (\<lambda>_.
     rbind (assert_js (hasPendingNotifications s)) (\<lambda>_.
     rbind (popNotificationToSend s) (\<lambda>(ds, s1).
       if ds = [] then Inr (s1, e) else
       let (n, g) = seq_next (pe_generators e (sub_id s));
           msg = \<lparr>nm_sequenceNumber = n, nm_notificationData = ds\<rparr>;
           s2 = s1\<lparr>sub_diagnostics := count_published ds (sub_diagnostics s1), sub_sent := sub_sent s1 @ [msg]\<rparr>;
           available = getAvailableSequenceNumbers s2
       in
       rbind (assert_js (last available = n)) (\<lambda>_.
       rbind (send_response
           \<lparr>pr_subscriptionId = sub_id s, pr_availableSequenceNumbers = available,
            pr_moreNotifications = hasPendingNotifications s1, pr_notificationMessage = msg, pr_results = []\<rparr>
           (e\<lparr>pe_generators := (pe_generators e)(sub_id s := g)\<rparr>))
         (\<lambda>e1.
            let s3 = s2\<lparr>sub_messageSent := True, sub_diagnostics := (sub_diagnostics s2)\<lparr>
                  sd_unacknowledgedMessageCount := sd_unacknowledgedMessageCount (sub_diagnostics s2) + 1\<rparr>\<rparr>;
                s4 = resetLifeTimeAndKeepAliveCounters s3
            in Inr (if sub_state s4 \<noteq> SsClosed then s4\<lparr>sub_state := SsNormal\<rparr> else s4, e1))))))"

text \<open>\<^verbatim>\<open>TransferredSubscription._publish_pending_notifications\<close>.\<close>

definition publish_transferred ::
    "nat \<Rightarrow> status_code option \<Rightarrow> ('v, 'r) engine \<Rightarrow> (status_code option \<times> ('v, 'r) engine) result" where
  "publish_transferred i pending e =
     (case pending of
        None \<Rightarrow> Inl (ThrownError ''Internal Error: no pending notification'')
      | Some st \<Rightarrow>
          (let (n, g) = seq_next (pe_generators e i) in
           rbind (send_response
               \<lparr>pr_subscriptionId = i, pr_availableSequenceNumbers = [n], pr_moreNotifications = False,
                pr_notificationMessage = \<lparr>nm_sequenceNumber = n, nm_notificationData = [StatusChangeNotification st]\<rparr>,
                pr_results = []\<rparr>
               (e\<lparr>pe_generators := (pe_generators e)(i := g)\<rparr>))
             (\<lambda>e1. Inr (None, e1))))"

fun closed_id :: "('v, 'r) closed_entry \<Rightarrow> nat" where
  "closed_id (ClosedSubscription s) = sub_id s"
| "closed_id (TransferredSubscription i p) = i"

fun closed_hasPending :: "('v, 'r) closed_entry \<Rightarrow> bool" where
  "closed_hasPending (ClosedSubscription s) = hasPendingNotifications s"
| "closed_hasPending (TransferredSubscription i p) = (p \<noteq> None)"

fun closed_publish ::
    "('v, 'r) closed_entry \<Rightarrow> ('v, 'r) engine \<Rightarrow> (('v, 'r) closed_entry \<times> ('v, 'r) engine) result" where
  "closed_publish (ClosedSubscription s) e =
     rbind (publish_pending_notifications s e) (\<lambda>(s1, e1). Inr (ClosedSubscription s1, e1))"
| "closed_publish (TransferredSubscription i p) e =
     rbind (publish_transferred i p e) (\<lambda>(p1, e1). Inr (TransferredSubscription i p1, e1))"

text \<open>\<^verbatim>\<open>dispose\<close> asserts that the items are gone and the timer is stopped.\<close>

definition sub_dispose :: "('v, 'r) subscription \<Rightarrow> unit result" where
  "sub_dispose s = rbind (assert_js (monitoredItemCount s = 0)) (\<lambda>_. assert_js (\<not> sub_timer s))"

fun closed_dispose :: "('v, 'r) closed_entry \<Rightarrow> unit result" where
  "closed_dispose (ClosedSubscription s) = sub_dispose s"
| "closed_dispose (TransferredSubscription i p) = Inr ()"

definition feed_closed_subscription :: "('v, 'r) engine \<Rightarrow> (bool \<times> ('v, 'r) engine) result" where
  "feed_closed_subscription e =
     (if pendingPublishRequestCount e = 0 then Inr (False, e)
      else case pe_closed e of
        [] \<Rightarrow> Inr (False, e)
      | c # cs \<Rightarrow>
          rbind (assert_js (closed_hasPending c)) (\<lambda>_.
          rbind (closed_publish c e) (\<lambda>(c1, e1).
            if \<not> closed_hasPending c1
            then rbind (closed_dispose c1) (\<lambda>_. Inr (True, e1\<lparr>pe_closed := cs\<rparr>))
            else Inr (True, e1\<lparr>pe_closed := c1 # cs\<rparr>))))"

text \<open>
  The loop of \<^verbatim>\<open>on_close_subscription\<close>. Every turn but the last answers a request, so as many turns as
  there are requests, and one, are enough; running out of them is an error of its own.
\<close>

fun feed_closed_loop :: "nat \<Rightarrow> ('v, 'r) engine \<Rightarrow> ('v, 'r) engine result" where
  "feed_closed_loop 0 e = Inl (ThrownError ''endless loop'')"
| "feed_closed_loop (Suc fuel) e =
     rbind (feed_closed_subscription e) (\<lambda>(again, e1). if again then feed_closed_loop fuel e1 else Inr e1)"

definition on_close_subscription :: "('v, 'r) subscription \<Rightarrow> ('v, 'r) engine \<Rightarrow> ('v, 'r) engine result" where
  "on_close_subscription s e =
     rbind (if hasPendingNotifications s then Inr (e\<lparr>pe_closed := pe_closed e @ [ClosedSubscription s]\<rparr>)
            else rbind (sub_dispose s) (\<lambda>_. Inr e)) (\<lambda>e1.
     let e2 = e1\<lparr>pe_subscriptions := filter (\<lambda>(i, _). i \<noteq> sub_id s) (pe_subscriptions e1)\<rparr> in
     rbind (feed_closed_loop (Suc (length (pe_queue e2))) e2) (\<lambda>e3.
       if subscriptionCount e3 = 0 \<and> pe_closed e3 = []
       then Inr (cancelPendingPublishRequest_with BadNoSubscription e3)
       else Inr e3))"

definition terminate ::
    "(nat \<Rightarrow> 'e item_node option) \<Rightarrow> ('v, 'r) subscription \<Rightarrow> ('v, 'r) engine \<Rightarrow> ('v, 'r) engine result" where
  "terminate nodes s e =
     (if sub_state s = SsClosed then Inr e
      else rbind (remove_items nodes (map fst (sub_items s)) (stop_timer s)) (\<lambda>s1.
           rbind (assert_js (monitoredItemCount s1 = 0)) (\<lambda>_.
             on_close_subscription (s1\<lparr>sub_state := SsClosed\<rparr>)
               (e\<lparr>pe_totalMonitoredItemCount := pe_totalMonitoredItemCount e - length (sub_items s)\<rparr>))))"

section \<open>Keep-alive and the publishing cycle\<close>

definition process_keepAlive ::
    "('v, 'r) subscription \<Rightarrow> ('v, 'r) engine \<Rightarrow> (('v, 'r) subscription \<times> ('v, 'r) engine) result" where
  "process_keepAlive s e =
     (let s1 = increaseKeepAliveCounter s in
      if keepAliveCounterHasExpired s1 then
        rbind (send_keep_alive_response (sub_id s1) (seq_future (pe_generators e (sub_id s1))) (put_sub s1 e))
          (\<lambda>(sent, e1).
            if sent then Inr (resetLifeTimeAndKeepAliveCounters
                (s1\<lparr>sub_messageSent := True, sub_state := SsKeepAlive\<rparr>), e1)
            else if sub_messageSent s1 \<or> keepAliveCounterHasExpired s1 then Inr (s1\<lparr>sub_state := SsLate\<rparr>, e1)
            else Inr (s1, e1))
      else Inr (s1, e))"

text \<open>Notifications are collected from the items only when none is pending.\<close>

definition collect ::
    "(nat \<Rightarrow> 'e item_node option) \<Rightarrow> ('v, 'r) subscription \<Rightarrow> ('v, 'r) subscription" where
  "collect nodes s =
     (if hasPendingNotifications s then s
      else let (uncollected, s1) = hasUncollectedMonitoredItemNotifications s
           in if uncollected then harvestMonitoredItems nodes s1 else s1)"

definition process_subscription ::
    "(nat \<Rightarrow> 'e item_node option) \<Rightarrow> ('v, 'r) subscription \<Rightarrow> ('v, 'r) engine \<Rightarrow>
     (('v, 'r) subscription \<times> ('v, 'r) engine) result" where
  "process_subscription nodes s e =
     rbind (assert_js (pendingPublishRequestCount e > 0)) (\<lambda>_.
       if \<not> sub_publishingEnabled s then process_keepAlive s e
       else let s1 = collect nodes s in
         if hasPendingNotifications s1 then
           rbind (publish_pending_notifications s1 e) (\<lambda>(s2, e2).
             if sub_state s2 = SsNormal \<or> (sub_state s2 = SsLate \<and> hasPendingNotifications s2)
             then Inr (s2, e2\<lparr>pe_tasks := pe_tasks e2 @ [Tick (sub_id s2)]\<rparr>) else Inr (s2, e2))
         else process_keepAlive s1 e)"

text \<open>What \<^verbatim>\<open>_tick\<close> does once the subscription is known to be alive.\<close>

definition tick_alive ::
    "(nat \<Rightarrow> 'e item_node option) \<Rightarrow> ('v, 'r) subscription \<Rightarrow> ('v, 'r) engine \<Rightarrow>
     (('v, 'r) subscription \<times> ('v, 'r) engine) result" where
  "tick_alive nodes s e =
     (if pendingPublishRequestCount e = 0 then
        (if hasPendingNotifications s then Inr (s\<lparr>sub_state := SsLate\<rparr>, e)
         else let (uncollected, s1) = hasUncollectedMonitoredItemNotifications s in
           if uncollected then Inr (s1\<lparr>sub_state := SsLate\<rparr>, e)
           else if sub_state s1 \<noteq> SsLate then process_keepAlive s1 e
           else Inr (resetKeepAliveCounter s1, e))
      else if hasPendingNotifications s then process_subscription nodes s e
      else let (uncollected, s1) = hasUncollectedMonitoredItemNotifications s in
        if uncollected then process_subscription nodes s1 e else process_keepAlive s1 e)"

definition age :: "('v, 'r) subscription \<Rightarrow> ('v, 'r) subscription" where
  "age s = (let s1 = s\<lparr>sub_publishIntervalCount := sub_publishIntervalCount s + 1\<rparr>
            in if sub_state s1 = SsLate then increaseLifeTimeCounter s1 else s1)"

definition tick ::
    "(nat \<Rightarrow> 'e item_node option) \<Rightarrow> int \<Rightarrow> nat \<Rightarrow> ('v, 'r) engine \<Rightarrow> ('v, 'r) engine result" where
  "tick nodes now i e =
     (case getSubscriptionById e i of
        None \<Rightarrow> Inr e
      | Some s \<Rightarrow>
          if sub_state s = SsClosed then Inr e
          else
            let s1 = age (discardOldSentNotifications s); e1 = cancelTimeoutRequests now (put_sub s1 e) in
            rbind (lifeTimeHasExpired s1) (\<lambda>expired.
              if expired then terminate nodes (addNotificationMessage (StatusChange bad_timeout) None s1) e1
              else rbind (tick_alive nodes s1 e1) (\<lambda>(s2, e2). Inr (put_sub s2 e2))))"

section \<open>Requests and subscriptions\<close>

fun process_subscriptionAcknowledgements ::
    "(nat \<times> nat) list \<Rightarrow> ('v, 'r) engine \<Rightarrow> ack_status list \<times> ('v, 'r) engine" where
  "process_subscriptionAcknowledgements [] e = ([], e)"
| "process_subscriptionAcknowledgements ((i, n) # acks) e =
     (case getSubscriptionById e i of
        None \<Rightarrow> (let (rs, e1) = process_subscriptionAcknowledgements acks e in (AckBadSubscriptionIdInvalid # rs, e1))
      | Some s \<Rightarrow>
          (let (s1, r) = acknowledgeNotification n s;
               (rs, e1) = process_subscriptionAcknowledgements acks (put_sub s1 e)
           in (r # rs, e1)))"

definition first_closed_hasPending :: "('v, 'r) engine \<Rightarrow> bool" where
  "first_closed_hasPending e = (case pe_closed e of [] \<Rightarrow> False | c # _ \<Rightarrow> closed_hasPending c)"

definition on_PublishRequest :: "int \<Rightarrow> publish_request \<Rightarrow> ('v, 'r) engine \<Rightarrow> ('v, 'r) engine result" where
  "on_PublishRequest now rq e0 =
     (let (results, e) = process_subscriptionAcknowledgements (rq_subscriptionAcknowledgements rq) e0;
          pd = \<lparr>pd_request = rq, pd_results = results, pd_serverTimeWhenReceived = now\<rparr>
      in
      if pe_isSessionClosed e then Inr (send_error_for_request BadSessionClosed pd e)
      else if subscriptionCount e = 0 then
        (if first_closed_hasPending e
         then rbind (feed_closed_subscription (e\<lparr>pe_queue := pe_queue e @ [pd]\<rparr>)) (\<lambda>(_, e1). Inr e1)
         else Inr (send_error_for_request BadNoSubscription pd e))
      else
        rbind (feed_closed_subscription (e\<lparr>pe_queue := pe_queue e @ [pd]\<rparr>)) (\<lambda>(_, e1).
          handle_too_many_requests (e1\<lparr>pe_tasks := pe_tasks e1 @ [FeedLate]\<rparr>)))"

definition findLateSubscriptions :: "('v, 'r) engine \<Rightarrow> ('v, 'r) subscription list" where
  "findLateSubscriptions e =
     filter (\<lambda>s. (sub_state s = SsLate \<or> \<not> sub_messageSent s) \<and> sub_publishingEnabled s)
       (map snd (pe_subscriptions e))"

definition hasLateSubscriptions :: "('v, 'r) engine \<Rightarrow> bool" where
  "hasLateSubscriptions e \<longleftrightarrow> findLateSubscriptions e \<noteq> []"

definition compare_subscriptions :: "('v, 'r) subscription \<Rightarrow> ('v, 'r) subscription \<Rightarrow> int" where
  "compare_subscriptions s1 s2 =
     (if sub_priority s1 = sub_priority s2
      then if timeToExpiration s1 < timeToExpiration s2 then 1 else 0
      else if sub_priority s1 > sub_priority s2 then 1 else 0)"

definition find_starving_subscription ::
    "((('v, 'r) subscription \<Rightarrow> ('v, 'r) subscription \<Rightarrow> int) \<Rightarrow> ('v, 'r) subscription list \<Rightarrow>
      ('v, 'r) subscription list) \<Rightarrow> ('v, 'r) engine \<Rightarrow> ('v, 'r) subscription option" where
  "find_starving_subscription js_sort e =
     (let late = findLateSubscriptions e
      in if late = [] then None else Some (last (js_sort compare_subscriptions late)))"

definition feed_late_subscription ::
    "('v, 'r, 'e) engine_env \<Rightarrow> ('v, 'r) engine \<Rightarrow> ('v, 'r) engine result" where
  "feed_late_subscription env e =
     (if pendingPublishRequestCount e = 0 then Inr e
      else case find_starving_subscription (ev_sort env) e of
        None \<Rightarrow> Inr e
      | Some s \<Rightarrow> rbind (process_subscription (ev_nodes env) s e) (\<lambda>(s1, e1). Inr (put_sub s1 e1)))"

fun insert_by_id :: "nat \<Rightarrow> 'a \<Rightarrow> (nat \<times> 'a) list \<Rightarrow> (nat \<times> 'a) list" where
  "insert_by_id i x [] = [(i, x)]"
| "insert_by_id i x ((j, y) # ys) =
     (if i < j then (i, x) # (j, y) # ys else (j, y) # insert_by_id i x ys)"

definition add_subscription :: "('v, 'r) subscription \<Rightarrow> ('v, 'r) engine \<Rightarrow> ('v, 'r) engine result" where
  "add_subscription s e =
     rbind (assert_js (getSubscriptionById e (sub_id s) = None)) (\<lambda>_.
       Inr (e\<lparr>pe_subscriptions := insert_by_id (sub_id s) s (pe_subscriptions e)\<rparr>))"

definition detach_subscription :: "nat \<Rightarrow> ('v, 'r) engine \<Rightarrow> (('v, 'r) subscription \<times> ('v, 'r) engine) result" where
  "detach_subscription i e =
     (case getSubscriptionById e i of
        None \<Rightarrow> Inl AssertionError
      | Some s \<Rightarrow> Inr (s, e\<lparr>pe_subscriptions := filter (\<lambda>(j, _). j \<noteq> i) (pe_subscriptions e)\<rparr>))"

definition onSessionClose :: "('v, 'r) engine \<Rightarrow> ('v, 'r) engine" where
  "onSessionClose e = cancelPendingPublishRequest_with BadSessionClosed (e\<lparr>pe_isSessionClosed := True\<rparr>)"

definition cancelPendingPublishRequestBeforeChannelChange :: "('v, 'r) engine \<Rightarrow> ('v, 'r) engine" where
  "cancelPendingPublishRequestBeforeChannelChange e = cancelPendingPublishRequest_with BadSecureChannelClosed e"

fun terminate_all ::
    "(nat \<Rightarrow> 'e item_node option) \<Rightarrow> ('v, 'r) subscription list \<Rightarrow> ('v, 'r) engine \<Rightarrow> ('v, 'r) engine result" where
  "terminate_all nodes [] e = Inr e"
| "terminate_all nodes (s # ss) e = rbind (terminate nodes s e) (terminate_all nodes ss)"

fun dispose_all :: "('v, 'r) closed_entry list \<Rightarrow> unit result" where
  "dispose_all [] = Inr ()"
| "dispose_all (c # cs) = rbind (closed_dispose c) (\<lambda>_. dispose_all cs)"

definition pe_shutdown :: "(nat \<Rightarrow> 'e item_node option) \<Rightarrow> ('v, 'r) engine \<Rightarrow> ('v, 'r) engine result" where
  "pe_shutdown nodes e =
     rbind (terminate_all nodes (map snd (pe_subscriptions e)) e) (\<lambda>e1.
     rbind (assert_js (subscriptionCount e1 = 0)) (\<lambda>_.
     rbind (dispose_all (pe_closed e1)) (\<lambda>_.
       Inr (e1\<lparr>pe_queue := [], pe_closed := []\<rparr>))))"

section \<open>Transfer between sessions\<close>

definition purge_dangling_subscription :: "nat \<Rightarrow> ('v, 'r) engine \<Rightarrow> ('v, 'r) engine" where
  "purge_dangling_subscription i e = e\<lparr>pe_closed := filter (\<lambda>c. closed_id c \<noteq> i) (pe_closed e)\<rparr>"

text \<open>\<^verbatim>\<open>Subscription.notifyTransfer\<close>, on the engine the subscription leaves.\<close>

definition notifyTransfer ::
    "('v, 'r) subscription \<Rightarrow> ('v, 'r) engine \<Rightarrow> (('v, 'r) subscription \<times> ('v, 'r) engine) result" where
  "notifyTransfer s e =
     (if pendingPublishRequestCount e > 0
      then publish_pending_notifications
             (addNotificationMessage (StatusChange good_subscription_transferred) None s) e
      else Inr (s, e\<lparr>pe_closed := pe_closed e @
             [TransferredSubscription (sub_id s) (Some good_subscription_transferred)]\<rparr>))"

text \<open>
  \<^verbatim>\<open>transferSubscription\<close> from \<open>src\<close> to \<open>dest\<close>. The generator moves with the
  subscription; the \<^verbatim>\<open>TransferredSubscription\<close> left in \<open>src\<close> shares it, so a run of both engines
  keeps their entries for \<open>i\<close> equal. \<open>resend\<close> is what \<^verbatim>\<open>resendInitialValues\<close> does, the identity
  when the client does not ask for it. A tick that the subscription has already scheduled runs on its
  new engine.
\<close>

definition transferSubscription ::
    "(('v, 'r) subscription \<Rightarrow> ('v, 'r) subscription) \<Rightarrow> nat \<Rightarrow> ('v, 'r) engine \<Rightarrow> ('v, 'r) engine \<Rightarrow>
     (('v, 'r) engine \<times> ('v, 'r) engine) result" where
  "transferSubscription resend i src dest =
     rbind (assert_js (getSubscriptionById dest i = None)) (\<lambda>_.
     case getSubscriptionById src i of
       None \<Rightarrow> Inl AssertionError
     | Some s \<Rightarrow>
         (let dest1 = purge_dangling_subscription i dest in
          rbind (notifyTransfer s src) (\<lambda>(s1, src1).
          rbind (detach_subscription i (put_sub s1 src1)) (\<lambda>(s2, src2).
          rbind (add_subscription (resend (resetLifeTimeCounter s2))
              (dest1\<lparr>pe_generators := (pe_generators dest1)(i := pe_generators src2 i),
                 pe_tasks := pe_tasks dest1 @ filter (\<lambda>t. t = Tick i) (pe_tasks src2)\<rparr>)) (\<lambda>dest2.
            Inr (src2\<lparr>pe_tasks := filter (\<lambda>t. t \<noteq> Tick i) (pe_tasks src2)\<rparr>, dest2))))))"

text \<open>\<^verbatim>\<open>transferSubscriptionsToOrphan\<close> moves every subscription, in the order of the ids.\<close>

fun transfer_all ::
    "nat list \<Rightarrow> ('v, 'r) engine \<Rightarrow> ('v, 'r) engine \<Rightarrow> (('v, 'r) engine \<times> ('v, 'r) engine) result" where
  "transfer_all [] src dest = Inr (src, dest)"
| "transfer_all (i # is) src dest =
     rbind (transferSubscription (\<lambda>s. s) i src dest) (\<lambda>(src1, dest1). transfer_all is src1 dest1)"

definition transferSubscriptionsToOrphan ::
    "('v, 'r) engine \<Rightarrow> ('v, 'r) engine \<Rightarrow> (('v, 'r) engine \<times> ('v, 'r) engine) result" where
  "transferSubscriptionsToOrphan src dest =
     rbind (transfer_all (map fst (pe_subscriptions src)) src dest) (\<lambda>(src1, dest1).
     rbind (assert_js (subscriptionCount src1 = 0)) (\<lambda>_. Inr (src1, dest1)))"

definition pe_dispose :: "('v, 'r) engine \<Rightarrow> ('v, 'r) engine result" where
  "pe_dispose e =
     rbind (assert_js (subscriptionCount e = 0)) (\<lambda>_.
     rbind (assert_js (pe_closed e = [])) (\<lambda>_. Inr (e\<lparr>pe_subscriptions := [], pe_closed := []\<rparr>)))"

section \<open>The engine as a machine\<close>

text \<open>
  The events of one session's engine: a publish request, a timer, the next \<^verbatim>\<open>setImmediate\<close> callback,
  and the services that create, delete, change or feed a subscription. \<open>Items_changed\<close> stands for
  whatever sampling and the monitored item services do to the items: the new ones take the place of the old, and the
  pending notifications of every item that has gone are purged, as \<^verbatim>\<open>removeMonitoredItem\<close> does for each.
  \<^verbatim>\<open>TransferSubscriptions\<close> takes two engines and is none of these events; the theory
  \<open>Engine_Transfer\<close> has it.
\<close>

definition replace_items ::
    "(nat \<times> ('v, 'r) monitored_item) list \<Rightarrow> ('v, 'r) subscription \<Rightarrow> ('v, 'r) subscription" where
  "replace_items items s =
     fold removePendingNotificationsFor (filter (\<lambda>i. i \<notin> set (map fst items)) (map fst (sub_items s)))
       (s\<lparr>sub_items := items\<rparr>)"

lemma purge_pending:
  "\<exists>p. fold removePendingNotificationsFor is s = s\<lparr>sub_pending := p\<rparr> \<and> (queue_ok (sub_pending s) \<longrightarrow> queue_ok p)"
proof (induction "is" arbitrary: s)
  case Nil
  show ?case by (rule exI [of _ "sub_pending s"]) simp
next
  case (Cons i "is")
  from Cons [of "removePendingNotificationsFor i s"] show ?case
    using nq.filterOut_ok [of "sub_pending s"] by (auto simp: removePendingNotificationsFor_def)
qed

lemma replace_items_pending:
  obtains p where "replace_items items s = s\<lparr>sub_items := items, sub_pending := p\<rparr>"
    "queue_ok (sub_pending s) \<Longrightarrow> queue_ok p"
proof -
  from purge_pending [of "filter (\<lambda>i. i \<notin> set (map fst items)) (map fst (sub_items s))" "s\<lparr>sub_items := items\<rparr>"]
  show thesis using that by (auto simp: replace_items_def)
qed

lemma replace_items_same:
  "set (map fst (sub_items s)) \<subseteq> set (map fst items) \<Longrightarrow> replace_items items s = s\<lparr>sub_items := items\<rparr>"
proof -
  assume "set (map fst (sub_items s)) \<subseteq> set (map fst items)"
  then have "filter (\<lambda>i. i \<notin> set (map fst items)) (map fst (sub_items s)) = []"
    by (simp only: filter_empty_conv) blast
  then show ?thesis by (simp only: replace_items_def fold_simps)
qed

datatype ('v, 'r) event =
    Publish_received publish_request int
  | Timer_fired nat int
  | Run_task int
  | Subscribe subscription_options
  | Unsubscribe nat
  | Set_publishing_mode nat bool
  | Modify_subscription nat modify_parameters
  | Items_changed nat "(nat \<times> ('v, 'r) monitored_item) list"
  | Session_closed
  | Channel_changed

definition on_sub ::
    "nat \<Rightarrow> (('v, 'r) subscription \<Rightarrow> ('v, 'r) subscription result) \<Rightarrow> ('v, 'r) engine \<Rightarrow> ('v, 'r) engine result" where
  "on_sub i f e = (case getSubscriptionById e i of None \<Rightarrow> Inr e
     | Some s \<Rightarrow> rbind (f s) (\<lambda>s1. Inr (put_sub s1 e)))"

fun engine_step :: "('v, 'r, 'e) engine_env \<Rightarrow> ('v, 'r) engine \<Rightarrow> ('v, 'r) event \<Rightarrow> ('v, 'r) engine result" where
  "engine_step env e (Publish_received rq now) = on_PublishRequest now rq e"
| "engine_step env e (Timer_fired i now) = tick (ev_nodes env) now i e"
| "engine_step env e (Run_task now) =
     (case pe_tasks e of
        [] \<Rightarrow> Inr e
      | FeedLate # ts \<Rightarrow> feed_late_subscription env (e\<lparr>pe_tasks := ts\<rparr>)
      | Tick i # ts \<Rightarrow> tick (ev_nodes env) now i (e\<lparr>pe_tasks := ts\<rparr>))"
| "engine_step env e (Subscribe o1) =
     rbind (new_subscription o1) (\<lambda>s.
       add_subscription s (e\<lparr>pe_generators := (pe_generators e)(sub_id s := new_generator)\<rparr>))"
| "engine_step env e (Unsubscribe i) =
     (case getSubscriptionById e i of None \<Rightarrow> Inr e | Some s \<Rightarrow> terminate (ev_nodes env) s e)"
| "engine_step env e (Set_publishing_mode i b) = on_sub i (\<lambda>s. Inr (setPublishingMode b s)) e"
| "engine_step env e (Modify_subscription i p) = on_sub i (sub_modify p) e"
| "engine_step env e (Items_changed i items) = on_sub i (\<lambda>s. Inr (replace_items items s)) e"
| "engine_step env e Session_closed = Inr (onSessionClose e)"
| "engine_step env e Channel_changed = Inr (cancelPendingPublishRequestBeforeChannelChange e)"

end
