(* ===== verification/Engine_Publishing.thy ===== *)
theory Engine_Publishing
  imports Publish_Engine
begin

text \<open>
  What one publishing step does. A subscription that is fit to publish (\<open>publishable\<close>) turns a queued
  request into exactly one answer: a message with the front batch of its pending notifications and the
  next sequence number, or a keep-alive with the number that comes next.
\<close>

definition publishable :: "('v, 'r) subscription \<Rightarrow> bool" where
  "publishable s \<longleftrightarrow> queue_ok (sub_pending s) \<and> 1 \<le> sub_maxNotificationsPerPublish s \<and> sub_id s \<noteq> 0xffffff"

lemma hasPending_list:
  "queue_ok (sub_pending s) \<Longrightarrow> hasPendingNotifications s \<longleftrightarrow> pending_list s \<noteq> []"
  by (simp add: hasPendingNotifications_def pendingNotificationsCount_def pending_list_def queue_values_def queue_ok_def)

lemma batch_nonempty: "ns \<noteq> [] \<Longrightarrow> 1 \<le> m \<Longrightarrow> batch m ns \<noteq> []"
proof -
  assume "ns \<noteq> []" "1 \<le> m"
  then obtain n ns' m' where n: "ns = n # ns'" "m = Suc m'" by (cases ns; cases m) auto
  show ?thesis
  proof (cases n)
    case (StatusChange c)
    then show ?thesis by (simp add: batch_def n)
  next
    case (ItemNotification i)
    then show ?thesis by (cases i) (simp_all add: batch_def n notification_data_of_def)
  qed
qed

text \<open>The answer to the oldest request.\<close>

definition answer :: "'v publish_response \<Rightarrow> ('v, 'r) engine \<Rightarrow> ('v, 'r) engine" where
  "answer r e = e\<lparr>pe_queue := tl (pe_queue e), pe_responses := pe_responses e @
     [(pd_request (hd (pe_queue e)), PublishResponse (r\<lparr>pr_results := pd_results (hd (pe_queue e))\<rparr>))]\<rparr>"

lemma send_response_answers:
  "pe_queue e \<noteq> [] \<Longrightarrow> pr_subscriptionId r \<noteq> 0xffffff \<Longrightarrow> send_response r e = Inr (answer r e)"
  by (cases "pe_queue e") (simp_all add: send_response_def pendingPublishRequestCount_def answer_def)

lemma answer_keeps [simp]:
  "pe_subscriptions (answer r e) = pe_subscriptions e" "pe_closed (answer r e) = pe_closed e"
  "pe_maxPublishRequestInQueue (answer r e) = pe_maxPublishRequestInQueue e"
  "pe_queue (answer r e) = tl (pe_queue e)" "pe_tasks (answer r e) = pe_tasks e"
  "pe_isSessionClosed (answer r e) = pe_isSessionClosed e" "pe_generators (answer r e) = pe_generators e"
  by (simp_all add: answer_def)

definition advance :: "nat \<Rightarrow> ('v, 'r) engine \<Rightarrow> ('v, 'r) engine" where
  "advance i e = e\<lparr>pe_generators := (pe_generators e)(i := snd (seq_next (pe_generators e i)))\<rparr>"

lemma advance_keeps [simp]:
  "pe_subscriptions (advance i e) = pe_subscriptions e" "pe_closed (advance i e) = pe_closed e"
  "pe_maxPublishRequestInQueue (advance i e) = pe_maxPublishRequestInQueue e"
  "pe_queue (advance i e) = pe_queue e" "pe_tasks (advance i e) = pe_tasks e"
  "pe_isSessionClosed (advance i e) = pe_isSessionClosed e" "pe_responses (advance i e) = pe_responses e"
  by (simp_all add: advance_def)

lemma seq_next_fst [simp]: "fst (seq_next g) = g"
  by (simp add: seq_next_def Let_def)

lemma publish_answers:
  assumes ok: "publishable s" and pending: "hasPendingNotifications s" and q: "pe_queue e \<noteq> []"
  obtains p d sent st r where
    "publish_pending_notifications s e =
       Inr (s\<lparr>sub_pending := p, sub_diagnostics := d, sub_sent := sent, sub_messageSent := True,
         sub_life_time_counter := 0, sub_keep_alive_counter := 0, sub_state := st\<rparr>, answer r (advance (sub_id s) e))"
    and "queue_ok p"
    and "map in_notification (queue_values p) = left_over (sub_maxNotificationsPerPublish s) (pending_list s)"
    and "sent = sub_sent s @ [pr_notificationMessage r]"
    and "pr_subscriptionId r = sub_id s" and "pr_availableSequenceNumbers r = map nm_sequenceNumber sent"
    and "pr_notificationMessage r = \<lparr>nm_sequenceNumber = pe_generators e (sub_id s),
       nm_notificationData = batch (sub_maxNotificationsPerPublish s) (pending_list s)\<rparr>"
    and "nm_notificationData (pr_notificationMessage r) \<noteq> []"
    and "pr_moreNotifications r = (q_size p > 0)"
    and "st = (if sub_state s = SsClosed then SsClosed else SsNormal)"
proof -
  have pl: "pending_list s \<noteq> []" using ok pending by (simp add: publishable_def hasPending_list)
  obtain p where pop: "popNotificationToSend s =
      Inr (batch (sub_maxNotificationsPerPublish s) (pending_list s), s\<lparr>sub_pending := p\<rparr>)"
    and p: "queue_ok p" "map in_notification (queue_values p) = left_over (sub_maxNotificationsPerPublish s) (pending_list s)"
    using pop_batch[of s] ok pl by (auto simp: publishable_def)
  define ds where "ds = batch (sub_maxNotificationsPerPublish s) (pending_list s)"
  define g where "g = pe_generators e (sub_id s)"
  define msg where "msg = \<lparr>nm_sequenceNumber = g, nm_notificationData = ds\<rparr>"
  define r where "r = \<lparr>pr_subscriptionId = sub_id s,
    pr_availableSequenceNumbers = map nm_sequenceNumber (sub_sent s @ [msg]),
    pr_moreNotifications = q_size p > 0, pr_notificationMessage = msg, pr_results = []\<rparr>"
  have ds: "ds \<noteq> []" using batch_nonempty[OF pl] ok by (simp add: ds_def publishable_def)
  obtain g' where g': "seq_next g = (g, g')" by (metis seq_next_fst prod.collapse)
  have sr: "send_response r (advance (sub_id s) e) = Inr (answer r (advance (sub_id s) e))"
    using q ok by (intro send_response_answers) (simp_all add: r_def publishable_def)
  have adv: "advance (sub_id s) e = e\<lparr>pe_generators := (pe_generators e)(sub_id s := g')\<rparr>"
    by (simp add: advance_def g_def[symmetric] g')
  have mg: "nm_sequenceNumber msg = g" by (simp add: msg_def)
  have eq: "publish_pending_notifications s e =
       Inr (s\<lparr>sub_pending := p,
         sub_diagnostics := (count_published ds (sub_diagnostics s))\<lparr>sd_unacknowledgedMessageCount :=
           sd_unacknowledgedMessageCount (count_published ds (sub_diagnostics s)) + 1\<rparr>,
         sub_sent := sub_sent s @ [pr_notificationMessage r], sub_messageSent := True,
         sub_life_time_counter := 0, sub_keep_alive_counter := 0,
         sub_state := (if sub_state s = SsClosed then SsClosed else SsNormal)\<rparr>, answer r (advance (sub_id s) e))"
    using q pending ds sr mg
    by (simp add: publish_pending_notifications_def pop ds_def[symmetric] g_def[symmetric] g' Let_def
        getAvailableSequenceNumbers_def pendingPublishRequestCount_def adv msg_def[symmetric]
        hasPendingNotifications_def pendingNotificationsCount_def r_def
        resetLifeTimeAndKeepAliveCounters_def resetKeepAliveCounter_def resetLifeTimeCounter_def)
  show thesis
    by (rule that[OF eq p refl _ _ _ _ _ refl]) (simp_all add: r_def msg_def g_def ds_def[symmetric] ds)
qed

end
