(* ===== verification/Engine_Frame.thy ===== *)
theory Engine_Frame
  imports Engine_Publishing
begin

text \<open>
  Facts about the requests and the answers of an engine are proved once, for every operation, under the
  contract \<open>engine_frame\<close>: the property ignores the subscriptions, the closed entries and the tasks,
  and survives the three elementary steps by which the code takes requests off the queue, an error for
  some of them, a message with the next sequence number, a keep-alive that announces it.
\<close>

lemma fold_send_error:
  "fold (send_error_for_request st) pds e =
     e\<lparr>pe_responses := pe_responses e @ map (\<lambda>pd. (pd_request pd, ServiceFault st)) pds\<rparr>"
  by (induction pds arbitrary: e) (simp_all add: send_error_for_request_def)

text \<open>The requests \<open>pds\<close> leave the queue, which becomes \<open>q\<close>, with a service fault.\<close>

definition refuse :: "fault \<Rightarrow> publish_data list \<Rightarrow> publish_data list \<Rightarrow> ('v, 'r) engine \<Rightarrow> ('v, 'r) engine" where
  "refuse st pds q e = e\<lparr>pe_queue := q,
     pe_responses := pe_responses e @ map (\<lambda>pd. (pd_request pd, ServiceFault st)) pds\<rparr>"

lemma send_error_refuse: "send_error_for_request st pd (e\<lparr>pe_queue := q\<rparr>) = refuse st [pd] q e"
  by (simp add: send_error_for_request_def refuse_def)

lemma cancel_refuse: "cancelPendingPublishRequest_with st e = refuse st (pe_queue e) [] e"
  by (simp add: cancelPendingPublishRequest_with_def fold_send_error refuse_def)

lemma cancelTimeout_refuse:
  "cancelTimeoutRequests now e = refuse BadTimeout (filter (timeout_filter now) (pe_queue e))
     (filter (\<lambda>pd. \<not> timeout_filter now pd) (pe_queue e)) e"
  by (cases "pe_queue e = []")
    (simp_all add: cancelTimeoutRequests_def fold_send_error refuse_def Let_def partition_filter_conv comp_def)

lemma mset_filter_partition: "mset (filter p xs) + mset (filter (\<lambda>x. \<not> p x) xs) = mset xs"
  by (metis add.commute mset_filter multiset_partition)

lemma send_response_inv:
  assumes "send_response r e = Inr e'"
  shows "pe_queue e \<noteq> [] \<and> e' = answer r e"
  using assms by (auto simp: send_response_def answer_def pendingPublishRequestCount_def split: list.splits)

lemma keep_alive_inv:
  assumes "send_keep_alive_response i n e = Inr (b, e')"
  shows "if b then pe_queue e \<noteq> [] \<and> (\<exists>r. e' = answer r e \<and> pr_subscriptionId r = i \<and>
      pr_notificationMessage r = \<lparr>nm_sequenceNumber = n, nm_notificationData = []\<rparr>) else e' = e"
  using assms
  by (auto simp: send_keep_alive_response_def split: option.splits if_splits dest!: send_response_inv)


lemma publish_inv:
  assumes "publish_pending_notifications s e = Inr (s', e')"
  shows "e' = e \<or> pe_queue e \<noteq> [] \<and> (\<exists>r. e' = answer r (advance (sub_id s) e) \<and> pr_subscriptionId r = sub_id s \<and>
      nm_sequenceNumber (pr_notificationMessage r) = pe_generators e (sub_id s) \<and>
      nm_notificationData (pr_notificationMessage r) \<noteq> [])"
proof -
  obtain n g where g: "seq_next (pe_generators e (sub_id s)) = (n, g)" by force
  then have n: "n = pe_generators e (sub_id s)" by (metis fst_conv seq_next_fst)
  show ?thesis
    using assms g[unfolded n]
    by (auto simp: publish_pending_notifications_def Let_def advance_def split: prod.splits if_splits
        dest!: send_response_inv)
qed

lemma publish_transferred_inv:
  assumes "publish_transferred i p e = Inr (p', e')"
  shows "pe_queue e \<noteq> [] \<and> (\<exists>r. e' = answer r (advance i e) \<and> pr_subscriptionId r = i \<and>
      nm_sequenceNumber (pr_notificationMessage r) = pe_generators e i \<and>
      nm_notificationData (pr_notificationMessage r) \<noteq> [])"
proof -
  obtain n g where g: "seq_next (pe_generators e i) = (n, g)" by force
  then have n: "n = pe_generators e i" by (metis fst_conv seq_next_fst)
  show ?thesis
    using assms g[unfolded n]
    by (auto simp: publish_transferred_def Let_def advance_def split: option.splits prod.splits
        dest!: send_response_inv)
qed

lemma acks_only_subscriptions:
  obtains subs where "snd (process_subscriptionAcknowledgements acks e) = e\<lparr>pe_subscriptions := subs\<rparr>"
proof -
  have "\<exists>subs. snd (process_subscriptionAcknowledgements acks e) = e\<lparr>pe_subscriptions := subs\<rparr>"
  proof (induction acks arbitrary: e)
    case Nil
    then show ?case by (auto intro: exI[of _ "pe_subscriptions e"])
  next
    case (Cons a acks)
    obtain i n where a: "a = (i, n)" by force
    show ?case
    proof (cases "getSubscriptionById e i")
      case None
      with Cons.IH[of e] show ?thesis by (cases "process_subscriptionAcknowledgements acks e") (auto simp: a)
    next
      case (Some s)
      obtain s1 r where r: "acknowledgeNotification n s = (s1, r)" by force
      with Some Cons.IH[of "put_sub s1 e"] show ?thesis
        by (cases "process_subscriptionAcknowledgements acks (put_sub s1 e)") (auto simp: a put_sub_def)
    qed
  qed
  with that show thesis by blast
qed

locale engine_frame =
  fixes P :: "('v, 'r) engine \<Rightarrow> bool"
  assumes subscriptions: "P (e\<lparr>pe_subscriptions := x\<rparr>) \<longleftrightarrow> P e"
    and closed: "P (e\<lparr>pe_closed := c\<rparr>) \<longleftrightarrow> P e"
    and tasks: "P (e\<lparr>pe_tasks := t\<rparr>) \<longleftrightarrow> P e"
    and total_items: "P (e\<lparr>pe_totalMonitoredItemCount := n\<rparr>) \<longleftrightarrow> P e"
    and session: "P (e\<lparr>pe_isSessionClosed := b\<rparr>) \<longleftrightarrow> P e"
    and refused: "P e \<Longrightarrow> mset (pe_queue e) = mset pds + mset q \<Longrightarrow> P (refuse st pds q e)"
    and published: "P e \<Longrightarrow> pe_queue e \<noteq> [] \<Longrightarrow>
      nm_sequenceNumber (pr_notificationMessage r) = pe_generators e (pr_subscriptionId r) \<Longrightarrow>
      nm_notificationData (pr_notificationMessage r) \<noteq> [] \<Longrightarrow> P (answer r (advance (pr_subscriptionId r) e))"
    and kept_alive: "P e \<Longrightarrow> pe_queue e \<noteq> [] \<Longrightarrow>
      nm_sequenceNumber (pr_notificationMessage r) = pe_generators e (pr_subscriptionId r) \<Longrightarrow>
      nm_notificationData (pr_notificationMessage r) = [] \<Longrightarrow> P (answer r e)"
begin

lemmas ignores = subscriptions closed tasks total_items session

lemma put_sub: "P (put_sub s e) \<longleftrightarrow> P e"
  by (simp add: put_sub_def ignores)

lemma cancel: "P e \<Longrightarrow> P (cancelPendingPublishRequest_with st e)"
  by (simp add: cancel_refuse refused)

lemma timeouts: "P e \<Longrightarrow> P (cancelTimeoutRequests now e)"
  unfolding cancelTimeout_refuse by (intro refused) (simp_all only: mset_filter_partition)

lemma too_many: "handle_too_many_requests e = Inr e' \<Longrightarrow> P e \<Longrightarrow> P e'"
  by (auto simp: handle_too_many_requests_def send_error_refuse split: list.splits if_splits
      intro!: refused)

lemma keep_alive:
  assumes "send_keep_alive_response i (pe_generators e i) e = Inr (b, e')" and "P e"
  shows "P e'"
  using keep_alive_inv[OF assms(1)] assms(2) kept_alive[of e] by (cases b) auto

lemma publish:
  assumes "publish_pending_notifications s e = Inr (s', e')" and "P e"
  shows "P e'"
  using publish_inv[OF assms(1)] published[OF assms(2)] assms(2) by metis

lemma transferred:
  assumes "publish_transferred i p e = Inr (p', e')" and "P e"
  shows "P e'"
  using publish_transferred_inv[OF assms(1)] published[OF assms(2)] by metis

lemma closed_publish: "closed_publish c e = Inr (c', e') \<Longrightarrow> P e \<Longrightarrow> P e'"
  by (cases c) (auto dest: publish transferred)

lemma feed_closed: "feed_closed_subscription e = Inr (b, e') \<Longrightarrow> P e \<Longrightarrow> P e'"
  by (auto simp: feed_closed_subscription_def ignores split: list.splits if_splits dest: closed_publish)

lemma feed_loop: "feed_closed_loop n e = Inr e' \<Longrightarrow> P e \<Longrightarrow> P e'"
proof (induction n arbitrary: e)
  case (Suc n)
  then show ?case by (auto split: if_splits dest: feed_closed)
qed simp

lemma on_close: "on_close_subscription s e = Inr e' \<Longrightarrow> P e \<Longrightarrow> P e'"
  by (auto simp: on_close_subscription_def Let_def ignores simp del: feed_closed_loop.simps split: if_splits
      intro!: cancel dest!: feed_loop)

lemma terminated: "terminate nodes s e = Inr e' \<Longrightarrow> P e \<Longrightarrow> P e'"
  by (auto simp: terminate_def ignores split: if_splits dest!: on_close)

lemma keepAlive:
  assumes "process_keepAlive s e = Inr (s', e')" and "P e"
  shows "P e'"
proof -
  define s1 where "s1 = increaseKeepAliveCounter s"
  have "sub_id s1 = sub_id s" by (simp add: s1_def increaseKeepAliveCounter_def)
  moreover have "pe_generators (Publish_Engine.put_sub s1 e) = pe_generators e" by (simp add: put_sub_def)
  ultimately show ?thesis
    using assms keep_alive[of "sub_id s1" "Publish_Engine.put_sub s1 e"]
    by (auto simp: process_keepAlive_def s1_def[symmetric] Let_def seq_future_def put_sub split: if_splits)
qed

lemma subscription_processed:
  "process_subscription nodes s e = Inr (s', e') \<Longrightarrow> P e \<Longrightarrow> P e'"
  by (auto simp: process_subscription_def Let_def ignores split: if_splits dest!: publish keepAlive)

lemma ticked_alive: "tick_alive nodes s e = Inr (s', e') \<Longrightarrow> P e \<Longrightarrow> P e'"
  by (auto simp: tick_alive_def Let_def split: if_splits prod.splits dest: subscription_processed keepAlive)

lemma ticked: "tick nodes now i e = Inr e' \<Longrightarrow> P e \<Longrightarrow> P e'"
  by (auto simp: tick_def Let_def put_sub timeouts split: option.splits if_splits
      dest!: ticked_alive terminated)

lemma acknowledged: "P e \<Longrightarrow> P (snd (process_subscriptionAcknowledgements acks e))"
  by (rule acks_only_subscriptions[of acks e]) (simp add: ignores)

lemma fed_late: "feed_late_subscription env e = Inr e' \<Longrightarrow> P e \<Longrightarrow> P e'"
  by (auto simp: feed_late_subscription_def put_sub split: option.splits if_splits dest: subscription_processed)

lemma on_subscription: "on_sub i f e = Inr e' \<Longrightarrow> P e \<Longrightarrow> P e'"
  by (auto simp: on_sub_def put_sub split: option.splits)

text \<open>A request that is refused on arrival might as well have been queued first.\<close>

lemma received:
  assumes run: "on_PublishRequest now rq e = Inr e'"
    and queued: "\<And>pd. pd_request pd = rq \<Longrightarrow> P (e\<lparr>pe_queue := pe_queue e @ [pd]\<rparr>)"
  shows "P e'"
proof -
  obtain rs e1 where ra: "process_subscriptionAcknowledgements (rq_subscriptionAcknowledgements rq) e = (rs, e1)"
    by force
  obtain subs where e1: "e1 = e\<lparr>pe_subscriptions := subs\<rparr>"
    by (rule acks_only_subscriptions[of "rq_subscriptionAcknowledgements rq" e]) (simp add: ra)
  define pd where "pd = \<lparr>pd_request = rq, pd_results = rs, pd_serverTimeWhenReceived = now\<rparr>"
  define e2 where "e2 = e1\<lparr>pe_queue := pe_queue e1 @ [pd]\<rparr>"
  have "e2 = (e\<lparr>pe_queue := pe_queue e @ [pd]\<rparr>)\<lparr>pe_subscriptions := subs\<rparr>" by (simp add: e2_def e1)
  then have P2: "P e2" using queued[of pd] by (simp add: ignores pd_def)
  have "send_error_for_request st pd e1 = refuse st [pd] (pe_queue e1) e2" for st
    by (simp add: send_error_for_request_def refuse_def e2_def)
  moreover have "P (refuse st [pd] (pe_queue e1) e2)" for st
    by (rule refused[OF P2]) (simp add: e2_def)
  ultimately show ?thesis
    using run P2
    by (auto simp: on_PublishRequest_def ra pd_def[symmetric] Let_def e2_def[symmetric] ignores split: if_splits
        dest!: feed_closed too_many)
qed

lemma step:
  assumes "engine_step env e ev = Inr e'" and "P e"
    and "\<And>rq now pd. ev = Publish_received rq now \<Longrightarrow> pd_request pd = rq \<Longrightarrow> P (e\<lparr>pe_queue := pe_queue e @ [pd]\<rparr>)"
    and "\<And>o1. ev = Subscribe o1 \<Longrightarrow> P (e\<lparr>pe_generators := (pe_generators e)(so_id o1 := new_generator)\<rparr>)"
  shows "P e'"
proof (cases ev)
  case (Publish_received rq now)
  then show ?thesis using assms received[of now rq e e'] by simp
next
  case (Subscribe o1)
  then show ?thesis
    using assms(1) assms(4)[OF Subscribe]
    by (auto simp: add_subscription_def ignores new_subscription_def start_timer_def Let_def)
next
  case (Run_task now)
  with assms(1,2) show ?thesis by (auto simp: ignores split: list.splits task.splits dest!: fed_late ticked)
qed (use assms(1,2) in \<open>auto simp: onSessionClose_def cancelPendingPublishRequestBeforeChannelChange_def ignores cancel
    split: option.splits dest!: ticked terminated on_subscription\<close>)

end

end
