(* ===== verification/Engine_Requests.thy ===== *)
theory Engine_Requests
  imports Engine_Frame
begin

text \<open>
  Runs of the engine of a session, and what holds of the requests and the answers in every one of them:
  no publish request is lost or answered twice, and the messages of a subscription carry consecutive
  sequence numbers. Both are instances of \<open>engine_frame\<close>.
\<close>

section \<open>Runs\<close>

fun answers_for :: "nat \<Rightarrow> 'v response \<Rightarrow> bool" where
  "answers_for i (ServiceFault st) = False"
| "answers_for i (PublishResponse r) = (pr_subscriptionId r = i)"

text \<open>
  The server gives every new subscription an id that was never used before; the items of a
  subscription are distinct objects with distinct ids. A run is a history of the engine of one session in which no
  subscription is transferred to it or away from it; \<open>Engine_Transfer\<close> says what a transfer does.
\<close>

definition fresh_id :: "nat \<Rightarrow> ('v, 'r) engine \<Rightarrow> bool" where
  "fresh_id i e \<longleftrightarrow> getSubscriptionById e i = None \<and> (\<forall>c \<in> set (pe_closed e). closed_id c \<noteq> i) \<and>
     (\<forall>a \<in> set (pe_responses e). \<not> answers_for i (snd a))"

fun allowed :: "('v, 'r) engine \<Rightarrow> ('v, 'r) event \<Rightarrow> bool" where
  "allowed e (Subscribe o1) = (so_id o1 \<noteq> 0xffffff \<and> fresh_id (so_id o1) e)"
| "allowed e (Items_changed i items) = distinct (map fst items)"
| "allowed e ev = True"

inductive runs :: "('v, 'r, 'e) engine_env \<Rightarrow> ('v, 'r) event list \<Rightarrow> ('v, 'r) engine \<Rightarrow> bool" for env where
  runs_start: "runs env [] (new_publish_engine n)"
| runs_step: "runs env evs e \<Longrightarrow> allowed e ev \<Longrightarrow> engine_step env e ev = Inr e' \<Longrightarrow> runs env (evs @ [ev]) e'"

fun engine_run :: "('v, 'r, 'e) engine_env \<Rightarrow> ('v, 'r) engine \<Rightarrow> ('v, 'r) event list \<Rightarrow> ('v, 'r) engine result" where
  "engine_run env e [] = Inr e"
| "engine_run env e (ev # evs) = rbind (engine_step env e ev) (\<lambda>e1. engine_run env e1 evs)"

fun allowed_run :: "('v, 'r, 'e) engine_env \<Rightarrow> ('v, 'r) engine \<Rightarrow> ('v, 'r) event list \<Rightarrow> bool" where
  "allowed_run env e [] = True"
| "allowed_run env e (ev # evs) \<longleftrightarrow> allowed e ev \<and>
     (case engine_step env e ev of Inl _ \<Rightarrow> False | Inr e1 \<Rightarrow> allowed_run env e1 evs)"

lemma runs_more:
  "runs env evs e \<Longrightarrow> allowed_run env e evs2 \<Longrightarrow> engine_run env e evs2 = Inr e' \<Longrightarrow> runs env (evs @ evs2) e'"
proof (induction evs2 arbitrary: evs e)
  case (Cons ev evs2)
  then obtain e1 where e1: "engine_step env e ev = Inr e1" "allowed e ev" "allowed_run env e1 evs2"
    "engine_run env e1 evs2 = Inr e'"
    by auto
  from Cons.IH[OF runs_step[OF Cons.prems(1) e1(2,1)] e1(3,4)] show ?case by simp
qed simp

section \<open>Every request is answered at most once and none is lost\<close>

definition accounted :: "('v, 'r) engine \<Rightarrow> publish_request multiset" where
  "accounted e = mset (map fst (pe_responses e)) + mset (map pd_request (pe_queue e))"

lemma accounted_refuse:
  assumes "mset (pe_queue e) = mset pds + mset q"
  shows "accounted (refuse st pds q e) = accounted e"
proof -
  have "mset (map pd_request (pe_queue e)) = mset (map pd_request pds) + mset (map pd_request q)"
    by (simp add: assms)
  then show ?thesis by (simp add: accounted_def refuse_def comp_def del: mset_map)
qed

lemma accounted_answer: "pe_queue e \<noteq> [] \<Longrightarrow> accounted (answer r e) = accounted e"
  by (cases "pe_queue e") (simp_all add: accounted_def answer_def)

interpretation acc: engine_frame "\<lambda>e. accounted e = M" for M
proof
  fix e :: "('v, 'r) engine" and r
  assume "accounted e = M" "pe_queue e \<noteq> []"
  then show "accounted (answer r (advance (pr_subscriptionId r) e)) = M"
    using accounted_answer[of "advance (pr_subscriptionId r) e" r] by (simp add: accounted_def)
qed (simp_all add: accounted_refuse accounted_answer, simp_all add: accounted_def)

fun requests_of :: "('v, 'r) event list \<Rightarrow> publish_request multiset" where
  "requests_of [] = {#}"
| "requests_of (Publish_received rq now # evs) = add_mset rq (requests_of evs)"
| "requests_of (ev # evs) = requests_of evs"

lemma requests_of_append: "requests_of (xs @ ys) = requests_of xs + requests_of ys"
  by (induction xs rule: requests_of.induct) simp_all

lemma step_accounted:
  assumes "engine_step env e ev = Inr e'"
  shows "accounted e' = accounted e + requests_of [ev]"
proof (cases ev)
  case (Publish_received rq now)
  then show ?thesis
    using assms acc.received[of now rq e e' "accounted e + {#rq#}"] by (simp add: accounted_def)
qed (use acc.step[OF assms, of "accounted e"] in \<open>simp_all add: accounted_def\<close>)

text \<open>C15: Whatever happens to a session - requests, ticks, timeouts, subscriptions created, changed, closed or
  starving, the session or its channel closing - the publish requests received are exactly those that
  have been answered and those that wait in the queue: none is lost and none is answered twice.\<close>

theorem requests_answered_once:
  assumes "runs env evs e"
  shows "requests_of evs = mset (map fst (pe_responses e)) + mset (map pd_request (pe_queue e))"
  using assms
proof (induction rule: runs.induct)
  case (runs_start n)
  then show ?case by (simp add: new_publish_engine_def)
next
  case (runs_step evs e ev e')
  then show ?case using step_accounted[of env e ev e'] by (simp add: requests_of_append accounted_def)
qed

section \<open>Sequence numbers of the messages\<close>

text \<open>
  Replaying the answers a client gets for one subscription: every message must carry the expected
  number; one with notifications uses it up, a keep-alive only announces it.
\<close>

fun replay :: "nat \<Rightarrow> nat \<Rightarrow> (publish_request \<times> 'v response) list \<Rightarrow> nat option" where
  "replay i g [] = Some g"
| "replay i g ((rq, ServiceFault st) # as) = replay i g as"
| "replay i g ((rq, PublishResponse r) # as) =
     (if pr_subscriptionId r \<noteq> i then replay i g as
      else if nm_sequenceNumber (pr_notificationMessage r) \<noteq> g then None
      else replay i (if nm_notificationData (pr_notificationMessage r) = [] then g else snd (seq_next g)) as)"

lemma replay_append:
  "replay i g (xs @ ys) = (case replay i g xs of None \<Rightarrow> None | Some g' \<Rightarrow> replay i g' ys)"
  by (induction i g xs rule: replay.induct) simp_all

lemma replay_faults [simp]: "replay i g (map (\<lambda>pd. (f pd, ServiceFault st)) pds) = Some g"
  by (induction pds) simp_all

lemma replay_others: "\<forall>a \<in> set as. \<not> answers_for i (snd a) \<Longrightarrow> replay i g as = Some g"
  by (induction i g as rule: replay.induct) auto

definition numbered :: "('v, 'r) engine \<Rightarrow> bool" where
  "numbered e \<longleftrightarrow> (\<forall>i. replay i new_generator (pe_responses e) = Some (pe_generators e i))"

interpretation num: engine_frame numbered
  by unfold_locales (auto simp: numbered_def refuse_def answer_def advance_def replay_append)

lemma runs_numbered: "runs env evs e \<Longrightarrow> numbered e"
proof (induction rule: runs.induct)
  case (runs_start n)
  then show ?case by (simp add: numbered_def new_publish_engine_def)
next
  case (runs_step evs e ev e')
  show ?case
  proof (rule num.step[OF runs_step.hyps(3) runs_step.IH])
    fix pd :: publish_data
    show "numbered (e\<lparr>pe_queue := pe_queue e @ [pd]\<rparr>)" using runs_step.IH by (simp add: numbered_def)
  next
    fix o1
    assume "ev = Subscribe o1"
    then have "replay (so_id o1) new_generator (pe_responses e) = Some new_generator"
      using runs_step.hyps(2) by (intro replay_others) (simp add: fresh_id_def)
    then show "numbered (e\<lparr>pe_generators := (pe_generators e)(so_id o1 := new_generator)\<rparr>)"
      using runs_step.IH by (simp add: numbered_def)
  qed
qed

text \<open>C18: In every run, the messages a client receives for a subscription are numbered consecutively from 1
  (wrapping after the generator's maximum), whatever the other subscriptions, the timeouts and the
  closing of the subscription do: replaying all answers never meets an unexpected number, a keep-alive
  carries the number of the message to come, and the next number is the one the generator holds.\<close>

theorem messages_numbered:
  assumes "runs env evs e"
  shows "replay i 1 (pe_responses e) = Some (pe_generators e i)"
  using runs_numbered[OF assms] by (simp add: numbered_def new_generator_def)

section \<open>A run\<close>

definition example_node :: "unit item_node" where
  "example_node = \<lparr>nd_semantic_version = 0, nd_euRange = None, nd_minimumSamplingInterval = 0, nd_is_variable = True\<rparr>"

definition example_env :: "(int, unit, unit) engine_env" where
  "example_env = \<lparr>ev_nodes = (\<lambda>_. Some example_node), ev_sort = (\<lambda>c xs. xs)\<rparr>"

definition example_publish :: "nat \<Rightarrow> publish_request" where
  "example_publish h = \<lparr>rq_requestHandle = h, rq_timeoutHint = 0, rq_subscriptionAcknowledgements = []\<rparr>"

definition example_events :: "(int, unit) event list" where
  "example_events = [Subscribe example_options, Publish_received (example_publish 7) 0, Run_task 0,
     Publish_received (example_publish 8) 5]"

definition example_engine :: "(int, unit) engine" where
  "example_engine = \<lparr>pe_maxPublishRequestInQueue = 1, pe_isSessionClosed = False,
     pe_queue = [\<lparr>pd_request = example_publish 8, pd_results = [], pd_serverTimeWhenReceived = 5\<rparr>],
     pe_subscriptions = [(1, example_subscription\<lparr>sub_keep_alive_counter := 0, sub_messageSent := True,
       sub_state := SsKeepAlive\<rparr>)],
     pe_closed = [],
     pe_responses = [(example_publish 7, PublishResponse \<lparr>pr_subscriptionId = 1, pr_availableSequenceNumbers = [],
       pr_moreNotifications = False, pr_notificationMessage = \<lparr>nm_sequenceNumber = 1, nm_notificationData = []\<rparr>,
       pr_results = []\<rparr>)],
     pe_tasks = [FeedLate], pe_generators = (\<lambda>_. new_generator), pe_totalMonitoredItemCount = 0\<rparr>"

lemmas engine_defs = new_publish_engine_def add_subscription_def getSubscriptionById_def on_PublishRequest_def
  subscriptionCount_def feed_closed_subscription_def pendingPublishRequestCount_def handle_too_many_requests_def
  feed_late_subscription_def find_starving_subscription_def findLateSubscriptions_def process_subscription_def
  collect_def hasPendingNotifications_def pendingNotificationsCount_def new_queue_def
  hasUncollectedMonitoredItemNotifications_def process_keepAlive_def increaseKeepAliveCounter_def
  keepAliveCounterHasExpired_def send_keep_alive_response_def put_sub_def send_response_def
  getAvailableSequenceNumbers_def Let_def resetLifeTimeAndKeepAliveCounters_def resetKeepAliveCounter_def
  resetLifeTimeCounter_def seq_future_def new_generator_def

lemma example_options_id: "so_id example_options = 1"
  by (simp add: example_options_def)

lemmas example_simps = example_events_def example_env_def example_subscription_created example_publish_def
  example_subscription_def example_engine_def example_options_id fresh_id_def engine_defs replace_items_same

lemma example_run: "engine_run example_env (new_publish_engine 1) example_events = Inr example_engine"
  by (simp add: example_simps) (simp add: fun_eq_iff)

lemma example_allowed: "allowed_run example_env (new_publish_engine 1) example_events"
  by (simp add: example_simps)

lemma example_reached: "runs example_env example_events example_engine"
  using runs_more[OF runs_start example_allowed example_run] by simp

theorem requests_answered_once_witness:
  "requests_of example_events = {# example_publish 7, example_publish 8 #}"
  using requests_answered_once[OF example_reached] by (simp add: example_engine_def)

theorem messages_numbered_witness: "replay 1 1 (pe_responses example_engine) = Some 1"
  using messages_numbered[OF example_reached, of 1] by (simp add: example_engine_def new_generator_def)

end
