(* ===== verification/Engine_Invariant.thy ===== *)
theory Engine_Invariant
  imports Engine_Requests
begin

text \<open>
  The invariant of the engine of a session, kept by every step, and what follows from it: no assertion of
  the code ever fails, the queue of requests never exceeds its limit, and no request waits while a
  closed subscription still owes a notification.
\<close>

section \<open>The invariant\<close>

definition sub_ok :: "nat \<Rightarrow> ('v, 'r) subscription \<Rightarrow> bool" where
  "sub_ok i s \<longleftrightarrow> sub_id s = i \<and> i \<noteq> 0xffffff \<and> queue_ok (sub_pending s) \<and> revised s \<and>
     sub_state s \<noteq> SsClosed \<and> distinct (map fst (sub_items s))"

fun closed_ok :: "('v, 'r) closed_entry \<Rightarrow> bool" where
  "closed_ok (ClosedSubscription s) \<longleftrightarrow> publishable s \<and> hasPendingNotifications s \<and> sub_items s = [] \<and> \<not> sub_timer s"
| "closed_ok (TransferredSubscription i p) \<longleftrightarrow> i \<noteq> 0xffffff \<and> p \<noteq> None"

definition subs_ok :: "(nat \<times> ('v, 'r) subscription) list \<Rightarrow> bool" where
  "subs_ok xs \<longleftrightarrow> distinct (map fst xs) \<and> (\<forall>(i, s) \<in> set xs. sub_ok i s)"

definition engine_ok :: "('v, 'r) engine \<Rightarrow> bool" where
  "engine_ok e \<longleftrightarrow> subs_ok (pe_subscriptions e) \<and> (\<forall>c \<in> set (pe_closed e). closed_ok c)
   \<and> (pe_closed e \<noteq> [] \<longrightarrow> pe_queue e = [])
   \<and> (pe_subscriptions e = [] \<longrightarrow> pe_queue e = [])
   \<and> length (pe_queue e) \<le> pe_maxPublishRequestInQueue e \<and> 0 < pe_maxPublishRequestInQueue e"

definition env_ok :: "('v, 'r, 'e) engine_env \<Rightarrow> bool" where
  "env_ok env \<longleftrightarrow> (\<forall>i. ev_nodes env i \<noteq> None) \<and> (\<forall>c xs. set (ev_sort env c xs) = set xs)"

lemma sub_ok_publishable: "sub_ok i s \<Longrightarrow> publishable s"
  by (simp add: sub_ok_def publishable_def revised_def)

lemma subs_ok_lookup: "subs_ok xs \<Longrightarrow> map_of xs i = Some s \<Longrightarrow> sub_ok i s"
  by (auto simp: subs_ok_def dest: map_of_SomeD)

lemma put_ids: "map fst (map (\<lambda>(i, x). if i = j then (i, s) else (i, x)) xs) = map fst xs"
  by (induction xs) auto

lemma subs_ok_put:
  assumes "subs_ok xs" and "sub_ok (sub_id s) s"
  shows "subs_ok (map (\<lambda>(i, x). if i = sub_id s then (i, s) else (i, x)) xs)"
  using assms unfolding subs_ok_def put_ids by (auto split: if_splits)

lemma engine_ok_put:
  "engine_ok e \<Longrightarrow> sub_ok (sub_id s) s \<Longrightarrow> engine_ok (put_sub s e)"
  by (auto simp: engine_ok_def put_sub_def subs_ok_put)

lemma map_of_put:
  "map_of (map (\<lambda>(i, x). if i = j then (i, s) else (i, x)) xs) k =
     (if k = j then (if map_of xs j = None then None else Some s) else map_of xs k)"
  by (induction xs) auto

lemma get_put_sub [simp]:
  "getSubscriptionById (put_sub s e) i =
     (if i = sub_id s then (if getSubscriptionById e i = None then None else Some s) else getSubscriptionById e i)"
  by (auto simp: getSubscriptionById_def put_sub_def map_of_put)

lemma put_sub_keeps [simp]:
  "pe_queue (put_sub s e) = pe_queue e" "pe_closed (put_sub s e) = pe_closed e"
  "pe_maxPublishRequestInQueue (put_sub s e) = pe_maxPublishRequestInQueue e"
  "pe_responses (put_sub s e) = pe_responses e" "pe_tasks (put_sub s e) = pe_tasks e"
  "pe_generators (put_sub s e) = pe_generators e" "pe_isSessionClosed (put_sub s e) = pe_isSessionClosed e"
  "map fst (pe_subscriptions (put_sub s e)) = map fst (pe_subscriptions e)"
  by (simp_all add: put_sub_def put_ids del: map_map)

lemma put_sub_empty [simp]: "pe_subscriptions (put_sub s e) = [] \<longleftrightarrow> pe_subscriptions e = []"
  by (simp add: put_sub_def)

text \<open>Taking requests off the queue keeps the invariant, whatever else is recorded.\<close>

definition settles :: "('v, 'r) engine \<Rightarrow> ('v, 'r) engine \<Rightarrow> bool" where
  "settles e e' \<longleftrightarrow> pe_subscriptions e' = pe_subscriptions e \<and> pe_closed e' = pe_closed e \<and>
     pe_maxPublishRequestInQueue e' = pe_maxPublishRequestInQueue e \<and> length (pe_queue e') \<le> length (pe_queue e)"

lemma settles_refl [simp]: "settles e e"
  by (simp add: settles_def)

lemma settles_trans: "settles e e1 \<Longrightarrow> settles e1 e2 \<Longrightarrow> settles e e2"
  by (auto simp: settles_def)

lemma settles_answer [simp]: "settles e (answer r (advance i e))" "settles e (answer r e)"
  by (simp_all add: settles_def)

lemma engine_ok_settles: "engine_ok e \<Longrightarrow> settles e e' \<Longrightarrow> engine_ok e'"
  by (fastforce simp: engine_ok_def settles_def)

lemma engine_ok_timeouts: "engine_ok e \<Longrightarrow> engine_ok (cancelTimeoutRequests now e)"
  by (rule engine_ok_settles) (auto simp: cancelTimeout_refuse refuse_def settles_def)

lemma engine_ok_cancel: "engine_ok e \<Longrightarrow> engine_ok (cancelPendingPublishRequest_with st e)"
  by (rule engine_ok_settles) (auto simp: cancel_refuse refuse_def settles_def)

section \<open>Closed subscriptions\<close>

lemma closed_publish_ok:
  fixes e :: "('v, 'r) engine"
  assumes "closed_ok c" and "pe_queue e \<noteq> []"
  obtains c' e' where "closed_publish c e = Inr (c', e')" and "closed_hasPending c' \<longrightarrow> closed_ok c'"
    and "closed_dispose c' = Inr ()" and "closed_id c' = closed_id c" and "settles e e'"
    and "length (pe_queue e) = Suc (length (pe_queue e'))"
proof (cases c)
  case (ClosedSubscription s)
  with assms have s: "publishable s" "hasPendingNotifications s" "sub_items s = []" "\<not> sub_timer s" by auto
  obtain p d sent st r where eq: "publish_pending_notifications s e =
       Inr (s\<lparr>sub_pending := p, sub_diagnostics := d, sub_sent := sent, sub_messageSent := True,
         sub_life_time_counter := 0, sub_keep_alive_counter := 0, sub_state := st\<rparr>, answer r (advance (sub_id s) e))"
    and p: "queue_ok p"
    using publish_answers[OF s(1,2) assms(2)] by metis
  show thesis
    by (rule that[of "ClosedSubscription (s\<lparr>sub_pending := p, sub_diagnostics := d, sub_sent := sent,
        sub_messageSent := True, sub_life_time_counter := 0, sub_keep_alive_counter := 0, sub_state := st\<rparr>)"
        "answer r (advance (sub_id s) e)"])
      (use s p assms(2) in \<open>auto simp: ClosedSubscription eq publishable_def sub_dispose_def monitoredItemCount_def
        Suc_diff_1\<close>)
next
  case (TransferredSubscription i p)
  with assms(1) obtain st where i: "i \<noteq> 0xffffff" "p = Some st" by auto
  obtain g where g: "seq_next (pe_generators e i) = (pe_generators e i, g)" by (metis prod.collapse seq_next_fst)
  define r :: "'v publish_response" where "r = \<lparr>pr_subscriptionId = i, pr_availableSequenceNumbers = [pe_generators e i],
    pr_moreNotifications = False, pr_notificationMessage =
      \<lparr>nm_sequenceNumber = pe_generators e i, nm_notificationData = [StatusChangeNotification st]\<rparr>, pr_results = []\<rparr>"
  have "send_response r (advance i e) = Inr (answer r (advance i e))"
    using i(1) assms(2) by (intro send_response_answers) (simp_all add: r_def)
  then have "publish_transferred i p e = Inr (None, answer r (advance i e))"
    by (simp add: publish_transferred_def i(2) g r_def advance_def)
  then show thesis
    using assms(2)
    by (intro that[of "TransferredSubscription i None" "answer r (advance i e)"])
      (simp_all add: TransferredSubscription Suc_diff_1)
qed

lemma feed_closed_ok:
  assumes closed: "\<forall>c \<in> set (pe_closed e). closed_ok c"
  obtains b e' where "feed_closed_subscription e = Inr (b, e')" and "b \<longleftrightarrow> pe_queue e \<noteq> [] \<and> pe_closed e \<noteq> []"
    and "\<forall>c \<in> set (pe_closed e'). closed_ok c" and "settles e (e'\<lparr>pe_closed := pe_closed e\<rparr>)"
    and "length (pe_queue e) = (if b then Suc (length (pe_queue e')) else length (pe_queue e'))"
    and "b \<or> e' = e"
proof (cases "pe_queue e = [] \<or> pe_closed e = []")
  case True
  then show thesis
    by (intro that[of False e])
      (use closed in \<open>auto simp: feed_closed_subscription_def pendingPublishRequestCount_def settles_def\<close>)
next
  case False
  then obtain c cs where c: "pe_closed e = c # cs" "pe_queue e \<noteq> []" by (cases "pe_closed e") auto
  have ok: "closed_ok c" "\<forall>c \<in> set cs. closed_ok c" using closed c by auto
  then have pend: "closed_hasPending c" by (cases c) auto
  obtain c' e1 where c': "closed_publish c e = Inr (c', e1)" "closed_hasPending c' \<longrightarrow> closed_ok c'"
      "closed_dispose c' = Inr ()" "settles e e1" "length (pe_queue e) = Suc (length (pe_queue e1))"
    by (rule closed_publish_ok[OF ok(1) c(2)])
  define cs' where "cs' = (if closed_hasPending c' then c' # cs else cs)"
  have "feed_closed_subscription e = Inr (True, e1\<lparr>pe_closed := cs'\<rparr>)"
    using c pend c' by (simp add: feed_closed_subscription_def pendingPublishRequestCount_def cs'_def)
  then show thesis
    by (rule that[of True]) (use c c' ok in \<open>auto simp: cs'_def settles_def\<close>)
qed

lemma feed_loop_ok:
  assumes "\<forall>c \<in> set (pe_closed e). closed_ok c" and "length (pe_queue e) < n"
  obtains e' where "feed_closed_loop n e = Inr e'" and "\<forall>c \<in> set (pe_closed e'). closed_ok c"
    and "settles e (e'\<lparr>pe_closed := pe_closed e\<rparr>)" and "pe_queue e' = [] \<or> pe_closed e' = []"
proof -
  have "\<exists>e'. feed_closed_loop n e = Inr e' \<and> (\<forall>c \<in> set (pe_closed e'). closed_ok c) \<and>
      settles e (e'\<lparr>pe_closed := pe_closed e\<rparr>) \<and> (pe_queue e' = [] \<or> pe_closed e' = [])"
    using assms
  proof (induction n arbitrary: e)
    case (Suc n)
    obtain b e1 where f: "feed_closed_subscription e = Inr (b, e1)" "b \<longleftrightarrow> pe_queue e \<noteq> [] \<and> pe_closed e \<noteq> []"
        "\<forall>c \<in> set (pe_closed e1). closed_ok c" "settles e (e1\<lparr>pe_closed := pe_closed e\<rparr>)"
        "length (pe_queue e) = (if b then Suc (length (pe_queue e1)) else length (pe_queue e1))" "b \<or> e1 = e"
      by (rule feed_closed_ok[OF Suc.prems(1)])
    show ?case
    proof (cases b)
      case True
      with f Suc.prems(2) have "length (pe_queue e1) < n" by simp
      from Suc.IH[OF f(3) this] obtain e' where e': "feed_closed_loop n e1 = Inr e'"
        "\<forall>c \<in> set (pe_closed e'). closed_ok c" "settles e1 (e'\<lparr>pe_closed := pe_closed e1\<rparr>)"
        "pe_queue e' = [] \<or> pe_closed e' = []"
        by blast
      have "settles e (e'\<lparr>pe_closed := pe_closed e\<rparr>)" using f(4) e'(3) by (simp add: settles_def)
      with f(1) True e' show ?thesis by simp
    next
      case False
      then have "feed_closed_loop (Suc n) e = Inr e" using f(1,6) by simp
      moreover have "pe_queue e = [] \<or> pe_closed e = []" using f(2) False by blast
      moreover have "settles e (e\<lparr>pe_closed := pe_closed e\<rparr>)" by simp
      ultimately show ?thesis using Suc.prems(1) by blast
    qed
  qed simp
  with that show thesis by blast
qed

section \<open>Termination of a subscription\<close>

definition keeps_status :: "'v internal_notification queue \<Rightarrow> 'v internal_notification queue \<Rightarrow> bool" where
  "keeps_status q q' \<longleftrightarrow> (\<forall>n \<in> set (queue_values q). in_monitoredItemId n = None \<longrightarrow> n \<in> set (queue_values q'))"

lemma remove_items_all:
  fixes s :: "('v, 'r) subscription"
  assumes "\<forall>i. nodes i \<noteq> None" and "distinct (map fst (sub_items s))" and "queue_ok (sub_pending s)"
  obtains p where "remove_items nodes (map fst (sub_items s)) s = Inr (s\<lparr>sub_items := [], sub_pending := p\<rparr>)"
    and "queue_ok p" and "keeps_status (sub_pending s) p"
proof -
  have "\<exists>p. remove_items nodes (map fst xs) (s\<lparr>sub_items := xs\<rparr>) = Inr (s\<lparr>sub_items := [], sub_pending := p\<rparr>) \<and>
      queue_ok p \<and> keeps_status (sub_pending s) p"
    if "distinct (map fst xs)" "queue_ok (sub_pending s)" for xs and s :: "('v, 'r) subscription"
    using that
  proof (induction xs arbitrary: s)
    case Nil
    then show ?case by (auto simp: keeps_status_def intro: exI[of _ "sub_pending s"])
  next
    case (Cons x xs)
    obtain i m where x: "x = (i, m)" by force
    have "filter (\<lambda>(j, _). j \<noteq> i) xs = xs"
      using Cons.prems(1) x by (force simp: filter_id_conv)
    then have r: "removeMonitoredItem nodes i (s\<lparr>sub_items := x # xs\<rparr>) =
        Inr (removePendingNotificationsFor i (s\<lparr>sub_items := xs\<rparr>), MiGood)"
      using assms(1) by (auto simp: removeMonitoredItem_def getMonitoredItem_def x)
    define s1 where "s1 = removePendingNotificationsFor i (s\<lparr>sub_items := xs\<rparr>)"
    have ok: "queue_ok (sub_pending s1)" and ks: "keeps_status (sub_pending s) (sub_pending s1)"
      using Cons.prems(2) nq.filterOut_ok[of "sub_pending s"] nq.filterOut_view[of "sub_pending s"]
      by (simp_all add: s1_def removePendingNotificationsFor_def keeps_status_def)
    from Cons.IH[OF _ ok] Cons.prems(1) obtain p where
      p: "remove_items nodes (map fst xs) (s1\<lparr>sub_items := xs\<rparr>) = Inr (s1\<lparr>sub_items := [], sub_pending := p\<rparr>)"
        "queue_ok p" "keeps_status (sub_pending s1) p"
      by auto
    moreover have "s1\<lparr>sub_items := xs\<rparr> = s1" by (simp add: s1_def removePendingNotificationsFor_def)
    moreover have "s1\<lparr>sub_items := [], sub_pending := p\<rparr> = s\<lparr>sub_items := [], sub_pending := p\<rparr>"
      by (simp add: s1_def removePendingNotificationsFor_def)
    moreover have "keeps_status (sub_pending s) p" using ks p(3) by (simp add: keeps_status_def)
    ultimately show ?case by (auto simp: x r[unfolded x] s1_def[symmetric])
  qed
  from this[OF assms(2,3)] that show thesis by auto
qed

lemma on_close_ok:
  assumes "engine_ok e" and "publishable s" and "sub_items s = []" and "\<not> sub_timer s"
  obtains e' where "on_close_subscription s e = Inr e'" and "engine_ok e'"
    and "pe_subscriptions e' = filter (\<lambda>(i, _). i \<noteq> sub_id s) (pe_subscriptions e)"
proof -
  define c where "c = (if hasPendingNotifications s then pe_closed e @ [ClosedSubscription s] else pe_closed e)"
  define e2 where "e2 = e\<lparr>pe_closed := c, pe_subscriptions := filter (\<lambda>(i, _). i \<noteq> sub_id s) (pe_subscriptions e)\<rparr>"
  have cl: "\<forall>c \<in> set (pe_closed e2). closed_ok c"
    using assms by (auto simp: e2_def c_def engine_ok_def)
  obtain e3 where e3: "feed_closed_loop (Suc (length (pe_queue e2))) e2 = Inr e3"
    "\<forall>c \<in> set (pe_closed e3). closed_ok c" "settles e2 (e3\<lparr>pe_closed := pe_closed e2\<rparr>)"
    "pe_queue e3 = [] \<or> pe_closed e3 = []"
    by (rule feed_loop_ok[OF cl lessI])
  define e' where "e' = (if subscriptionCount e3 = 0 \<and> pe_closed e3 = []
    then cancelPendingPublishRequest_with BadNoSubscription e3 else e3)"
  have "on_close_subscription s e = Inr e'"
    using e3(1) assms(3,4)
    by (auto simp: on_close_subscription_def sub_dispose_def monitoredItemCount_def e2_def c_def e'_def Let_def
        simp del: feed_closed_loop.simps)
  moreover have "subs_ok (pe_subscriptions e2)"
    using assms(1) by (auto simp: e2_def engine_ok_def subs_ok_def distinct_map_filter)
  then have "engine_ok e'"
    using e3(2-4) assms(1)
    by (auto simp: e'_def engine_ok_def settles_def cancel_refuse refuse_def subscriptionCount_def e2_def)
  moreover have "pe_subscriptions e' = filter (\<lambda>(i, _). i \<noteq> sub_id s) (pe_subscriptions e)"
    using e3(3) by (simp add: e'_def settles_def e2_def cancel_refuse refuse_def)
  ultimately show thesis by (rule that)
qed

lemma terminate_ok:
  assumes nodes: "\<forall>i. nodes i \<noteq> None" and e: "engine_ok e" and s: "sub_ok i s"
  obtains e' where "terminate nodes s e = Inr e'" and "engine_ok e'"
    and "pe_subscriptions e' = filter (\<lambda>(j, _). j \<noteq> i) (pe_subscriptions e)"
proof -
  have "distinct (map fst (sub_items (stop_timer s)))" "queue_ok (sub_pending (stop_timer s))"
    using s by (simp_all add: sub_ok_def stop_timer_def)
  then obtain p where p: "remove_items nodes (map fst (sub_items (stop_timer s))) (stop_timer s) =
      Inr ((stop_timer s)\<lparr>sub_items := [], sub_pending := p\<rparr>)" "queue_ok p"
    by (rule remove_items_all[OF nodes])
  define s1 where "s1 = s\<lparr>sub_timer := False, sub_items := [], sub_pending := p, sub_state := SsClosed\<rparr>"
  define e1 where "e1 = e\<lparr>pe_totalMonitoredItemCount := pe_totalMonitoredItemCount e - length (sub_items s)\<rparr>"
  have "engine_ok e1" using e by (simp add: e1_def engine_ok_def)
  moreover have "publishable s1" "sub_items s1 = []" "\<not> sub_timer s1"
    using sub_ok_publishable[OF s] p(2) by (simp_all add: s1_def publishable_def)
  ultimately obtain e' where e': "on_close_subscription s1 e1 = Inr e'" "engine_ok e'"
    "pe_subscriptions e' = filter (\<lambda>(j, _). j \<noteq> sub_id s1) (pe_subscriptions e1)"
    by (rule on_close_ok)
  have "terminate nodes s e = Inr e'"
    using s p(1) e'(1) by (simp add: terminate_def sub_ok_def stop_timer_def monitoredItemCount_def s1_def e1_def)
  then show thesis
    by (rule that) (use e'(2,3) s in \<open>simp_all add: s1_def e1_def sub_ok_def\<close>)
qed

section \<open>The publishing cycle\<close>

text \<open>A step of the publishing cycle succeeds and keeps the subscription and the engine well formed.\<close>

definition works :: "nat \<Rightarrow> (('v, 'r) subscription \<times> ('v, 'r) engine) result \<Rightarrow> bool" where
  "works i m = (case m of Inl _ \<Rightarrow> False | Inr (s, e) \<Rightarrow> engine_ok e \<and> sub_ok i s)"

lemma works_simps [simp]: "works i (Inr (s, e)) \<longleftrightarrow> engine_ok e \<and> sub_ok i s" "\<not> works i (Inl x)"
  by (simp_all add: works_def)

lemma worksE:
  assumes "works i m"
  obtains s e where "m = Inr (s, e)" and "engine_ok e" and "sub_ok i s"
  using assms by (auto simp: works_def split: sum.splits)

lemma keepAlive_ok:
  assumes e: "engine_ok e" and s: "sub_ok i s"
  shows "works i (process_keepAlive s e)"
proof -
  define s1 where "s1 = increaseKeepAliveCounter s"
  have s1: "sub_ok i s1" "sub_id s1 = i"
    using s by (simp_all add: s1_def increaseKeepAliveCounter_def sub_ok_def revised_def)
  have e1: "engine_ok (put_sub s1 e)" using engine_ok_put[OF e] s1 by simp
  define n where "n = seq_future (pe_generators e i)"
  obtain b e2 where k: "send_keep_alive_response i n (put_sub s1 e) = Inr (b, e2)" "settles (put_sub s1 e) e2"
  proof (cases "getSubscriptionById e i = None \<or> pe_queue e = [] \<or> hasPendingNotifications s1")
    case True
    then have "send_keep_alive_response i n (put_sub s1 e) = Inr (False, put_sub s1 e)"
      using s1 by (auto simp: send_keep_alive_response_def pendingPublishRequestCount_def split: option.split)
    then show thesis by (rule that) simp
  next
    case False
    then obtain r where "send_keep_alive_response i n (put_sub s1 e) = Inr (True, answer r (put_sub s1 e))"
      using s1 by (auto simp: send_keep_alive_response_def pendingPublishRequestCount_def sub_ok_def
          send_response_answers)
    then show thesis by (rule that) simp
  qed
  have "engine_ok e2" by (rule engine_ok_settles[OF e1 k(2)])
  then show ?thesis
    using k(1) s1 e
    by (simp add: process_keepAlive_def s1_def[symmetric] n_def Let_def sub_ok_def revised_def
        resetLifeTimeAndKeepAliveCounters_def resetKeepAliveCounter_def resetLifeTimeCounter_def)
qed

lemma add_notification_ok: "sub_ok i s \<Longrightarrow> sub_ok i (addNotificationMessage n k s)"
  using nq.push_ok[of "sub_pending s"] by (simp add: addNotificationMessage_def sub_ok_def revised_def)

lemma add_notifications_ok:
  "sub_ok i s \<Longrightarrow> sub_ok i (fold (\<lambda>n. addNotificationMessage (f n) k) ns s)"
  by (induction ns arbitrary: s) (simp_all add: add_notification_ok)

lemma put_item_ok: "sub_ok i s \<Longrightarrow> sub_ok i (put_item j m s)"
  by (simp add: sub_ok_def revised_def put_item_def put_ids del: map_map)

lemma harvest_items_ok: "sub_ok i s \<Longrightarrow> sub_ok i (harvest_items nodes ms s)"
  by (induction nodes ms s rule: harvest_items.induct)
    (simp_all add: Let_def put_item_ok add_notifications_ok split: prod.split)

lemma harvest_ok: "sub_ok i s \<Longrightarrow> sub_ok i (harvestMonitoredItems nodes s)"
  using harvest_items_ok[of i s nodes "sub_items s"]
  by (simp add: harvestMonitoredItems_def sub_ok_def revised_def)

lemma uncollected_ok:
  assumes "hasUncollectedMonitoredItemNotifications s = (b, s')" and "sub_ok i s"
  shows "sub_ok i s'"
  using assms by (auto simp: hasUncollectedMonitoredItemNotifications_def sub_ok_def revised_def split: if_splits)

lemma collect_ok: "sub_ok i s \<Longrightarrow> sub_ok i (collect nodes s)"
  by (auto simp: collect_def Let_def split: prod.split if_splits intro: harvest_ok uncollected_ok)

lemma publish_ok:
  assumes e: "engine_ok e" and s: "sub_ok i s" and q: "pe_queue e \<noteq> []" and pend: "hasPendingNotifications s"
  shows "works i (publish_pending_notifications s e)"
proof -
  obtain p d sent st r where eq: "publish_pending_notifications s e =
     Inr (s\<lparr>sub_pending := p, sub_diagnostics := d, sub_sent := sent, sub_messageSent := True,
       sub_life_time_counter := 0, sub_keep_alive_counter := 0, sub_state := st\<rparr>, answer r (advance (sub_id s) e))"
    and p: "queue_ok p" "st = (if sub_state s = SsClosed then SsClosed else SsNormal)"
    using publish_answers[OF sub_ok_publishable[OF s] pend q] by metis
  then show ?thesis
    using s engine_ok_settles[OF e] by (simp add: sub_ok_def revised_def)
qed

lemma engine_ok_tasks [simp]: "engine_ok (e\<lparr>pe_tasks := t\<rparr>) \<longleftrightarrow> engine_ok e"
  by (simp add: engine_ok_def)

lemma process_ok:
  assumes e: "engine_ok e" and s: "sub_ok i s" and q: "pe_queue e \<noteq> []"
  shows "works i (process_subscription nodes s e)"
proof (cases "\<not> sub_publishingEnabled s \<or> \<not> hasPendingNotifications (collect nodes s)")
  case True
  then show ?thesis
    using q keepAlive_ok[OF e s] keepAlive_ok[OF e collect_ok[OF s]]
    by (auto simp: process_subscription_def pendingPublishRequestCount_def Let_def)
next
  case False
  then have pend: "hasPendingNotifications (collect nodes s)" by simp
  from publish_ok[OF e collect_ok[OF s] q pend] obtain s2 e2 where
    "publish_pending_notifications (collect nodes s) e = Inr (s2, e2)" "engine_ok e2" "sub_ok i s2"
    by (rule worksE)
  then show ?thesis
    using q False by (simp add: process_subscription_def pendingPublishRequestCount_def Let_def)
qed

lemma tick_alive_ok:
  assumes e: "engine_ok e" and s: "sub_ok i s"
  shows "works i (tick_alive nodes s e)"
proof -
  obtain b s1 where u: "hasUncollectedMonitoredItemNotifications s = (b, s1)" by force
  have s1: "sub_ok i s1" by (rule uncollected_ok[OF u s])
  have "sub_ok i (s\<lparr>sub_state := SsLate\<rparr>)" "sub_ok i (s1\<lparr>sub_state := SsLate\<rparr>)"
      "sub_ok i (resetKeepAliveCounter s1)"
    using s s1 by (simp_all add: sub_ok_def revised_def resetKeepAliveCounter_def)
  then show ?thesis
    using e process_ok[OF e s] process_ok[OF e s1] keepAlive_ok[OF e s1]
    by (auto simp: tick_alive_def u pendingPublishRequestCount_def)
qed

lemma age_ok: "sub_ok i s \<Longrightarrow> sub_ok i (age s)"
  by (simp add: age_def Let_def increaseLifeTimeCounter_def sub_ok_def revised_def)

lemma discard_ok: "sub_ok i s \<Longrightarrow> sub_ok i (discardOldSentNotifications s)"
  by (simp add: discardOldSentNotifications_def sub_ok_def revised_def)

lemma tick_ok:
  assumes nodes: "\<forall>i. nodes i \<noteq> None" and e: "engine_ok e"
  shows "\<exists>e'. tick nodes now i e = Inr e' \<and> engine_ok e'"
proof (cases "getSubscriptionById e i")
  case None
  then show ?thesis using e by (simp add: tick_def)
next
  case (Some s)
  then have s: "sub_ok i s" using e by (auto simp: engine_ok_def getSubscriptionById_def dest: subs_ok_lookup)
  define s1 where "s1 = age (discardOldSentNotifications s)"
  define e1 where "e1 = cancelTimeoutRequests now (put_sub s1 e)"
  have s1: "sub_ok i s1" using age_ok[OF discard_ok[OF s]] by (simp add: s1_def)
  then have "sub_ok (sub_id s1) s1" by (simp add: sub_ok_def)
  then have e1: "engine_ok e1" using engine_ok_timeouts[OF engine_ok_put[OF e]] by (simp add: e1_def)
  define x where "x \<longleftrightarrow> sub_life_time_counter s1 \<ge> sub_lifeTimeCount s1"
  have l: "lifeTimeHasExpired s1 = Inr x"
    using s1 by (simp add: lifeTimeHasExpired_def x_def sub_ok_def revised_def)
  have t: "tick nodes now i e = (if x then terminate nodes (addNotificationMessage (StatusChange bad_timeout) None s1) e1
      else rbind (tick_alive nodes s1 e1) (\<lambda>(s2, e2). Inr (put_sub s2 e2)))"
    using s by (simp add: tick_def Some Let_def s1_def[symmetric] e1_def[symmetric] l sub_ok_def)
  show ?thesis
  proof (cases x)
    case True
    then show ?thesis using terminate_ok[OF nodes e1 add_notification_ok[OF s1]] t by metis
  next
    case False
    obtain s2 e2 where "tick_alive nodes s1 e1 = Inr (s2, e2)" "engine_ok e2" "sub_ok i s2"
      using tick_alive_ok[OF e1 s1] by (rule worksE)
    then show ?thesis using t False engine_ok_put[of e2 s2] by (simp add: sub_ok_def)
  qed
qed

section \<open>Requests and services\<close>

lemma acks_ok:
  assumes "engine_ok e"
  shows "engine_ok (snd (process_subscriptionAcknowledgements acks e)) \<and>
    map fst (pe_subscriptions (snd (process_subscriptionAcknowledgements acks e))) = map fst (pe_subscriptions e)"
  using assms
proof (induction acks arbitrary: e)
  case (Cons a acks)
  obtain i n where a: "a = (i, n)" by force
  show ?case
  proof (cases "getSubscriptionById e i")
    case None
    with Cons.IH[OF Cons.prems] show ?thesis
      by (cases "process_subscriptionAcknowledgements acks e") (simp add: a)
  next
    case (Some s)
    then have s: "sub_ok i s"
      using Cons.prems by (auto simp: engine_ok_def getSubscriptionById_def dest: subs_ok_lookup)
    obtain s1 r where r: "acknowledgeNotification n s = (s1, r)" by force
    then have s1: "sub_ok i s1"
      using s by (auto simp: acknowledgeNotification_def sub_ok_def revised_def split: option.splits)
    then have "engine_ok (put_sub s1 e)" using engine_ok_put[OF Cons.prems, of s1] by (simp add: sub_ok_def)
    from Cons.IH[OF this] Some r show ?thesis
      by (cases "process_subscriptionAcknowledgements acks (put_sub s1 e)") (simp add: a)
  qed
qed simp

lemma too_many_full:
  "pe_queue e = old # q \<Longrightarrow> length q = pe_maxPublishRequestInQueue e \<Longrightarrow>
     handle_too_many_requests e = Inr (send_error_for_request BadTooManyPublishRequests old (e\<lparr>pe_queue := q\<rparr>))"
  by (simp add: handle_too_many_requests_def pendingPublishRequestCount_def)

lemma too_many_room:
  "length (pe_queue e) \<le> pe_maxPublishRequestInQueue e \<Longrightarrow> handle_too_many_requests e = Inr e"
  by (simp add: handle_too_many_requests_def pendingPublishRequestCount_def)

lemma on_PublishRequest_ok:
  assumes "engine_ok e0"
  shows "\<exists>e'. on_PublishRequest now rq e0 = Inr e' \<and> engine_ok e'"
proof -
  obtain rs e where ra: "process_subscriptionAcknowledgements (rq_subscriptionAcknowledgements rq) e0 = (rs, e)"
    by force
  then have e: "engine_ok e" using acks_ok[OF assms, of "rq_subscriptionAcknowledgements rq"] by simp
  define pd where "pd = \<lparr>pd_request = rq, pd_results = rs, pd_serverTimeWhenReceived = now\<rparr>"
  define eq where "eq = e\<lparr>pe_queue := pe_queue e @ [pd]\<rparr>"
  have err: "engine_ok (send_error_for_request st pd e)" for st
    using e by (simp add: send_error_for_request_def engine_ok_def)
  have cl: "\<forall>c \<in> set (pe_closed eq). closed_ok c" using e by (simp add: eq_def engine_ok_def)
  obtain b e1 where f: "feed_closed_subscription eq = Inr (b, e1)" "b \<longleftrightarrow> pe_queue eq \<noteq> [] \<and> pe_closed eq \<noteq> []"
    "\<forall>c \<in> set (pe_closed e1). closed_ok c" "settles eq (e1\<lparr>pe_closed := pe_closed eq\<rparr>)"
    "length (pe_queue eq) = (if b then Suc (length (pe_queue e1)) else length (pe_queue e1))" "b \<or> e1 = eq"
    by (rule feed_closed_ok[OF cl])
  have emptied: "pe_queue e1 = []" if "pe_closed e \<noteq> []"
    using that e f(2,5) by (auto simp: eq_def engine_ok_def)
  have idle: "e1 = eq" if "pe_closed e = []"
    using that f(2,6) by (auto simp: eq_def)
  have same: "pe_subscriptions e1 = pe_subscriptions e" "pe_maxPublishRequestInQueue e1 = pe_maxPublishRequestInQueue e"
    using f(4) by (simp_all add: settles_def eq_def)
  show ?thesis
  proof (cases "pe_isSessionClosed e \<or> subscriptionCount e = 0 \<and> \<not> first_closed_hasPending e")
    case True
    then show ?thesis using err by (auto simp: on_PublishRequest_def ra pd_def[symmetric])
  next
    case False
    show ?thesis
    proof (cases "subscriptionCount e = 0")
      case True
      with False have "pe_closed e \<noteq> []" by (auto simp: first_closed_hasPending_def)
      from emptied[OF this] have "engine_ok e1" using e f(3) same by (simp add: engine_ok_def)
      with True False f(1) show ?thesis by (simp add: on_PublishRequest_def ra pd_def[symmetric] eq_def)
    next
      case many: False
      define e2 where "e2 = e1\<lparr>pe_tasks := pe_tasks e1 @ [FeedLate]\<rparr>"
      have run: "on_PublishRequest now rq e0 = handle_too_many_requests e2"
        using False many f(1) by (simp add: on_PublishRequest_def ra pd_def[symmetric] eq_def e2_def)
      have ne: "pe_subscriptions e2 \<noteq> []" using many same by (auto simp: e2_def subscriptionCount_def)
      show ?thesis
      proof (cases "pe_closed e = []")
        case True
        then have e2: "pe_queue e2 = pe_queue e @ [pd]" "pe_closed e2 = []"
          "pe_subscriptions e2 = pe_subscriptions e" "pe_maxPublishRequestInQueue e2 = pe_maxPublishRequestInQueue e"
          using idle by (simp_all add: e2_def eq_def)
        obtain old q where q: "pe_queue e @ [pd] = old # q" by (cases "pe_queue e @ [pd]") auto
        then have "length q = length (pe_queue e)" by (metis length_append_singleton length_Cons nat.inject)
        then show ?thesis
          using e e2 ne q too_many_full[of e2 old q] too_many_room[of e2] unfolding run
          by (cases "length (pe_queue e) = pe_maxPublishRequestInQueue e")
            (auto simp: send_error_for_request_def engine_ok_def)
      next
        case False
        from emptied[OF this] show ?thesis
          using e f(3) same unfolding run
          by (auto simp: handle_too_many_requests_def pendingPublishRequestCount_def engine_ok_def e2_def)
      qed
    qed
  qed
qed

lemma feed_late_ok:
  assumes env: "env_ok env" and e: "engine_ok e"
  shows "\<exists>e'. feed_late_subscription env e = Inr e' \<and> engine_ok e'"
proof (cases "pe_queue e = [] \<or> findLateSubscriptions e = []")
  case True
  then show ?thesis
    using e by (auto simp: feed_late_subscription_def pendingPublishRequestCount_def find_starving_subscription_def)
next
  case False
  define s where "s = last (ev_sort env compare_subscriptions (findLateSubscriptions e))"
  have "set (ev_sort env compare_subscriptions (findLateSubscriptions e)) = set (findLateSubscriptions e)"
    using env by (simp add: env_ok_def)
  then have "s \<in> set (findLateSubscriptions e)" using False by (metis last_in_set s_def set_empty)
  then have "sub_ok (sub_id s) s"
    using e by (auto simp: findLateSubscriptions_def engine_ok_def subs_ok_def sub_ok_def)
  then have "works (sub_id s) (process_subscription (ev_nodes env) s e)" using process_ok[OF e] False by blast
  then obtain s1 e1 where
    "process_subscription (ev_nodes env) s e = Inr (s1, e1)" "engine_ok e1" "sub_ok (sub_id s) s1"
    by (rule worksE)
  then show ?thesis
    using False engine_ok_put[of e1 s1]
    by (simp add: feed_late_subscription_def pendingPublishRequestCount_def find_starving_subscription_def s_def sub_ok_def)
qed

lemma insert_by_id_set: "set (insert_by_id i x xs) = insert (i, x) (set xs)"
  by (induction xs rule: insert_by_id.induct) auto

lemma insert_by_id_distinct:
  "distinct (map fst xs) \<Longrightarrow> i \<notin> fst ` set xs \<Longrightarrow> distinct (map fst (insert_by_id i x xs))"
  by (induction i x xs rule: insert_by_id.induct) (auto simp: insert_by_id_set)

lemma insert_by_id_nonempty [simp]: "insert_by_id i x xs \<noteq> []"
  by (cases xs) (auto split: if_splits)

lemma map_of_filter_key: "map_of (filter (\<lambda>(k, _). k \<noteq> i) xs) j = (if j = i then None else map_of xs j)"
  by (induction xs) auto

lemma map_of_insert_by_id:
  "map_of xs i = None \<Longrightarrow> map_of (insert_by_id i x xs) j = (if j = i then Some x else map_of xs j)"
  by (induction i x xs rule: insert_by_id.induct) (auto split: if_splits)

lemma new_subscription_ok:
  assumes "so_id o1 \<noteq> 0xffffff"
  obtains s where "new_subscription o1 = Inr s" and "sub_ok (so_id o1) s"
proof -
  obtain s :: "('a, 'b) subscription" where s: "new_subscription o1 = Inr s" "revised s"
    using new_subscription_revised by blast
  then have "sub_ok (so_id o1) s"
    using assms by (auto simp: new_subscription_def start_timer_def Let_def sub_ok_def queue_ok_def new_queue_def)
  with s(1) that show thesis by blast
qed

lemma on_sub_ok:
  assumes e: "engine_ok e" and f: "\<And>s. sub_ok i s \<Longrightarrow> \<exists>s'. f s = Inr s' \<and> sub_ok i s'"
  shows "\<exists>e'. on_sub i f e = Inr e' \<and> engine_ok e'"
proof (cases "getSubscriptionById e i")
  case None
  then show ?thesis using e by (simp add: on_sub_def)
next
  case (Some s)
  then have "sub_ok i s" using e by (auto simp: engine_ok_def getSubscriptionById_def dest: subs_ok_lookup)
  then obtain s' where "f s = Inr s'" "sub_ok i s'" using f by blast
  then show ?thesis using Some engine_ok_put[OF e, of s'] by (simp add: on_sub_def sub_ok_def)
qed

lemma modify_ok: "sub_ok i s \<Longrightarrow> \<exists>s'. sub_modify p s = Inr s' \<and> sub_ok i s'"
  using sub_modify_revised[of p s]
  by (auto simp: sub_modify_def start_timer_def stop_timer_def resetLifeTimeAndKeepAliveCounters_def
      resetKeepAliveCounter_def resetLifeTimeCounter_def Let_def sub_ok_def)

lemma engine_step_ok:
  fixes e :: "('v, 'r) engine"
  assumes env: "env_ok env" and e: "engine_ok e" and a: "allowed e ev"
  shows "\<exists>e'. engine_step env e ev = Inr e' \<and> engine_ok e'"
proof (cases ev)
  case (Publish_received rq now)
  then show ?thesis using on_PublishRequest_ok[OF e] by simp
next
  case (Timer_fired i now)
  then show ?thesis using tick_ok[of "ev_nodes env" e now i] env e by (simp add: env_ok_def)
next
  case (Run_task now)
  have e': "engine_ok (e\<lparr>pe_tasks := ts\<rparr>)" for ts using e by simp
  show ?thesis
    using Run_task e feed_late_ok[OF env e'] tick_ok[OF _ e'] env
    by (auto simp: env_ok_def split: list.split task.split)
next
  case (Subscribe o1)
  with a have i: "so_id o1 \<noteq> 0xffffff" "getSubscriptionById e (so_id o1) = None" by (auto simp: fresh_id_def)
  obtain s :: "('v, 'r) subscription" where s: "new_subscription o1 = Inr s" "sub_ok (so_id o1) s"
    by (rule new_subscription_ok[OF i(1)])
  have id: "sub_id s = so_id o1" using s(2) by (simp add: sub_ok_def)
  have "so_id o1 \<notin> fst ` set (pe_subscriptions e)"
    using i(2) by (simp add: getSubscriptionById_def map_of_eq_None_iff)
  then have "subs_ok (insert_by_id (so_id o1) s (pe_subscriptions e))"
    using e s(2) by (auto simp: engine_ok_def subs_ok_def insert_by_id_set insert_by_id_distinct)
  then show ?thesis
    using e i(2) by (simp add: Subscribe s(1) id add_subscription_def getSubscriptionById_def engine_ok_def)
next
  case (Unsubscribe i)
  show ?thesis
  proof (cases "getSubscriptionById e i")
    case None
    then show ?thesis using e Unsubscribe by simp
  next
    case (Some s)
    then have s: "sub_ok i s" using e by (auto simp: engine_ok_def getSubscriptionById_def dest: subs_ok_lookup)
    have n: "\<forall>i. ev_nodes env i \<noteq> None" using env by (simp add: env_ok_def)
    show ?thesis using Some Unsubscribe by (auto intro: terminate_ok[OF n e s])
  qed
next
  case (Set_publishing_mode i b)
  then show ?thesis
    using on_sub_ok[OF e, of i "\<lambda>s. Inr (setPublishingMode b s)"]
    by (simp add: setPublishingMode_def Let_def resetLifeTimeCounter_def sub_ok_def revised_def)
next
  case (Modify_subscription i p)
  then show ?thesis using on_sub_ok[OF e modify_ok] by simp
next
  case (Items_changed i items)
  have "sub_ok j (replace_items items s)" if s: "sub_ok j s" for j s
  proof (rule replace_items_pending [of items s])
    fix p assume "replace_items items s = s\<lparr>sub_items := items, sub_pending := p\<rparr>" "queue_ok (sub_pending s) \<Longrightarrow> queue_ok p"
    then show ?thesis using s a Items_changed by (simp add: sub_ok_def revised_def)
  qed
  then show ?thesis using Items_changed on_sub_ok[OF e, of i "\<lambda>s. Inr (replace_items items s)"] by simp
next
  case Session_closed
  moreover have "engine_ok (e\<lparr>pe_isSessionClosed := True\<rparr>)" using e by (simp add: engine_ok_def)
  ultimately show ?thesis by (simp add: onSessionClose_def engine_ok_cancel)
next
  case Channel_changed
  then show ?thesis using e by (simp add: cancelPendingPublishRequestBeforeChannelChange_def engine_ok_cancel)
qed

lemma runs_ok: "runs env evs e \<Longrightarrow> env_ok env \<Longrightarrow> engine_ok e"
proof (induction rule: runs.induct)
  case (runs_start n)
  then show ?case by (simp add: engine_ok_def new_publish_engine_def subs_ok_def)
next
  case (runs_step evs e ev e')
  then show ?case using engine_step_ok[of env e ev] by auto
qed

section \<open>What holds in every run\<close>

text \<open>C16: Whatever the client and the timers do, the engine never fails an assertion nor throws: in every
  state a session can reach, every event that respects the services' own guarantees (subscription ids
  are new, the items of a subscription are distinct, every item has a node) is processed to the end.\<close>

theorem engine_never_fails:
  assumes "env_ok env" and "runs env evs e" and "allowed e ev"
  shows "\<exists>e'. engine_step env e ev = Inr e'"
  using engine_step_ok[OF assms(1) runs_ok[OF assms(2,1)] assms(3)] by blast

lemma example_env_ok: "env_ok example_env"
  by (simp add: env_ok_def example_env_def)

theorem engine_never_fails_witness: "\<exists>e'. engine_step example_env example_engine (Timer_fired 1 9) = Inr e'"
  by (rule engine_never_fails[OF example_env_ok example_reached]) simp

text \<open>C17: In every run of a session's engine whose subscriptions are not transferred (the events of
  \<open>engine_step\<close>: publish requests, timers, the subscription and monitored item services, the end of the session or of
  its channel), the queue of publish requests stays within its limit, no request waits while a subscription that was
  closed still has a notification to deliver, and no request waits in a session without subscriptions. The last
  clause is not true of a session whose last subscription \<^verbatim>\<open>TransferSubscriptions\<close> takes away: that is
  the theorem \<open>transfer_strands_requests\<close> of \<open>Engine_Transfer\<close>.\<close>

theorem publish_queue_bounded:
  assumes "env_ok env" and "runs env evs e"
  shows "length (pe_queue e) \<le> pe_maxPublishRequestInQueue e \<and> (pe_closed e \<noteq> [] \<longrightarrow> pe_queue e = [])
    \<and> (pe_subscriptions e = [] \<longrightarrow> pe_queue e = [])"
  using runs_ok[OF assms(2,1)] by (simp add: engine_ok_def)

theorem publish_queue_bounded_witness:
  "length (pe_queue example_engine) \<le> pe_maxPublishRequestInQueue example_engine"
  using publish_queue_bounded[OF example_env_ok example_reached] by simp

text \<open>When the queue of a live session with no closed subscription to serve is full, a new publish
  request takes its place at the end and the oldest one, no other, is answered
  \<^verbatim>\<open>BadTooManyPublishRequests\<close>.\<close>

theorem oldest_request_refused:
  assumes "env_ok env" and "runs env evs e" and "\<not> pe_isSessionClosed e" and "pe_subscriptions e \<noteq> []"
    and "pe_closed e = []" and "pe_queue e = old # q" and "Suc (length q) = pe_maxPublishRequestInQueue e"
  shows "\<exists>pd e'. on_PublishRequest now rq e = Inr e' \<and> pd_request pd = rq \<and> pe_queue e' = q @ [pd] \<and>
    pe_responses e' = pe_responses e @ [(pd_request old, ServiceFault BadTooManyPublishRequests)]"
proof -
  obtain rs e1 where ra: "process_subscriptionAcknowledgements (rq_subscriptionAcknowledgements rq) e = (rs, e1)"
    by force
  obtain subs where subs: "e1 = e\<lparr>pe_subscriptions := subs\<rparr>"
    by (rule acks_only_subscriptions[of "rq_subscriptionAcknowledgements rq" e]) (simp add: ra)
  have "map fst subs = map fst (pe_subscriptions e)"
    using acks_ok[OF runs_ok[OF assms(2,1)], of "rq_subscriptionAcknowledgements rq"] ra subs by simp
  then have "subs \<noteq> []" using assms(4) by auto
  then show ?thesis
    using assms(3-7)
    by (simp add: on_PublishRequest_def ra subs subscriptionCount_def feed_closed_subscription_def
        pendingPublishRequestCount_def handle_too_many_requests_def send_error_for_request_def)
qed

theorem oldest_request_refused_witness:
  "\<exists>pd e'. on_PublishRequest 6 (example_publish 9) example_engine = Inr e' \<and> pd_request pd = example_publish 9 \<and>
     pe_queue e' = [pd] \<and> last (pe_responses e') = (example_publish 8, ServiceFault BadTooManyPublishRequests)"
  using oldest_request_refused[OF example_env_ok example_reached, of
      "\<lparr>pd_request = example_publish 8, pd_results = [], pd_serverTimeWhenReceived = 5\<rparr>" "[]" 6 "example_publish 9"]
  by (auto simp: example_engine_def)

end
