(* ===== verification/Engine_Transfer.thy ===== *)
theory Engine_Transfer
  imports Engine_Invariant
begin

text \<open>
  \<^verbatim>\<open>transferSubscription\<close> moves a subscription from the engine of one session to that of another.
\<close>

lemma notifyTransfer_ok:
  fixes e :: "('v, 'r) engine"
  assumes e: "engine_ok e" and s: "sub_ok i s"
  obtains s' e' where "notifyTransfer s e = Inr (s', e')" and "engine_ok e'" and "sub_ok i s'"
    and "pe_subscriptions e' = pe_subscriptions e" and "pe_queue e' = tl (pe_queue e)"
    and "pe_closed e' = (if pe_queue e = [] then pe_closed e @
      [TransferredSubscription i (Some good_subscription_transferred)] else pe_closed e)"
    and "take (length (sub_sent s)) (sub_sent s') = sub_sent s"
proof (cases "pe_queue e = []")
  case True
  then show thesis
    using e s
    by (intro that[of s "e\<lparr>pe_closed := pe_closed e @ [TransferredSubscription i (Some good_subscription_transferred)]\<rparr>"])
      (auto simp: notifyTransfer_def pendingPublishRequestCount_def engine_ok_def sub_ok_def)
next
  case False
  define st where "st = addNotificationMessage (StatusChange good_subscription_transferred) None s"
  have st: "sub_ok i st" using add_notification_ok[OF s] by (simp add: st_def)
  have pend: "hasPendingNotifications st"
    by (simp add: st_def addNotificationMessage_def hasPendingNotifications_def pendingNotificationsCount_def queue_push_def)
  obtain p d sent c r where eq: "publish_pending_notifications st e =
     Inr (st\<lparr>sub_pending := p, sub_diagnostics := d, sub_sent := sent, sub_messageSent := True,
       sub_life_time_counter := 0, sub_keep_alive_counter := 0, sub_state := c\<rparr>, answer r (advance (sub_id st) e))"
    and p: "queue_ok p" "sent = sub_sent st @ [pr_notificationMessage r]"
      "c = (if sub_state st = SsClosed then SsClosed else SsNormal)"
    using publish_answers[OF sub_ok_publishable[OF st] pend False] by metis
  define s' where "s' = st\<lparr>sub_pending := p, sub_diagnostics := d, sub_sent := sent, sub_messageSent := True,
       sub_life_time_counter := 0, sub_keep_alive_counter := 0, sub_state := c\<rparr>"
  define e' where "e' = answer r (advance (sub_id st) e)"
  have "engine_ok e'" using engine_ok_settles[OF e] by (simp add: e'_def)
  moreover have "sub_ok i s'" using st p by (simp add: s'_def sub_ok_def revised_def)
  moreover have "notifyTransfer s e = Inr (s', e')"
    using False eq by (simp add: notifyTransfer_def pendingPublishRequestCount_def st_def s'_def e'_def)
  moreover have "take (length (sub_sent s)) (sub_sent s') = sub_sent s"
    using p(2) by (simp add: s'_def st_def addNotificationMessage_def)
  ultimately show thesis using that[of s' e'] False by (simp add: e'_def)
qed

lemma map_of_eq_None: "map_of xs i = None \<longleftrightarrow> i \<notin> fst ` set xs"
  by (rule map_of_eq_None_iff)

lemma transfer_ok:
  fixes src dest :: "('v, 'r) engine"
  assumes src: "engine_ok src" and dest: "engine_ok dest" and s: "getSubscriptionById src i = Some s"
    and new: "getSubscriptionById dest i = None" and resend: "\<And>s. sub_ok i s \<Longrightarrow> sub_ok i (resend s)"
  obtains src' dest' s' where "transferSubscription resend i src dest = Inr (src', dest')"
    and "pe_subscriptions src' = filter (\<lambda>(j, _). j \<noteq> i) (pe_subscriptions (put_sub s' src))"
    and "pe_queue src' = tl (pe_queue src)" and "pe_queue src \<noteq> [] \<Longrightarrow> pe_closed src' = pe_closed src"
    and "pe_subscriptions dest' = insert_by_id i (resend (resetLifeTimeCounter s')) (pe_subscriptions dest)"
    and "sub_id s' = i" and "engine_ok dest'" and "take (length (sub_sent s)) (sub_sent s') = sub_sent s"
    and "pe_queue dest' = pe_queue dest" and "pe_responses dest' = pe_responses dest"
    and "pe_closed dest' = filter (\<lambda>c. closed_id c \<noteq> i) (pe_closed dest)"
proof -
  have ok: "sub_ok i s" using src s by (auto simp: engine_ok_def getSubscriptionById_def dest: subs_ok_lookup)
  obtain s' e' where n: "notifyTransfer s src = Inr (s', e')" "engine_ok e'" "sub_ok i s'"
    "pe_subscriptions e' = pe_subscriptions src" "pe_queue e' = tl (pe_queue src)"
    "pe_closed e' = (if pe_queue src = [] then pe_closed src @
      [TransferredSubscription i (Some good_subscription_transferred)] else pe_closed src)"
    "take (length (sub_sent s)) (sub_sent s') = sub_sent s"
    by (rule notifyTransfer_ok[OF src ok])
  have id: "sub_id s' = i" using n(3) by (simp add: sub_ok_def)
  have "getSubscriptionById e' i = Some s" using s n(4) by (simp add: getSubscriptionById_def)
  then have g: "getSubscriptionById (put_sub s' e') i = Some s'" using id by simp
  define src2 where "src2 = (put_sub s' e')\<lparr>pe_subscriptions :=
    filter (\<lambda>(j, _). j \<noteq> i) (pe_subscriptions (put_sub s' e'))\<rparr>"
  have det: "detach_subscription i (put_sub s' e') = Inr (s', src2)"
    by (simp add: detach_subscription_def g src2_def del: get_put_sub)
  define x where "x = resend (resetLifeTimeCounter s')"
  have "sub_ok i (resetLifeTimeCounter s')" using n(3) by (simp add: resetLifeTimeCounter_def sub_ok_def revised_def)
  then have x: "sub_ok i x" "sub_id x = i" using resend[of "resetLifeTimeCounter s'"] by (simp_all add: x_def sub_ok_def)
  define dest2 where "dest2 = dest\<lparr>pe_closed := filter (\<lambda>c. closed_id c \<noteq> i) (pe_closed dest),
    pe_generators := (pe_generators dest)(i := pe_generators src2 i), pe_tasks := pe_tasks dest @ filter (\<lambda>t. t = Tick i) (pe_tasks src2),
    pe_subscriptions := insert_by_id i x (pe_subscriptions dest)\<rparr>"
  have "i \<notin> fst ` set (pe_subscriptions dest)"
    using new by (simp add: getSubscriptionById_def map_of_eq_None)
  then have "subs_ok (insert_by_id i x (pe_subscriptions dest))"
    using dest x by (auto simp: engine_ok_def subs_ok_def insert_by_id_set insert_by_id_distinct)
  then have d2: "engine_ok dest2" using dest by (auto simp: dest2_def engine_ok_def)
  have add: "add_subscription x (dest\<lparr>pe_closed := filter (\<lambda>c. closed_id c \<noteq> i) (pe_closed dest),
    pe_generators := (pe_generators dest)(i := pe_generators src2 i), pe_tasks := pe_tasks dest @ filter (\<lambda>t. t = Tick i) (pe_tasks src2)\<rparr>) = Inr dest2"
    using new x(2) by (simp add: add_subscription_def getSubscriptionById_def dest2_def)
  have "transferSubscription resend i src dest =
      Inr (src2\<lparr>pe_tasks := filter (\<lambda>t. t \<noteq> Tick i) (pe_tasks src2)\<rparr>, dest2)"
    using add by (simp add: transferSubscription_def new s n(1) det purge_dangling_subscription_def x_def[symmetric])
  then show thesis
    by (rule that[of _ _ s'])
      (use n id d2 in \<open>simp_all add: src2_def put_sub_def dest2_def x_def\<close>)
qed

text \<open>With \<^verbatim>\<open>sendInitialValues\<close> the destination sends the current values again.\<close>

definition resends :: "(('v, 'r) subscription \<Rightarrow> ('v, 'r) subscription) \<Rightarrow> bool" where
  "resends f \<longleftrightarrow> (\<forall>i s. sub_ok i s \<longrightarrow> sub_ok i (f s)) \<and> (\<forall>s. sub_sent (f s) = sub_sent s \<and>
     sub_life_time_counter (f s) = sub_life_time_counter s)"

lemma harvest_items_frame:
  "sub_sent (harvest_items nodes ms s) = sub_sent s \<and>
   sub_life_time_counter (harvest_items nodes ms s) = sub_life_time_counter s"
proof (induction nodes ms s rule: harvest_items.induct)
  case (2 nodes i m ms s)
  have f: "sub_sent (fold (\<lambda>n. addNotificationMessage (h n) k) ns s) = sub_sent s \<and>
      sub_life_time_counter (fold (\<lambda>n. addNotificationMessage (h n) k) ns s) = sub_life_time_counter s" for h k ns s
    by (induction ns arbitrary: s) (simp_all add: addNotificationMessage_def)
  obtain ns m1 where x: "extractMonitoredItemNotifications (nodes i) False m = (ns, m1)" by force
  show ?case using "2.IH"[OF x[symmetric] refl] by (simp add: x f) (simp add: put_item_def)
qed simp

lemma resends_nothing: "resends (\<lambda>s. s)"
  by (simp add: resends_def)

lemma resends_initial_values: "resends (resendInitialValues nodes readValue now)"
proof -
  have "sub_ok i (resendInitialValues nodes readValue now s)" if "sub_ok i s" for i s
  proof -
    have "map fst (map (\<lambda>(j, m). (j, fst (resendInitialValue (nodes j) (readValue j) now m))) (sub_items s)) =
        map fst (sub_items s)"
      by (simp add: comp_def case_prod_beta)
    then show ?thesis
      using that unfolding resendInitialValues_def by (intro harvest_ok) (simp add: sub_ok_def revised_def del: map_map)
  qed
  moreover have "sub_sent (resendInitialValues nodes readValue now s) = sub_sent s \<and>
      sub_life_time_counter (resendInitialValues nodes readValue now s) = sub_life_time_counter s" for s
    by (simp add: resendInitialValues_def harvestMonitoredItems_def harvest_items_frame)
  ultimately show ?thesis unfolding resends_def by blast
qed

text \<open>Transferring a subscription to another session moves it and nothing else: the old session loses it,
  the new one has it with its lifetime counter reset and every message it had sent still available, all
  other subscriptions stay where they are, no request of the new session is touched, and the old
  session is told by the answer to its oldest request or, when it has none, by an entry kept for its
  next request.\<close>

theorem transfer_moves_subscription:
  assumes "env_ok env" and "runs env evs src" and "runs env evs' dest"
    and "getSubscriptionById src i = Some s" and "getSubscriptionById dest i = None"
    and "resend = (\<lambda>s. s) \<or> resend = resendInitialValues nodes readValue now"
  shows "\<exists>src' dest' s'. transferSubscription resend i src dest = Inr (src', dest') \<and>
    getSubscriptionById src' i = None \<and> getSubscriptionById dest' i = Some s' \<and>
    sub_life_time_counter s' = 0 \<and> take (length (sub_sent s)) (sub_sent s') = sub_sent s \<and>
    (\<forall>j. j \<noteq> i \<longrightarrow> getSubscriptionById src' j = getSubscriptionById src j \<and>
       getSubscriptionById dest' j = getSubscriptionById dest j) \<and>
    pe_queue dest' = pe_queue dest \<and> pe_responses dest' = pe_responses dest \<and> pe_queue src' = tl (pe_queue src)"
proof -
  have r: "resends resend" using assms(6) by (elim disjE) (simp_all add: resends_nothing resends_initial_values)
  then have ok: "sub_ok i s \<Longrightarrow> sub_ok i (resend s)" for s by (simp add: resends_def)
  obtain src' dest' s' where t: "transferSubscription resend i src dest = Inr (src', dest')"
    "pe_subscriptions src' = filter (\<lambda>(j, _). j \<noteq> i) (pe_subscriptions (put_sub s' src))"
    "pe_queue src' = tl (pe_queue src)"
    "pe_subscriptions dest' = insert_by_id i (resend (resetLifeTimeCounter s')) (pe_subscriptions dest)"
    "sub_id s' = i" "take (length (sub_sent s)) (sub_sent s') = sub_sent s"
    "pe_queue dest' = pe_queue dest" "pe_responses dest' = pe_responses dest"
    by (rule transfer_ok[OF runs_ok[OF assms(2,1)] runs_ok[OF assms(3,1)] assms(4,5) ok])
  have "getSubscriptionById src' j = (if j = i then None else getSubscriptionById src j)" for j
    using t(2,5) get_put_sub[of s' src j]
    by (simp add: getSubscriptionById_def map_of_filter_key)
  moreover have "getSubscriptionById dest' j =
      (if j = i then Some (resend (resetLifeTimeCounter s')) else getSubscriptionById dest j)" for j
    using t(4) assms(5) by (simp add: getSubscriptionById_def map_of_insert_by_id)
  ultimately show ?thesis using t r by (simp add: resends_def resetLifeTimeCounter_def)
qed

theorem transfer_moves_subscription_witness:
  "\<exists>src' dest' s'. transferSubscription (\<lambda>s. s) 1 example_engine (new_publish_engine 5) = Inr (src', dest') \<and>
     getSubscriptionById src' 1 = None \<and> getSubscriptionById dest' 1 = Some s' \<and> pe_queue src' = []"
  using transfer_moves_subscription[OF example_env_ok example_reached runs_start[of example_env 5], of 1
      "example_subscription\<lparr>sub_keep_alive_counter := 0, sub_messageSent := True, sub_state := SsKeepAlive\<rparr>" "\<lambda>s. s"]
  by (fastforce simp: example_engine_def getSubscriptionById_def new_publish_engine_def)

section \<open>Requests left behind\<close>

text \<open>The events that neither create a subscription nor close the session or its channel.\<close>

fun ordinary :: "('v, 'r) event \<Rightarrow> bool" where
  "ordinary (Subscribe o1) = False"
| "ordinary Session_closed = False"
| "ordinary Channel_changed = False"
| "ordinary ev = True"

lemma deserted_step:
  assumes "pe_subscriptions e = []" and "pe_closed e = []" and "ordinary ev"
  obtains e' where "engine_step env e ev = Inr e'" and "pe_subscriptions e' = []" and "pe_closed e' = []"
    and "pe_queue e' = pe_queue e"
proof (cases ev)
  case (Publish_received rq now)
  obtain rs e1 where ra: "process_subscriptionAcknowledgements (rq_subscriptionAcknowledgements rq) e = (rs, e1)"
    by force
  have "snd (process_subscriptionAcknowledgements acks e) = e" for acks
    using assms(1)
  proof (induction acks arbitrary: e)
    case (Cons a acks)
    with Cons.IH[OF Cons.prems] show ?case
      by (cases a; cases "process_subscriptionAcknowledgements acks e") (simp add: getSubscriptionById_def)
  qed simp
  then have "e1 = e" using ra by (metis snd_conv)
  then show thesis
    using assms(1,2) Publish_received ra
    by (intro that[of "send_error_for_request (if pe_isSessionClosed e then BadSessionClosed else BadNoSubscription)
        \<lparr>pd_request = rq, pd_results = rs, pd_serverTimeWhenReceived = now\<rparr> e"])
      (simp_all add: on_PublishRequest_def subscriptionCount_def first_closed_hasPending_def
        send_error_for_request_def Let_def)
next
  case (Run_task now)
  then show thesis
    using assms(1,2)
    by (intro that[of "e\<lparr>pe_tasks := tl (pe_tasks e)\<rparr>"])
      (auto simp: tick_def getSubscriptionById_def feed_late_subscription_def find_starving_subscription_def
        findLateSubscriptions_def split: list.split task.split)
qed (use that assms in \<open>auto simp: tick_def getSubscriptionById_def on_sub_def\<close>)

lemma deserted_run:
  assumes "pe_subscriptions e = []" and "pe_closed e = []" and "list_all ordinary evs"
  shows "\<exists>e'. engine_run env e evs = Inr e' \<and> pe_queue e' = pe_queue e"
  using assms
proof (induction evs arbitrary: e)
  case (Cons ev evs)
  then obtain e1 where e1: "engine_step env e ev = Inr e1" "pe_subscriptions e1 = []" "pe_closed e1 = []"
    "pe_queue e1 = pe_queue e"
    by (auto elim: deserted_step[of e ev])
  from Cons.IH[OF e1(2,3)] Cons.prems(3) e1(1,4) show ?case by simp
qed simp

text \<open>Transferring the last subscription of a session strands its publish requests: the oldest one is used for
  the notice of the transfer, the others stay in the queue of the old session, and whatever further
  requests, ticks and timeouts come, none of them is answered until a subscription is created there
  or the session or its channel closes.\<close>

theorem transfer_strands_requests:
  assumes "env_ok env" and "runs env evs src" and "runs env evs' dest"
    and "pe_subscriptions src = [(i, s)]" and "getSubscriptionById dest i = None"
    and "pe_queue src = pd # q" and "list_all ordinary evs2"
  shows "\<exists>src' dest' e'. transferSubscription (\<lambda>s. s) i src dest = Inr (src', dest') \<and>
    engine_run env src' evs2 = Inr e' \<and> pe_queue e' = q"
proof -
  note ok = runs_ok[OF assms(2,1)] runs_ok[OF assms(3,1)]
  have s: "getSubscriptionById src i = Some s" using assms(4) by (simp add: getSubscriptionById_def)
  have c: "pe_closed src = []" using ok(1) assms(6) by (auto simp: engine_ok_def)
  obtain src' dest' s' where t: "transferSubscription (\<lambda>s. s) i src dest = Inr (src', dest')"
    "pe_subscriptions src' = filter (\<lambda>(j, _). j \<noteq> i) (pe_subscriptions (put_sub s' src))"
    "pe_queue src' = tl (pe_queue src)" "pe_queue src \<noteq> [] \<longrightarrow> pe_closed src' = pe_closed src" "sub_id s' = i"
    by (rule transfer_ok[OF ok s assms(5), of "\<lambda>s. s"]) auto
  have "pe_subscriptions src' = []" using t(2,5) assms(4) by (simp add: put_sub_def)
  moreover have "pe_closed src' = []" using t(4) assms(6) c by simp
  ultimately obtain e' where "engine_run env src' evs2 = Inr e'" "pe_queue e' = pe_queue src'"
    using deserted_run assms(7) by blast
  then show ?thesis using t(1,3) assms(6) by auto
qed

theorem transfer_strands_requests_witness:
  "\<exists>e src' dest' e'. runs example_env [Subscribe example_options, Publish_received (example_publish 7) 0,
      Publish_received (example_publish 8) 0] e \<and>
     transferSubscription (\<lambda>s. s) 1 e (new_publish_engine 5) = Inr (src', dest') \<and>
     engine_run example_env src' [Publish_received (example_publish 9) 1, Run_task 2, Timer_fired 1 3] = Inr e' \<and>
     map pd_request (pe_queue e') = [example_publish 8]"
proof -
  define evs :: "(int, unit) event list" where "evs = [Subscribe example_options, Publish_received (example_publish 7) 0,
      Publish_received (example_publish 8) (0 :: int)]"
  define pd where "pd h = \<lparr>pd_request = example_publish h, pd_results = [], pd_serverTimeWhenReceived = 0\<rparr>" for h
  define e :: "(int, unit) engine" where "e = (new_publish_engine 2)\<lparr>pe_subscriptions := [(1, example_subscription)],
    pe_queue := [pd 7, pd 8], pe_tasks := [FeedLate, FeedLate]\<rparr>"
  have "engine_run example_env (new_publish_engine 2) evs = Inr e"
    by (simp add: evs_def e_def pd_def example_simps) (simp add: fun_eq_iff)
  moreover have "allowed_run example_env (new_publish_engine 2) evs"
    by (simp add: evs_def example_simps)
  ultimately have r: "runs example_env evs e" using runs_more[OF runs_start] by fastforce
  have s: "pe_subscriptions e = [(1, example_subscription)]" "pe_queue e = pd 7 # [pd 8]"
    by (simp_all add: e_def)
  have n: "getSubscriptionById (new_publish_engine 5 :: (int, unit) engine) 1 = None"
    by (simp add: new_publish_engine_def getSubscriptionById_def)
  show ?thesis
    using transfer_strands_requests[OF example_env_ok r runs_start[of example_env 5] s(1) n s(2),
        of "[Publish_received (example_publish 9) 1, Run_task 2, Timer_fired 1 3]"] r
    by (auto simp: evs_def pd_def)
qed

end
