(* ===== verification/Client_Publish.thy ===== *)
theory Client_Publish
  imports Publish_Engine
begin

text \<open>
  The client's side of a subscription (\<^verbatim>\<open>node-opcua-client/source/private\<close>):
  \<^verbatim>\<open>ClientSidePublishEngine\<close> (\<^verbatim>\<open>client_publish_engine.ts\<close>), which keeps a pipeline of
  publish requests at the server and collects acknowledgements, and \<^verbatim>\<open>ClientSubscriptionImpl\<close>
  (\<^verbatim>\<open>client_subscription_impl.ts\<close>), which receives the notification messages. A subscription object can
  outlive its entry in \<^verbatim>\<open>subscriptionMap\<close>, so the objects are a store, \<open>ce_objects\<close>, and the map
  holds references. A request given to \<^verbatim>\<open>session.publish\<close> stays in \<open>ce_outstanding\<close> until its
  callback is called; the callbacks that have run, with what they got, are \<open>ce_history\<close>. Callbacks
  waiting in \<^verbatim>\<open>setImmediate\<close> and \<^verbatim>\<open>setTimeout\<close> carry no data and are counted. Whether the
  secure channel is open (\<open>valid\<close>) is an argument. Error messages are matched as text. Listeners of
  the application are taken not to call back into the engine.
\<close>

section \<open>State\<close>

datatype 'v client_event =
    RawNotification "'v notification_message"
  | KeepAliveReceived
  | ReceivedNotifications "'v notification_message"
  | ValueChanged nat "'v queue_item"
  | EventReceived nat "'v queue_item"
  | StatusChanged status_code
  | InternalError
  | Terminated

text \<open>A monitored item is known by its client handle; the flag says that it watches the event notifier.\<close>

record 'v client_subscription =
  cs_subscriptionId :: nat
  cs_publishingInterval :: rat
  cs_lifetimeCount :: nat
  cs_maxKeepAliveCount :: nat
  cs_maxNotificationsPerPublish :: nat
  cs_publishingEnabled :: bool
  cs_priority :: nat
  cs_timeoutHint :: rat
  cs_lastSequenceNumber :: int
  cs_nextClientHandle :: nat
  cs_hasTimedOut :: bool
  cs_monitoredItems :: "(nat \<times> bool) list"
  cs_dispatches :: "'v notification_data list list"
  cs_events :: "'v client_event list"

datatype 'v publish_reply =
    PublishError string
  | PublishAnswer "'v publish_response"

record 'v client =
  ce_timeoutHint :: rat
  ce_activeSubscriptionCount :: int
  ce_nbPendingPublishRequests :: int
  ce_nbMaxPublishRequestsAcceptedByServer :: int
  ce_isSuspended :: bool
  ce_session :: bool
  ce_sessionTimeout :: rat
  ce_subscriptionAcknowledgements :: "(nat \<times> nat) list"
  ce_subscriptionMap :: "(nat \<times> nat) list"
  ce_lastRequestSentTime :: int
  ce_objects :: "nat \<Rightarrow> 'v client_subscription option"
  ce_immediates :: nat
  ce_timers :: nat
  ce_outstanding :: "publish_request list"
  ce_history :: "(publish_request \<times> 'v publish_reply) list"
  ce_deletes :: "nat list"
  ce_terminations :: "nat list"

definition PENDING_SUBSCRIPTION_ID :: nat where "PENDING_SUBSCRIPTION_ID = 0xc0cac01a"
definition TERMINATED_SUBSCRIPTION_ID :: nat where "TERMINATED_SUBSCRIPTION_ID = 0xc0cac01b"
definition TERMINATING_SUBSCRIPTION_ID :: nat where "TERMINATING_SUBSCRIPTION_ID = 0xc0cac01c"

definition publishRequestCountInPipeline :: nat where "publishRequestCountInPipeline = 5"

definition client_minimumMaxKeepAliveCount :: nat where "client_minimumMaxKeepAliveCount = 3"

definition new_client :: "rat \<Rightarrow> 'v client" where
  "new_client timeout = \<lparr>ce_timeoutHint = 10000, ce_activeSubscriptionCount = 0, ce_nbPendingPublishRequests = 0,
     ce_nbMaxPublishRequestsAcceptedByServer = 1000, ce_isSuspended = False, ce_session = True,
     ce_sessionTimeout = timeout, ce_subscriptionAcknowledgements = [], ce_subscriptionMap = [],
     ce_lastRequestSentTime = 0, ce_objects = (\<lambda>_. None), ce_immediates = 0, ce_timers = 0, ce_outstanding = [],
     ce_history = [], ce_deletes = [], ce_terminations = []\<rparr>"

text \<open>\<open>matches pat msg\<close>: the text occurs in the message.\<close>

fun matches :: "string \<Rightarrow> string \<Rightarrow> bool" where
  "matches pat [] = (pat = [])"
| "matches pat (c # cs) = (take (length pat) (c # cs) = pat \<or> matches pat cs)"

section \<open>The pipeline of publish requests\<close>

definition client_subscriptionCount :: "'v client \<Rightarrow> nat" where
  "client_subscriptionCount c = length (ce_subscriptionMap c)"

definition send_publish_request :: "bool \<Rightarrow> 'v client \<Rightarrow> 'v client" where
  "send_publish_request valid c =
     (if ce_isSuspended c then c
      else if ce_nbPendingPublishRequests c \<ge> ce_nbMaxPublishRequestsAcceptedByServer c then c
      else if ce_session c \<and> \<not> valid then c\<lparr>ce_timers := ce_timers c + 1\<rparr>
      else c\<lparr>ce_immediates := ce_immediates c + 1\<rparr>)"

definition replenish_publish_request_queue :: "bool \<Rightarrow> 'v client \<Rightarrow> 'v client" where
  "replenish_publish_request_queue valid c =
     ((send_publish_request valid) ^^ (publishRequestCountInPipeline - 1)) (send_publish_request valid c)"

definition suspend :: "bool \<Rightarrow> bool \<Rightarrow> 'v client \<Rightarrow> 'v client" where
  "suspend suspendedState valid c =
     (if ce_isSuspended c = suspendedState then c
      else let c1 = c\<lparr>ce_isSuspended := suspendedState\<rparr>
           in if \<not> ce_isSuspended c1 then replenish_publish_request_queue valid c1 else c1)"

text \<open>
  \<open>handle\<close> is the request handle that the secure channel gives to the request when \<^verbatim>\<open>session.publish\<close>
  sends it; the engine never looks at it. The timeout hint goes on the wire as an unsigned integer.
\<close>

definition internalSendPublishRequest :: "nat \<Rightarrow> 'v client \<Rightarrow> 'v client result" where
  "internalSendPublishRequest handle c =
     rbind (assert_js (ce_session c)) (\<lambda>_.
     let n = ce_nbPendingPublishRequests c + 1 in
     rbind (assert_js (n > 0)) (\<lambda>_.
     let calculatedTimeout = min 0x7fffffff (of_int n * ce_timeoutHint c) in
       Inr (c\<lparr>ce_nbPendingPublishRequests := n, ce_subscriptionAcknowledgements := [],
         ce_outstanding := ce_outstanding c @ [\<lparr>rq_requestHandle = handle,
           rq_timeoutHint = nat \<lfloor>calculatedTimeout\<rfloor>,
           rq_subscriptionAcknowledgements = ce_subscriptionAcknowledgements c\<rparr>]\<rparr>)))"

text \<open>The callbacks of \<^verbatim>\<open>setImmediate\<close> and \<^verbatim>\<open>setTimeout\<close> in \<^verbatim>\<open>send_publish_request\<close>.\<close>

definition run_immediate :: "nat \<Rightarrow> 'v client \<Rightarrow> 'v client result" where
  "run_immediate handle c =
     (if ce_immediates c = 0 then Inr c
      else let c1 = c\<lparr>ce_immediates := ce_immediates c - 1\<rparr>
           in if \<not> ce_session c1 \<or> ce_isSuspended c1 then Inr c1 else internalSendPublishRequest handle c1)"

definition run_timer :: "bool \<Rightarrow> 'v client \<Rightarrow> 'v client" where
  "run_timer valid c =
     (if ce_timers c = 0 then c
      else let c1 = c\<lparr>ce_timers := ce_timers c - 1\<rparr>
           in if client_subscriptionCount c1 \<noteq> 0 then send_publish_request valid c1 else c1)"

definition terminate_client :: "'v client \<Rightarrow> 'v client" where
  "terminate_client c = c\<lparr>ce_session := False\<rparr>"

section \<open>Acknowledgements and the subscription map\<close>

definition acknowledge_notification :: "nat \<Rightarrow> nat \<Rightarrow> 'v client \<Rightarrow> 'v client" where
  "acknowledge_notification subscriptionId sequenceNumber c =
     c\<lparr>ce_subscriptionAcknowledgements := ce_subscriptionAcknowledgements c @ [(subscriptionId, sequenceNumber)]\<rparr>"

definition cleanup_acknowledgment_for_subscription :: "nat \<Rightarrow> 'v client \<Rightarrow> 'v client" where
  "cleanup_acknowledgment_for_subscription subscriptionId c =
     c\<lparr>ce_subscriptionAcknowledgements := filter (\<lambda>a. fst a \<noteq> subscriptionId) (ce_subscriptionAcknowledgements c)\<rparr>"

definition getSubscriptionIds :: "'v client \<Rightarrow> nat list" where
  "getSubscriptionIds c = map fst (ce_subscriptionMap c)"

definition hasSubscription :: "nat \<Rightarrow> 'v client \<Rightarrow> bool result" where
  "hasSubscription subscriptionId c =
     rbind (assert_js (subscriptionId > 0)) (\<lambda>_. Inr (map_of (ce_subscriptionMap c) subscriptionId \<noteq> None))"

definition getSubscription :: "nat \<Rightarrow> 'v client \<Rightarrow> nat result" where
  "getSubscription subscriptionId c =
     rbind (assert_js (subscriptionId > 0)) (\<lambda>_.
       case map_of (ce_subscriptionMap c) subscriptionId of None \<Rightarrow> Inl AssertionError | Some ob \<Rightarrow> Inr ob)"

definition put_object :: "nat \<Rightarrow> 'v client_subscription \<Rightarrow> 'v client \<Rightarrow> 'v client" where
  "put_object ob s c = c\<lparr>ce_objects := (ce_objects c)(ob \<mapsto> s)\<rparr>"

definition registerSubscription :: "bool \<Rightarrow> nat \<Rightarrow> 'v client_subscription \<Rightarrow> 'v client \<Rightarrow> 'v client result" where
  "registerSubscription valid ob s c =
     rbind (assert_js (map_of (ce_subscriptionMap c) (cs_subscriptionId s) = None)) (\<lambda>_.
       Inr (replenish_publish_request_queue valid
         (c\<lparr>ce_activeSubscriptionCount := ce_activeSubscriptionCount c + 1,
            ce_subscriptionMap := insert_by_id (cs_subscriptionId s) ob (ce_subscriptionMap c),
            ce_timeoutHint := min (max (ce_timeoutHint c) (cs_timeoutHint s)) 0x7ffffff\<rparr>)))"

definition unregisterSubscription :: "nat \<Rightarrow> 'v client \<Rightarrow> 'v client result" where
  "unregisterSubscription subscriptionId c =
     rbind (assert_js (subscriptionId > 0)) (\<lambda>_.
       Inr (c\<lparr>ce_activeSubscriptionCount := ce_activeSubscriptionCount c - 1,
         ce_subscriptionMap := filter (\<lambda>(i, _). i \<noteq> subscriptionId) (ce_subscriptionMap c)\<rparr>))"

section \<open>Receiving notification messages\<close>

text \<open>
  \<^verbatim>\<open>onNotificationMessage\<close>: the notifications themselves are processed later, when the promise that
  resolves their opaque structures is fulfilled.
\<close>

definition onNotificationMessage :: "'v notification_message \<Rightarrow> 'v client_subscription \<Rightarrow> 'v client_subscription" where
  "onNotificationMessage msg s =
     (let s1 = s\<lparr>cs_lastSequenceNumber := int (nm_sequenceNumber msg),
                 cs_events := cs_events s @ [RawNotification msg]\<rparr>
      in if nm_notificationData msg = [] then s1\<lparr>cs_events := cs_events s1 @ [KeepAliveReceived]\<rparr>
         else s1\<lparr>cs_events := cs_events s1 @ [ReceivedNotifications msg],
                 cs_dispatches := cs_dispatches s1 @ [nm_notificationData msg]\<rparr>)"

definition receive_publish_response :: "'v publish_response \<Rightarrow> 'v client \<Rightarrow> 'v client" where
  "receive_publish_response r c =
     (let i = pr_subscriptionId r; msg = pr_notificationMessage r;
          c1 = (if nm_notificationData msg \<noteq> [] then acknowledge_notification i (nm_sequenceNumber msg) c else c)
      in case map_of (ce_subscriptionMap c1) i of
           None \<Rightarrow> c1
         | Some ob \<Rightarrow>
             if ce_session c1
             then (case ce_objects c1 ob of None \<Rightarrow> c1 | Some s \<Rightarrow> put_object ob (onNotificationMessage msg s) c1)
             else c1)"

text \<open>The texts that stop the renewal of a request.\<close>

definition stays_active :: "string \<Rightarrow> 'v client \<Rightarrow> bool" where
  "stays_active msg c \<longleftrightarrow>
     \<not> (matches ''not connected'' msg
        \<or> matches ''BadNoSubscription'' msg \<and> ce_activeSubscriptionCount c \<ge> 1
        \<or> matches ''BadSessionClosed'' msg \<or> matches ''BadSessionIdInvalid'' msg
        \<or> matches ''BadTooManyPublishRequests'' msg
        \<or> matches ''BadSecureChannelIdInvalid'' msg)"

text \<open>The callback of \<^verbatim>\<open>session.publish\<close> for the \<open>k\<close>-th outstanding request.\<close>

definition publish_callback :: "bool \<Rightarrow> int \<Rightarrow> nat \<Rightarrow> 'v publish_reply \<Rightarrow> 'v client \<Rightarrow> 'v client" where
  "publish_callback valid now k reply c0 =
     (if k \<ge> length (ce_outstanding c0) then c0 else
      let c = c0\<lparr>ce_outstanding := take k (ce_outstanding c0) @ drop (Suc k) (ce_outstanding c0),
                ce_history := ce_history c0 @ [(ce_outstanding c0 ! k, reply)],
                ce_nbPendingPublishRequests := ce_nbPendingPublishRequests c0 - 1,
                ce_lastRequestSentTime := now\<rparr>;
          renew = (\<lambda>active c2. if \<not> ce_isSuspended c2 \<and> active \<and> ce_activeSubscriptionCount c2 > 0
                     then send_publish_request valid c2 else c2)
      in case reply of
           PublishError msg \<Rightarrow>
             (let c1 = (if matches ''BadTooManyPublishRequests'' msg
                        then c\<lparr>ce_nbMaxPublishRequestsAcceptedByServer :=
                          min (ce_nbPendingPublishRequests c) (ce_nbMaxPublishRequestsAcceptedByServer c)\<rparr> else c)
              in renew (stays_active msg c \<and> \<not> matches ''Connection Break'' msg) c1)
         | PublishAnswer r \<Rightarrow> renew True (receive_publish_response r c))"

section \<open>Life of a client subscription\<close>

record client_subscription_options =
  co_requestedPublishingInterval :: rat
  co_requestedLifetimeCount :: nat
  co_requestedMaxKeepAliveCount :: nat
  co_maxNotificationsPerPublish :: nat
  co_publishingEnabled :: bool
  co_priority :: nat

text \<open>The session and the warning switch decide whether incompatible parameters throw.\<close>

definition displayKeepAliveWarning :: "rat \<Rightarrow> nat \<Rightarrow> rat \<Rightarrow> bool \<Rightarrow> bool result" where
  "displayKeepAliveWarning sessionTimeout maxKeepAliveCount publishingInterval ignoreNextWarning =
     (if sessionTimeout < of_nat maxKeepAliveCount * publishingInterval
      then if \<not> ignoreNextWarning then Inl (ThrownError ''NODE-OPCUA-W09'') else Inr True
      else Inr False)"

definition new_client_subscription ::
    "rat \<Rightarrow> bool \<Rightarrow> client_subscription_options \<Rightarrow> 'v client_subscription result" where
  "new_client_subscription sessionTimeout ignoreNextWarning o1 =
     (let interval = (if co_requestedPublishingInterval o1 = 0 then 100 else co_requestedPublishingInterval o1);
          lifetime = (if co_requestedLifetimeCount o1 = 0 then 60 else co_requestedLifetimeCount o1);
          keepAlive = max (if co_requestedMaxKeepAliveCount o1 = 0 then 10 else co_requestedMaxKeepAliveCount o1)
            client_minimumMaxKeepAliveCount
      in rbind (displayKeepAliveWarning sessionTimeout keepAlive interval ignoreNextWarning) (\<lambda>_.
        Inr \<lparr>cs_subscriptionId = PENDING_SUBSCRIPTION_ID, cs_publishingInterval = interval,
          cs_lifetimeCount = lifetime, cs_maxKeepAliveCount = keepAlive,
          cs_maxNotificationsPerPublish = co_maxNotificationsPerPublish o1,
          cs_publishingEnabled = co_publishingEnabled o1,
          cs_priority = (if co_priority o1 = 0 then 1 else co_priority o1), cs_timeoutHint = 0,
          cs_lastSequenceNumber = - 1, cs_nextClientHandle = 0, cs_hasTimedOut = False, cs_monitoredItems = [],
          cs_dispatches = [], cs_events = []\<rparr>))"

record create_subscription_response =
  cr_subscriptionId :: nat
  cr_revisedPublishingInterval :: rat
  cr_revisedLifetimeCount :: nat
  cr_revisedMaxKeepAliveCount :: nat

text \<open>
  The callback of \<^verbatim>\<open>createSubscription\<close> in \<^verbatim>\<open>__create_subscription\<close>; \<open>None\<close> is an error. The
  object has its new id even when the keep-alive warning is thrown.
\<close>

definition create_callback ::
    "bool \<Rightarrow> bool \<Rightarrow> nat \<Rightarrow> create_subscription_response option \<Rightarrow> 'v client \<Rightarrow> 'v client \<times> js_error option" where
  "create_callback valid ignoreNextWarning ob response c =
     (case (ce_objects c ob, response) of
        (None, _) \<Rightarrow> (c, None)
      | (Some s, None) \<Rightarrow> (put_object ob (s\<lparr>cs_events := cs_events s @ [InternalError]\<rparr>) c, None)
      | (Some s, Some r) \<Rightarrow>
          if \<not> ce_session c then (c, Some (ThrownError ''no session''))
          else
            let s1 = s\<lparr>cs_subscriptionId := cr_subscriptionId r,
                       cs_publishingInterval := cr_revisedPublishingInterval r,
                       cs_lifetimeCount := cr_revisedLifetimeCount r,
                       cs_maxKeepAliveCount := cr_revisedMaxKeepAliveCount r,
                       cs_timeoutHint := min ((of_nat (cr_revisedMaxKeepAliveCount r) + 10)
                         * cr_revisedPublishingInterval r * 2) 0x7ffff\<rparr>;
                c1 = put_object ob s1 c
            in case displayKeepAliveWarning (ce_sessionTimeout c) (cs_maxKeepAliveCount s1)
                 (cs_publishingInterval s1) ignoreNextWarning of
                 Inl e \<Rightarrow> (c1, Some e)
               | Inr _ \<Rightarrow> (case registerSubscription valid ob s1 c1 of
                     Inl e \<Rightarrow> (c1, Some e) | Inr c2 \<Rightarrow> (c2, None)))"

definition terminate_step2 :: "nat \<Rightarrow> 'v client \<Rightarrow> 'v client" where
  "terminate_step2 ob c =
     (case ce_objects c ob of
        None \<Rightarrow> c
      | Some s \<Rightarrow> (put_object ob (s\<lparr>cs_monitoredItems := []\<rparr>) c)\<lparr>ce_terminations := ce_terminations c @ [ob]\<rparr>)"

text \<open>
  \<^verbatim>\<open>ClientSubscriptionImpl.terminate\<close>. The id is always a number, the pending one included: the last
  branch of the code is never taken.
\<close>

definition terminate_subscription :: "nat \<Rightarrow> 'v client \<Rightarrow> 'v client result" where
  "terminate_subscription ob c =
     (case ce_objects c ob of
        None \<Rightarrow> Inr c
      | Some s \<Rightarrow>
          if cs_subscriptionId s = TERMINATED_SUBSCRIPTION_ID \<or> cs_subscriptionId s = TERMINATING_SUBSCRIPTION_ID
          then Inr c
          else rbind (unregisterSubscription (cs_subscriptionId s)
              (put_object ob (s\<lparr>cs_subscriptionId := TERMINATING_SUBSCRIPTION_ID\<rparr>) c)) (\<lambda>c1.
            if \<not> ce_session c1 then Inr (terminate_step2 ob c1)
            else Inr (c1\<lparr>ce_deletes := ce_deletes c1 @ [ob]\<rparr>)))"

text \<open>The callback of \<^verbatim>\<open>deleteSubscriptions\<close>, and the one of \<^verbatim>\<open>setImmediate\<close> in \<^verbatim>\<open>_terminate_step2\<close>.\<close>

definition delete_callback :: "nat \<Rightarrow> bool \<Rightarrow> 'v client \<Rightarrow> 'v client" where
  "delete_callback k err c =
     (if k \<ge> length (ce_deletes c) then c else
      let ob = ce_deletes c ! k;
          c1 = c\<lparr>ce_deletes := take k (ce_deletes c) @ drop (Suc k) (ce_deletes c)\<rparr>
      in terminate_step2 ob
           (case ce_objects c1 ob of
              None \<Rightarrow> c1
            | Some s \<Rightarrow> if err then put_object ob (s\<lparr>cs_events := cs_events s @ [InternalError]\<rparr>) c1 else c1))"

definition run_termination :: "'v client \<Rightarrow> 'v client" where
  "run_termination c =
     (case ce_terminations c of
        [] \<Rightarrow> c
      | ob # obs \<Rightarrow>
          (let c1 = c\<lparr>ce_terminations := obs\<rparr>
           in case ce_objects c1 ob of
                None \<Rightarrow> c1
              | Some s \<Rightarrow> put_object ob (s\<lparr>cs_subscriptionId := TERMINATED_SUBSCRIPTION_ID,
                  cs_events := cs_events s @ [Terminated]\<rparr>) c1))"

section \<open>Dispatching the notifications of a message\<close>

definition on_DataChangeNotification :: "'v queue_item list \<Rightarrow> 'v client_subscription \<Rightarrow> 'v client_subscription" where
  "on_DataChangeNotification items s =
     s\<lparr>cs_events := cs_events s @ concat (map (\<lambda>q.
        case map_of (cs_monitoredItems s) (qi_clientHandle q) of
          None \<Rightarrow> [] | Some True \<Rightarrow> [] | Some False \<Rightarrow> [ValueChanged (qi_clientHandle q) q]) items)\<rparr>"

text \<open>An unknown handle fails an assertion after the events before it have been delivered.\<close>

fun on_EventNotificationList ::
    "'v queue_item list \<Rightarrow> 'v client_subscription \<Rightarrow> 'v client_subscription \<times> bool" where
  "on_EventNotificationList [] s = (s, True)"
| "on_EventNotificationList (q # qs) s =
     (case map_of (cs_monitoredItems s) (qi_clientHandle q) of
        None \<Rightarrow> (s, False)
      | Some _ \<Rightarrow> on_EventNotificationList qs
          (s\<lparr>cs_events := cs_events s @ [EventReceived (qi_clientHandle q) q]\<rparr>))"

definition emit_event :: "nat \<Rightarrow> 'v client_event \<Rightarrow> 'v client \<Rightarrow> 'v client" where
  "emit_event ob ev c = (case ce_objects c ob of None \<Rightarrow> c
     | Some s \<Rightarrow> put_object ob (s\<lparr>cs_events := cs_events s @ [ev]\<rparr>) c)"

definition on_StatusChangeNotification :: "status_code \<Rightarrow> nat \<Rightarrow> 'v client \<Rightarrow> 'v client result" where
  "on_StatusChangeNotification st ob c =
     (case ce_objects c ob of
        None \<Rightarrow> Inr c
      | Some s \<Rightarrow>
          rbind (if sameStatusCode st bad_timeout
                 then terminate_subscription ob (put_object ob (s\<lparr>cs_hasTimedOut := True\<rparr>) c) else Inr c)
            (\<lambda>c1. Inr (emit_event ob (StatusChanged st) c1)))"

text \<open>A failure inside the promise stops the processing of the message; nobody observes it.\<close>

fun dispatch_notifications :: "nat \<Rightarrow> 'v notification_data list \<Rightarrow> 'v client \<Rightarrow> 'v client" where
  "dispatch_notifications ob [] c = c"
| "dispatch_notifications ob (d # ds) c =
     (case ce_objects c ob of
        None \<Rightarrow> c
      | Some s \<Rightarrow>
          (case d of
             DataChangeNotification items \<Rightarrow>
               dispatch_notifications ob ds (put_object ob (on_DataChangeNotification items s) c)
           | EventNotificationList items \<Rightarrow>
               (let (s1, ok) = on_EventNotificationList items s; c1 = put_object ob s1 c
                in if ok then dispatch_notifications ob ds c1 else c1)
           | StatusChangeNotification st \<Rightarrow>
               (case on_StatusChangeNotification st ob c of
                  Inl _ \<Rightarrow> c | Inr c1 \<Rightarrow> dispatch_notifications ob ds c1)))"

text \<open>The promises of different messages are fulfilled in any order.\<close>

definition run_dispatch :: "nat \<Rightarrow> nat \<Rightarrow> 'v client \<Rightarrow> 'v client" where
  "run_dispatch ob k c =
     (case ce_objects c ob of
        None \<Rightarrow> c
      | Some s \<Rightarrow>
          if k \<ge> length (cs_dispatches s) then c
          else dispatch_notifications ob (cs_dispatches s ! k)
            (put_object ob (s\<lparr>cs_dispatches := take k (cs_dispatches s) @ drop (Suc k) (cs_dispatches s)\<rparr>) c))"

section \<open>Monitored items\<close>

definition isActive :: "'v client \<Rightarrow> 'v client_subscription \<Rightarrow> bool" where
  "isActive c s \<longleftrightarrow> ce_session c \<and> \<not> (cs_subscriptionId s = PENDING_SUBSCRIPTION_ID
     \<or> cs_subscriptionId s = TERMINATED_SUBSCRIPTION_ID \<or> cs_subscriptionId s = TERMINATING_SUBSCRIPTION_ID)"

definition nextClientHandle :: "'v client_subscription \<Rightarrow> nat \<times> 'v client_subscription" where
  "nextClientHandle s = (cs_nextClientHandle s + 1, s\<lparr>cs_nextClientHandle := cs_nextClientHandle s + 1\<rparr>)"

definition add_monitored_item :: "nat \<Rightarrow> nat \<Rightarrow> bool \<Rightarrow> 'v client \<Rightarrow> 'v client result" where
  "add_monitored_item ob h isEvent c =
     (case ce_objects c ob of
        None \<Rightarrow> Inr c
      | Some s \<Rightarrow> rbind (assert_js (isActive c s)) (\<lambda>_.
          Inr (put_object ob (s\<lparr>cs_monitoredItems := (h, isEvent) # cs_monitoredItems s\<rparr>) c)))"

definition removeMonitoredItem_client :: "nat \<Rightarrow> 'v client_subscription \<Rightarrow> 'v client_subscription" where
  "removeMonitoredItem_client h s = s\<lparr>cs_monitoredItems := filter (\<lambda>(j, _). j \<noteq> h) (cs_monitoredItems s)\<rparr>"

definition evaluateRemainingLifetime :: "int \<Rightarrow> 'v client \<Rightarrow> 'v client_subscription \<Rightarrow> rat" where
  "evaluateRemainingLifetime now c s =
     max 0 (of_int (ce_lastRequestSentTime c) + cs_publishingInterval s * of_nat (cs_lifetimeCount s) - of_int now)"

end
