(* ===== verification/Client_Engine.thy ===== *)
theory Client_Engine
  imports Client_Publish
begin

text \<open>
  Runs of the client's publish engine, and what holds in them: every notification message is
  acknowledged in exactly one publish request, and the acknowledgement is lost when that request fails.
\<close>

section \<open>The client as a machine\<close>

datatype 'v client_input =
    New_subscription nat client_subscription_options bool
  | Create_answered nat "create_subscription_response option" bool bool
  | Publish_replied nat "'v publish_reply" bool int
  | Immediate nat
  | Timer bool
  | Dispatch nat nat
  | Terminate_subscription nat
  | Delete_answered nat bool
  | Termination_done
  | Suspend bool bool
  | Replenish bool
  | Close_session
  | Add_item nat nat bool

fun client_step :: "'v client \<Rightarrow> 'v client_input \<Rightarrow> 'v client result" where
  "client_step c (New_subscription ob o1 ignore) =
     rbind (assert_js (ce_objects c ob = None)) (\<lambda>_.
     rbind (new_client_subscription (ce_sessionTimeout c) ignore o1) (\<lambda>s. Inr (put_object ob s c)))"
| "client_step c (Create_answered ob r valid ignore) = Inr (fst (create_callback valid ignore ob r c))"
| "client_step c (Publish_replied k reply valid now) = Inr (publish_callback valid now k reply c)"
| "client_step c (Immediate handle) = run_immediate handle c"
| "client_step c (Timer valid) = Inr (run_timer valid c)"
| "client_step c (Dispatch ob k) = Inr (run_dispatch ob k c)"
| "client_step c (Terminate_subscription ob) = terminate_subscription ob c"
| "client_step c (Delete_answered k err) = Inr (delete_callback k err c)"
| "client_step c Termination_done = Inr (run_termination c)"
| "client_step c (Suspend b valid) = Inr (suspend b valid c)"
| "client_step c (Replenish valid) = Inr (replenish_publish_request_queue valid c)"
| "client_step c Close_session = Inr (terminate_client c)"
| "client_step c (Add_item ob h e) = add_monitored_item ob h e c"

inductive client_runs :: "'v client_input list \<Rightarrow> 'v client \<Rightarrow> bool" where
  client_start: "client_runs [] (new_client t)"
| client_more: "client_runs evs c \<Longrightarrow> client_step c ev = Inr c' \<Longrightarrow> client_runs (evs @ [ev]) c'"

fun client_run :: "'v client \<Rightarrow> 'v client_input list \<Rightarrow> 'v client result" where
  "client_run c [] = Inr c"
| "client_run c (ev # evs) = rbind (client_step c ev) (\<lambda>c1. client_run c1 evs)"

lemma client_runs_more:
  "client_runs evs c \<Longrightarrow> client_run c evs2 = Inr c' \<Longrightarrow> client_runs (evs @ evs2) c'"
proof (induction evs2 arbitrary: evs c)
  case (Cons ev evs2)
  then obtain c1 where c1: "client_step c ev = Inr c1" "client_run c1 evs2 = Inr c'" by auto
  from Cons.IH[OF client_more[OF Cons.prems(1) c1(1)] c1(2)] show ?case by simp
qed simp

section \<open>What each operation leaves alone\<close>

lemma assert_js_Inr [simp]: "assert_js b = Inr u \<longleftrightarrow> b"
  by (cases b) simp_all

text \<open>The requests and acknowledgements of the engine.\<close>

definition traffic :: "'v client \<Rightarrow> int \<times> (nat \<times> nat) list \<times> publish_request list \<times>
    (publish_request \<times> 'v publish_reply) list" where
  "traffic c = (ce_nbPendingPublishRequests c, ce_subscriptionAcknowledgements c, ce_outstanding c, ce_history c)"

text \<open>The subscriptions the engine counts, and the switches that stop its pipeline.\<close>

definition register :: "'v client \<Rightarrow> int \<times> (nat \<times> nat) list \<times> bool \<times> bool \<times> int" where
  "register c = (ce_activeSubscriptionCount c, ce_subscriptionMap c, ce_isSuspended c, ce_session c,
     ce_nbMaxPublishRequestsAcceptedByServer c)"

definition scheduled :: "'v client \<Rightarrow> nat" where
  "scheduled c = ce_immediates c + ce_timers c"

lemma view_updates [simp]:
  "traffic (c\<lparr>ce_objects := v1\<rparr>) = traffic c" "traffic (c\<lparr>ce_deletes := v2\<rparr>) = traffic c"
  "traffic (c\<lparr>ce_terminations := v3\<rparr>) = traffic c" "traffic (c\<lparr>ce_immediates := v4\<rparr>) = traffic c"
  "traffic (c\<lparr>ce_timers := v5\<rparr>) = traffic c" "traffic (c\<lparr>ce_isSuspended := v6\<rparr>) = traffic c"
  "traffic (c\<lparr>ce_session := v7\<rparr>) = traffic c" "traffic (c\<lparr>ce_activeSubscriptionCount := v8\<rparr>) = traffic c"
  "traffic (c\<lparr>ce_subscriptionMap := v9\<rparr>) = traffic c" "traffic (c\<lparr>ce_timeoutHint := v10\<rparr>) = traffic c"
  "traffic (c\<lparr>ce_nbMaxPublishRequestsAcceptedByServer := v11\<rparr>) = traffic c"
  "register (c\<lparr>ce_objects := v12\<rparr>) = register c" "register (c\<lparr>ce_deletes := v13\<rparr>) = register c"
  "register (c\<lparr>ce_terminations := v14\<rparr>) = register c" "register (c\<lparr>ce_immediates := v15\<rparr>) = register c"
  "register (c\<lparr>ce_timers := v16\<rparr>) = register c" "register (c\<lparr>ce_subscriptionAcknowledgements := v17\<rparr>) = register c"
  "scheduled (c\<lparr>ce_objects := v18\<rparr>) = scheduled c" "scheduled (c\<lparr>ce_deletes := v19\<rparr>) = scheduled c"
  "scheduled (c\<lparr>ce_terminations := v20\<rparr>) = scheduled c" "scheduled (c\<lparr>ce_activeSubscriptionCount := v21\<rparr>) = scheduled c"
  "scheduled (c\<lparr>ce_subscriptionMap := v22\<rparr>) = scheduled c" "scheduled (c\<lparr>ce_timeoutHint := v23\<rparr>) = scheduled c"
  "scheduled (c\<lparr>ce_subscriptionAcknowledgements := v24\<rparr>) = scheduled c" "scheduled (c\<lparr>ce_nbMaxPublishRequestsAcceptedByServer := v25\<rparr>) = scheduled c"
  "scheduled (c\<lparr>ce_session := v26\<rparr>) = scheduled c"
  by (simp_all add: traffic_def register_def scheduled_def)

lemma put_object_keeps [simp]:
  "traffic (put_object ob s c) = traffic c" "register (put_object ob s c) = register c"
  "scheduled (put_object ob s c) = scheduled c"
  by (simp_all add: put_object_def traffic_def register_def scheduled_def)

lemma send_publish_request_keeps [simp]:
  "traffic (send_publish_request valid c) = traffic c" "register (send_publish_request valid c) = register c"
  "ce_objects (send_publish_request valid c) = ce_objects c"
  by (simp_all add: send_publish_request_def traffic_def register_def)

lemma sends_keep [simp]:
  "traffic ((send_publish_request valid ^^ n) c) = traffic c"
  "register ((send_publish_request valid ^^ n) c) = register c"
  by (induction n) simp_all

lemma replenish_keeps [simp]:
  "traffic (replenish_publish_request_queue valid c) = traffic c"
  "register (replenish_publish_request_queue valid c) = register c"
  by (simp_all add: replenish_publish_request_queue_def)

lemma emit_event_keeps [simp]:
  "traffic (emit_event ob ev c) = traffic c" "register (emit_event ob ev c) = register c"
  "scheduled (emit_event ob ev c) = scheduled c"
  by (simp_all add: emit_event_def split: option.split)

lemma suspend_traffic [simp]: "traffic (suspend b valid c) = traffic c"
  by (simp add: suspend_def Let_def)

lemma unregister_keeps:
  assumes "unregisterSubscription i c = Inr c'"
  shows "traffic c' = traffic c \<and> scheduled c' = scheduled c"
  using assms by (auto simp: unregisterSubscription_def traffic_def scheduled_def)

lemma terminate_step2_keeps [simp]:
  "traffic (terminate_step2 ob c) = traffic c" "register (terminate_step2 ob c) = register c"
  "scheduled (terminate_step2 ob c) = scheduled c"
  by (simp_all add: terminate_step2_def put_object_def traffic_def register_def scheduled_def split: option.split)

lemma terminate_subscription_keeps:
  assumes "terminate_subscription ob c = Inr c'"
  shows "traffic c' = traffic c \<and> scheduled c' = scheduled c"
  using assms
  by (auto simp: terminate_subscription_def split: option.splits if_splits dest!: unregister_keeps)

lemma delete_callback_keeps [simp]:
  "traffic (delete_callback k err c) = traffic c" "register (delete_callback k err c) = register c"
  "scheduled (delete_callback k err c) = scheduled c"
  by (simp_all add: delete_callback_def Let_def split: option.split)

lemma run_termination_keeps [simp]:
  "traffic (run_termination c) = traffic c" "register (run_termination c) = register c"
  "scheduled (run_termination c) = scheduled c"
  by (simp_all add: run_termination_def Let_def split: option.split list.split)

lemma status_change_keeps:
  assumes "on_StatusChangeNotification st ob c = Inr c'"
  shows "traffic c' = traffic c \<and> scheduled c' = scheduled c"
  using assms
  by (auto simp: on_StatusChangeNotification_def split: option.splits if_splits dest!: terminate_subscription_keeps)

lemma dispatch_keeps [simp]:
  "traffic (dispatch_notifications ob ds c) = traffic c" "scheduled (dispatch_notifications ob ds c) = scheduled c"
  by (induction ob ds c rule: dispatch_notifications.induct)
    (auto simp: Let_def split: option.split notification_data.split sum.split prod.split dest: status_change_keeps)

lemma run_dispatch_keeps [simp]:
  "traffic (run_dispatch ob k c) = traffic c" "scheduled (run_dispatch ob k c) = scheduled c"
  by (simp_all add: run_dispatch_def split: option.split)

lemma registered_keeps:
  assumes "registerSubscription valid ob s c = Inr c'"
  shows "traffic c' = traffic c"
  using assms by (auto simp: registerSubscription_def)

lemma create_callback_keeps [simp]: "traffic (fst (create_callback valid ignore ob r c)) = traffic c"
  by (auto simp: create_callback_def Let_def split: option.split sum.split dest: registered_keeps)

lemma add_item_keeps:
  assumes "add_monitored_item ob h e c = Inr c'"
  shows "traffic c' = traffic c \<and> register c' = register c \<and> scheduled c' = scheduled c"
  using assms by (auto simp: add_monitored_item_def split: option.splits)

section \<open>Acknowledgements\<close>

text \<open>The acknowledgements that a history of answers has earned: one for each message with notifications.\<close>

fun earned :: "(publish_request \<times> 'v publish_reply) list \<Rightarrow> (nat \<times> nat) list" where
  "earned [] = []"
| "earned ((rq, PublishError msg) # h) = earned h"
| "earned ((rq, PublishAnswer r) # h) =
     (if nm_notificationData (pr_notificationMessage r) = [] then []
      else [(pr_subscriptionId r, nm_sequenceNumber (pr_notificationMessage r))]) @ earned h"

lemma earned_append: "earned (h1 @ h2) = earned h1 @ earned h2"
  by (induction h1 rule: earned.induct) simp_all

definition acks_of :: "publish_request list \<Rightarrow> (nat \<times> nat) multiset" where
  "acks_of rqs = mset (concat (map rq_subscriptionAcknowledgements rqs))"

lemma acks_of_simps [simp]:
  "acks_of [] = {#}" "acks_of (rq # rqs) = mset (rq_subscriptionAcknowledgements rq) + acks_of rqs"
  "acks_of (xs @ ys) = acks_of xs + acks_of ys"
  by (simp_all add: acks_of_def)

lemma acks_of_remove:
  "k < length rqs \<Longrightarrow> acks_of (take k rqs @ drop (Suc k) rqs) + mset (rq_subscriptionAcknowledgements (rqs ! k)) = acks_of rqs"
  using arg_cong[OF id_take_nth_drop[of k rqs], of acks_of] by (simp add: ac_simps)

text \<open>The requests that the server answered, and those that ended with an error.\<close>

definition answered :: "(publish_request \<times> 'v publish_reply) list \<Rightarrow> publish_request list" where
  "answered h = map fst (filter (\<lambda>(rq, reply). case reply of PublishAnswer r \<Rightarrow> True | PublishError msg \<Rightarrow> False) h)"

definition failed :: "(publish_request \<times> 'v publish_reply) list \<Rightarrow> publish_request list" where
  "failed h = map fst (filter (\<lambda>(rq, reply). case reply of PublishAnswer r \<Rightarrow> False | PublishError msg \<Rightarrow> True) h)"

lemma answered_or_failed: "acks_of (map fst h) = acks_of (answered h) + acks_of (failed h)"
  by (induction h) (auto simp: answered_def failed_def ac_simps split: publish_reply.splits)

text \<open>The invariant of the traffic.\<close>

definition balanced :: "'v client \<Rightarrow> bool" where
  "balanced c \<longleftrightarrow> ce_nbPendingPublishRequests c = int (length (ce_outstanding c))
   \<and> mset (earned (ce_history c)) =
       mset (ce_subscriptionAcknowledgements c) + acks_of (ce_outstanding c) + acks_of (map fst (ce_history c))"

lemma balanced_traffic: "traffic c' = traffic c \<Longrightarrow> balanced c \<Longrightarrow> balanced c'"
  by (simp add: traffic_def balanced_def)

lemma send_balanced:
  assumes "internalSendPublishRequest handle c = Inr c'" and "balanced c"
  shows "balanced c'"
  using assms by (auto simp: internalSendPublishRequest_def Let_def balanced_def ac_simps)

lemma immediate_balanced:
  assumes "run_immediate handle c = Inr c'" and "balanced c"
  shows "balanced c'"
proof -
  have "balanced (c\<lparr>ce_immediates := n\<rparr>)" for n by (rule balanced_traffic[OF _ assms(2)]) simp
  then show ?thesis
    using assms send_balanced by (auto simp: run_immediate_def Let_def split: if_splits)
qed

lemma receive_traffic:
  "traffic (receive_publish_response r c) =
     (ce_nbPendingPublishRequests c, ce_subscriptionAcknowledgements c @
        (if nm_notificationData (pr_notificationMessage r) = [] then []
         else [(pr_subscriptionId r, nm_sequenceNumber (pr_notificationMessage r))]),
      ce_outstanding c, ce_history c)"
  by (simp add: receive_publish_response_def Let_def acknowledge_notification_def put_object_def traffic_def
      split: option.split)

lemma callback_traffic:
  assumes "k < length (ce_outstanding c)"
  shows "traffic (publish_callback valid now k reply c) =
     (ce_nbPendingPublishRequests c - 1,
      ce_subscriptionAcknowledgements c @ earned [(ce_outstanding c ! k, reply)],
      take k (ce_outstanding c) @ drop (Suc k) (ce_outstanding c),
      ce_history c @ [(ce_outstanding c ! k, reply)])"
  using assms by (cases reply) (simp_all add: publish_callback_def Let_def receive_traffic, simp_all add: traffic_def)

lemma callback_balanced:
  assumes "balanced c"
  shows "balanced (publish_callback valid now k reply c)"
proof (cases "k < length (ce_outstanding c)")
  case False
  then show ?thesis using assms by (simp add: publish_callback_def)
next
  case True
  define c' where "c' = publish_callback valid now k reply c"
  have c': "ce_nbPendingPublishRequests c' = ce_nbPendingPublishRequests c - 1"
    "ce_subscriptionAcknowledgements c' = ce_subscriptionAcknowledgements c @ earned [(ce_outstanding c ! k, reply)]"
    "ce_outstanding c' = take k (ce_outstanding c) @ drop (Suc k) (ce_outstanding c)"
    "ce_history c' = ce_history c @ [(ce_outstanding c ! k, reply)]"
    using callback_traffic[OF True, of valid now reply] by (simp_all add: traffic_def c'_def)
  have "acks_of (ce_outstanding c') + mset (rq_subscriptionAcknowledgements (ce_outstanding c ! k)) =
      acks_of (ce_outstanding c)"
    unfolding c' by (rule acks_of_remove[OF True])
  then show ?thesis
    using assms True unfolding c'_def[symmetric] balanced_def
    by (simp add: c' earned_append ac_simps) 
qed

lemma step_balanced:
  assumes "client_step c ev = Inr c'" and "balanced c"
  shows "balanced c'"
proof -
  have *: "traffic c' = traffic c \<Longrightarrow> balanced c'" by (rule balanced_traffic[OF _ assms(2)])
  show ?thesis
  proof (cases ev)
    case (Publish_replied k reply valid now)
    with assms show ?thesis by (auto intro: callback_balanced)
  next
    case (Immediate handle)
    with assms show ?thesis by (auto intro: immediate_balanced)
  next
    case (Timer valid)
    with assms(1) show ?thesis by (intro *) (auto simp: run_timer_def Let_def)
  qed (use assms(1) in \<open>auto intro: balanced_traffic[OF _ assms(2)] simp: terminate_client_def
      dest: terminate_subscription_keeps add_item_keeps\<close>)
qed

text \<open>C8: In every run of a client the number of pending publish requests is the number of requests that wait
  for their answer, and every acknowledgement is accounted for exactly once: the notification messages
  received in answers to publish requests are exactly those whose acknowledgement is still queued, travels in a request that waits
  for its answer, was in a request that the server answered, or was in a request that failed. So no
  message is acknowledged in two requests, and an acknowledgement whose request fails is lost: it is not
  queued again.\<close>

theorem acknowledgements_balanced:
  assumes "client_runs evs c"
  shows "ce_nbPendingPublishRequests c = int (length (ce_outstanding c))
   \<and> mset (earned (ce_history c)) =
       mset (ce_subscriptionAcknowledgements c) + acks_of (ce_outstanding c)
       + acks_of (answered (ce_history c)) + acks_of (failed (ce_history c))"
proof -
  have "balanced c"
    using assms
  proof (induction rule: client_runs.induct)
    case (client_start t)
    then show ?case by (simp add: balanced_def new_client_def)
  next
    case (client_more evs c ev c')
    then show ?case using step_balanced by blast
  qed
  then show ?thesis by (simp add: balanced_def answered_or_failed add.assoc)
qed

section \<open>A run\<close>

definition example_client_options :: client_subscription_options where
  "example_client_options = \<lparr>co_requestedPublishingInterval = 100, co_requestedLifetimeCount = 60,
     co_requestedMaxKeepAliveCount = 10, co_maxNotificationsPerPublish = 0, co_publishingEnabled = True,
     co_priority = 1\<rparr>"

definition example_created :: create_subscription_response where
  "example_created = \<lparr>cr_subscriptionId = 7, cr_revisedPublishingInterval = 100, cr_revisedLifetimeCount = 60,
     cr_revisedMaxKeepAliveCount = 10\<rparr>"

definition example_answer :: "int publish_response" where
  "example_answer = \<lparr>pr_subscriptionId = 7, pr_availableSequenceNumbers = [1], pr_moreNotifications = False,
     pr_notificationMessage = \<lparr>nm_sequenceNumber = 1, nm_notificationData = [StatusChangeNotification Good]\<rparr>,
     pr_results = []\<rparr>"

definition example_inputs :: "int client_input list" where
  "example_inputs = [New_subscription 0 example_client_options False, Create_answered 0 (Some example_created) True False,
     Immediate 1, Immediate 2, Publish_replied 0 (PublishAnswer example_answer) True 9, Dispatch 0 0, Immediate 3,
     New_subscription 1 example_client_options False]"

definition example_client :: "int client" where
  "example_client = projr (client_run (new_client 60000) example_inputs)"

lemma replenish_five:
  "replenish_publish_request_queue v c = send_publish_request v (send_publish_request v (send_publish_request v
     (send_publish_request v (send_publish_request v c))))"
  by (simp add: replenish_publish_request_queue_def publishRequestCountInPipeline_def numeral_eq_Suc)

lemmas client_defs = new_client_def new_client_subscription_def displayKeepAliveWarning_def put_object_def
  client_minimumMaxKeepAliveCount_def create_callback_def registerSubscription_def replenish_five send_publish_request_def run_immediate_def internalSendPublishRequest_def
  publish_callback_def receive_publish_response_def acknowledge_notification_def onNotificationMessage_def
  run_dispatch_def on_StatusChangeNotification_def emit_event_def

lemmas client_examples = example_inputs_def example_client_options_def example_created_def example_answer_def

lemma example_client_run: "client_run (new_client 60000) example_inputs = Inr example_client"
  unfolding example_client_def
  by (simp add: client_defs client_examples Let_def sameStatusCode_def bad_timeout_def
      Good_def constant_status_def sc_value_def)

lemma example_client_runs: "client_runs example_inputs example_client"
  using client_runs_more[OF client_start example_client_run] by simp

lemma example_client_state:
  "ce_subscriptionMap example_client = [(7, 0)]" "ce_isSuspended example_client = False"
  "ce_session example_client" "ce_immediates example_client = 3" "ce_timers example_client = 0"
  "ce_subscriptionAcknowledgements example_client = []"
  "map rq_subscriptionAcknowledgements (ce_outstanding example_client) = [[], [(7, 1)]]"
  "length (ce_outstanding example_client) = 2"
  "earned (ce_history example_client) = [(7, 1)]" "ce_activeSubscriptionCount example_client = 1"
  "map_option cs_subscriptionId (ce_objects example_client 1) = Some PENDING_SUBSCRIPTION_ID"
  unfolding example_client_def
  by (simp_all add: client_defs client_examples Let_def sameStatusCode_def bad_timeout_def Good_def constant_status_def
      sc_value_def)

text \<open>In the last line the request that carries the acknowledgement fails.\<close>

theorem acknowledgements_balanced_witness:
  "\<exists>c. client_run example_client [Publish_replied 1 (PublishError ''BadTimeout'') True 12] = Inr c \<and>
     ce_nbPendingPublishRequests c = 1 \<and> acks_of (failed (ce_history c)) = {#(7, 1)#} \<and>
     ce_subscriptionAcknowledgements c = [] \<and> acks_of (ce_outstanding c) = {#}"
proof -
  let ?c = "publish_callback True 12 1 (PublishError ''BadTimeout'') example_client"
  have run: "client_run example_client [Publish_replied 1 (PublishError ''BadTimeout'') True 12] = Inr ?c" by simp
  from client_runs_more[OF example_client_runs this]
  have r: "client_runs (example_inputs @ [Publish_replied 1 (PublishError ''BadTimeout'') True 12]) ?c" .
  have t: "traffic ?c = (ce_nbPendingPublishRequests example_client - 1, ce_subscriptionAcknowledgements example_client,
      take 1 (ce_outstanding example_client), ce_history example_client @ [(ce_outstanding example_client ! 1, PublishError ''BadTimeout'')])"
    using callback_traffic[of 1 example_client True 12 "PublishError ''BadTimeout''"]
    by (simp add: example_client_state drop_all)
  have "acks_of (failed (ce_history example_client)) = {#}" "length (take 1 (ce_outstanding example_client)) = 1"
    "acks_of (take 1 (ce_outstanding example_client)) = {#}" "rq_subscriptionAcknowledgements (ce_outstanding example_client ! 1) = [(7, 1)]"
    unfolding example_client_def
    by (simp_all add: client_defs client_examples Let_def sameStatusCode_def bad_timeout_def Good_def constant_status_def
        sc_value_def failed_def)
  with t acknowledgements_balanced[OF r] run example_client_state show ?thesis
    by (auto simp: traffic_def failed_def)
qed

end
