(* ===== verification/Client_Pipeline.thy ===== *)
theory Client_Pipeline
  imports Client_Engine
begin

text \<open>
  The pipeline of publish requests of a client: it never dries up while the server and the application
  behave, and it dries up when a subscription is terminated before the server has answered its creation.
\<close>

section \<open>The pipeline of publish requests\<close>

text \<open>
  A subscription object is settled when it is terminated or on its way to be, or registered under its
  id; terminating a settled object unregisters exactly one entry, or none.
\<close>

definition settled :: "'v client \<Rightarrow> nat \<Rightarrow> bool" where
  "settled c ob \<longleftrightarrow> (case ce_objects c ob of
     None \<Rightarrow> True
   | Some s \<Rightarrow> cs_subscriptionId s \<in> {TERMINATED_SUBSCRIPTION_ID, TERMINATING_SUBSCRIPTION_ID}
       \<or> map_of (ce_subscriptionMap c) (cs_subscriptionId s) = Some ob)"

text \<open>
  A friendly input: no error that tells the client to stop, and no subscription is terminated before it
  is registered.
\<close>

fun friendly :: "'v client \<Rightarrow> 'v client_input \<Rightarrow> bool" where
  "friendly c (Publish_replied k (PublishError msg) valid now) =
     (stays_active msg c \<and> \<not> matches ''Connection Break'' msg)"
| "friendly c (Terminate_subscription ob) = settled c ob"
| "friendly c (Dispatch ob k) = settled c ob"
| "friendly c ev = True"

inductive friendly_runs :: "'v client_input list \<Rightarrow> 'v client \<Rightarrow> bool" where
  friendly_start: "friendly_runs [] (new_client t)"
| friendly_more: "friendly_runs evs c \<Longrightarrow> friendly c ev \<Longrightarrow> client_step c ev = Inr c' \<Longrightarrow> friendly_runs (evs @ [ev]) c'"

definition counts :: "'v client \<Rightarrow> bool" where
  "counts c \<longleftrightarrow> ce_activeSubscriptionCount c = int (length (ce_subscriptionMap c))
   \<and> distinct (map fst (ce_subscriptionMap c)) \<and> ce_nbMaxPublishRequestsAcceptedByServer c = 1000"

text \<open>The requests that are at the server or about to be sent, unless the engine is at its limit.\<close>

definition flowing :: "'v client \<Rightarrow> nat \<Rightarrow> bool" where
  "flowing c n \<longleftrightarrow> \<not> ce_isSuspended c \<longrightarrow> ce_session c \<longrightarrow> ce_activeSubscriptionCount c > 0 \<longrightarrow>
     n \<le> length (ce_outstanding c) + scheduled c"

lemma counts_register: "register c' = register c \<Longrightarrow> counts c' = counts c"
  by (simp add: register_def counts_def)

lemma flowing_views:
  "traffic c' = traffic c \<Longrightarrow> register c' = register c \<Longrightarrow> scheduled c \<le> scheduled c' \<Longrightarrow> flowing c n \<Longrightarrow> flowing c' n"
  by (auto simp: traffic_def register_def flowing_def)

lemma pending_outstanding: "balanced c \<Longrightarrow> ce_nbPendingPublishRequests c = int (length (ce_outstanding c))"
  by (simp add: balanced_def)

text \<open>One more request is scheduled, unless the engine waits for as many as it thinks the server can queue.\<close>

lemma send_scheduled:
  assumes "balanced c" and "\<not> ce_isSuspended c"
  shows "scheduled (send_publish_request valid c) = Suc (scheduled c)
    \<or> scheduled (send_publish_request valid c) = scheduled c
      \<and> ce_nbMaxPublishRequestsAcceptedByServer c \<le> int (length (ce_outstanding c))"
  using assms by (auto simp: send_publish_request_def pending_outstanding scheduled_def)

lemma sends_scheduled:
  assumes "balanced c" and "\<not> ce_isSuspended c" and "ce_nbMaxPublishRequestsAcceptedByServer c = 1000"
  shows "scheduled c + n \<le> scheduled ((send_publish_request valid ^^ n) c) \<or> 1000 \<le> length (ce_outstanding c)"
proof (induction n)
  case (Suc n)
  define d where "d = (send_publish_request valid ^^ n) c"
  have t: "traffic d = traffic c" "register d = register c" by (simp_all add: d_def)
  then have d: "balanced d" "\<not> ce_isSuspended d" "ce_outstanding d = ce_outstanding c"
    "ce_nbMaxPublishRequestsAcceptedByServer d = 1000"
    using assms by (auto simp: register_def traffic_def intro: balanced_traffic[OF t(1)])
  show ?case using Suc send_scheduled[OF d(1,2), of valid] d(3,4) by (auto simp: d_def[symmetric])
qed simp

lemma replenish_sends: "replenish_publish_request_queue valid c = (send_publish_request valid ^^ 5) c"
  unfolding replenish_publish_request_queue_def publishRequestCountInPipeline_def
  by (simp add: numeral_eq_Suc funpow_swap1)

lemma replenish_scheduled:
  assumes "balanced c" and "\<not> ce_isSuspended c" and "ce_nbMaxPublishRequestsAcceptedByServer c = 1000"
  shows "5 \<le> length (ce_outstanding c) + scheduled (replenish_publish_request_queue valid c)"
  using sends_scheduled[OF assms, of 5 valid] unfolding replenish_sends by auto

lemma replenish_grows: "scheduled c \<le> scheduled (replenish_publish_request_queue valid c)"
proof -
  have one: "scheduled c \<le> scheduled (send_publish_request valid c)" for c :: "'a client"
    by (simp add: send_publish_request_def scheduled_def)
  have "scheduled c \<le> scheduled ((send_publish_request valid ^^ n) c)" for n and c :: "'a client"
    by (induction n) (auto intro: order_trans[OF _ one])
  from order_trans[OF one this] show ?thesis unfolding replenish_publish_request_queue_def .
qed

section \<open>Termination and dispatch\<close>

definition shrinks :: "'v client \<Rightarrow> 'v client \<Rightarrow> bool" where
  "shrinks c c' \<longleftrightarrow> traffic c' = traffic c \<and> scheduled c' = scheduled c \<and> ce_isSuspended c' = ce_isSuspended c
     \<and> ce_session c' = ce_session c \<and> ce_activeSubscriptionCount c' \<le> ce_activeSubscriptionCount c"

lemma shrinks_trans: "shrinks c c1 \<Longrightarrow> shrinks c1 c2 \<Longrightarrow> shrinks c c2"
  by (simp add: shrinks_def)

lemma shrinks_register: "traffic c' = traffic c \<Longrightarrow> scheduled c' = scheduled c \<Longrightarrow> register c' = register c \<Longrightarrow> shrinks c c'"
  by (simp add: shrinks_def register_def)

lemma shrinks_flowing: "shrinks c c' \<Longrightarrow> flowing c n \<Longrightarrow> flowing c' n"
  by (auto simp: shrinks_def flowing_def traffic_def)

lemma length_filter_key:
  "distinct (map fst xs) \<Longrightarrow> map_of xs i = Some v \<Longrightarrow> Suc (length (filter (\<lambda>(j, _). j \<noteq> i) xs)) = length xs"
proof (induction xs)
  case (Cons x xs)
  obtain j w where x: "x = (j, w)" by force
  show ?case
  proof (cases "j = i")
    case True
    with Cons.prems(1) have "filter (\<lambda>(j, _). j \<noteq> i) xs = xs" by (force simp: x filter_id_conv)
    with True show ?thesis by (simp add: x)
  next
    case False
    with Cons show ?thesis by (simp add: x)
  qed
qed simp

lemma terminate_settled:
  assumes "terminate_subscription ob c = Inr c'" and "settled c ob" and "counts c"
  shows "shrinks c c' \<and> counts c' \<and> settled c' ob"
proof (cases "ce_objects c ob")
  case None
  with assms show ?thesis by (auto simp: terminate_subscription_def shrinks_def)
next
  case (Some s)
  show ?thesis
  proof (cases "cs_subscriptionId s \<in> {TERMINATED_SUBSCRIPTION_ID, TERMINATING_SUBSCRIPTION_ID}")
    case True
    with assms Some show ?thesis by (auto simp: terminate_subscription_def shrinks_def)
  next
    case False
    define i where "i = cs_subscriptionId s"
    define c1 where "c1 = (put_object ob (s\<lparr>cs_subscriptionId := TERMINATING_SUBSCRIPTION_ID\<rparr>) c)\<lparr>
      ce_activeSubscriptionCount := ce_activeSubscriptionCount c - 1,
      ce_subscriptionMap := filter (\<lambda>(j, _). j \<noteq> i) (ce_subscriptionMap c)\<rparr>"
    have m: "map_of (ce_subscriptionMap c) i = Some ob" using assms(2) Some False by (simp add: settled_def i_def)
    have "distinct (map fst (ce_subscriptionMap c))" using assms(3) by (simp add: counts_def)
    from length_filter_key[OF this m] have c1: "counts c1"
      using assms(3) by (auto simp: counts_def c1_def put_object_def distinct_map_filter)
    have o: "ce_objects c1 ob = Some (s\<lparr>cs_subscriptionId := TERMINATING_SUBSCRIPTION_ID\<rparr>)"
      by (simp add: c1_def put_object_def)
    have v: "traffic c1 = traffic c" "scheduled c1 = scheduled c" by (simp_all add: c1_def)
    have f: "ce_isSuspended c1 = ce_isSuspended c" "ce_session c1 = ce_session c"
      "ce_activeSubscriptionCount c1 = ce_activeSubscriptionCount c - 1" by (simp_all add: c1_def put_object_def)
    have c': "c' = (if ce_session c1 then c1\<lparr>ce_deletes := ce_deletes c1 @ [ob]\<rparr> else terminate_step2 ob c1)"
      using assms(1) Some False
      by (auto simp: terminate_subscription_def unregisterSubscription_def c1_def i_def put_object_def split: if_splits)
    have "register c' = register c1" "traffic c' = traffic c" "scheduled c' = scheduled c"
      using v by (simp_all add: c')
    moreover have "settled c' ob"
      using o by (auto simp: c' settled_def terminate_step2_def put_object_def)
    ultimately show ?thesis using c1 f by (simp add: shrinks_def register_def counts_def)
  qed
qed

lemma settled_put:
  assumes "settled c ob" and "ce_objects c ob = Some s" and "cs_subscriptionId s' = cs_subscriptionId s"
  shows "settled (put_object ob s' c) ob"
  using assms by (simp add: settled_def put_object_def)

lemma on_event_list_id: "cs_subscriptionId (fst (on_EventNotificationList items s)) = cs_subscriptionId s"
  by (induction items s rule: on_EventNotificationList.induct) (simp_all split: option.split)

lemma emit_event_settled: "settled c ob \<Longrightarrow> settled (emit_event ob ev c) ob"
  by (auto simp: emit_event_def settled_def put_object_def split: option.split)

lemma dispatch_settled:
  assumes "settled c ob" and "counts c"
  shows "shrinks c (dispatch_notifications ob ds c) \<and> counts (dispatch_notifications ob ds c)"
  using assms
proof (induction ob ds c rule: dispatch_notifications.induct)
  case (1 ob c)
  then show ?case by (simp add: shrinks_def)
next
  case (2 ob d ds c)
  show ?case
  proof (cases "ce_objects c ob")
    case None
    with 2 show ?thesis by (simp add: shrinks_def)
  next
    case (Some s)
    have put: "shrinks c (put_object ob s' c)" "counts (put_object ob s' c)" for s'
      using 2(5) by (simp_all add: shrinks_register counts_register[of "put_object ob s' c" c])
    show ?thesis
    proof (cases d)
      case (DataChangeNotification items)
      have "settled (put_object ob (on_DataChangeNotification items s) c) ob"
        by (rule settled_put[OF 2(4) Some]) (simp add: on_DataChangeNotification_def)
      from 2(1)[OF Some DataChangeNotification this put(2)] put(1) show ?thesis
        by (auto simp: Some DataChangeNotification intro: shrinks_trans)
    next
      case (EventNotificationList items)
      obtain s1 ok where e: "on_EventNotificationList items s = (s1, ok)" by force
      have "cs_subscriptionId s1 = cs_subscriptionId s" using on_event_list_id[of items s] by (simp add: e)
      then have "settled (put_object ob s1 c) ob" by (rule settled_put[OF 2(4) Some])
      with 2(2)[OF Some EventNotificationList refl e[symmetric] refl] put show ?thesis
        by (cases ok) (auto simp: Some EventNotificationList e intro: shrinks_trans)
    next
      case (StatusChangeNotification st)
      show ?thesis
      proof (cases "on_StatusChangeNotification st ob c")
        case (Inl x)
        with 2(5) show ?thesis by (simp add: Some StatusChangeNotification shrinks_def)
      next
        case (Inr c1)
        have st: "settled (put_object ob (s\<lparr>cs_hasTimedOut := True\<rparr>) c) ob" by (rule settled_put[OF 2(4) Some]) simp
        obtain c2 where c2: "c1 = emit_event ob (StatusChanged st) c2"
          "shrinks c c2 \<and> counts c2 \<and> settled c2 ob"
        proof (cases "sameStatusCode st bad_timeout")
          case True
          with Inr obtain c2 where "terminate_subscription ob (put_object ob (s\<lparr>cs_hasTimedOut := True\<rparr>) c) = Inr c2"
            "c1 = emit_event ob (StatusChanged st) c2"
            by (auto simp: on_StatusChangeNotification_def Some)
          with terminate_settled[OF this(1) st put(2)] show thesis by (intro that) (auto intro: shrinks_trans put)
        next
          case False
          with Inr 2(4,5) show thesis
            by (intro that[of c]) (auto simp: on_StatusChangeNotification_def Some shrinks_def)
        qed
        moreover have "shrinks c2 c1" by (rule shrinks_register) (simp_all add: c2(1))
        ultimately have "shrinks c c1" "counts c1" "settled c1 ob"
          using counts_register[of c1 c2] by (auto simp: emit_event_settled intro: shrinks_trans)
        with 2(3)[OF Some StatusChangeNotification Inr] show ?thesis
          by (auto simp: Some StatusChangeNotification Inr intro: shrinks_trans)
      qed
    qed
  qed
qed

section \<open>The pipeline never dries up\<close>

definition pipelined :: "'v client \<Rightarrow> bool" where
  "pipelined c \<longleftrightarrow> balanced c \<and> counts c \<and> flowing c 5"

lemma pipelined_shrinks: "pipelined c \<Longrightarrow> shrinks c c' \<Longrightarrow> counts c' \<Longrightarrow> pipelined c'"
  by (auto simp: pipelined_def intro: shrinks_flowing balanced_traffic[of c' c] simp: shrinks_def)

lemma pipelined_views:
  "pipelined c \<Longrightarrow> traffic c' = traffic c \<Longrightarrow> register c' = register c \<Longrightarrow> scheduled c \<le> scheduled c' \<Longrightarrow> pipelined c'"
  by (auto simp: pipelined_def counts_register[of c' c] intro: flowing_views balanced_traffic[of c' c])

lemma insert_by_id_length [simp]: "length (insert_by_id i x xs) = Suc (length xs)"
  by (induction i x xs rule: insert_by_id.induct) simp_all

lemma insert_by_id_keys: "set (map fst (insert_by_id i x xs)) = insert i (set (map fst xs))"
  by (induction i x xs rule: insert_by_id.induct) auto

lemma insert_by_id_fresh:
  "distinct (map fst xs) \<Longrightarrow> map_of xs i = None \<Longrightarrow> distinct (map fst (insert_by_id i x xs))"
proof (induction i x xs rule: insert_by_id.induct)
  case (2 i x j y ys)
  then show ?case using insert_by_id_keys[of i x ys] by (auto simp: map_of_eq_None_iff split: if_splits)
qed simp

lemma registered_pipelined:
  assumes "pipelined c" and "registerSubscription valid ob s c = Inr c'"
  shows "pipelined c'"
proof -
  define c1 where "c1 = c\<lparr>ce_activeSubscriptionCount := ce_activeSubscriptionCount c + 1,
    ce_subscriptionMap := insert_by_id (cs_subscriptionId s) ob (ce_subscriptionMap c),
    ce_timeoutHint := min (max (ce_timeoutHint c) (cs_timeoutHint s)) 0x7ffffff\<rparr>"
  have c': "c' = replenish_publish_request_queue valid c1" "map_of (ce_subscriptionMap c) (cs_subscriptionId s) = None"
    using assms(2) by (auto simp: registerSubscription_def c1_def)
  have b: "balanced c1" using assms(1) by (auto simp: pipelined_def c1_def intro: balanced_traffic)
  have c1: "counts c1"
    using assms(1) c'(2) insert_by_id_fresh[of "ce_subscriptionMap c"] by (simp add: pipelined_def counts_def c1_def)
  have "flowing c' 5"
    using replenish_scheduled[OF b _ , of valid] c1 replenish_keeps[of valid c1]
    by (auto simp: flowing_def c'(1) counts_def traffic_def register_def)
  then show ?thesis
    using b c1 counts_register[of c' c1] by (auto simp: pipelined_def c'(1) intro: balanced_traffic)
qed

lemma create_pipelined: "pipelined c \<Longrightarrow> pipelined (fst (create_callback valid ignore ob r c))"
proof -
  assume c: "pipelined c"
  have "pipelined (put_object ob s c)" for s by (rule pipelined_views[OF c]) simp_all
  then show ?thesis
    using c by (auto simp: create_callback_def Let_def split: option.split sum.split intro: registered_pipelined[rotated])
qed

lemma send_pipelined:
  assumes "balanced c" and "counts c" and "flowing c 4"
  shows "pipelined (if \<not> ce_isSuspended c \<and> ce_activeSubscriptionCount c > 0 then send_publish_request valid c else c)"
proof (cases "\<not> ce_isSuspended c \<and> ce_activeSubscriptionCount c > 0")
  case True
  define c' where "c' = send_publish_request valid c"
  have v: "traffic c' = traffic c" "register c' = register c" by (simp_all add: c'_def)
  have "flowing c' 5"
    using assms send_scheduled[OF assms(1), of valid] True v
    by (auto simp: flowing_def c'_def[symmetric] counts_def traffic_def register_def)
  moreover have "balanced c'" by (rule balanced_traffic[OF v(1) assms(1)])
  moreover have "counts c'" using counts_register[OF v(2)] assms(2) by simp
  ultimately show ?thesis using True by (simp add: pipelined_def c'_def)
next
  case False
  with assms(1,2) have "pipelined c" by (auto simp: pipelined_def flowing_def)
  with False show ?thesis by auto
qed

lemma timer_pipelined:
  assumes "pipelined c"
  shows "pipelined (run_timer valid c)"
proof (cases "ce_timers c = 0")
  case True
  with assms show ?thesis by (simp add: run_timer_def)
next
  case False
  define c1 where "c1 = c\<lparr>ce_timers := ce_timers c - 1\<rparr>"
  have c1: "balanced c1" "counts c1"
    using assms by (auto simp: pipelined_def c1_def counts_def intro: balanced_traffic)
  have f: "flowing c1 4" using assms False by (auto simp: pipelined_def flowing_def scheduled_def c1_def)
  have m: "ce_subscriptionMap c1 = [] \<longleftrightarrow> \<not> ce_activeSubscriptionCount c1 > 0" using c1(2) by (auto simp: counts_def)
  have run: "run_timer valid c = (if ce_subscriptionMap c1 = [] then c1 else send_publish_request valid c1)"
    using False by (simp add: run_timer_def Let_def client_subscriptionCount_def c1_def)
  show ?thesis
  proof (cases "ce_subscriptionMap c1 = [] \<or> ce_isSuspended c1")
    case True
    then have "flowing c1 5" using m by (auto simp: flowing_def)
    with True show ?thesis using c1 by (auto simp: run send_publish_request_def pipelined_def)
  next
    case False
    then show ?thesis using send_pipelined[OF c1 f, of valid] m by (simp add: run)
  qed
qed

lemma immediate_pipelined:
  assumes "run_immediate handle c = Inr c'" and "pipelined c"
  shows "pipelined c'"
proof (cases "ce_immediates c = 0 \<or> \<not> ce_session c \<or> ce_isSuspended c")
  case True
  with assms show ?thesis
    using immediate_balanced[OF assms(1)]
    by (auto simp: run_immediate_def Let_def pipelined_def flowing_def counts_def split: if_splits)
next
  case False
  have "balanced c'" using immediate_balanced[OF assms(1)] assms(2) by (simp add: pipelined_def)
  moreover have "counts c'" "flowing c' 5"
    using assms False
    by (auto simp: run_immediate_def Let_def internalSendPublishRequest_def pipelined_def counts_def flowing_def
        scheduled_def)
  ultimately show ?thesis by (simp add: pipelined_def)
qed

lemma receive_keeps: "register (receive_publish_response r c) = register c" "scheduled (receive_publish_response r c) = scheduled c"
  by (simp_all add: receive_publish_response_def Let_def acknowledge_notification_def split: option.split)

lemma callback_pipelined:
  assumes "pipelined c" and "friendly c (Publish_replied k reply valid now)"
  shows "pipelined (publish_callback valid now k reply c)"
proof (cases "k < length (ce_outstanding c)")
  case False
  with assms show ?thesis by (simp add: publish_callback_def)
next
  case True
  define c1 where "c1 = c\<lparr>ce_outstanding := take k (ce_outstanding c) @ drop (Suc k) (ce_outstanding c),
    ce_history := ce_history c @ [(ce_outstanding c ! k, reply)],
    ce_nbPendingPublishRequests := ce_nbPendingPublishRequests c - 1, ce_lastRequestSentTime := now\<rparr>"
  define c2 where "c2 = (case reply of PublishError msg \<Rightarrow> c1 | PublishAnswer r \<Rightarrow> receive_publish_response r c1)"
  have v: "register c2 = register c" "scheduled c2 = scheduled c"
    "ce_outstanding c2 = take k (ce_outstanding c) @ drop (Suc k) (ce_outstanding c)"
    using receive_keeps[of _ c1] receive_traffic[of _ c1]
    by (auto simp: c2_def c1_def register_def scheduled_def traffic_def split: publish_reply.split)
  define send where "send = (if \<not> ce_isSuspended c2 \<and> ce_activeSubscriptionCount c2 > 0 then send_publish_request valid c2 else c2)"
  have run: "publish_callback valid now k reply c = send"
  proof (cases reply)
    case (PublishError msg)
    then have "stays_active msg c" "\<not> matches ''Connection Break'' msg" using assms(2) by auto
    moreover from this(1) have "stays_active msg c1" "\<not> matches ''BadTooManyPublishRequests'' msg"
      by (simp_all add: stays_active_def c1_def)
    ultimately show ?thesis
      using True by (simp add: publish_callback_def Let_def PublishError c1_def[unfolded PublishError, symmetric] send_def c2_def)
  next
    case (PublishAnswer r)
    then show ?thesis
      using True by (simp add: publish_callback_def Let_def c1_def[unfolded PublishAnswer, symmetric] send_def c2_def)
  qed
  have "balanced send" using callback_balanced[of c valid now k reply] assms(1) by (simp add: run pipelined_def)
  then have b: "balanced c2"
    by (rule balanced_traffic[rotated]) (simp add: send_def)
  have cn: "counts c2" using assms(1) counts_register[OF v(1)] by (simp add: pipelined_def)
  have "flowing c2 4"
    using assms(1) v True by (auto simp: pipelined_def flowing_def register_def)
  then show ?thesis unfolding run send_def by (rule send_pipelined[OF b cn])
qed

lemma suspend_pipelined:
  assumes "pipelined c"
  shows "pipelined (suspend b valid c)"
proof (cases "ce_isSuspended c = b \<or> b")
  case True
  with assms show ?thesis
    by (auto simp: suspend_def Let_def pipelined_def flowing_def counts_def intro: balanced_traffic[of _ c])
next
  case False
  define c1 where "c1 = c\<lparr>ce_isSuspended := False\<rparr>"
  have c1: "balanced c1" "counts c1" "\<not> ce_isSuspended c1"
    using assms by (auto simp: pipelined_def counts_def c1_def intro: balanced_traffic[of _ c])
  have "flowing (replenish_publish_request_queue valid c1) 5"
    using replenish_scheduled[OF c1(1,3), of valid] c1(2) replenish_keeps[of valid c1]
    by (auto simp: flowing_def counts_def traffic_def)
  moreover have "suspend b valid c = replenish_publish_request_queue valid c1"
    using False by (auto simp: suspend_def Let_def c1_def)
  ultimately show ?thesis
    using c1 counts_register[OF replenish_keeps(2), of valid c1]
    by (auto simp: pipelined_def intro: balanced_traffic[of _ c1])
qed

lemma step_pipelined:
  assumes "pipelined c" and "friendly c ev" and "client_step c ev = Inr c'"
  shows "pipelined c'"
proof (cases ev)
  case (New_subscription ob o1 ignore)
  then show ?thesis using assms(3) by (auto intro: pipelined_views[OF assms(1)])
next
  case (Create_answered ob r valid ignore)
  then show ?thesis using assms(1,3) create_pipelined by auto
next
  case (Publish_replied k reply valid now)
  then show ?thesis using assms callback_pipelined by auto
next
  case (Immediate handle)
  then show ?thesis using assms immediate_pipelined by auto
next
  case (Timer valid)
  then show ?thesis using assms timer_pipelined by auto
next
  case (Dispatch ob k)
  have c': "c' = run_dispatch ob k c" "settled c ob" using assms(2,3) Dispatch by auto
  show ?thesis
  proof (cases "ce_objects c ob")
    case None
    then show ?thesis using assms(1) c' by (simp add: run_dispatch_def)
  next
    case (Some s)
    define c1 where "c1 = put_object ob (s\<lparr>cs_dispatches := take k (cs_dispatches s) @ drop (Suc k) (cs_dispatches s)\<rparr>) c"
    have "settled c1 ob" unfolding c1_def by (rule settled_put[OF c'(2) Some]) simp
    moreover have "pipelined c1" by (rule pipelined_views[OF assms(1)]) (simp_all add: c1_def)
    ultimately show ?thesis
      using dispatch_settled[of c1 ob] pipelined_shrinks[of c1] assms(1) Some
      by (auto simp: c'(1) run_dispatch_def c1_def[symmetric] pipelined_def)
  qed
next
  case (Terminate_subscription ob)
  then show ?thesis
    using assms terminate_settled[of ob c c'] pipelined_shrinks[OF assms(1)] by (auto simp: pipelined_def)
next
  case (Suspend b valid)
  then show ?thesis using assms suspend_pipelined by auto
next
  case (Replenish valid)
  then show ?thesis
    using assms(1,3) replenish_grows[of c valid] by (auto intro: pipelined_views)
next
  case Close_session
  then show ?thesis
    using assms(1,3) by (auto simp: terminate_client_def pipelined_def flowing_def counts_def intro: balanced_traffic[of _ c])
next
  case (Delete_answered k err)
  then show ?thesis using assms(3) by (auto intro: pipelined_views[OF assms(1)])
next
  case Termination_done
  then show ?thesis using assms(3) by (auto intro: pipelined_views[OF assms(1)])
next
  case (Add_item ob h e)
  then show ?thesis using assms(3) add_item_keeps[of ob h e c c'] by (auto intro: pipelined_views[OF assms(1)])
qed

lemma friendly_pipelined: "friendly_runs evs c \<Longrightarrow> pipelined c"
proof (induction rule: friendly_runs.induct)
  case (friendly_start t)
  then show ?case by (simp add: pipelined_def balanced_def counts_def flowing_def new_client_def)
next
  case (friendly_more evs c ev c')
  then show ?case using step_pipelined by blast
qed

text \<open>C7: While the server and the application behave - no error that tells the client to stop, no subscription
  terminated before it is registered - the pipeline of publish requests never dries up: whenever the
  session is open, the engine is not suspended and a subscription is registered, at least five requests
  are at the server or scheduled to be sent, however the answers, timers, errors, disconnected
  channels, terminations and suspensions follow each other.\<close>

theorem pipeline_never_dries_up:
  assumes "friendly_runs evs c" and "\<not> ce_isSuspended c" and "ce_session c" and "ce_subscriptionMap c \<noteq> []"
  shows "publishRequestCountInPipeline \<le> length (ce_outstanding c) + (ce_immediates c + ce_timers c)"
  using friendly_pipelined[OF assms(1)] assms(2-4)
  by (auto simp: pipelined_def counts_def flowing_def scheduled_def publishRequestCountInPipeline_def)

section \<open>Runs\<close>

fun friendly_run :: "'v client \<Rightarrow> 'v client_input list \<Rightarrow> bool" where
  "friendly_run c [] = True"
| "friendly_run c (ev # evs) \<longleftrightarrow> friendly c ev \<and>
     (case client_step c ev of Inl _ \<Rightarrow> False | Inr c1 \<Rightarrow> friendly_run c1 evs)"

lemma friendly_runs_more:
  "friendly_runs evs c \<Longrightarrow> friendly_run c evs2 \<Longrightarrow> client_run c evs2 = Inr c' \<Longrightarrow> friendly_runs (evs @ evs2) c'"
proof (induction evs2 arbitrary: evs c)
  case (Cons ev evs2)
  then obtain c1 where c1: "client_step c ev = Inr c1" "friendly c ev" "friendly_run c1 evs2" "client_run c1 evs2 = Inr c'"
    by auto
  from Cons.IH[OF friendly_more[OF Cons.prems(1) c1(2,1)] c1(3,4)] show ?case by simp
qed simp

lemma example_friendly: "friendly_run (new_client 60000) example_inputs"
  by (simp add: settled_def client_defs client_examples Let_def sameStatusCode_def bad_timeout_def Good_def constant_status_def
      sc_value_def)

lemma example_client_reached: "friendly_runs example_inputs example_client"
  using friendly_runs_more[OF friendly_start example_friendly example_client_run] by simp

theorem pipeline_never_dries_up_witness:
  "publishRequestCountInPipeline \<le> length (ce_outstanding example_client)
     + (ce_immediates example_client + ce_timers example_client)"
  by (rule pipeline_never_dries_up[OF example_client_reached]) (simp_all add: example_client_state)

section \<open>Terminating a subscription before it is registered\<close>

text \<open>The inputs that do not ask for new requests of their own.\<close>

fun unprompted :: "'v client_input \<Rightarrow> bool" where
  "unprompted (Create_answered ob r valid ignore) = (r = None)"
| "unprompted (Suspend b valid) = False"
| "unprompted (Replenish valid) = False"
| "unprompted ev = True"

definition spent :: "'v client \<Rightarrow> nat" where
  "spent c = length (ce_history c) + length (ce_outstanding c) + scheduled c"

definition idle :: "'v client \<Rightarrow> nat \<Rightarrow> bool" where
  "idle c n \<longleftrightarrow> ce_activeSubscriptionCount c \<le> 0 \<and> spent c \<le> n"

lemma idle_views:
  "traffic c' = traffic c \<Longrightarrow> scheduled c' \<le> scheduled c \<Longrightarrow> ce_activeSubscriptionCount c' \<le> ce_activeSubscriptionCount c
    \<Longrightarrow> idle c n \<Longrightarrow> idle c' n"
  by (auto simp: traffic_def idle_def spent_def)

lemma terminate_active:
  "terminate_subscription ob c = Inr c' \<Longrightarrow> ce_activeSubscriptionCount c' \<le> ce_activeSubscriptionCount c"
  by (auto simp: terminate_subscription_def unregisterSubscription_def terminate_step2_def put_object_def
      split: option.splits if_splits)

lemma dispatch_active: "ce_activeSubscriptionCount (dispatch_notifications ob ds c) \<le> ce_activeSubscriptionCount c"
proof (induction ob ds c rule: dispatch_notifications.induct)
  case (2 ob d ds c)
  have st: "ce_activeSubscriptionCount c1 \<le> ce_activeSubscriptionCount c"
    if "on_StatusChangeNotification st ob c = Inr c1" for st c1
    using that
    by (auto simp: on_StatusChangeNotification_def emit_event_def put_object_def split: option.splits if_splits
        dest!: terminate_active)
  show ?case
  proof (cases d)
    case (StatusChangeNotification st)
    with 2(3)[OF _ StatusChangeNotification] show ?thesis
      by (force simp: StatusChangeNotification split: option.split sum.split dest: st intro: order_trans[OF _ st])
  qed (use 2(1,2) in \<open>auto simp: put_object_def Let_def split: option.split prod.split\<close>)
qed simp

lemma run_dispatch_active: "ce_activeSubscriptionCount (run_dispatch ob k c) \<le> ce_activeSubscriptionCount c"
  using dispatch_active[of ob _ "put_object ob _ c"]
  by (auto simp: run_dispatch_def put_object_def split: option.split)

lemma step_idle:
  assumes "client_step c ev = Inr c'" and "unprompted ev" and "idle c n"
  shows "idle c' n"
proof -
  note * = idle_views[OF _ _ _ assms(3)]
  have reg: "register c' = register c \<Longrightarrow> ce_activeSubscriptionCount c' \<le> ce_activeSubscriptionCount c" for c c' :: "'v client"
    by (simp add: register_def)
  show ?thesis
  proof (cases ev)
    case (Create_answered ob r valid ignore)
    then show ?thesis
      using assms by (auto simp: create_callback_def put_object_def idle_def spent_def scheduled_def split: option.splits)
  next
    case (Publish_replied k reply valid now)
    have c': "c' = publish_callback valid now k reply c" using assms(1) Publish_replied by simp
    show ?thesis
    proof (cases "k < length (ce_outstanding c)")
      case False
      then show ?thesis using assms(3) by (simp add: c' publish_callback_def)
    next
      case True
      have off: "\<not> ce_activeSubscriptionCount c > 0" using assms(3) by (simp add: idle_def)
      have "register (receive_publish_response r d) = register d" for r and d :: "'v client" by (rule receive_keeps)
      then have "ce_activeSubscriptionCount c' = ce_activeSubscriptionCount c \<and> scheduled c' = scheduled c"
        using True off receive_keeps[of _ "c\<lparr>ce_outstanding := take k (ce_outstanding c) @ drop (Suc k) (ce_outstanding c),
            ce_history := ce_history c @ [(ce_outstanding c ! k, reply)],
            ce_nbPendingPublishRequests := ce_nbPendingPublishRequests c - 1, ce_lastRequestSentTime := now\<rparr>"]
        by (auto simp: c' publish_callback_def Let_def register_def scheduled_def split: publish_reply.split)
      moreover have "length (ce_history c') + length (ce_outstanding c') = length (ce_history c) + length (ce_outstanding c)"
        using callback_traffic[OF True, of valid now reply] True by (simp add: c' traffic_def)
      ultimately show ?thesis using assms(3) by (simp add: idle_def spent_def)
    qed
  next
    case (Immediate handle)
    then show ?thesis
      using assms(1,3)
      by (auto simp: run_immediate_def Let_def internalSendPublishRequest_def idle_def spent_def scheduled_def
          split: if_splits)
  next
    case (Timer valid)
    then show ?thesis
      using assms(1,3)
      by (auto simp: run_timer_def Let_def send_publish_request_def idle_def spent_def scheduled_def)
  next
    case (Dispatch ob k)
    then show ?thesis
      using assms(1) by (intro *) (auto simp: run_dispatch_active)
  next
    case (Terminate_subscription ob)
    then show ?thesis
      using assms(1) terminate_subscription_keeps[of ob c c'] terminate_active[of ob c c'] by (intro *) auto
  next
    case (Add_item ob h e)
    then show ?thesis using assms(1) add_item_keeps[of ob h e c c'] by (intro * reg) auto
  next
    case (New_subscription ob o1 ignore)
    then show ?thesis using assms(1) by (intro * reg) auto
  next
    case (Delete_answered k err)
    then show ?thesis using assms(1) by (intro * reg) auto
  next
    case Termination_done
    then show ?thesis using assms(1) by (intro * reg) auto
  next
    case Close_session
    then show ?thesis using assms(1) by (intro *) (auto simp: terminate_client_def)
  qed (use assms(2) in simp_all)
qed

text \<open>C12: Terminating a subscription whose creation the server has not answered silences another one: the
  engine counts a subscription less although it never counted this one, so that with one registered
  subscription left the count is 0. From then on, whatever the server answers to publish requests, and as long as no
  creation of a subscription is answered with success (that of the terminated one included, which would register it)
  and nothing suspends, resumes or replenishes the pipeline, the requests answered, outstanding or scheduled never
  become more: no answered request is renewed, and the registered subscription can only get the answers of the
  requests that were on their way or scheduled before.\<close>

theorem early_termination_silences:
  assumes "client_runs evs c" and "ce_session c" and "ce_activeSubscriptionCount c = 1" and "ce_subscriptionMap c = [(i, ob)]"
    and "ce_objects c ob' = Some s" and "cs_subscriptionId s = PENDING_SUBSCRIPTION_ID" and "i \<noteq> PENDING_SUBSCRIPTION_ID"
  shows "\<exists>c1. terminate_subscription ob' c = Inr c1 \<and> ce_subscriptionMap c1 = [(i, ob)] \<and> ce_activeSubscriptionCount c1 = 0 \<and>
    (\<forall>evs2 c2. (\<forall>ev \<in> set evs2. unprompted ev) \<and> client_run c1 evs2 = Inr c2 \<longrightarrow>
       length (ce_history c2) + length (ce_outstanding c2) + (ce_immediates c2 + ce_timers c2) \<le>
       length (ce_history c) + length (ce_outstanding c) + (ce_immediates c + ce_timers c))"
proof -
  define c1 where "c1 = (put_object ob' (s\<lparr>cs_subscriptionId := TERMINATING_SUBSCRIPTION_ID\<rparr>) c)\<lparr>
    ce_activeSubscriptionCount := 0, ce_deletes := ce_deletes c @ [ob']\<rparr>"
  have "(0 :: nat) < PENDING_SUBSCRIPTION_ID" "PENDING_SUBSCRIPTION_ID \<noteq> TERMINATED_SUBSCRIPTION_ID"
      "PENDING_SUBSCRIPTION_ID \<noteq> TERMINATING_SUBSCRIPTION_ID"
    by (simp_all add: PENDING_SUBSCRIPTION_ID_def TERMINATED_SUBSCRIPTION_ID_def TERMINATING_SUBSCRIPTION_ID_def)
  then have t: "terminate_subscription ob' c = Inr c1" "ce_subscriptionMap c1 = [(i, ob)]" "ce_activeSubscriptionCount c1 = 0"
    using assms(2-7) by (simp_all add: terminate_subscription_def unregisterSubscription_def put_object_def c1_def)
  have start: "idle c1 (spent c)" by (simp add: idle_def spent_def scheduled_def c1_def put_object_def)
  have "idle c2 (spent c)"
    if "\<forall>ev \<in> set evs2. unprompted ev" "client_run c0 evs2 = Inr c2" "idle c0 (spent c)" for evs2 c0 c2
    using that by (induction c0 evs2 rule: client_run.induct) (auto dest: step_idle)
  with start have "spent c2 \<le> spent c"
    if "\<forall>ev \<in> set evs2. unprompted ev" "client_run c1 evs2 = Inr c2" for evs2 c2
    using that unfolding idle_def by blast
  then show ?thesis using t by (auto simp: spent_def scheduled_def)
qed

theorem early_termination_silences_witness:
  "\<exists>c1. terminate_subscription 1 example_client = Inr c1 \<and> ce_subscriptionMap c1 = [(7, 0)] \<and> ce_activeSubscriptionCount c1 = 0 \<and>
    (\<forall>evs2 c2. (\<forall>ev \<in> set evs2. unprompted ev) \<and> client_run c1 evs2 = Inr c2 \<longrightarrow>
       length (ce_history c2) + length (ce_outstanding c2) + (ce_immediates c2 + ce_timers c2) \<le>
       length (ce_history example_client) + length (ce_outstanding example_client)
         + (ce_immediates example_client + ce_timers example_client))"
proof -
  obtain s where "ce_objects example_client 1 = Some s" "cs_subscriptionId s = PENDING_SUBSCRIPTION_ID"
    using example_client_state(11) by auto
  then show ?thesis
    using early_termination_silences[OF example_client_runs] example_client_state
    by (simp add: PENDING_SUBSCRIPTION_ID_def)
qed

text \<open>
  The same subscription comes back to life when the answer arrives: it is registered although it has been
  terminated, and nothing unregisters it any more.
\<close>

lemma terminated_subscription_revived:
  assumes "ce_objects c ob = Some s" and "ce_session c" and "map_of (ce_subscriptionMap c) (cr_subscriptionId r) = None"
  shows "map_of (ce_subscriptionMap (fst (create_callback valid True ob (Some r) c))) (cr_subscriptionId r) = Some ob"
proof -
  have ins: "map_of (insert_by_id j x xs) j = Some x" if "map_of xs j = None" for j and x :: nat and xs
    using that by (induction j x xs rule: insert_by_id.induct) (auto split: if_splits)
  have "register (replenish_publish_request_queue valid d) = register d" for d :: "'a client" by simp
  then have "ce_subscriptionMap (replenish_publish_request_queue valid d) = ce_subscriptionMap d" for d :: "'a client"
    by (simp add: register_def)
  then show ?thesis
    using assms ins
    by (auto simp: create_callback_def displayKeepAliveWarning_def registerSubscription_def put_object_def Let_def)
qed

end
