(* ===== verification/Engine_Starvation.thy ===== *)
theory Engine_Starvation
  imports Engine_Invariant
begin

text \<open>
  When a subscription expires. A late subscription that gets no publish request expires after exactly the
  rest of its lifetime count of ticks, and the client can still be told; a subscription with pending
  notifications whose publishing is disabled expires too, although publish requests are waiting, because
  it can send neither the notifications nor a keep-alive. Both are countdowns.
\<close>

section \<open>Countdowns\<close>

fun run_all :: "('t \<Rightarrow> 'e \<Rightarrow> 'e result) \<Rightarrow> 't list \<Rightarrow> 'e \<Rightarrow> 'e result" where
  "run_all f [] e = Inr e"
| "run_all f (t # ts) e = rbind (f t e) (run_all f ts)"

locale countdown =
  fixes f :: "'t \<Rightarrow> 'e \<Rightarrow> 'e result" and Q :: "nat \<Rightarrow> 'e \<Rightarrow> bool" and R :: "'e \<Rightarrow> bool"
  assumes turn: "Q (Suc (Suc k)) e \<Longrightarrow> \<exists>e'. f t e = Inr e' \<and> Q (Suc k) e'"
    and final: "Q (Suc 0) e \<Longrightarrow> \<exists>e'. f t e = Inr e' \<and> R e'"
begin

lemma before: "Q k e \<Longrightarrow> length ts < k \<Longrightarrow> \<exists>e'. run_all f ts e = Inr e' \<and> Q (k - length ts) e'"
proof (induction ts arbitrary: k e)
  case (Cons t ts)
  then obtain k' where k: "k = Suc (Suc k')" by (metis One_nat_def length_Cons less_Suc_eq_0_disj not_less_eq Suc_less_eq2)
  with Cons.prems(1) turn obtain e1 where "f t e = Inr e1" "Q (Suc k') e1" by blast
  with Cons.IH[of "Suc k'" e1] Cons.prems(2) k show ?case by auto
qed simp

lemma after:
  assumes "Q (Suc k) e" and "length ts = Suc k"
  shows "\<exists>e'. run_all f ts e = Inr e' \<and> R e'"
  using assms
proof (induction ts arbitrary: k e)
  case (Cons t ts)
  show ?case
  proof (cases k)
    case 0
    with Cons.prems final show ?thesis by fastforce
  next
    case (Suc k')
    with Cons.prems(1) turn obtain e1 where "f t e = Inr e1" "Q (Suc k') e1" by blast
    with Cons.IH[of k' e1] Cons.prems(2) Suc show ?thesis by auto
  qed
qed simp

end

lemma run_timers:
  "engine_run env e (map (Timer_fired i) ts) = run_all (\<lambda>t e. engine_step env e (Timer_fired i t)) ts e"
  by (induction ts arbitrary: e) simp_all

section \<open>A tick of a subscription that cannot publish\<close>

definition older :: "('v, 'r) subscription \<Rightarrow> ('v, 'r) subscription" where
  "older s = age (discardOldSentNotifications s)"

lemma older_keeps [simp]:
  "sub_pending (older s) = sub_pending s" "sub_state (older s) = sub_state s"
  "sub_lifeTimeCount (older s) = sub_lifeTimeCount s" "sub_publishingEnabled (older s) = sub_publishingEnabled s"
  "sub_maxKeepAliveCount (older s) = sub_maxKeepAliveCount s"
  "sub_keep_alive_counter (older s) = sub_keep_alive_counter s" "sub_id (older s) = sub_id s"
  "hasPendingNotifications (older s) = hasPendingNotifications s"
  by (simp_all add: older_def age_def discardOldSentNotifications_def Let_def increaseLifeTimeCounter_def
      hasPendingNotifications_def pendingNotificationsCount_def)

lemma older_life: "sub_life_time_counter (older s) =
    (if sub_state s = SsLate then Suc (sub_life_time_counter s) else sub_life_time_counter s)"
  by (simp add: older_def age_def discardOldSentNotifications_def Let_def increaseLifeTimeCounter_def)

lemma older_ok: "sub_ok i s \<Longrightarrow> sub_ok i (older s)"
  by (simp add: older_def age_ok discard_ok)

lemma tick_cases:
  assumes "getSubscriptionById e i = Some s" and "sub_ok i s" and "\<forall>pd \<in> set (pe_queue e). \<not> timeout_filter now pd"
  shows "tick nodes now i e =
    (if sub_lifeTimeCount s \<le> sub_life_time_counter (older s)
     then terminate nodes (addNotificationMessage (StatusChange bad_timeout) None (older s)) (put_sub (older s) e)
     else rbind (tick_alive nodes (older s) (put_sub (older s) e)) (\<lambda>(s2, e2). Inr (put_sub s2 e2)))"
proof -
  have "filter (timeout_filter now) (pe_queue e) = []" "filter (\<lambda>pd. \<not> timeout_filter now pd) (pe_queue e) = pe_queue e"
    using assms(3) by auto
  then have c: "cancelTimeoutRequests now (put_sub (older s) e) = put_sub (older s) e"
    by (simp add: cancelTimeout_refuse refuse_def)
  have l: "lifeTimeHasExpired (older s) = Inr (sub_lifeTimeCount s \<le> sub_life_time_counter (older s))"
    using assms(2) by (simp add: lifeTimeHasExpired_def sub_ok_def revised_def)
  show ?thesis
    using assms(1,2) by (simp add: tick_def older_def[symmetric] c l Let_def sub_ok_def)
qed

lemma put_sub_twice [simp]: "sub_id s = sub_id t \<Longrightarrow> put_sub s (put_sub t e) = put_sub s e"
proof -
  assume "sub_id s = sub_id t"
  then have "(\<lambda>(i, x). if i = sub_id s then (i, s) else (i, x)) \<circ> (\<lambda>(i, x). if i = sub_id t then (i, t) else (i, x)) =
      (\<lambda>(i, x). if i = sub_id s then (i, s) else (i, x))"
    by (auto simp: fun_eq_iff)
  then show ?thesis by (simp add: put_sub_def)
qed

text \<open>The subscription has notifications to send, in its own queue or in the queues of its items.\<close>

definition waiting :: "('v, 'r) subscription \<Rightarrow> bool" where
  "waiting s \<longleftrightarrow> hasPendingNotifications s \<or> fst (hasUncollectedMonitoredItemNotifications s)"

lemma older_waiting [simp]: "waiting (older s) = waiting s"
  by (simp add: waiting_def hasUncollectedMonitoredItemNotifications_def)
    (auto simp: older_def age_def discardOldSentNotifications_def Let_def increaseLifeTimeCounter_def)

definition noticed :: "('v, 'r) subscription \<Rightarrow> ('v, 'r) subscription" where
  "noticed s = (if hasPendingNotifications s then s else snd (hasUncollectedMonitoredItemNotifications s))"

lemma noticed_keeps [simp]:
  "sub_state (noticed s) = sub_state s" "sub_lifeTimeCount (noticed s) = sub_lifeTimeCount s"
  "sub_life_time_counter (noticed s) = sub_life_time_counter s" "sub_id (noticed s) = sub_id s"
  "waiting (noticed s) = waiting s"
  by (auto simp: noticed_def waiting_def hasUncollectedMonitoredItemNotifications_def
      hasPendingNotifications_def pendingNotificationsCount_def)

lemma noticed_ok: "sub_ok i s \<Longrightarrow> sub_ok i (noticed s)"
  using uncollected_ok[of s] by (metis noticed_def prod.collapse)

lemma tick_without_requests:
  assumes "getSubscriptionById e i = Some s" and "sub_ok i s" and "pe_queue e = []" and "sub_state s = SsLate"
    and "waiting s" and "Suc (sub_life_time_counter s) < sub_lifeTimeCount s"
  shows "tick nodes now i e = Inr (put_sub (noticed (older s)) e)"
proof -
  obtain b s1 where u: "hasUncollectedMonitoredItemNotifications (older s) = (b, s1)" by force
  have "waiting (older s)" using assms(5) by simp
  then have "tick_alive nodes (older s) (put_sub (older s) e) =
      Inr ((noticed (older s))\<lparr>sub_state := SsLate\<rparr>, put_sub (older s) e)"
    using assms(3) u by (auto simp: tick_alive_def pendingPublishRequestCount_def noticed_def waiting_def)
  moreover have "(noticed (older s))\<lparr>sub_state := SsLate\<rparr> = noticed (older s)"
    using assms(4) noticed_keeps(1)[of "older s"] by simp
  ultimately show ?thesis using assms by (simp add: tick_cases older_life)
qed

definition overdue :: "('v, 'r) subscription \<Rightarrow> ('v, 'r) subscription" where
  "overdue s = (let s1 = increaseKeepAliveCounter (older s) in
     if keepAliveCounterHasExpired s1 then s1\<lparr>sub_state := SsLate\<rparr> else s1)"

lemma tick_silenced:
  assumes s: "getSubscriptionById e i = Some s" "sub_ok i s" and q: "pe_queue e \<noteq> []"
    and t: "\<forall>pd \<in> set (pe_queue e). \<not> timeout_filter now pd"
    and p: "hasPendingNotifications s" "\<not> sub_publishingEnabled s"
    and l: "sub_life_time_counter (older s) < sub_lifeTimeCount s"
  shows "tick nodes now i e = Inr (put_sub (overdue s) e)"
proof -
  define s1 where "s1 = increaseKeepAliveCounter (older s)"
  have id: "sub_id s1 = i" "sub_id (older s) = i" "sub_id s = i"
    using s(2) by (simp_all add: s1_def increaseKeepAliveCounter_def sub_ok_def)
  have hp: "hasPendingNotifications s1"
    using p(1) by (simp add: s1_def increaseKeepAliveCounter_def older_def age_def discardOldSentNotifications_def
        Let_def increaseLifeTimeCounter_def hasPendingNotifications_def pendingNotificationsCount_def)
  have no: "send_keep_alive_response i n (put_sub s1 e) = Inr (False, put_sub s1 e)" for n
    using s(1) id hp by (simp add: send_keep_alive_response_def)
  have "process_keepAlive (older s) (put_sub (older s) e) =
      Inr (if keepAliveCounterHasExpired s1 then (s1\<lparr>sub_state := SsLate\<rparr>, put_sub s1 e) else (s1, put_sub (older s) e))"
    using id no by (simp add: process_keepAlive_def s1_def[symmetric] Let_def)
  then have "tick_alive nodes (older s) (put_sub (older s) e) =
      Inr (if keepAliveCounterHasExpired s1 then (s1\<lparr>sub_state := SsLate\<rparr>, put_sub s1 e) else (s1, put_sub (older s) e))"
    using q p by (simp add: tick_alive_def process_subscription_def pendingPublishRequestCount_def)
  then show ?thesis
    using l id by (simp add: tick_cases[OF s t] overdue_def s1_def[symmetric] Let_def)
qed

section \<open>Starvation\<close>

lemma terminate_unserved:
  assumes nodes: "\<forall>i. nodes i \<noteq> None" and s: "sub_ok i s" and q: "pe_queue e = []"
    and st: "n \<in> set (queue_values (sub_pending s))" "in_monitoredItemId n = None"
    and run: "terminate nodes s e = Inr e'"
  obtains s' where "ClosedSubscription s' \<in> set (pe_closed e')" and "sub_id s' = i"
    and "in_notification n \<in> set (pending_list s')"
proof -
  have "distinct (map fst (sub_items (stop_timer s)))" "queue_ok (sub_pending (stop_timer s))"
    using s by (simp_all add: sub_ok_def stop_timer_def)
  then obtain p where p: "remove_items nodes (map fst (sub_items (stop_timer s))) (stop_timer s) =
      Inr ((stop_timer s)\<lparr>sub_items := [], sub_pending := p\<rparr>)" "queue_ok p" "keeps_status (sub_pending (stop_timer s)) p"
    by (rule remove_items_all[OF nodes])
  define s1 where "s1 = s\<lparr>sub_timer := False, sub_items := [], sub_pending := p, sub_state := SsClosed\<rparr>"
  have n: "in_notification n \<in> set (pending_list s1)"
    using p(3) st by (auto simp: keeps_status_def stop_timer_def pending_list_def s1_def)
  then have "hasPendingNotifications s1" using p(2) by (auto simp: hasPending_list s1_def)
  then have "ClosedSubscription s1 \<in> set (pe_closed e')"
    using run s p(1) q
    by (auto simp: terminate_def sub_ok_def stop_timer_def monitoredItemCount_def s1_def on_close_subscription_def
        Let_def feed_closed_subscription_def pendingPublishRequestCount_def)
  then show thesis by (rule that) (use n s in \<open>simp_all add: s1_def sub_ok_def\<close>)
qed

definition starving :: "('v, 'r, 'e) engine_env \<Rightarrow> nat \<Rightarrow> nat \<Rightarrow> ('v, 'r) engine \<Rightarrow> bool" where
  "starving env i k e \<longleftrightarrow> env_ok env \<and> engine_ok e \<and> pe_queue e = [] \<and>
     (\<exists>s. getSubscriptionById e i = Some s \<and> sub_state s = SsLate \<and> waiting s \<and>
        sub_lifeTimeCount s = sub_life_time_counter s + k)"

definition expired :: "nat \<Rightarrow> ('v, 'r) engine \<Rightarrow> bool" where
  "expired i e \<longleftrightarrow> getSubscriptionById e i = None \<and>
     (\<exists>s. ClosedSubscription s \<in> set (pe_closed e) \<and> sub_id s = i \<and> StatusChange bad_timeout \<in> set (pending_list s))"

lemma engine_ok_lookup: "engine_ok e \<Longrightarrow> getSubscriptionById e i = Some s \<Longrightarrow> sub_ok i s"
  by (auto simp: engine_ok_def getSubscriptionById_def dest: subs_ok_lookup)

lemma tick_expires:
  fixes e :: "('v, 'r) engine"
  assumes nodes: "\<forall>i. nodes i \<noteq> None" and e: "engine_ok e" and s: "getSubscriptionById e i = Some s"
    and t: "\<forall>pd \<in> set (pe_queue e). \<not> timeout_filter now pd"
    and x: "sub_lifeTimeCount s \<le> sub_life_time_counter (older s)"
  obtains e' where "tick nodes now i e = Inr e'" and "engine_ok e'" and "getSubscriptionById e' i = None"
    and "pe_queue e = [] \<Longrightarrow> expired i e'"
proof -
  define st where "st = addNotificationMessage (StatusChange bad_timeout) None (older s)"
  have ok: "sub_ok i s" by (rule engine_ok_lookup[OF e s])
  have st: "sub_ok i st" using add_notification_ok[OF older_ok[OF ok]] by (simp add: st_def)
  have "sub_ok (sub_id (older s)) (older s)" using older_ok[OF ok] by (simp add: sub_ok_def)
  with e have e1: "engine_ok (put_sub (older s) e)" by (rule engine_ok_put)
  obtain e' where e': "terminate nodes st (put_sub (older s) e) = Inr e'" "engine_ok e'"
    "pe_subscriptions e' = filter (\<lambda>(j, _). j \<noteq> i) (pe_subscriptions (put_sub (older s) e))"
    by (rule terminate_ok[OF nodes e1 st])
  have gone: "getSubscriptionById e' i = None" using e'(3) by (simp add: getSubscriptionById_def map_of_filter_key)
  show thesis
  proof (rule that[OF _ e'(2) gone])
    show "tick nodes now i e = Inr e'" using x e'(1) by (simp add: tick_cases[OF s ok t] st_def)
    assume q: "pe_queue e = []"
    define n :: "'v internal_notification" where "n = \<lparr>in_monitoredItemId = None, in_notification = StatusChange bad_timeout,
      in_start_tick = sub_publishIntervalCount (older s)\<rparr>"
    have "n \<in> set (queue_values (sub_pending st))"
      using nq.push_view[of "sub_pending s"] ok by (simp add: st_def addNotificationMessage_def n_def sub_ok_def)
    moreover have "pe_queue (put_sub (older s) e) = []" using q by simp
    moreover have "in_monitoredItemId n = None" "in_notification n = StatusChange bad_timeout" by (simp_all add: n_def)
    ultimately obtain s' where "ClosedSubscription s' \<in> set (pe_closed e')" "sub_id s' = i"
      "StatusChange bad_timeout \<in> set (pending_list s')"
      using terminate_unserved[OF nodes st _ _ _ e'(1), of n] by metis
    then show "expired i e'" using gone by (auto simp: expired_def)
  qed
qed

interpretation starve: countdown "\<lambda>t e. engine_step env e (Timer_fired i t)" "starving env i" "expired i"
  for env :: "('v, 'r, 'x) engine_env" and i
proof
  fix k t and e :: "('v, 'r) engine"
  assume "starving env i (Suc (Suc k)) e"
  then obtain s where e: "env_ok env" "engine_ok e" "pe_queue e = []" and s: "getSubscriptionById e i = Some s"
    "sub_state s = SsLate" "waiting s" "sub_lifeTimeCount s = sub_life_time_counter s + Suc (Suc k)"
    by (auto simp: starving_def)
  have ok: "sub_ok i s" by (rule engine_ok_lookup[OF e(2) s(1)])
  have "engine_ok (put_sub (noticed (older s)) e)"
    using noticed_ok[OF older_ok[OF ok]] by (intro engine_ok_put[OF e(2)]) (simp add: sub_ok_def)
  moreover have "sub_id s = i" using ok by (simp add: sub_ok_def)
  moreover have "tick (ev_nodes env) t i e = Inr (put_sub (noticed (older s)) e)"
    using s(4) by (intro tick_without_requests[OF s(1) ok e(3) s(2,3)]) simp
  ultimately show "\<exists>e'. engine_step env e (Timer_fired i t) = Inr e' \<and> starving env i (Suc k) e'"
    using e s by (simp add: starving_def older_life)
next
  fix t and e :: "('v, 'r) engine"
  assume "starving env i (Suc 0) e"
  then obtain s where e: "env_ok env" "engine_ok e" "pe_queue e = []" and s: "getSubscriptionById e i = Some s"
    "sub_state s = SsLate" "sub_lifeTimeCount s = Suc (sub_life_time_counter s)"
    by (auto simp: starving_def)
  have nodes: "\<forall>i. ev_nodes env i \<noteq> None" using e(1) by (simp add: env_ok_def)
  have no: "\<forall>pd \<in> set (pe_queue e). \<not> timeout_filter t pd" using e(3) by simp
  have "sub_lifeTimeCount s \<le> sub_life_time_counter (older s)" using s by (simp add: older_life)
  then obtain e' where "tick (ev_nodes env) t i e = Inr e'" "expired i e'"
    by (rule tick_expires[OF nodes e(2) s(1) no]) (use e(3) in blast)
  then show "\<exists>e'. engine_step env e (Timer_fired i t) = Inr e' \<and> expired i e'" by simp
qed

text \<open>C19: A late subscription with notifications to send, in a session without publish requests, expires after
  exactly the rest of its lifetime count of ticks: until then it stays, at that tick it is removed from
  the session, and a status change with \<^verbatim>\<open>BadTimeout\<close> is kept for the client's next request.\<close>

theorem starving_subscription_expires:
  assumes "env_ok env" and "runs env evs e" and "getSubscriptionById e i = Some s" and "sub_state s = SsLate"
    and "waiting s" and "pe_queue e = []" and "sub_life_time_counter s < sub_lifeTimeCount s"
  shows "if length ts < sub_lifeTimeCount s - sub_life_time_counter s
    then \<exists>e'. engine_run env e (map (Timer_fired i) ts) = Inr e' \<and> getSubscriptionById e' i \<noteq> None
    else length ts = sub_lifeTimeCount s - sub_life_time_counter s \<longrightarrow>
      (\<exists>e'. engine_run env e (map (Timer_fired i) ts) = Inr e' \<and> getSubscriptionById e' i = None \<and>
        (\<exists>s'. ClosedSubscription s' \<in> set (pe_closed e') \<and> sub_id s' = i \<and>
          StatusChange bad_timeout \<in> set (pending_list s')))"
proof -
  define k where "k = sub_lifeTimeCount s - sub_life_time_counter s"
  have q: "starving env i k e"
    using assms runs_ok[OF assms(2,1)] by (auto simp: starving_def k_def)
  obtain k' where k': "k = Suc k'" using assms(7) by (cases k) (auto simp: k_def)
  show ?thesis
    using starve.before[OF q, of ts] starve.after[OF q[unfolded k'], of ts]
    by (auto simp: run_timers starving_def expired_def k_def[symmetric] k')
qed

definition starving_events :: "(int, unit) event list" where
  "starving_events = [Subscribe example_options,
     Items_changed 1 [(7, (example_item True)\<lparr>mi_queue := [sample 5]\<rparr>)], Timer_fired 1 100]"

definition late_subscription :: "(int, unit) subscription" where
  "late_subscription = example_subscription\<lparr>sub_items := [(7, (example_item True)\<lparr>mi_queue := [sample 5]\<rparr>)],
     sub_state := SsLate, sub_publishIntervalCount := 1, sub_hasUncollected := True\<rparr>"

lemma starving_run:
  obtains e where "runs example_env starving_events e" and "getSubscriptionById e 1 = Some late_subscription"
    and "pe_queue e = []"
proof -
  define e where "e = (new_publish_engine 1)\<lparr>pe_subscriptions := [(1, late_subscription)]\<rparr>"
  have "engine_run example_env (new_publish_engine 1) starving_events = Inr e"
    by (simp add: starving_events_def e_def late_subscription_def example_simps on_sub_def tick_def age_def
        discardOldSentNotifications_def maxNotificationMessagesInQueue_def cancelTimeoutRequests_def
        lifeTimeHasExpired_def tick_alive_def hasMonitoredItemNotifications_def)
      (simp add: fun_eq_iff)
  moreover have "allowed_run example_env (new_publish_engine 1) starving_events"
    by (simp add: starving_events_def example_simps on_sub_def tick_def age_def
        discardOldSentNotifications_def maxNotificationMessagesInQueue_def cancelTimeoutRequests_def
        lifeTimeHasExpired_def tick_alive_def hasMonitoredItemNotifications_def)
  ultimately have "runs example_env ([] @ starving_events) e" by (rule runs_more[OF runs_start, rotated])
  then show thesis
    by (intro that[of e]) (simp_all add: e_def getSubscriptionById_def new_publish_engine_def)
qed

theorem starving_subscription_expires_witness:
  "\<exists>e e'. runs example_env starving_events e \<and> getSubscriptionById e 1 \<noteq> None \<and>
     engine_run example_env e (map (Timer_fired 1) (replicate 60 0)) = Inr e' \<and> getSubscriptionById e' 1 = None"
proof (rule starving_run)
  fix e
  assume e: "runs example_env starving_events e" "getSubscriptionById e 1 = Some late_subscription" "pe_queue e = []"
  have w: "waiting late_subscription"
    by (simp add: waiting_def late_subscription_def hasUncollectedMonitoredItemNotifications_def)
  show ?thesis
    using starving_subscription_expires[OF example_env_ok e(1,2) _ w e(3), of "replicate 60 0"] e
    by (simp add: late_subscription_def example_subscription_def) blast
qed

section \<open>Publishing disabled\<close>

definition ticks_left :: "('v, 'r) subscription \<Rightarrow> nat" where
  "ticks_left s = (if sub_state s = SsLate then 0 else sub_maxKeepAliveCount s - sub_keep_alive_counter s) +
     (sub_lifeTimeCount s - sub_life_time_counter s)"

definition silent :: "('v, 'r) subscription \<Rightarrow> bool" where
  "silent s \<longleftrightarrow> \<not> sub_publishingEnabled s \<and> hasPendingNotifications s \<and>
     sub_life_time_counter s < sub_lifeTimeCount s \<and>
     (sub_state s \<noteq> SsLate \<longrightarrow> sub_keep_alive_counter s < sub_maxKeepAliveCount s)"

lemma overdue_step:
  assumes "silent s" and "ticks_left s = Suc (Suc k)"
  shows "silent (overdue s)" and "ticks_left (overdue s) = Suc k" and "sub_life_time_counter (older s) < sub_lifeTimeCount s"
  using assms
  by (auto simp: silent_def ticks_left_def overdue_def Let_def increaseKeepAliveCounter_def
      keepAliveCounterHasExpired_def older_life hasPendingNotifications_def pendingNotificationsCount_def)

lemma overdue_ok: "sub_ok i s \<Longrightarrow> sub_ok i (overdue s)"
  using older_ok[of i s]
  by (auto simp: overdue_def Let_def increaseKeepAliveCounter_def sub_ok_def revised_def)

text \<open>Without any request left the subscription is late at once.\<close>

definition unserved :: "('v, 'r) subscription \<Rightarrow> ('v, 'r) subscription" where
  "unserved s = (older s)\<lparr>sub_state := SsLate\<rparr>"

lemma unserved_step:
  assumes "silent s" and "ticks_left s = Suc (Suc k)"
  shows "sub_life_time_counter (older s) < sub_lifeTimeCount s \<Longrightarrow> silent (unserved s)" and "ticks_left (unserved s) \<le> Suc k"
  using assms by (auto simp: silent_def ticks_left_def unserved_def older_life hasPendingNotifications_def
      pendingNotificationsCount_def)

lemma unserved_ok: "sub_ok i s \<Longrightarrow> sub_ok i (unserved s)"
  using older_ok[of i s] by (simp add: unserved_def sub_ok_def revised_def)

lemma silent_ticks: "silent s \<Longrightarrow> 0 < ticks_left s"
  by (auto simp: silent_def ticks_left_def)

lemma tick_unserved:
  assumes "getSubscriptionById e i = Some s" and "sub_ok i s" and "pe_queue e = []" and "hasPendingNotifications s"
    and "sub_life_time_counter (older s) < sub_lifeTimeCount s"
  shows "tick nodes now i e = Inr (put_sub (unserved s) e)"
proof -
  have "tick_alive nodes (older s) (put_sub (older s) e) = Inr (unserved s, put_sub (older s) e)"
    using assms(3,4) by (simp add: tick_alive_def pendingPublishRequestCount_def unserved_def)
  then show ?thesis using assms by (simp add: tick_cases unserved_def)
qed

text \<open>The requests that have timed out are refused before anything else happens in a tick.\<close>

lemma cancel_put: "cancelTimeoutRequests now (put_sub s e) = put_sub s (cancelTimeoutRequests now e)"
  by (simp add: cancelTimeout_refuse refuse_def put_sub_def)

lemma cancel_twice [simp]: "cancelTimeoutRequests now (cancelTimeoutRequests now e) = cancelTimeoutRequests now e"
  by (simp add: cancelTimeout_refuse refuse_def filter_id_conv)

lemma cancel_lookup [simp]: "getSubscriptionById (cancelTimeoutRequests now e) i = getSubscriptionById e i"
  by (simp add: cancelTimeout_refuse refuse_def getSubscriptionById_def)

lemma tick_cancels:
  "getSubscriptionById e i = Some s \<Longrightarrow> sub_ok i s \<Longrightarrow> tick nodes now i e = tick nodes now i (cancelTimeoutRequests now e)"
  by (simp add: tick_def cancel_put sub_ok_def Let_def)

lemma tick_silent:
  assumes env: "env_ok env" and e: "engine_ok e" and s: "getSubscriptionById e i = Some s" "silent s"
  shows "\<exists>e'. tick (ev_nodes env) now i e = Inr e' \<and> engine_ok e' \<and>
    (getSubscriptionById e' i = None \<or>
     (\<exists>s'. getSubscriptionById e' i = Some s' \<and> silent s' \<and> ticks_left s' < ticks_left s \<and>
        pe_queue e' = filter (\<lambda>pd. \<not> timeout_filter now pd) (pe_queue e) \<and>
        pe_responses e' = pe_responses e @
          map (\<lambda>pd. (pd_request pd, ServiceFault BadTimeout)) (filter (timeout_filter now) (pe_queue e))))"
proof -
  define e1 where "e1 = cancelTimeoutRequests now e"
  have q: "pe_queue e1 = filter (\<lambda>pd. \<not> timeout_filter now pd) (pe_queue e)"
    "pe_responses e1 = pe_responses e @
       map (\<lambda>pd. (pd_request pd, ServiceFault BadTimeout)) (filter (timeout_filter now) (pe_queue e))"
    by (simp_all add: e1_def cancelTimeout_refuse refuse_def)
  have t: "\<forall>pd \<in> set (pe_queue e1). \<not> timeout_filter now pd" by (simp add: q)
  have e1: "engine_ok e1" "getSubscriptionById e1 i = Some s" using engine_ok_timeouts[OF e] s(1) by (simp_all add: e1_def)
  have ok: "sub_ok i s" by (rule engine_ok_lookup[OF e s(1)])
  have tick: "tick (ev_nodes env) now i e = tick (ev_nodes env) now i e1" unfolding e1_def by (rule tick_cancels[OF s(1) ok])
  have p: "hasPendingNotifications s" "\<not> sub_publishingEnabled s" using s(2) by (simp_all add: silent_def)
  show ?thesis
  proof (cases "sub_lifeTimeCount s \<le> sub_life_time_counter (older s)")
    case True
    have nodes: "\<forall>i. ev_nodes env i \<noteq> None" using env by (simp add: env_ok_def)
    obtain e' where "tick (ev_nodes env) now i e1 = Inr e'" "engine_ok e'" "getSubscriptionById e' i = None"
      by (rule tick_expires[OF nodes e1 t True])
    then show ?thesis by (simp add: tick)
  next
    case False
    then have l: "sub_life_time_counter (older s) < sub_lifeTimeCount s" by simp
    define s' where "s' = (if pe_queue e1 = [] then unserved s else overdue s)"
    have r: "tick (ev_nodes env) now i e1 = Inr (put_sub s' e1)"
      using tick_unserved[OF e1(2) ok _ p(1) l, of "ev_nodes env" now] tick_silenced[OF e1(2) ok _ t p l, of "ev_nodes env"]
      by (simp add: s'_def)
    have s': "sub_ok i s'" using unserved_ok[OF ok] overdue_ok[OF ok] by (simp add: s'_def)
    then have id: "sub_id s' = i" by (simp add: sub_ok_def)
    obtain k where k: "ticks_left s = Suc (Suc k)"
    proof -
      have "ticks_left s \<noteq> 0" "ticks_left s \<noteq> Suc 0"
        using s(2) l by (auto simp: silent_def ticks_left_def older_life split: if_splits)
      then show thesis using that by (cases "ticks_left s"; cases "ticks_left s - 1") auto
    qed
    have "silent s' \<and> ticks_left s' < ticks_left s"
      using unserved_step(1)[OF s(2) k l] unserved_step(2)[OF s(2) k] overdue_step(1,2)[OF s(2) k] by (simp add: s'_def k)
    moreover have "engine_ok (put_sub s' e1)" using s' id by (intro engine_ok_put[OF e1(1)]) simp
    ultimately show ?thesis using r id e1(2) by (simp add: tick q)
  qed
qed

text \<open>At most \<open>k\<close> ticks of the subscription are left: it has gone, or it is silent and the session has only
  answered requests of \<open>e0\<close>, and those because they had timed out.\<close>

definition silenced :: "('v, 'r, 'e) engine_env \<Rightarrow> nat \<Rightarrow> ('v, 'r) engine \<Rightarrow> nat \<Rightarrow> ('v, 'r) engine \<Rightarrow> bool" where
  "silenced env i e0 k e \<longleftrightarrow> env_ok env \<and> engine_ok e \<and> (\<forall>s. getSubscriptionById e i = Some s \<longrightarrow>
     silent s \<and> ticks_left s \<le> k \<and>
     (\<exists>pds. mset (pe_queue e) + mset pds = mset (pe_queue e0) \<and>
        pe_responses e = pe_responses e0 @ map (\<lambda>pd. (pd_request pd, ServiceFault BadTimeout)) pds))"

lemma silenced_run:
  "silenced env i e0 k e \<Longrightarrow>
     \<exists>e'. engine_run env e (map (Timer_fired i) ts) = Inr e' \<and> silenced env i e0 (k - length ts) e'"
proof (induction ts arbitrary: k e)
  case (Cons t ts)
  note e = Cons.prems[unfolded silenced_def]
  have "\<exists>e1. tick (ev_nodes env) t i e = Inr e1 \<and> silenced env i e0 (k - 1) e1"
  proof (cases "getSubscriptionById e i")
    case None
    then show ?thesis using e by (simp add: tick_def silenced_def)
  next
    case (Some s)
    then obtain pds where s: "silent s" "ticks_left s \<le> k" "mset (pe_queue e) + mset pds = mset (pe_queue e0)"
      "pe_responses e = pe_responses e0 @ map (\<lambda>pd. (pd_request pd, ServiceFault BadTimeout)) pds" using e by blast
    define late where "late = filter (timeout_filter t) (pe_queue e)"
    have m: "mset (filter (\<lambda>pd. \<not> timeout_filter t pd) (pe_queue e)) + mset (pds @ late) = mset (pe_queue e0)"
      using s(3) multiset_partition[of "mset (pe_queue e)" "timeout_filter t"] by (simp add: late_def ac_simps)
    obtain e1 where e1: "tick (ev_nodes env) t i e = Inr e1" "engine_ok e1"
      "getSubscriptionById e1 i = None \<or> (\<exists>s'. getSubscriptionById e1 i = Some s' \<and> silent s' \<and> ticks_left s' < ticks_left s \<and>
        pe_queue e1 = filter (\<lambda>pd. \<not> timeout_filter t pd) (pe_queue e) \<and>
        pe_responses e1 = pe_responses e @ map (\<lambda>pd. (pd_request pd, ServiceFault BadTimeout)) late)"
      using tick_silent[of env e i s t] e Some s(1) unfolding late_def by blast
    have "silenced env i e0 (k - 1) e1"
      unfolding silenced_def
    proof (intro conjI allI impI)
      fix s' assume s': "getSubscriptionById e1 i = Some s'"
      show "\<exists>pds. mset (pe_queue e1) + mset pds = mset (pe_queue e0) \<and>
          pe_responses e1 = pe_responses e0 @ map (\<lambda>pd. (pd_request pd, ServiceFault BadTimeout)) pds"
        using e1(3) s' m s(4) by (intro exI[of _ "pds @ late"]) auto
    qed (use e e1 s(2) in auto)
    with e1(1) show ?thesis by blast
  qed
  then obtain e1 where e1: "tick (ev_nodes env) t i e = Inr e1" "silenced env i e0 (k - 1) e1" by blast
  from Cons.IH[OF e1(2)] show ?case by (simp add: e1(1))
qed simp

text \<open>When no request times out the countdown is exact.\<close>

definition unheard :: "('v, 'r, 'e) engine_env \<Rightarrow> nat \<Rightarrow> ('v, 'r) engine \<Rightarrow> nat \<Rightarrow> ('v, 'r) engine \<Rightarrow> bool" where
  "unheard env i e0 k e \<longleftrightarrow> env_ok env \<and> engine_ok e \<and> pe_queue e = pe_queue e0 \<and> pe_responses e = pe_responses e0 \<and>
     (\<exists>s. getSubscriptionById e i = Some s \<and> silent s \<and> ticks_left s = k)"

lemma unheard_run:
  assumes "unheard env i e0 k e" and "length ts < k" and "pe_queue e0 \<noteq> []"
    and "\<forall>t \<in> set ts. \<forall>pd \<in> set (pe_queue e0). \<not> timeout_filter t pd"
  shows "\<exists>e'. engine_run env e (map (Timer_fired i) ts) = Inr e' \<and> unheard env i e0 (k - length ts) e'"
  using assms
proof (induction ts arbitrary: k e)
  case (Cons t ts)
  then obtain s where e: "env_ok env" "engine_ok e" "pe_queue e = pe_queue e0" "pe_responses e = pe_responses e0"
    and s: "getSubscriptionById e i = Some s" "silent s" "ticks_left s = k"
    by (auto simp: unheard_def)
  obtain k' where k: "k = Suc (Suc k')" using Cons.prems(2) by (cases k; cases "k - 1") auto
  have ok: "sub_ok i s" by (rule engine_ok_lookup[OF e(2) s(1)])
  have id: "sub_id (overdue s) = i" using overdue_ok[OF ok] by (simp add: sub_ok_def)
  have p: "hasPendingNotifications s" "\<not> sub_publishingEnabled s" using s(2) by (simp_all add: silent_def)
  have q: "pe_queue e \<noteq> []" "\<forall>pd \<in> set (pe_queue e). \<not> timeout_filter t pd" using Cons.prems(3,4) e(3) by simp_all
  have r: "tick (ev_nodes env) t i e = Inr (put_sub (overdue s) e)"
    by (rule tick_silenced[OF s(1) ok q p overdue_step(3)[OF s(2) s(3)[unfolded k]]])
  have "engine_ok (put_sub (overdue s) e)" using overdue_ok[OF ok] id by (intro engine_ok_put[OF e(2)]) simp
  then have u: "unheard env i e0 (Suc k') (put_sub (overdue s) e)"
    using e s id overdue_step[OF s(2) s(3)[unfolded k]] by (simp add: unheard_def)
  from Cons.IH[OF u] Cons.prems(2-4) show ?case by (simp add: r k)
qed simp


definition silent_events :: "(int, unit) event list" where
  "silent_events = [Subscribe example_options,
     Items_changed 1 [(7, (example_item True)\<lparr>mi_queue := [sample 5, sample 6, sample 7]\<rparr>)],
     Publish_received (example_publish 7) 0, Run_task 0, Set_publishing_mode 1 False,
     Publish_received (example_publish 8) 0]"

lemmas silent_simps = silent_events_def example_simps on_sub_def
        harvestMonitoredItems_def extractMonitoredItemNotifications_def put_item_def example_item_def
        addNotificationMessage_def queue_push_def publish_pending_notifications_def popNotificationToSend_def
        queue_first_def queue_shift_def sample_def setPublishingMode_def hasMonitoredItemNotifications_def
        empty_queue_def notification_data_of_def is_status_change_def numeral_2_eq_2 seq_next_def MAXVALUE_def
        count_published_def updateCounters_def example_node_def no_diagnostics_def

lemma silent_run:
  "case engine_run example_env (new_publish_engine 1) silent_events of Inl x \<Rightarrow> False
   | Inr e \<Rightarrow> (case getSubscriptionById e 1 of None \<Rightarrow> False | Some s \<Rightarrow> silent s \<and> ticks_left s = 63) \<and>
     map pd_request (pe_queue e) = [example_publish 8]"
  by (simp add: silent_simps)
    (simp add: silent_def ticks_left_def hasPendingNotifications_def pendingNotificationsCount_def)
lemma silent_allowed: "allowed_run example_env (new_publish_engine 1) silent_events"
  by (simp add: silent_simps)


end
