(* ===== verification/Engine_Retention.thy ===== *)
theory Engine_Retention
  imports Engine_Starvation
begin

text \<open>
  What the server keeps for retransmission: the \<^verbatim>\<open>Republish\<close> service of \<^verbatim>\<open>opcua_server.ts\<close>, and
  the invariant that makes it useful, kept by every step of the engine: as long as the client
  acknowledges only what it has received, and at most a hundred messages are on their way to it, every
  message it has not received is in the subscription's retransmission queue.
\<close>

section \<open>The service\<close>

datatype 'v republish_answer =
    BadSubscriptionIdInvalid
  | BadMessageNotAvailable
  | Republished "'v notification_message"

text \<open>
  \<^verbatim>\<open>_on_RepublishRequest\<close> inside \<^verbatim>\<open>_apply_on_Subscription\<close>, for a request that has passed the checks of
  its session; the diagnostic counters of the service are left out.
\<close>

definition on_RepublishRequest ::
    "nat \<Rightarrow> nat \<Rightarrow> ('v, 'r) engine \<Rightarrow> 'v republish_answer \<times> ('v, 'r) engine" where
  "on_RepublishRequest subscriptionId retransmitSequenceNumber e =
     (case getSubscriptionById e subscriptionId of
        None \<Rightarrow> (BadSubscriptionIdInvalid, e)
      | Some s \<Rightarrow>
          (let s1 = resetLifeTimeAndKeepAliveCounters s
           in case getMessageForSequenceNumber retransmitSequenceNumber s1 of
                None \<Rightarrow> (BadMessageNotAvailable, put_sub s1 e)
              | Some m \<Rightarrow> (Republished m, put_sub s1 e)))"

section \<open>The messages of a subscription\<close>

fun messages :: "nat \<Rightarrow> (publish_request \<times> 'v response) list \<Rightarrow> 'v notification_message list" where
  "messages i [] = []"
| "messages i ((rq, ServiceFault st) # as) = messages i as"
| "messages i ((rq, PublishResponse r) # as) =
     (if pr_subscriptionId r = i \<and> nm_notificationData (pr_notificationMessage r) \<noteq> []
      then [pr_notificationMessage r] else []) @ messages i as"

lemma messages_append [simp]: "messages i (xs @ ys) = messages i xs @ messages i ys"
  by (induction i xs rule: messages.induct) simp_all

lemma messages_faults [simp]: "messages i (map (\<lambda>pd. (f pd, ServiceFault st)) pds) = []"
  by (induction pds) simp_all

lemma messages_others: "\<forall>a \<in> set as. \<not> answers_for i (snd a) \<Longrightarrow> messages i as = []"
  by (induction i as rule: messages.induct) auto

lemma messages_length: "length (messages i as) \<le> length as"
  by (induction i as rule: messages.induct) auto

lemma messages_full: "m \<in> set (messages i as) \<Longrightarrow> nm_notificationData m \<noteq> []"
  by (induction i as rule: messages.induct) (auto split: if_splits)

text \<open>Below the wrap of the generator the messages are numbered one by one.\<close>

lemma replay_numbers:
  "replay i g as = Some g' \<Longrightarrow> g + length as \<le> MAXVALUE \<Longrightarrow>
     map nm_sequenceNumber (messages i as) = [g..<g'] \<and> g \<le> g'"
proof (induction i g as rule: replay.induct)
  case (3 i g rq r as)
  show ?case
  proof (cases "pr_subscriptionId r = i")
    case False
    with 3 show ?thesis by simp
  next
    case True
    have n: "nm_sequenceNumber (pr_notificationMessage r) = g" using 3(3) True by (auto split: if_splits)
    have step: "snd (seq_next g) = Suc g" using 3(4) by (simp add: seq_next_def Let_def)
    show ?thesis
    proof (cases "nm_notificationData (pr_notificationMessage r) = []")
      case True
      with 3 \<open>pr_subscriptionId r = i\<close> n show ?thesis by simp
    next
      case False
      then have "map nm_sequenceNumber (messages i as) = [Suc g..<g'] \<and> Suc g \<le> g'"
        using 3(2)[of] 3(3,4) True n step by simp
      with False True n show ?thesis by (simp add: upt_conv_Cons)
    qed
  qed
qed simp_all

lemma messages_consecutive:
  assumes "runs env evs e" and "length (pe_responses e) < MAXVALUE"
  shows "map nm_sequenceNumber (messages i (pe_responses e)) = [1..<Suc (length (messages i (pe_responses e)))]"
proof -
  have "numbered e" by (rule runs_numbered[OF assms(1)])
  then have "replay i 1 (pe_responses e) = Some (pe_generators e i)" by (simp add: numbered_def new_generator_def)
  from replay_numbers[OF this] assms(2)
  have "map nm_sequenceNumber (messages i (pe_responses e)) = [1..<pe_generators e i]" "1 \<le> pe_generators e i" by simp_all
  moreover from arg_cong[OF this(1), of length] this(2)
  have "pe_generators e i = Suc (length (messages i (pe_responses e)))" by simp
  ultimately show ?thesis by simp
qed

section \<open>One publishing step\<close>

text \<open>
  A step on behalf of the subscription \<open>s\<close> delivers some messages of it, appends the same ones to its
  retransmission queue and does nothing to other subscriptions.
\<close>

definition delivers ::
    "('v, 'r) subscription \<Rightarrow> ('v, 'r) engine \<Rightarrow> ('v, 'r) subscription \<Rightarrow> ('v, 'r) engine \<Rightarrow> bool" where
  "delivers s e s' e' \<longleftrightarrow> sub_id s' = sub_id s \<and> pe_closed e' = pe_closed e
   \<and> (\<forall>j. j \<noteq> sub_id s \<longrightarrow> getSubscriptionById e' j = getSubscriptionById e j)
   \<and> (getSubscriptionById e' (sub_id s) = None \<longleftrightarrow> getSubscriptionById e (sub_id s) = None)
   \<and> (\<exists>ms. sub_sent s' = sub_sent s @ ms \<and>
        (\<forall>j. messages j (pe_responses e') = messages j (pe_responses e) @ (if j = sub_id s then ms else [])))"

lemma delivers_nothing:
  "sub_id s' = sub_id s \<Longrightarrow> sub_sent s' = sub_sent s \<Longrightarrow> pe_subscriptions e' = pe_subscriptions e \<Longrightarrow>
     pe_closed e' = pe_closed e \<Longrightarrow> pe_responses e' = pe_responses e \<Longrightarrow> delivers s e s' e'"
  by (auto simp: delivers_def getSubscriptionById_def intro: exI[of _ "[]"])

lemma delivers_trans: "delivers s e s1 e1 \<Longrightarrow> delivers s1 e1 s2 e2 \<Longrightarrow> delivers s e s2 e2"
  unfolding delivers_def by (elim conjE exE) (auto)

lemma answer_messages:
  "pe_queue e \<noteq> [] \<Longrightarrow> messages j (pe_responses (answer r e)) = messages j (pe_responses e) @
     (if pr_subscriptionId r = j \<and> nm_notificationData (pr_notificationMessage r) \<noteq> []
      then [pr_notificationMessage r] else [])"
  by (simp add: answer_def)

lemma refuse_keeps [simp]:
  "messages j (pe_responses (refuse st pds q e)) = messages j (pe_responses e)"
  "getSubscriptionById (refuse st pds q e) j = getSubscriptionById e j" "pe_closed (refuse st pds q e) = pe_closed e"
  "pe_subscriptions (refuse st pds q e) = pe_subscriptions e"
  by (simp_all add: refuse_def getSubscriptionById_def)

lemma pop_keeps:
  assumes "popNotificationToSend s = Inr (ds, s')"
  shows "sub_sent s' = sub_sent s" "sub_id s' = sub_id s"
  using assms by (auto simp: popNotificationToSend_def Let_def split: prod.splits)

lemma publish_delivers:
  assumes "publish_pending_notifications s e = Inr (s', e')"
  shows "delivers s e s' e'"
proof -
  obtain ds s1 where pop: "popNotificationToSend s = Inr (ds, s1)"
    using assms by (auto simp: publish_pending_notifications_def)
  note keeps = pop_keeps[OF pop]
  show ?thesis
  proof (cases "ds = []")
    case True
    with assms pop keeps show ?thesis
      by (auto simp: publish_pending_notifications_def intro: delivers_nothing)
  next
    case False
    obtain n g where g: "seq_next (pe_generators e (sub_id s)) = (n, g)" by force
    define m where "m = \<lparr>nm_sequenceNumber = n, nm_notificationData = ds\<rparr>"
    obtain r where r: "e' = answer r (e\<lparr>pe_generators := (pe_generators e)(sub_id s := g)\<rparr>)" "pe_queue e \<noteq> []"
      "pr_subscriptionId r = sub_id s" "pr_notificationMessage r = m" "sub_sent s' = sub_sent s @ [m]" "sub_id s' = sub_id s"
      using assms pop keeps False g
      by (auto simp: publish_pending_notifications_def Let_def m_def resetLifeTimeAndKeepAliveCounters_def
          resetKeepAliveCounter_def resetLifeTimeCounter_def dest!: send_response_inv split: if_splits)
    have "messages j (pe_responses e') = messages j (pe_responses e) @ (if j = sub_id s then [m] else [])" for j
      using answer_messages[of "e\<lparr>pe_generators := (pe_generators e)(sub_id s := g)\<rparr>" j r] r(2-4) False
      by (auto simp: r(1) m_def)
    then show ?thesis using r by (auto simp: delivers_def getSubscriptionById_def)
  qed
qed

lemma keepAlive_delivers:
  assumes "process_keepAlive s e = Inr (s', e')" and "getSubscriptionById e (sub_id s) \<noteq> None"
  shows "delivers s e s' e'"
proof -
  define s1 where "s1 = increaseKeepAliveCounter s"
  have s1: "sub_id s1 = sub_id s" "sub_sent s1 = sub_sent s" by (simp_all add: s1_def increaseKeepAliveCounter_def)
  have same: "delivers s e s2 (put_sub s1 e)" if "sub_id s2 = sub_id s" "sub_sent s2 = sub_sent s" for s2
    using that s1 assms(2) by (auto simp: delivers_def intro!: exI[of _ "[]"])
  have ka: "delivers s e s2 e2"
    if "send_keep_alive_response i n (put_sub s1 e) = Inr (b, e2)" "sub_id s2 = sub_id s" "sub_sent s2 = sub_sent s"
    for i n b e2 s2
    using keep_alive_inv[OF that(1)] same[OF that(2,3)]
    by (auto simp: delivers_def answer_messages getSubscriptionById_def split: if_splits)
  show ?thesis
    using assms(1) s1
    by (auto simp: process_keepAlive_def s1_def[symmetric] Let_def resetLifeTimeAndKeepAliveCounters_def
        resetKeepAliveCounter_def resetLifeTimeCounter_def split: if_splits intro: ka delivers_nothing)
qed

lemma adds_keep:
  "sub_sent (fold (\<lambda>n. addNotificationMessage (f n) k) ns s) = sub_sent s"
  "sub_id (fold (\<lambda>n. addNotificationMessage (f n) k) ns s) = sub_id s"
  by (induction ns arbitrary: s) (simp_all add: addNotificationMessage_def)

lemma harvest_items_keeps: "sub_sent (harvest_items nodes ms s) = sub_sent s \<and> sub_id (harvest_items nodes ms s) = sub_id s"
  by (induction nodes ms s rule: harvest_items.induct) (simp_all add: Let_def put_item_def adds_keep split: prod.split)

lemma uncollected_keeps:
  "hasUncollectedMonitoredItemNotifications s = (b, s') \<Longrightarrow> sub_sent s' = sub_sent s \<and> sub_id s' = sub_id s"
  by (auto simp: hasUncollectedMonitoredItemNotifications_def split: if_splits)

lemma collect_keeps: "sub_sent (collect nodes s) = sub_sent s \<and> sub_id (collect nodes s) = sub_id s"
proof -
  obtain b s1 where u: "hasUncollectedMonitoredItemNotifications s = (b, s1)" by force
  then show ?thesis using uncollected_keeps[OF u] by (simp add: collect_def harvestMonitoredItems_def harvest_items_keeps)
qed

lemma process_delivers:
  assumes "process_subscription nodes s e = Inr (s', e')" and "getSubscriptionById e (sub_id s) \<noteq> None"
  shows "delivers s e s' e'"
proof -
  have c: "delivers s e (collect nodes s) e" using collect_keeps[of nodes s] by (intro delivers_nothing) simp_all
  have t: "delivers s e s1 e1 \<Longrightarrow> delivers s e s1 (e1\<lparr>pe_tasks := t\<rparr>)" for s1 t and e1 :: "('a, 'b) engine"
    by (simp add: delivers_def getSubscriptionById_def)
  have "delivers s e s' e'" if "process_keepAlive (collect nodes s) e = Inr (s', e')"
    using keepAlive_delivers[OF that] assms(2) collect_keeps[of nodes s] delivers_trans[OF c] by simp
  then show ?thesis
    using assms
    by (auto simp: process_subscription_def Let_def split: if_splits
        intro: t delivers_trans[OF c] publish_delivers keepAlive_delivers)
qed

lemma tick_alive_delivers:
  assumes "tick_alive nodes s e = Inr (s', e')" and "getSubscriptionById e (sub_id s) \<noteq> None"
  shows "delivers s e s' e'"
proof -
  obtain b s1 where u: "hasUncollectedMonitoredItemNotifications s = (b, s1)" by force
  then have s1: "delivers s e s1 e" "sub_id s1 = sub_id s" "sub_sent s1 = sub_sent s"
    using uncollected_keeps[OF u] by (auto intro: delivers_nothing)
  have here: "getSubscriptionById e (sub_id s1) \<noteq> None" using assms(2) s1(2) by simp
  have "delivers s e s' e'" if "process_keepAlive s1 e = Inr (s', e') \<or> process_subscription nodes s1 e = Inr (s', e')"
    using that keepAlive_delivers[OF _ here] process_delivers[OF _ here] delivers_trans[OF s1(1)] by blast
  then show ?thesis
    using assms s1
    by (auto simp: tick_alive_def u resetKeepAliveCounter_def split: if_splits
        intro: process_delivers keepAlive_delivers delivers_nothing)
qed

section \<open>Closing and refusing\<close>

definition closed_ids :: "('v, 'r) engine \<Rightarrow> nat set" where
  "closed_ids e = closed_id ` set (pe_closed e)"

text \<open>Only messages of closed subscriptions are sent, and no subscription is touched.\<close>

definition settles_closed :: "('v, 'r) engine \<Rightarrow> ('v, 'r) engine \<Rightarrow> bool" where
  "settles_closed e e' \<longleftrightarrow> pe_subscriptions e' = pe_subscriptions e \<and> closed_ids e' \<subseteq> closed_ids e
   \<and> (\<forall>i. i \<notin> closed_ids e \<longrightarrow> messages i (pe_responses e') = messages i (pe_responses e))"

lemma settles_closed_refl [simp]: "settles_closed e e"
  by (simp add: settles_closed_def)

lemma settles_closed_trans: "settles_closed e e1 \<Longrightarrow> settles_closed e1 e2 \<Longrightarrow> settles_closed e e2"
  unfolding settles_closed_def by (metis subsetD subset_trans)

lemma settles_closed_refuse [simp]: "settles_closed e (refuse st pds q e)"
  by (simp add: settles_closed_def closed_ids_def)

lemma closed_publish_settles:
  assumes "closed_publish c e = Inr (c', e')"
  shows "closed_id c' = closed_id c \<and> pe_subscriptions e' = pe_subscriptions e \<and> pe_closed e' = pe_closed e
    \<and> (\<forall>i. i \<noteq> closed_id c \<longrightarrow> messages i (pe_responses e') = messages i (pe_responses e))"
proof (cases c)
  case (ClosedSubscription s)
  then obtain s' where s': "publish_pending_notifications s e = Inr (s', e')" "c' = ClosedSubscription s'"
    using assms by auto
  have "delivers s e s' e'" by (rule publish_delivers[OF s'(1)])
  moreover have "pe_subscriptions e' = pe_subscriptions e" using publish_inv[OF s'(1)] by auto
  ultimately show ?thesis using s'(2) by (auto simp: delivers_def ClosedSubscription)
next
  case (TransferredSubscription i p)
  then show ?thesis
    using assms answer_messages[of "advance i e"] by (auto dest!: publish_transferred_inv)
qed

lemma feed_closed_settles:
  assumes "feed_closed_subscription e = Inr (b, e')"
  shows "settles_closed e e'"
proof (cases "pe_queue e = [] \<or> pe_closed e = []")
  case True
  with assms show ?thesis
    by (auto simp: feed_closed_subscription_def pendingPublishRequestCount_def split: list.splits)
next
  case False
  then obtain c cs where c: "pe_queue e \<noteq> []" "pe_closed e = c # cs" by (cases "pe_closed e") auto
  obtain c1 e1 where p: "closed_publish c e = Inr (c1, e1)"
      "e' = e1\<lparr>pe_closed := cs\<rparr> \<or> e' = e1\<lparr>pe_closed := c1 # cs\<rparr>"
    using assms c
    by (cases "closed_publish c e")
      (auto simp: feed_closed_subscription_def pendingPublishRequestCount_def split: if_splits)
  then have "pe_subscriptions e' = pe_subscriptions e" "closed_ids e' \<subseteq> closed_ids e" "pe_responses e' = pe_responses e1"
    using closed_publish_settles[OF p(1)] c(2) by (auto simp: closed_ids_def)
  then show ?thesis using closed_publish_settles[OF p(1)] c(2) by (simp add: settles_closed_def closed_ids_def)
qed

lemma feed_loop_settles: "feed_closed_loop n e = Inr e' \<Longrightarrow> settles_closed e e'"
proof (induction n arbitrary: e)
  case (Suc n)
  then obtain b e1 where f: "feed_closed_subscription e = Inr (b, e1)" by (auto split: sum.splits)
  show ?case
  proof (cases b)
    case True
    then have "feed_closed_loop n e1 = Inr e'" using Suc.prems f by simp
    from settles_closed_trans[OF feed_closed_settles[OF f] Suc.IH[OF this]] show ?thesis .
  next
    case False
    then show ?thesis using Suc.prems f feed_closed_settles[OF f] by simp
  qed
qed simp

lemma on_close_settles:
  assumes "on_close_subscription s e = Inr e'"
  shows "pe_subscriptions e' = filter (\<lambda>(i, _). i \<noteq> sub_id s) (pe_subscriptions e)
    \<and> closed_ids e' \<subseteq> insert (sub_id s) (closed_ids e)
    \<and> (\<forall>i. i \<notin> insert (sub_id s) (closed_ids e) \<longrightarrow> messages i (pe_responses e') = messages i (pe_responses e))"
proof -
  define c where "c = (if hasPendingNotifications s then pe_closed e @ [ClosedSubscription s] else pe_closed e)"
  define e2 where "e2 = e\<lparr>pe_closed := c, pe_subscriptions := filter (\<lambda>(i, _). i \<noteq> sub_id s) (pe_subscriptions e)\<rparr>"
  obtain e3 where e3: "feed_closed_loop (Suc (length (pe_queue e2))) e2 = Inr e3"
    "e' = e3 \<or> e' = cancelPendingPublishRequest_with BadNoSubscription e3"
    using assms
    by (auto simp: on_close_subscription_def Let_def e2_def c_def simp del: feed_closed_loop.simps split: if_splits)
  have "settles_closed e2 e'"
    using feed_loop_settles[OF e3(1)] e3(2) by (auto simp: cancel_refuse intro: settles_closed_trans)
  moreover have "closed_ids e2 \<subseteq> insert (sub_id s) (closed_ids e)" by (auto simp: closed_ids_def e2_def c_def)
  ultimately show ?thesis by (auto simp: settles_closed_def e2_def)
qed

lemma remove_items_id: "remove_items nodes is s = Inr s' \<Longrightarrow> sub_id s' = sub_id s"
proof (induction nodes "is" s rule: remove_items.induct)
  case (2 nodes i "is" s)
  obtain s1 st where r: "removeMonitoredItem nodes i s = Inr (s1, st)" "st = MiGood" "remove_items nodes is s1 = Inr s'"
    using 2(2) by (cases "removeMonitoredItem nodes i s") (auto simp: assert_js_def split: if_splits)
  have "sub_id s1 = sub_id s"
    using r(1) by (auto simp: removeMonitoredItem_def removePendingNotificationsFor_def split: if_splits)
  then show ?case using 2(1) r by simp
qed simp

lemma terminate_settles:
  assumes "terminate nodes s e = Inr e'" and "sub_state s \<noteq> SsClosed"
  shows "pe_subscriptions e' = filter (\<lambda>(i, _). i \<noteq> sub_id s) (pe_subscriptions e)
    \<and> closed_ids e' \<subseteq> insert (sub_id s) (closed_ids e)
    \<and> (\<forall>i. i \<notin> insert (sub_id s) (closed_ids e) \<longrightarrow> messages i (pe_responses e') = messages i (pe_responses e))"
proof -
  obtain s1 where s1: "remove_items nodes (map fst (sub_items s)) (stop_timer s) = Inr s1"
    "on_close_subscription (s1\<lparr>sub_state := SsClosed\<rparr>)
       (e\<lparr>pe_totalMonitoredItemCount := pe_totalMonitoredItemCount e - length (sub_items s)\<rparr>) = Inr e'"
    using assms by (auto simp: terminate_def)
  have "sub_id s1 = sub_id s" using remove_items_id[OF s1(1)] by (simp add: stop_timer_def)
  with on_close_settles[OF s1(2)] show ?thesis by (simp add: closed_ids_def)
qed

section \<open>Retention\<close>

text \<open>All but the first \<open>k\<close> of the messages \<open>ms\<close> are at the end of the retransmission queue.\<close>

definition kept :: "nat \<Rightarrow> ('v, 'r) subscription \<Rightarrow> 'v notification_message list \<Rightarrow> bool" where
  "kept k s ms \<longleftrightarrow> (\<exists>ys. sub_sent s = ys @ drop k ms) \<and> set (sub_sent s) \<subseteq> set ms"

definition retains :: "nat \<Rightarrow> nat \<Rightarrow> ('v, 'r) engine \<Rightarrow> bool" where
  "retains k i e \<longleftrightarrow> (\<forall>s. getSubscriptionById e i = Some s \<longrightarrow>
     kept k s (messages i (pe_responses e)) \<and> i \<notin> closed_ids e)"

lemma kept_same: "kept k s ms \<Longrightarrow> sub_sent s' = sub_sent s \<Longrightarrow> kept k s' ms"
  by (simp add: kept_def)

lemma kept_append:
  assumes "kept k s ms" and "sub_sent s' = sub_sent s @ ns"
  shows "kept k s' (ms @ ns)"
proof -
  obtain ys where ys: "sub_sent s = ys @ drop k ms" using assms(1) by (auto simp: kept_def)
  have "ys @ drop k ms @ ns = (ys @ take (k - length ms) ns) @ drop k (ms @ ns)"
    by (cases "k \<le> length ms") simp_all
  then have "\<exists>zs. sub_sent s' = zs @ drop k (ms @ ns)" using assms(2) ys by (metis append.assoc)
  moreover have "set (sub_sent s') \<subseteq> set (ms @ ns)" using assms by (auto simp: kept_def)
  ultimately show ?thesis by (simp add: kept_def)
qed

lemma kept_discard:
  assumes "kept k s ms" and "length ms \<le> k + maxNotificationMessagesInQueue"
  shows "kept k (discardOldSentNotifications s) ms"
proof -
  obtain ys where ys: "sub_sent s = ys @ drop k ms" using assms(1) by (auto simp: kept_def)
  define n where "n = length (sub_sent s) - maxNotificationMessagesInQueue"
  have "n \<le> length ys" using assms(2) by (simp add: n_def ys)
  then have "drop n (sub_sent s) = drop n ys @ drop k ms" by (simp add: ys)
  then show ?thesis
    using assms(1) set_drop_subset[of n "sub_sent s"]
    by (auto simp: discardOldSentNotifications_def kept_def n_def[symmetric])
qed

lemma last_index_found: "last_index p xs i f = Some j \<Longrightarrow> f = Some j \<or> i \<le> j \<and> j < i + length xs \<and> p (xs ! (j - i))"
proof (induction xs arbitrary: i f)
  case (Cons x xs)
  from Cons.IH[of "i + 1" "if p x then Some i else f"] Cons.prems show ?case
    by (auto simp: nth_Cons' split: if_splits)
qed simp

lemma kept_acknowledge:
  assumes "kept k s ms" and "\<forall>m \<in> set (drop k ms). nm_sequenceNumber m \<noteq> n"
    and "acknowledgeNotification n s = (s', r)"
  shows "kept k s' ms"
proof (cases "last_index (\<lambda>e. nm_sequenceNumber e = n) (sub_sent s) 0 None")
  case None
  with assms(1,3) show ?thesis by (simp add: acknowledgeNotification_def)
next
  case (Some j)
  obtain ys where ys: "sub_sent s = ys @ drop k ms" using assms(1) by (auto simp: kept_def)
  have j: "j < length (sub_sent s)" "nm_sequenceNumber (sub_sent s ! j) = n"
    using last_index_found[OF Some] by auto
  have "j < length ys"
  proof (rule ccontr)
    assume "\<not> j < length ys"
    then have "sub_sent s ! j = drop k ms ! (j - length ys)" "j - length ys < length (drop k ms)"
      using j(1) by (auto simp: ys nth_append)
    then have "sub_sent s ! j \<in> set (drop k ms)" by (metis nth_mem)
    with assms(2) j(2) show False by blast
  qed
  then have "take j (sub_sent s) @ drop (j + 1) (sub_sent s) = (take j ys @ drop (j + 1) ys) @ drop k ms"
    by (simp add: ys)
  moreover have "set (take j (sub_sent s)) \<union> set (drop (j + 1) (sub_sent s)) \<subseteq> set (sub_sent s)"
    using set_take_subset set_drop_subset by fastforce
  moreover have s': "sub_sent s' = take j (sub_sent s) @ drop (j + 1) (sub_sent s)"
    using assms(3) Some by (auto simp: acknowledgeNotification_def)
  ultimately have "\<exists>zs. sub_sent s' = zs @ drop k ms" "set (sub_sent s') \<subseteq> set (sub_sent s)"
    by (metis, metis s' set_append)
  with assms(1) show ?thesis unfolding kept_def by blast
qed

lemma retained_settles:
  assumes "retains k i e" and "settles_closed e e'"
  shows "retains k i e'"
  using assms unfolding retains_def settles_closed_def getSubscriptionById_def by auto

lemma retained_same:
  "retains k i e \<Longrightarrow> pe_subscriptions e' = pe_subscriptions e \<Longrightarrow> pe_closed e' = pe_closed e \<Longrightarrow>
     pe_responses e' = pe_responses e \<Longrightarrow> retains k i e'"
  by (simp add: retains_def getSubscriptionById_def closed_ids_def)

lemma retained_put:
  assumes "retains k i e" and "i = sub_id s \<Longrightarrow> kept k s (messages i (pe_responses e))"
  shows "retains k i (put_sub s e)"
  using assms by (auto simp: retains_def closed_ids_def)

lemma retained_delivers:
  assumes "retains k i e" and "delivers s e s' e'" and "i = sub_id s \<Longrightarrow> kept k s (messages i (pe_responses e))"
  shows "retains k i (put_sub s' e')"
proof (cases "i = sub_id s")
  case True
  obtain ms where ms: "sub_sent s' = sub_sent s @ ms" "messages i (pe_responses e') = messages i (pe_responses e) @ ms"
    using assms(2) True by (auto simp: delivers_def)
  have "kept k s' (messages i (pe_responses e'))" unfolding ms(2) by (rule kept_append[OF assms(3)[OF True] ms(1)])
  moreover have "getSubscriptionById e' i = None \<longleftrightarrow> getSubscriptionById e i = None" "pe_closed e' = pe_closed e"
    "sub_id s' = i"
    using assms(2) True by (auto simp: delivers_def)
  ultimately show ?thesis using assms(1) by (auto simp: retains_def closed_ids_def)
next
  case False
  with assms(1,2) show ?thesis by (auto simp: retains_def delivers_def closed_ids_def)
qed

lemma retained_terminate:
  assumes "retains k i e" and "terminate nodes s e = Inr e'" and "sub_state s \<noteq> SsClosed"
  shows "retains k i e'"
proof -
  note t = terminate_settles[OF assms(2,3)]
  have "getSubscriptionById e' i = (if i = sub_id s then None else getSubscriptionById e i)"
    using t by (simp add: getSubscriptionById_def map_of_filter_key)
  then show ?thesis using assms(1) t unfolding retains_def by (auto split: if_splits)
qed

section \<open>Every step retains\<close>

lemma number_after:
  assumes "map nm_sequenceNumber ms = [1..<Suc (length ms)]" and "m \<in> set (drop k ms)"
  shows "k < nm_sequenceNumber m"
proof -
  have "map nm_sequenceNumber (drop k ms) = [Suc k..<Suc (length ms)]"
    using assms(1) by (simp add: drop_map[symmetric] drop_upt del: upt_Suc)
  then have "nm_sequenceNumber m \<in> set [Suc k..<Suc (length ms)]" using assms(2) by (metis image_eqI list.set_map)
  then show ?thesis by (simp del: upt_Suc)
qed

lemma acks_retained:
  assumes "retains k i e" and "engine_ok e" and "\<forall>n. (i, n) \<in> set acks \<longrightarrow> n \<le> k"
    and "map nm_sequenceNumber (messages i (pe_responses e)) = [1..<Suc (length (messages i (pe_responses e)))]"
  shows "retains k i (snd (process_subscriptionAcknowledgements acks e))"
  using assms
proof (induction acks arbitrary: e)
  case (Cons a acks)
  obtain j n where a: "a = (j, n)" by force
  show ?case
  proof (cases "getSubscriptionById e j")
    case None
    with Cons.IH[OF Cons.prems(1,2) _ Cons.prems(4)] Cons.prems(3) show ?thesis
      by (cases "process_subscriptionAcknowledgements acks e") (simp add: a)
  next
    case (Some s)
    have s: "sub_ok j s" by (rule engine_ok_lookup[OF Cons.prems(2) Some])
    obtain s1 r where r: "acknowledgeNotification n s = (s1, r)" by force
    then have s1: "sub_ok j s1" using s by (auto simp: acknowledgeNotification_def sub_ok_def revised_def split: option.splits)
    then have id: "sub_id s1 = j" by (simp add: sub_ok_def)
    have "kept k s1 (messages i (pe_responses e))" if "i = j"
    proof (rule kept_acknowledge[OF _ _ r])
      show "kept k s (messages i (pe_responses e))" using Cons.prems(1) Some that by (simp add: retains_def)
      show "\<forall>m \<in> set (drop k (messages i (pe_responses e))). nm_sequenceNumber m \<noteq> n"
        using number_after[OF Cons.prems(4)] Cons.prems(3) that a by (metis leD list.set_intros(1))
    qed
    then have "retains k i (put_sub s1 e)" using retained_put[OF Cons.prems(1), of s1] id by blast
    moreover have "engine_ok (put_sub s1 e)" using engine_ok_put[OF Cons.prems(2), of s1] s1 id by simp
    ultimately have "retains k i (snd (process_subscriptionAcknowledgements acks (put_sub s1 e)))"
      using Cons.prems(3,4) by (intro Cons.IH) simp_all
    with Some r show ?thesis
      by (cases "process_subscriptionAcknowledgements acks (put_sub s1 e)") (simp add: a)
  qed
qed simp

lemma retained_refuse: "retains k i e \<Longrightarrow> retains k i (refuse st pds q e)"
  by (erule retained_settles) (rule settles_closed_refuse)

lemma send_error_retained: "retains k i e \<Longrightarrow> retains k i (send_error_for_request st pd e)"
  using retained_refuse[of k i e st "[pd]" "pe_queue e"] by (simp add: send_error_for_request_def refuse_def)

lemma too_many_retained: "handle_too_many_requests e = Inr e' \<Longrightarrow> retains k i e \<Longrightarrow> retains k i e'"
  by (auto simp: handle_too_many_requests_def send_error_refuse split: list.splits if_splits intro: retained_refuse)

lemma received_retained:
  assumes "on_PublishRequest now rq e = Inr e'" and "retains k i e" and "engine_ok e"
    and "\<forall>n. (i, n) \<in> set (rq_subscriptionAcknowledgements rq) \<longrightarrow> n \<le> k"
    and "map nm_sequenceNumber (messages i (pe_responses e)) = [1..<Suc (length (messages i (pe_responses e)))]"
  shows "retains k i e'"
proof -
  obtain rs e1 where ra: "process_subscriptionAcknowledgements (rq_subscriptionAcknowledgements rq) e = (rs, e1)"
    by force
  have e1: "retains k i e1" using acks_retained[OF assms(2,3,4,5)] ra by simp
  then have q: "retains k i (e1\<lparr>pe_queue := q\<rparr>)" for q by (rule retained_same) simp_all
  have fed: "retains k i e3" if "feed_closed_subscription (e1\<lparr>pe_queue := q\<rparr>) = Inr (b, e3)" for q b e3
    by (rule retained_settles[OF q feed_closed_settles[OF that]])
  have task: "retains k i x \<Longrightarrow> retains k i (x\<lparr>pe_tasks := t\<rparr>)" for x :: "('a, 'b) engine" and t
    by (erule retained_same) simp_all
  show ?thesis
    using assms(1) e1
    by (auto simp: on_PublishRequest_def ra Let_def split: if_splits
        intro: send_error_retained fed too_many_retained[OF _ task[OF fed]])
qed

lemma tick_retained:
  assumes "tick nodes now j e = Inr e'" and "retains k i e" and "engine_ok e"
    and "length (messages i (pe_responses e)) \<le> k + maxNotificationMessagesInQueue"
  shows "retains k i e'"
proof (cases "getSubscriptionById e j")
  case None
  with assms(1,2) show ?thesis by (simp add: tick_def)
next
  case (Some s)
  have s: "sub_id s = j" "sub_state s \<noteq> SsClosed" using engine_ok_lookup[OF assms(3) Some] by (simp_all add: sub_ok_def)
  have sent: "sub_sent (older s) = sub_sent (discardOldSentNotifications s)"
    by (simp add: older_def age_def Let_def increaseLifeTimeCounter_def)
  define e1 where "e1 = cancelTimeoutRequests now (put_sub (older s) e)"
  have kept: "kept k (older s) (messages i (pe_responses e))" if "i = j"
    using kept_same[OF kept_discard[OF _ assms(4)] sent] assms(2) Some that by (simp add: retains_def)
  then have e1: "retains k i e1"
    unfolding e1_def cancelTimeout_refuse by (intro retained_refuse retained_put[OF assms(2)]) (simp add: s)
  have same: "messages i (pe_responses e1) = messages i (pe_responses e)" "getSubscriptionById e1 j \<noteq> None"
    using s Some by (simp_all add: e1_def cancelTimeout_refuse)
  from assms(1) consider
      (expired) "terminate nodes (addNotificationMessage (StatusChange bad_timeout) None (older s)) e1 = Inr e'"
    | (alive) s2 e2 where "tick_alive nodes (older s) e1 = Inr (s2, e2)" "e' = put_sub s2 e2"
    using s by (auto simp: tick_def Some Let_def older_def[symmetric] e1_def[symmetric] split: if_splits)
  then show ?thesis
  proof cases
    case expired
    then show ?thesis using retained_terminate[OF e1 expired] s(2) by (simp add: addNotificationMessage_def)
  next
    case alive
    have here: "getSubscriptionById e1 (sub_id (older s)) \<noteq> None" using same(2) s(1) by simp
    have "kept k (older s) (messages i (pe_responses e1))" if "i = sub_id (older s)"
      unfolding same(1) using kept that s(1) by simp
    then show ?thesis unfolding alive(2) by (rule retained_delivers[OF e1 tick_alive_delivers[OF alive(1) here]])
  qed
qed

lemma late_is_stored:
  assumes "engine_ok e" and "s \<in> set (findLateSubscriptions e)"
  shows "getSubscriptionById e (sub_id s) = Some s"
  using assms by (force simp: findLateSubscriptions_def engine_ok_def subs_ok_def sub_ok_def getSubscriptionById_def)

lemma feed_late_retained:
  assumes "feed_late_subscription env e = Inr e'" and "retains k i e" and "engine_ok e" and "env_ok env"
  shows "retains k i e'"
proof (cases "e' = e")
  case False
  define s where "s = last (ev_sort env compare_subscriptions (findLateSubscriptions e))"
  have late: "findLateSubscriptions e \<noteq> []" using False assms(1)
    by (auto simp: feed_late_subscription_def find_starving_subscription_def split: if_splits)
  have "set (ev_sort env compare_subscriptions (findLateSubscriptions e)) = set (findLateSubscriptions e)"
    using assms(4) by (simp add: env_ok_def)
  then have "s \<in> set (findLateSubscriptions e)" using late by (metis last_in_set s_def set_empty)
  then have s: "getSubscriptionById e (sub_id s) = Some s" by (rule late_is_stored[OF assms(3)])
  then have "kept k s (messages i (pe_responses e))" if "i = sub_id s" using assms(2) that by (simp add: retains_def)
  moreover obtain s2 e2 where "process_subscription (ev_nodes env) s e = Inr (s2, e2)" "e' = put_sub s2 e2"
    using assms(1) False late
    by (auto simp: feed_late_subscription_def find_starving_subscription_def s_def[symmetric] split: if_splits)
  ultimately show ?thesis using retained_delivers[OF assms(2) process_delivers] s by fastforce
qed (use assms(2) in simp)

lemma on_sub_retained:
  assumes "on_sub j f e = Inr e'" and "retains k i e" and "engine_ok e"
    and "\<And>s s'. f s = Inr s' \<Longrightarrow> sub_id s' = sub_id s \<and> sub_sent s' = sub_sent s"
  shows "retains k i e'"
proof (cases "getSubscriptionById e j")
  case (Some s)
  then obtain s' where s': "f s = Inr s'" "e' = put_sub s' e" using assms(1) by (auto simp: on_sub_def)
  have "sub_id s = j" using engine_ok_lookup[OF assms(3) Some] by (simp add: sub_ok_def)
  then have "kept k s' (messages i (pe_responses e))" if "i = sub_id s'"
    using kept_same[of k s _ s'] assms(2) assms(4)[OF s'(1)] Some that by (simp add: retains_def)
  then show ?thesis unfolding s'(2) by (intro retained_put[OF assms(2)])
qed (use assms in \<open>simp add: on_sub_def\<close>)

lemma modify_keeps: "sub_modify p s = Inr s' \<Longrightarrow> sub_id s' = sub_id s \<and> sub_sent s' = sub_sent s"
  by (auto simp: sub_modify_def start_timer_def stop_timer_def resetLifeTimeAndKeepAliveCounters_def
      resetKeepAliveCounter_def resetLifeTimeCounter_def Let_def split: if_splits)

lemma subscribe_retained:
  assumes "engine_step env e (Subscribe o1) = Inr e'" and "retains k i e" and "allowed e (Subscribe o1)"
  shows "retains k i e'"
proof -
  have f: "getSubscriptionById e (so_id o1) = None" "so_id o1 \<notin> closed_ids e" "messages (so_id o1) (pe_responses e) = []"
    using assms(3) by (auto simp: fresh_id_def closed_ids_def intro: messages_others)
  obtain s :: "('a, 'b) subscription" where s: "new_subscription o1 = Inr s" "sub_sent s = []" "sub_id s = so_id o1"
    using assms(1) by (auto simp: new_subscription_def start_timer_def Let_def)
  then have "getSubscriptionById e' j = (if j = so_id o1 then Some s else getSubscriptionById e j)"
    "pe_responses e' = pe_responses e" "pe_closed e' = pe_closed e" for j
    using assms(1) f(1) by (auto simp: add_subscription_def getSubscriptionById_def map_of_insert_by_id)
  then show ?thesis using assms(2) f s(2) by (auto simp: retains_def kept_def closed_ids_def)
qed

fun acknowledges :: "nat \<Rightarrow> ('v, 'r) event \<Rightarrow> nat list" where
  "acknowledges i (Publish_received rq now) = map snd (filter (\<lambda>a. fst a = i) (rq_subscriptionAcknowledgements rq))"
| "acknowledges i ev = []"

lemma step_retained:
  assumes env: "env_ok env" and e: "engine_ok e" "retains k i e" and ev: "allowed e ev" "engine_step env e ev = Inr e'"
    and acks: "\<forall>n \<in> set (acknowledges i ev). n \<le> k"
    and ms: "map nm_sequenceNumber (messages i (pe_responses e)) = [1..<Suc (length (messages i (pe_responses e)))]"
      "length (messages i (pe_responses e)) \<le> k + maxNotificationMessagesInQueue"
  shows "retains k i e'"
proof (cases ev)
  case (Publish_received rq now)
  then show ?thesis using received_retained[OF _ e(2,1) _ ms(1)] ev(2) acks by force
next
  case (Timer_fired j now)
  then show ?thesis using tick_retained[OF _ e(2,1) ms(2)] ev(2) by simp
next
  case (Run_task now)
  have t: "engine_ok (e\<lparr>pe_tasks := ts\<rparr>)" "retains k i (e\<lparr>pe_tasks := ts\<rparr>)" for ts
    using e retained_same[OF e(2), of "e\<lparr>pe_tasks := ts\<rparr>"] by simp_all
  show ?thesis
    using ev(2) Run_task e(2) ms(2) feed_late_retained[OF _ t(2,1) env] tick_retained[OF _ t(2,1)]
    by (auto split: list.splits task.splits)
next
  case (Unsubscribe j)
  show ?thesis
  proof (cases "getSubscriptionById e j")
    case (Some s)
    have "sub_state s \<noteq> SsClosed" using engine_ok_lookup[OF e(1) Some] by (simp add: sub_ok_def)
    then show ?thesis using retained_terminate[OF e(2)] ev(2) Unsubscribe Some by simp
  qed (use ev(2) e(2) Unsubscribe in simp)
next
  case (Set_publishing_mode j b)
  then show ?thesis
    using ev(2) by (auto intro!: on_sub_retained[OF _ e(2,1)] simp: setPublishingMode_def Let_def resetLifeTimeCounter_def)
next
  case (Modify_subscription j p)
  then show ?thesis using ev(2) on_sub_retained[OF _ e(2,1) modify_keeps] by simp
next
  case (Items_changed j items)
  have "sub_id (replace_items items s) = sub_id s \<and> sub_sent (replace_items items s) = sub_sent s" for s
    by (rule replace_items_pending [of items s]) simp
  then show ?thesis using ev(2) Items_changed by (auto intro!: on_sub_retained[OF _ e(2,1)])
next
  case Session_closed
  then show ?thesis
    using ev(2) retained_same[OF e(2), of "e\<lparr>pe_isSessionClosed := True\<rparr>"]
    by (auto simp: onSessionClose_def cancel_refuse intro: retained_refuse)
next
  case Channel_changed
  then show ?thesis
    using ev(2) e(2) by (auto simp: cancelPendingPublishRequestBeforeChannelChange_def cancel_refuse intro: retained_refuse)
qed (use subscribe_retained e(2) ev in blast)

section \<open>Republishing in a run\<close>

interpretation hist: engine_frame "\<lambda>e. \<exists>ys. pe_responses e = xs @ ys" for xs
  by unfold_locales (auto simp: refuse_def answer_def advance_def)

lemma responses_grow:
  assumes "engine_step env e ev = Inr e'"
  obtains ys where "pe_responses e' = pe_responses e @ ys"
  using hist.step[OF assms, of "pe_responses e"] by auto

lemma runs_retain:
  assumes "runs env evs e" and "env_ok env" and "\<forall>ev \<in> set evs. \<forall>n \<in> set (acknowledges i ev). n \<le> k"
    and "length (pe_responses e) < MAXVALUE"
    and "length (messages i (pe_responses e)) \<le> k + maxNotificationMessagesInQueue"
  shows "retains k i e"
  using assms
proof (induction rule: runs.induct)
  case (runs_start n)
  then show ?case by (simp add: retains_def new_publish_engine_def getSubscriptionById_def)
next
  case (runs_step evs e ev e')
  obtain ys where ys: "pe_responses e' = pe_responses e @ ys" by (rule responses_grow[OF runs_step.hyps(3)])
  then have b: "length (pe_responses e) < MAXVALUE"
    "length (messages i (pe_responses e)) \<le> k + maxNotificationMessagesInQueue"
    using runs_step.prems by simp_all
  show ?case
  proof (rule step_retained[OF runs_step.prems(1) runs_ok[OF runs_step.hyps(1) runs_step.prems(1)] _ runs_step.hyps(2,3)
        _ messages_consecutive[OF runs_step.hyps(1) b(1)] b(2)])
    show "retains k i e" using runs_step.IH runs_step.prems b by simp
    show "\<forall>n \<in> set (acknowledges i ev). n \<le> k" using runs_step.prems(2) by simp
  qed
qed

lemma numbered_nth:
  assumes "map nm_sequenceNumber ms = [1..<Suc (length ms)]" and "j < length ms"
  shows "nm_sequenceNumber (ms ! j) = Suc j"
  using assms(2) arg_cong[OF assms(1), of "\<lambda>xs. xs ! j"] by (simp add: nth_append del: upt_Suc)

lemma numbered_find:
  assumes "map nm_sequenceNumber ms = [1..<Suc (length ms)]" and "kept k s ms" and "k < n"
  shows "getMessageForSequenceNumber n s = (if n \<le> length ms then Some (ms ! (n - 1)) else None)"
proof -
  note num = numbered_nth[OF assms(1)]
  have only: "m = ms ! (n - 1) \<and> n \<le> length ms" if m: "m \<in> set (sub_sent s)" "nm_sequenceNumber m = n" for m
  proof -
    have "m \<in> set ms" using m(1) assms(2) by (auto simp: kept_def)
    then obtain j where "j < length ms" "m = ms ! j" by (auto simp: in_set_conv_nth)
    with num m(2) show ?thesis by auto
  qed
  show ?thesis
  proof (cases "n \<le> length ms")
    case True
    then have j: "n - 1 < length ms" "k \<le> n - 1" using assms(3) by simp_all
    then have "k + (n - 1 - k) = n - 1" by (intro le_add_diff_inverse)
    then have "drop k ms ! (n - 1 - k) = ms ! (n - 1)" "n - 1 - k < length (drop k ms)"
      using j by (metis less_imp_le nth_drop order.trans, simp)
    then have "ms ! (n - 1) \<in> set (drop k ms)" by (metis nth_mem)
    then have "ms ! (n - 1) \<in> set (sub_sent s)" using assms(2) by (auto simp: kept_def)
    moreover have "nm_sequenceNumber (ms ! (n - 1)) = n" using num[OF j(1)] assms(3) by simp
    ultimately have "List.find (\<lambda>m. nm_sequenceNumber m = n) (sub_sent s) \<noteq> None"
      by (auto simp: find_None_iff)
    then obtain m where "List.find (\<lambda>m. nm_sequenceNumber m = n) (sub_sent s) = Some m" by auto
    moreover from this have "m = ms ! (n - 1)"
      using only by (auto simp: find_Some_iff)
    ultimately show ?thesis using True by (simp add: getMessageForSequenceNumber_def)
  next
    case False
    then show ?thesis using only by (auto simp: getMessageForSequenceNumber_def find_None_iff)
  qed
qed

text \<open>C9: In every run (with fewer answers than the largest sequence number) that has not ended the subscription and
  in which the client has acknowledged no message of it after the \<open>k\<close>-th, and at most a hundred messages of it
  follow, the \<^verbatim>\<open>Republish\<close> service answers for every number after \<open>k\<close> with exactly the message that the
  subscription sent under it, and for a number not yet sent with \<^verbatim>\<open>BadMessageNotAvailable\<close>, whatever ticks,
  requests, other acknowledgements and services came between.\<close>

theorem unacknowledged_messages_republished:
  assumes "runs env evs e" and "env_ok env" and "\<forall>ev \<in> set evs. \<forall>n \<in> set (acknowledges i ev). n \<le> k"
    and "length (pe_responses e) < MAXVALUE"
    and "length (messages i (pe_responses e)) \<le> k + maxNotificationMessagesInQueue"
    and "getSubscriptionById e i = Some s" and "k < n"
  shows "on_RepublishRequest i n e =
    (if n \<le> length (messages i (pe_responses e)) then Republished (messages i (pe_responses e) ! (n - 1))
     else BadMessageNotAvailable, put_sub (resetLifeTimeAndKeepAliveCounters s) e)"
proof -
  have "kept k s (messages i (pe_responses e))"
    using runs_retain[OF assms(1-5)] assms(6) by (simp add: retains_def)
  from numbered_find[OF messages_consecutive[OF assms(1,4)] this assms(7)]
  have "getMessageForSequenceNumber n (resetLifeTimeAndKeepAliveCounters s) =
      (if n \<le> length (messages i (pe_responses e)) then Some (messages i (pe_responses e) ! (n - 1)) else None)"
    by (simp add: getMessageForSequenceNumber_def resetLifeTimeAndKeepAliveCounters_def resetKeepAliveCounter_def
        resetLifeTimeCounter_def)
  then show ?thesis using assms(6) by (simp add: on_RepublishRequest_def)
qed

definition resend_events :: "(int, unit) event list" where
  "resend_events = [Subscribe example_options,
     Items_changed 1 [(7, (example_item True)\<lparr>mi_queue := [sample 5]\<rparr>)],
     Publish_received (example_publish 7) 0, Run_task 0]"

definition resent_message :: "int notification_message" where
  "resent_message = \<lparr>nm_sequenceNumber = 1, nm_notificationData = [DataChangeNotification [sample 5]]\<rparr>"

lemmas resend_simps = resend_events_def resent_message_def silent_simps

lemma resend_run:
  "case engine_run example_env (new_publish_engine 1) resend_events of Inl x \<Rightarrow> False
   | Inr e \<Rightarrow> getSubscriptionById e 1 \<noteq> None \<and> length (pe_responses e) = 1 \<and>
     messages 1 (pe_responses e) = [resent_message]"
  by (simp add: resend_simps)

lemma resend_allowed: "allowed_run example_env (new_publish_engine 1) resend_events"
  by (simp add: resend_simps)

lemma resend_unacknowledged: "\<forall>ev \<in> set resend_events. \<forall>n \<in> set (acknowledges 1 ev). n \<le> 0"
  by (simp add: resend_events_def example_publish_def)

lemma resend_reached:
  obtains e s where "runs example_env resend_events e" and "getSubscriptionById e 1 = Some s"
    and "length (pe_responses e) = 1" and "messages 1 (pe_responses e) = [resent_message]"
  using resend_run runs_more[OF runs_start resend_allowed] by (auto split: sum.splits)

theorem unacknowledged_messages_republished_witness:
  "\<exists>e. runs example_env resend_events e \<and> fst (on_RepublishRequest 1 1 e) = Republished resent_message
     \<and> fst (on_RepublishRequest 1 2 e) = BadMessageNotAvailable"
proof (rule resend_reached)
  fix e s
  assume e: "runs example_env resend_events e" "getSubscriptionById e 1 = Some s"
    "length (pe_responses e) = 1" "messages 1 (pe_responses e) = [resent_message]"
  have b: "length (pe_responses e) < MAXVALUE"
    "length (messages 1 (pe_responses e)) \<le> 0 + maxNotificationMessagesInQueue"
    using e(3,4) by (simp_all add: MAXVALUE_def maxNotificationMessagesInQueue_def)
  note answer = unacknowledged_messages_republished[OF e(1) example_env_ok resend_unacknowledged b e(2)]
  have "fst (on_RepublishRequest 1 1 e) = Republished resent_message"
    "fst (on_RepublishRequest 1 2 e) = BadMessageNotAvailable"
    using answer[of 1] answer[of 2] e(4) by simp_all
  with e(1) show ?thesis by blast
qed

end
