(* ===== verification/Session_Republish.thy ===== *)
theory Session_Republish
  imports Client_Pipeline Engine_Retention
begin

text \<open>
  The client after a broken connection (\<^verbatim>\<open>reconnection/client_publish_engine_reconnection.ts\<close> and
  \<^verbatim>\<open>reconnection/client_subscription_reconnection.ts\<close>): the loop that asks for the messages that were lost
  and the recreation of a subscription the server has forgotten. The session's services are the
  argument \<open>link\<close>, functions of a state of any type; an awaited call that never settles is \<open>None\<close>.
  The model runs the repair alone: nothing else happens to the client between two calls.
\<close>

section \<open>The session as the repair uses it\<close>

text \<open>An error as \<^verbatim>\<open>process_request_callback\<close> makes it: its message, and the status of a service fault.\<close>

record reply_error =
  er_message :: string
  er_serviceResult :: "status_code option"

type_synonym 'v republish_reply = "reply_error option \<times> (status_code \<times> 'v notification_message) option"

datatype failure =
    FailedReply "reply_error option"
  | FailedJs js_error
  | NotUsable

text \<open>The names of the status codes are in a generated table.\<close>

record ('v, 'st) session_link =
  sl_statusName :: "status_code \<Rightarrow> string"
  sl_usable :: "'st \<Rightarrow> bool"
  sl_closeEventHasBeenEmitted :: "'st \<Rightarrow> bool"
  sl_republish :: "nat \<Rightarrow> nat \<Rightarrow> 'st \<Rightarrow> 'v republish_reply \<times> 'st"
  sl_createSubscription :: "'v client_subscription \<Rightarrow> 'st \<Rightarrow> (reply_error + create_subscription_response) \<times> 'st"
  sl_createMonitoredItems :: "nat \<Rightarrow> nat list \<Rightarrow> 'st \<Rightarrow> reply_error option \<times> 'st"

definition BadStatus :: status_code where "BadStatus = constant_status 0x80000000"
definition BadMessageNotAvailable_code :: status_code where
  "BadMessageNotAvailable_code = constant_status 0x807B0000"
definition BadSubscriptionIdInvalid_code :: status_code where
  "BadSubscriptionIdInvalid_code = constant_status 0x80280000"

definition hex_digit :: "nat \<Rightarrow> char" where
  "hex_digit n = ''0123456789abcdef'' ! (n mod 16)"

text \<open>\<^verbatim>\<open>StatusCode.toString\<close>.\<close>

definition status_text :: "string \<Rightarrow> status_code \<Rightarrow> string" where
  "status_text name st = name @ '' (0x'' @ map (\<lambda>k. hex_digit (sc_value st div 16 ^ k)) [7, 6, 5, 4, 3, 2, 1, 0] @ '')''"

text \<open>What \<^verbatim>\<open>process_request_callback\<close> makes of a service fault.\<close>

definition fault_error :: "string \<Rightarrow> status_code \<Rightarrow> reply_error" where
  "fault_error name st = \<lparr>er_message = '' serviceResult = '' @ status_text name st, er_serviceResult = Some st\<rparr>"

section \<open>One request\<close>

definition extractStatusCode :: "'v republish_reply \<Rightarrow> status_code" where
  "extractStatusCode reply =
     (case reply of
        (_, Some (st, _)) \<Rightarrow> st
      | (Some err, None) \<Rightarrow>
          (case er_serviceResult err of
             Some st \<Rightarrow> st
           | None \<Rightarrow> if matches ''BadMessageNotAvailable'' (er_message err) then BadMessageNotAvailable_code else BadStatus)
      | (None, None) \<Rightarrow> BadStatus)"

text \<open>\<open>Inr\<close> is \<^verbatim>\<open>isDone\<close>, \<open>Inl\<close> the reason of a rejection, which may be \<^verbatim>\<open>null\<close>.\<close>

definition sendRepublish ::
    "('v, 'st) session_link \<Rightarrow> 'v client_subscription \<Rightarrow> 'st \<Rightarrow>
     (failure + bool) \<times> 'v client_subscription \<times> 'st" where
  "sendRepublish link s st =
     (if cs_lastSequenceNumber s + 1 < 0 then (Inl (FailedJs AssertionError), s, st)
      else if sl_closeEventHasBeenEmitted link st then (Inr True, s, st)
      else
        let (reply, st1) = sl_republish link (cs_subscriptionId s) (nat (cs_lastSequenceNumber s + 1)) st;
            statusCode = extractStatusCode reply
        in if sameStatusCode statusCode BadMessageNotAvailable_code then (Inr True, s, st1)
           else case snd reply of
             None \<Rightarrow> (Inl (FailedReply (fst reply)), s, st1)
           | Some (sr, m) \<Rightarrow>
               if fst reply = None \<and> sameStatusCode statusCode Good then (Inr False, onNotificationMessage m s, st1)
               else (Inl (FailedReply (Some (case fst reply of
                   Some err \<Rightarrow> err | None \<Rightarrow> \<lparr>er_message = status_text '''' sr, er_serviceResult = None\<rparr>))), s, st1))"

section \<open>The loop\<close>

partial_function (option) republish_loop ::
    "('v, 'st) session_link \<Rightarrow> 'v client_subscription \<Rightarrow> 'st \<Rightarrow>
     (failure option \<times> 'v client_subscription \<times> 'st) option" where
  "republish_loop link s st =
     (case sendRepublish link s st of
        (Inl err, s1, st1) \<Rightarrow> Some (Some err, s1, st1)
      | (Inr done, s1, st1) \<Rightarrow> if done then Some (None, s1, st1) else republish_loop link s1 st1)"

section \<open>Recreating a subscription\<close>

text \<open>
  \<^verbatim>\<open>recreateSubscriptionAndMonitoredItem\<close>. When the callback of \<^verbatim>\<open>createSubscription\<close> throws, the
  promise made of \<^verbatim>\<open>__create_subscription\<close> is never settled. The results of the items only change the
  items themselves, of which the model keeps the handles.
\<close>

definition recreateSubscriptionAndMonitoredItem ::
    "('v, 'st) session_link \<Rightarrow> bool \<Rightarrow> bool \<Rightarrow> nat \<Rightarrow> 'v client \<Rightarrow> 'st \<Rightarrow> (failure option \<times> 'v client \<times> 'st) option" where
  "recreateSubscriptionAndMonitoredItem link valid ignoreNextWarning ob c st =
     (case ce_objects c ob of
        None \<Rightarrow> Some (None, c, st)
      | Some s \<Rightarrow>
          if cs_subscriptionId s = TERMINATED_SUBSCRIPTION_ID then Some (None, c, st)
          else case unregisterSubscription (cs_subscriptionId s) c of
            Inl e \<Rightarrow> Some (Some (FailedJs e), c, st)
          | Inr c1 \<Rightarrow>
              if \<not> ce_session c1
              then Some (Some (FailedJs (ThrownError ''__create_subscription: subscription has no Session'')), c1, st)
              else
                let (created, st1) = sl_createSubscription link s st in
                case created of
                  Inl err \<Rightarrow> Some (Some (FailedReply (Some err)), fst (create_callback valid ignoreNextWarning ob None c1), st1)
                | Inr response \<Rightarrow>
                    let (c2, thrown) = create_callback valid ignoreNextWarning ob (Some response) c1 in
                    if thrown \<noteq> None then None
                    else if \<not> sl_usable link st1 then Some (Some NotUsable, c2, st1)
                    else case getSubscription (cr_subscriptionId response) c2 of
                      Inl e \<Rightarrow> Some (Some (FailedJs e), c2, st1)
                    | Inr _ \<Rightarrow>
                        if \<exists>(h, _) \<in> set (cs_monitoredItems s). h = 0 then Some (Some (FailedJs AssertionError), c2, st1)
                        else
                          let (err, st2) = sl_createMonitoredItems link (cr_subscriptionId response)
                                (sort (remdups (map fst (cs_monitoredItems s)))) st1
                          in Some (map_option (\<lambda>e. FailedReply (Some e)) err, c2, st2))"

section \<open>All subscriptions of a session\<close>

text \<open>A rejection with \<^verbatim>\<open>null\<close> makes \<^verbatim>\<open>error.message\<close> throw.\<close>

definition failure_message :: "failure \<Rightarrow> string option" where
  "failure_message f =
     (case f of
        FailedReply (Some e) \<Rightarrow> Some (er_message e)
      | FailedReply None \<Rightarrow> None
      | FailedJs (ThrownError msg) \<Rightarrow> Some msg
      | FailedJs _ \<Rightarrow> Some []
      | NotUsable \<Rightarrow> Some ''Failure during reconnection : client or session is not usable anymore'')"

definition askSubscriptionRepublish ::
    "('v, 'st) session_link \<Rightarrow> bool \<Rightarrow> bool \<Rightarrow> nat \<Rightarrow> 'v client \<Rightarrow> 'st \<Rightarrow> (failure option \<times> 'v client \<times> 'st) option" where
  "askSubscriptionRepublish link valid ignoreNextWarning ob c st =
     (case ce_objects c ob of
        None \<Rightarrow> Some (None, c, st)
      | Some s \<Rightarrow>
          (case republish_loop link s st of
             None \<Rightarrow> None
           | Some (result, s1, st1) \<Rightarrow>
               let c1 = put_object ob s1 c;
                   usable = (ce_session c1 \<and> sl_usable link st1);
                   checked = Some (if usable then None else Some NotUsable, c1, st1)
               in case result of
                    None \<Rightarrow> checked
                  | Some f \<Rightarrow>
                      if \<not> usable then checked
                      else case failure_message f of
                        None \<Rightarrow> Some (Some (FailedJs (ThrownError ''TypeError'')), c1, st1)
                      | Some msg \<Rightarrow>
                          if matches ''BadSessionInvalid'' msg then Some (Some f, c1, st1)
                          else if matches ''SubscriptionIdInvalid'' msg
                          then recreateSubscriptionAndMonitoredItem link valid ignoreNextWarning ob c1 st1
                          else if matches ''BadMessageNotAvailable'' msg then Some (None, c1, st1)
                          else checked))"

text \<open>The entries of the map are read once; the first rejection ends the loop and is swallowed.\<close>

fun republish_entries ::
    "('v, 'st) session_link \<Rightarrow> bool \<Rightarrow> bool \<Rightarrow> (nat \<times> nat) list \<Rightarrow> 'v client \<Rightarrow> 'st \<Rightarrow> ('v client \<times> 'st) option" where
  "republish_entries link valid ignoreNextWarning [] c st = Some (c, st)"
| "republish_entries link valid ignoreNextWarning ((i, ob) # entries) c st =
     (case askSubscriptionRepublish link valid ignoreNextWarning ob c st of
        None \<Rightarrow> None
      | Some (None, c1, st1) \<Rightarrow> republish_entries link valid ignoreNextWarning entries c1 st1
      | Some (Some _, c1, st1) \<Rightarrow> Some (c1, st1))"

definition republish ::
    "('v, 'st) session_link \<Rightarrow> bool \<Rightarrow> bool \<Rightarrow> 'v client \<Rightarrow> 'st \<Rightarrow> ('v client \<times> 'st) option" where
  "republish link valid ignoreNextWarning c st =
     republish_entries link valid ignoreNextWarning (ce_subscriptionMap c) c st"

section \<open>A server that holds the messages\<close>

text \<open>
  What the loop relies on: of the subscription \<open>i\<close> the server has sent the messages \<open>ms\<close>, numbered
  from 1, each with notifications, and it still answers for every number after \<open>k\<close>; asking changes
  nothing that matters.
\<close>

definition available :: "nat \<Rightarrow> 'v notification_message list \<Rightarrow> 'v republish_reply \<Rightarrow> bool" where
  "available n ms reply \<longleftrightarrow>
     (if n \<le> length ms then reply = (None, Some (Good, ms ! (n - 1)))
      else extractStatusCode reply = BadMessageNotAvailable_code)"

locale retransmission =
  fixes link :: "('v, 'st) session_link"
    and holds :: "nat \<Rightarrow> nat \<Rightarrow> 'v notification_message list \<Rightarrow> 'st \<Rightarrow> bool"
  assumes numbers: "holds i k ms st \<Longrightarrow> map nm_sequenceNumber ms = [1..<Suc (length ms)]"
    and full: "holds i k ms st \<Longrightarrow> m \<in> set ms \<Longrightarrow> nm_notificationData m \<noteq> []"
    and connected: "holds i k ms st \<Longrightarrow> \<not> sl_closeEventHasBeenEmitted link st \<and> sl_usable link st"
    and answers: "holds i k ms st \<Longrightarrow> k < n \<Longrightarrow> \<exists>reply st'. sl_republish link i n st = (reply, st') \<and>
      available n ms reply \<and> (\<forall>j k' ms'. holds j k' ms' st \<longrightarrow> holds j k' ms' st')"
begin

lemma numbered: "holds i k ms st \<Longrightarrow> j < length ms \<Longrightarrow> nm_sequenceNumber (ms ! j) = Suc j"
  by (rule numbered_nth[OF numbers])

lemma receives:
  assumes "holds i k ms st" and "k \<le> l" and "l < length ms" and "cs_subscriptionId s = i" and "cs_lastSequenceNumber s = int l"
  obtains st' where "sendRepublish link s st = (Inr False, onNotificationMessage (ms ! l) s, st')"
    and "\<And>j k' ms'. holds j k' ms' st \<Longrightarrow> holds j k' ms' st'"
proof -
  have "k < Suc l" using assms(2) by simp
  from answers[OF assms(1) this] obtain reply st' where
    a: "sl_republish link i (Suc l) st = (reply, st')" "available (Suc l) ms reply"
      "\<forall>j k' ms'. holds j k' ms' st \<longrightarrow> holds j k' ms' st'" by blast
  have "reply = (None, Some (Good, ms ! l))" using a(2) assms(3) by (simp add: available_def)
  moreover have "\<not> sameStatusCode Good BadMessageNotAvailable_code" "sameStatusCode Good Good"
    by (simp_all add: sameStatusCode_def Good_def BadMessageNotAvailable_code_def constant_status_def sc_value_def)
  ultimately have "sendRepublish link s st = (Inr False, onNotificationMessage (ms ! l) s, st')"
    using a(1) assms(4,5) connected[OF assms(1)]
    by (simp add: sendRepublish_def extractStatusCode_def nat_add_distrib)
  then show thesis by (rule that) (use a(3) in blast)
qed

lemma finishes:
  assumes "holds i k ms st" and "k \<le> l" and "length ms \<le> l" and "cs_subscriptionId s = i" and "cs_lastSequenceNumber s = int l"
  obtains st' where "sendRepublish link s st = (Inr True, s, st')" and "\<And>j k' ms'. holds j k' ms' st \<Longrightarrow> holds j k' ms' st'"
proof -
  have "k < Suc l" using assms(2) by simp
  from answers[OF assms(1) this] obtain reply st' where
    a: "sl_republish link i (Suc l) st = (reply, st')" "available (Suc l) ms reply"
      "\<forall>j k' ms'. holds j k' ms' st \<longrightarrow> holds j k' ms' st'" by blast
  then have "sendRepublish link s st = (Inr True, s, st')"
    using assms(3-5) connected[OF assms(1)]
    by (simp add: sendRepublish_def available_def sameStatusCode_def nat_add_distrib)
  then show thesis by (rule that) (use a(3) in blast)
qed

text \<open>The loop receives the messages after the last one it has, in order and each once, and stops.\<close>

lemma recovers:
  assumes "holds i k ms st" and "k \<le> l" and "cs_subscriptionId s = i" and "cs_lastSequenceNumber s = int l"
  shows "\<exists>st'. republish_loop link s st = Some (None, fold onNotificationMessage (drop l ms) s, st') \<and>
    (\<forall>j k' ms'. holds j k' ms' st \<longrightarrow> holds j k' ms' st')"
  using assms
proof (induction "length ms - l" arbitrary: l s st)
  case 0
  then have "length ms \<le> l" by simp
  from finishes[OF 0(2,3) this 0(4,5)] obtain st' where
    "sendRepublish link s st = (Inr True, s, st')" "\<And>j k' ms'. holds j k' ms' st \<Longrightarrow> holds j k' ms' st'" by metis
  with 0 show ?case by (simp add: republish_loop.simps[of link s st])
next
  case (Suc d)
  then have l: "l < length ms" "d = length ms - Suc l" by simp_all
  from receives[OF Suc(3,4) l(1) Suc(5,6)] obtain st' where
    st': "sendRepublish link s st = (Inr False, onNotificationMessage (ms ! l) s, st')"
      "\<And>j k' ms'. holds j k' ms' st \<Longrightarrow> holds j k' ms' st'" by metis
  let ?s = "onNotificationMessage (ms ! l) s"
  have "cs_subscriptionId ?s = i" "cs_lastSequenceNumber ?s = int (Suc l)"
    using Suc(5) numbered[OF Suc(3) l(1)] by (simp_all add: onNotificationMessage_def Let_def)
  from Suc(1)[OF l(2) st'(2)[OF Suc(3)] le_SucI[OF Suc(4)] this] obtain st2 where
    "republish_loop link ?s st' = Some (None, fold onNotificationMessage (drop (Suc l) ms) ?s, st2)"
    "\<forall>j k' ms'. holds j k' ms' st' \<longrightarrow> holds j k' ms' st2" by blast
  moreover have "drop l ms = ms ! l # drop (Suc l) ms" using l(1) by (simp add: Cons_nth_drop_Suc)
  ultimately show ?case using st' by (simp add: republish_loop.simps[of link s st])
qed

end

lemma received_fold:
  assumes "\<forall>m \<in> set ms. nm_notificationData m \<noteq> []"
  shows "cs_dispatches (fold onNotificationMessage ms s) = cs_dispatches s @ map nm_notificationData ms"
    and "cs_subscriptionId (fold onNotificationMessage ms s) = cs_subscriptionId s"
    and "cs_lastSequenceNumber (fold onNotificationMessage ms s) =
      (if ms = [] then cs_lastSequenceNumber s else int (nm_sequenceNumber (last ms)))"
  using assms by (induction ms arbitrary: s) (simp_all add: onNotificationMessage_def Let_def)

section \<open>The server's engine\<close>

text \<open>The service on the engine, as the client sees it; the other services of the session are arguments.\<close>

definition republish_reply :: "'v republish_answer \<Rightarrow> 'v republish_reply" where
  "republish_reply a =
     (case a of
        Republished m \<Rightarrow> (None, Some (Good, m))
      | BadMessageNotAvailable \<Rightarrow> (Some (fault_error ''BadMessageNotAvailable'' BadMessageNotAvailable_code), None)
      | BadSubscriptionIdInvalid \<Rightarrow> (Some (fault_error ''BadSubscriptionIdInvalid'' BadSubscriptionIdInvalid_code), None))"

definition engine_link ::
    "('v, ('v, 'r) engine) session_link \<Rightarrow> ('v, ('v, 'r) engine) session_link" where
  "engine_link services = services\<lparr>sl_usable := (\<lambda>_. True), sl_closeEventHasBeenEmitted := (\<lambda>_. False),
     sl_republish := (\<lambda>i n e. let (a, e1) = on_RepublishRequest i n e in (republish_reply a, e1))\<rparr>"

definition stored :: "nat \<Rightarrow> nat \<Rightarrow> 'v notification_message list \<Rightarrow> ('v, 'r) engine \<Rightarrow> bool" where
  "stored i k ms e \<longleftrightarrow> map nm_sequenceNumber ms = [1..<Suc (length ms)] \<and>
     (\<forall>m \<in> set ms. nm_notificationData m \<noteq> []) \<and>
     (\<exists>s. getSubscriptionById e i = Some s \<and> sub_id s = i \<and> kept k s ms)"

lemma reset_keeps [simp]:
  "sub_sent (resetLifeTimeAndKeepAliveCounters s) = sub_sent s" "sub_id (resetLifeTimeAndKeepAliveCounters s) = sub_id s"
  by (simp_all add: resetLifeTimeAndKeepAliveCounters_def resetKeepAliveCounter_def resetLifeTimeCounter_def)

lemma stored_put:
  assumes "stored j k ms e" and "getSubscriptionById e (sub_id s) = Some t" and "sub_sent s = sub_sent t"
  shows "stored j k ms (put_sub s e)"
  using assms by (auto simp: stored_def kept_def)

lemma stored_answer:
  assumes "stored i k ms e" and "k < n"
  shows "fst (on_RepublishRequest i n e) = (if n \<le> length ms then Republished (ms ! (n - 1)) else BadMessageNotAvailable)"
    and "stored j k' ms' e \<Longrightarrow> stored j k' ms' (snd (on_RepublishRequest i n e))"
proof -
  obtain s where s: "getSubscriptionById e i = Some s" "sub_id s = i" "kept k s ms"
    and ms: "map nm_sequenceNumber ms = [1..<Suc (length ms)]" using assms(1) by (auto simp: stored_def)
  have "getMessageForSequenceNumber n (resetLifeTimeAndKeepAliveCounters s) =
      (if n \<le> length ms then Some (ms ! (n - 1)) else None)"
    using numbered_find[OF ms s(3) assms(2)] by (simp add: getMessageForSequenceNumber_def)
  then have a: "on_RepublishRequest i n e = (if n \<le> length ms then Republished (ms ! (n - 1)) else BadMessageNotAvailable,
      put_sub (resetLifeTimeAndKeepAliveCounters s) e)"
    using s by (simp add: on_RepublishRequest_def)
  then show "fst (on_RepublishRequest i n e) = (if n \<le> length ms then Republished (ms ! (n - 1)) else BadMessageNotAvailable)"
    by simp
  show "stored j k' ms' (snd (on_RepublishRequest i n e))" if "stored j k' ms' e"
    using stored_put[OF that, of "resetLifeTimeAndKeepAliveCounters s" s] s a by simp
qed

interpretation server: retransmission "engine_link services" stored
  for services :: "('v, ('v, 'r) engine) session_link"
proof
  fix i k n ms and e :: "('v, 'r) engine"
  assume st: "stored i k ms e" and n: "k < n"
  obtain a e1 where a: "on_RepublishRequest i n e = (a, e1)" by force
  then have "available n ms (republish_reply a)"
    using stored_answer(1)[OF st n]
    by (simp add: available_def republish_reply_def extractStatusCode_def fault_error_def split: if_splits)
  moreover have "\<forall>j k' ms'. stored j k' ms' e \<longrightarrow> stored j k' ms' e1" using stored_answer(2)[OF st n] a by simp
  ultimately show "\<exists>reply e'. sl_republish (engine_link services) i n e = (reply, e') \<and> available n ms reply \<and>
      (\<forall>j k' ms'. stored j k' ms' e \<longrightarrow> stored j k' ms' e')"
    using a by (simp add: engine_link_def)
qed (auto simp: stored_def engine_link_def)

section \<open>The loop always ends\<close>

definition sent_limit :: "nat \<Rightarrow> ('v, 'r) engine \<Rightarrow> nat" where
  "sent_limit i e = (case getSubscriptionById e i of None \<Rightarrow> 0
     | Some s \<Rightarrow> sum_list (map nm_sequenceNumber (sub_sent s)))"

lemma sendRepublish_engine:
  assumes "sendRepublish (engine_link services) s e = (Inr False, s', e')"
  shows "cs_subscriptionId s' = cs_subscriptionId s \<and> cs_lastSequenceNumber s' = cs_lastSequenceNumber s + 1
    \<and> cs_lastSequenceNumber s' \<le> int (sent_limit (cs_subscriptionId s) e)
    \<and> sent_limit (cs_subscriptionId s) e' = sent_limit (cs_subscriptionId s) e"
proof -
  define i where "i = cs_subscriptionId s"
  define n where "n = nat (cs_lastSequenceNumber s + 1)"
  obtain m where m: "on_RepublishRequest i n e = (Republished m, e')" "s' = onNotificationMessage m s"
    "\<not> cs_lastSequenceNumber s + 1 < 0"
    using assms
    by (cases "on_RepublishRequest i n e"; cases "fst (on_RepublishRequest i n e)")
      (auto simp: sendRepublish_def engine_link_def Let_def republish_reply_def i_def n_def split: if_splits)
  then obtain t where t: "getSubscriptionById e i = Some t"
      "getMessageForSequenceNumber n (resetLifeTimeAndKeepAliveCounters t) = Some m"
      "e' = put_sub (resetLifeTimeAndKeepAliveCounters t) e"
    by (auto simp: on_RepublishRequest_def Let_def split: option.splits)
  then have mem: "m \<in> set (sub_sent t)" "nm_sequenceNumber m = n"
    by (auto simp: getMessageForSequenceNumber_def find_Some_iff)
  then have "n \<le> sent_limit i e" using t(1) member_le_sum_list[of n "map nm_sequenceNumber (sub_sent t)"]
    by (auto simp: sent_limit_def)
  moreover have "sent_limit i e' = sent_limit i e"
    using t(1) by (cases "sub_id t = i") (simp_all add: t(3) sent_limit_def)
  moreover have "cs_subscriptionId s' = i" "cs_lastSequenceNumber s' = int n"
    using mem(2) by (simp_all add: m(2) onNotificationMessage_def Let_def i_def)
  ultimately show ?thesis using m(3) by (simp add: i_def n_def)
qed

text \<open>C10: The republish loop ends for every client subscription and every state of the server's engine, even one
  that no run reaches: each round receives the message it asked for, so the number it asks for grows
  until the retransmission queue has none.\<close>

theorem republish_loop_terminates: "\<exists>r. republish_loop (engine_link services) s e = Some r"
proof (induction "nat (int (sent_limit (cs_subscriptionId s) e) - cs_lastSequenceNumber s)" arbitrary: s e rule: less_induct)
  case less
  obtain r s' e' where step: "sendRepublish (engine_link services) s e = (r, s', e')" by (metis prod_cases3)
  show ?case
  proof (cases "r = Inr False")
    case False
    with step show ?thesis by (cases r) (auto simp: republish_loop.simps[of _ s e])
  next
    case True
    note s' = sendRepublish_engine[OF step[unfolded True]]
    then have "\<exists>r. republish_loop (engine_link services) s' e' = Some r" by (intro less) simp
    with step True show ?thesis by (simp add: republish_loop.simps[of _ s e])
  qed
qed

text \<open>It need not end with another server: one that answers every number with the same message keeps it busy.\<close>

definition stubborn_link :: "'v notification_message \<Rightarrow> ('v, 'st) session_link \<Rightarrow> ('v, 'st) session_link" where
  "stubborn_link m services = services\<lparr>sl_closeEventHasBeenEmitted := (\<lambda>_. False),
     sl_republish := (\<lambda>i n st. ((None, Some (Good, m)), st))\<rparr>"

lemma stubborn_round:
  "- 1 \<le> cs_lastSequenceNumber s \<Longrightarrow>
     sendRepublish (stubborn_link m services) s st = (Inr False, onNotificationMessage m s, st)"
  by (simp add: sendRepublish_def stubborn_link_def extractStatusCode_def sameStatusCode_def Good_def
      BadMessageNotAvailable_code_def constant_status_def sc_value_def)

lemma stubborn_never_ends:
  assumes "- 1 \<le> cs_lastSequenceNumber s"
  shows "republish_loop (stubborn_link m services) s st = None"
proof (rule ccontr)
  assume "republish_loop (stubborn_link m services) s st \<noteq> None"
  then obtain r where r: "republish_loop (stubborn_link m services) s st = Some r" by blast
  let ?P = "\<lambda>link s st r. link = stubborn_link m services \<longrightarrow> cs_lastSequenceNumber s < - 1"
  have "?P (stubborn_link m services) s st r"
  proof (rule republish_loop.raw_induct[of ?P, OF _ r])
    fix loop and link :: "('a, 'b) session_link" and s st r
    assume loop: "\<And>link s st r. loop link s st = Some r \<Longrightarrow> ?P link s st r"
      and run: "(case sendRepublish link s st of
        (Inl err, s1, st1) \<Rightarrow> Some (Some err, s1, st1)
      | (Inr done, s1, st1) \<Rightarrow> if done then Some (None, s1, st1) else loop link s1 st1) = Some r"
    have "\<not> cs_lastSequenceNumber (onNotificationMessage m s) < - 1" by (simp add: onNotificationMessage_def Let_def)
    then show "?P link s st r"
      using run loop[of link "onNotificationMessage m s" st r] stubborn_round[of s m services st] by (cases "- 1 \<le> cs_lastSequenceNumber s") auto
  qed
  with assms show False by simp
qed

end
