(* ===== verification/Session_Recovery.thy ===== *)
theory Session_Recovery
  imports Session_Republish
begin

text \<open>
  The client's republish loop against the server's engine: after any run of the server a client whose
  last message was a numbered notification gets every message it lost; a client whose last message was
  a keep-alive, or that has not received any, does not; and a subscription that the server has
  forgotten is recreated, unless the server revises its parameters badly.
\<close>

section \<open>Recovery\<close>

lemma run_stored:
  assumes "runs env evs e" and "env_ok env" and "\<forall>ev \<in> set evs. \<forall>n \<in> set (acknowledges i ev). n \<le> k"
    and "length (pe_responses e) < MAXVALUE"
    and "length (messages i (pe_responses e)) \<le> k + maxNotificationMessagesInQueue"
    and "getSubscriptionById e i \<noteq> None"
  shows "stored i k (messages i (pe_responses e)) e"
proof -
  obtain s where s: "getSubscriptionById e i = Some s" using assms(6) by blast
  have "sub_id s = i" using engine_ok_lookup[OF runs_ok[OF assms(1,2)] s] by (simp add: sub_ok_def)
  then show ?thesis
    using s messages_full runs_retain[OF assms(1-5)] messages_consecutive[OF assms(1,4)] by (auto simp: stored_def retains_def simp del: upt_Suc)
qed

lemma ask_recovers:
  assumes "stored i k ms e" and "ce_objects c ob = Some s" and "cs_subscriptionId s = i"
    and "cs_lastSequenceNumber s = int k" and "ce_session c"
  shows "\<exists>e'. askSubscriptionRepublish (engine_link services) valid ignore ob c e =
      Some (None, put_object ob (fold onNotificationMessage (drop k ms) s) c, e')
    \<and> (\<forall>j k' ms'. stored j k' ms' e \<longrightarrow> stored j k' ms' e')"
  using server.recovers[OF assms(1) order_refl assms(3,4), of services] assms(2,5)
  by (auto simp: askSubscriptionRepublish_def Let_def engine_link_def put_object_def)

text \<open>A subscription object and the messages it lacks.\<close>

definition caught_up :: "'v notification_message list \<Rightarrow> 'v client_subscription \<Rightarrow> 'v client_subscription \<Rightarrow> bool" where
  "caught_up lost s s' \<longleftrightarrow> cs_dispatches s' = cs_dispatches s @ map nm_notificationData lost \<and>
     cs_lastSequenceNumber s' = cs_lastSequenceNumber s + int (length lost)"

lemma caught_up_fold:
  assumes "stored i k ms e" and "cs_lastSequenceNumber s = int k" and "k \<le> length ms"
  shows "caught_up (drop k ms) s (fold onNotificationMessage (drop k ms) s)"
proof -
  have ms: "map nm_sequenceNumber ms = [1..<Suc (length ms)]" "\<forall>m \<in> set (drop k ms). nm_notificationData m \<noteq> []"
    using assms(1) by (auto simp: stored_def dest: in_set_dropD)
  have "nm_sequenceNumber (last ms) = length ms" if "ms \<noteq> []"
    using that numbered_nth[OF ms(1), of "length ms - 1"] by (simp add: last_conv_nth)
  then show ?thesis
    using received_fold[OF ms(2), of s] assms(2,3) by (cases "ms = []") (auto simp: caught_up_def last_drop)
qed

lemma entries_recover:
  assumes "\<forall>(i, ob) \<in> set entries. stored i (k i) (ms i) e \<and> k i \<le> length (ms i) \<and>
      (\<exists>s. ce_objects c ob = Some s \<and> cs_subscriptionId s = i \<and> cs_lastSequenceNumber s = int (k i))"
    and "distinct (map snd entries)" and "ce_session c"
  shows "\<exists>c' e'. republish_entries (engine_link services) valid ignore entries c e = Some (c', e') \<and>
    (\<forall>ob. ob \<notin> snd ` set entries \<longrightarrow> ce_objects c' ob = ce_objects c ob) \<and>
    (\<forall>(i, ob) \<in> set entries. \<exists>s s'. ce_objects c ob = Some s \<and> ce_objects c' ob = Some s' \<and>
       caught_up (drop (k i) (ms i)) s s')"
  using assms
proof (induction entries arbitrary: c e)
  case (Cons x entries)
  obtain i ob where x: "x = (i, ob)" by force
  with Cons.prems obtain s where s: "stored i (k i) (ms i) e" "k i \<le> length (ms i)" "ce_objects c ob = Some s"
    "cs_subscriptionId s = i" "cs_lastSequenceNumber s = int (k i)" by auto
  define s' where "s' = fold onNotificationMessage (drop (k i) (ms i)) s"
  obtain e1 where e1: "askSubscriptionRepublish (engine_link services) valid ignore ob c e = Some (None, put_object ob s' c, e1)"
      "\<And>j k' ms'. stored j k' ms' e \<Longrightarrow> stored j k' ms' e1"
    using ask_recovers[OF s(1,3,4,5) Cons.prems(3)] unfolding s'_def by metis
  have new: "ob \<notin> snd ` set entries" "distinct (map snd entries)" using Cons.prems(2) by (auto simp: x)
  define c1 where "c1 = put_object ob s' c"
  have same: "ce_objects c1 ob' = (if ob' = ob then Some s' else ce_objects c ob')" "ce_session c1" for ob'
    using Cons.prems(3) by (simp_all add: c1_def put_object_def)
  have "\<forall>(i, ob) \<in> set entries. stored i (k i) (ms i) e1 \<and> k i \<le> length (ms i) \<and>
      (\<exists>s. ce_objects c1 ob = Some s \<and> cs_subscriptionId s = i \<and> cs_lastSequenceNumber s = int (k i))"
    using Cons.prems(1) e1(2) new(1) by (force simp: same(1))
  from Cons.IH[OF this new(2) same(2)] obtain c' e' where
    r: "republish_entries (engine_link services) valid ignore entries c1 e1 = Some (c', e')"
      "\<forall>ob. ob \<notin> snd ` set entries \<longrightarrow> ce_objects c' ob = ce_objects c1 ob"
      "\<forall>(i, ob) \<in> set entries. \<exists>s s'. ce_objects c1 ob = Some s \<and> ce_objects c' ob = Some s' \<and>
         caught_up (drop (k i) (ms i)) s s'" by (elim exE conjE) (rule that)
  have "caught_up (drop (k i) (ms i)) s s'" unfolding s'_def by (rule caught_up_fold[OF s(1,5,2)])
  moreover have "ce_objects c' ob = Some s'" using r(2) new(1) by (simp add: same(1))
  moreover have "ob' \<noteq> ob" if "(i', ob') \<in> set entries" for i' ob' using new(1) that by force
  ultimately have "\<forall>(i, ob) \<in> set (x # entries). \<exists>s s'. ce_objects c ob = Some s \<and> ce_objects c' ob = Some s' \<and>
      caught_up (drop (k i) (ms i)) s s'"
    using r(3) s(3) by (fastforce simp: x same(1))
  moreover have "republish_entries (engine_link services) valid ignore (x # entries) c e = Some (c', e')"
    using e1(1) r(1) by (simp add: x c1_def)
  moreover have "\<forall>ob. ob \<notin> snd ` set (x # entries) \<longrightarrow> ce_objects c' ob = ce_objects c ob"
    using r(2) by (simp add: x same(1))
  ultimately show ?case by blast
qed simp

text \<open>C6: Reconnection recovers every lost message. The server has run in any way, with fewer answers than the
  largest sequence number; every subscription of the client still exists there, the client has received the first \<open>k\<close> messages of it, the last thing it received was the
  \<open>k\<close>-th of them, it acknowledged no later one, and at most a hundred were lost. Then \<^verbatim>\<open>republish\<close>
  returns, and each subscription object has been given exactly its lost messages, in the order in which
  they were sent and each once, and remembers the number of the last.\<close>

theorem republish_recovers_lost_messages:
  assumes "runs env evs e" and "env_ok env" and "length (pe_responses e) < MAXVALUE"
    and "ce_session c" and "distinct (map snd (ce_subscriptionMap c))"
    and "\<forall>(i, ob) \<in> set (ce_subscriptionMap c). getSubscriptionById e i \<noteq> None
      \<and> (\<forall>ev \<in> set evs. \<forall>n \<in> set (acknowledges i ev). n \<le> k i) \<and> k i \<le> length (messages i (pe_responses e))
      \<and> length (messages i (pe_responses e)) \<le> k i + maxNotificationMessagesInQueue
      \<and> (\<exists>s. ce_objects c ob = Some s \<and> cs_subscriptionId s = i \<and> cs_lastSequenceNumber s = int (k i))"
  shows "\<exists>c' e'. republish (engine_link services) valid ignore c e = Some (c', e') \<and>
    (\<forall>(i, ob) \<in> set (ce_subscriptionMap c). \<exists>s s'. ce_objects c ob = Some s \<and> ce_objects c' ob = Some s' \<and>
       cs_dispatches s' = cs_dispatches s @ map nm_notificationData (drop (k i) (messages i (pe_responses e))) \<and>
       cs_lastSequenceNumber s' = int (length (messages i (pe_responses e))))"
proof -
  have st: "stored i (k i) (messages i (pe_responses e)) e" if "(i, ob) \<in> set (ce_subscriptionMap c)" for i ob
    using assms(6) that by (intro run_stored[OF assms(1,2) _ assms(3)]) auto
  with assms(6) have "\<forall>(i, ob) \<in> set (ce_subscriptionMap c). stored i (k i) (messages i (pe_responses e)) e \<and>
      k i \<le> length (messages i (pe_responses e)) \<and>
      (\<exists>s. ce_objects c ob = Some s \<and> cs_subscriptionId s = i \<and> cs_lastSequenceNumber s = int (k i))"
    by fast
  from entries_recover[OF this assms(5,4), of services valid ignore] assms(6) show ?thesis
    unfolding republish_def caught_up_def by fastforce
qed

section \<open>What the loop misses\<close>

text \<open>C24: A keep-alive makes the client skip a message: it carries the number of the next message, the client takes
  it for a number it has received, and if that message is lost with the connection, the loop starts after
  it. The server still holds the message and would have sent it; the client is given only the later ones.\<close>

theorem keep_alive_hides_message:
  assumes "runs env evs e" and "env_ok env" and "\<forall>ev \<in> set evs. \<forall>n \<in> set (acknowledges i ev). n \<le> k"
    and "length (pe_responses e) < MAXVALUE"
    and "length (messages i (pe_responses e)) \<le> k + maxNotificationMessagesInQueue"
    and "getSubscriptionById e i \<noteq> None" and "k < length (messages i (pe_responses e))"
    and "nm_sequenceNumber alive = Suc k" and "nm_notificationData alive = []" and "cs_subscriptionId s = i"
  shows "\<exists>s' e'. republish_loop (engine_link services) (onNotificationMessage alive s) e = Some (None, s', e') \<and>
    cs_dispatches s' = cs_dispatches s @ map nm_notificationData (drop (Suc k) (messages i (pe_responses e))) \<and>
    fst (on_RepublishRequest i (Suc k) e') = Republished (messages i (pe_responses e) ! k)"
proof -
  let ?ms = "messages i (pe_responses e)" and ?s = "onNotificationMessage alive s"
  have st: "stored i k ?ms e" by (rule run_stored[OF assms(1-6)])
  have s: "cs_subscriptionId ?s = i" "cs_lastSequenceNumber ?s = int (Suc k)" "cs_dispatches ?s = cs_dispatches s"
    using assms(8-10) by (simp_all add: onNotificationMessage_def Let_def)
  obtain e' where e': "republish_loop (engine_link services) ?s e = Some (None, fold onNotificationMessage (drop (Suc k) ?ms) ?s, e')"
      "stored i k ?ms e'"
    using server.recovers[OF st le_SucI[OF order_refl] s(1,2), of services] st by blast
  have "\<forall>m \<in> set (drop (Suc k) ?ms). nm_notificationData m \<noteq> []" using messages_full by (metis in_set_dropD)
  then have "cs_dispatches (fold onNotificationMessage (drop (Suc k) ?ms) ?s) =
      cs_dispatches s @ map nm_notificationData (drop (Suc k) ?ms)"
    using received_fold(1) s(3) by metis
  moreover have "fst (on_RepublishRequest i (Suc k) e') = Republished (?ms ! k)"
    using stored_answer[OF e'(2) lessI] assms(7) by simp
  ultimately show ?thesis using e'(1) by blast
qed

text \<open>A client that has received nothing before the connection broke recovers nothing: a new subscription
  starts with the number -1, so the loop asks for message 0, which no server has, and stops, although the
  server holds the first message and would send it.\<close>

theorem first_messages_not_recovered:
  assumes "runs env evs e" and "env_ok env" and "\<forall>ev \<in> set evs. acknowledges i ev = []"
    and "length (pe_responses e) < MAXVALUE"
    and "length (messages i (pe_responses e)) \<le> maxNotificationMessagesInQueue"
    and "getSubscriptionById e i \<noteq> None" and "messages i (pe_responses e) \<noteq> []"
    and "new_client_subscription t w o1 = Inr s"
  shows "\<exists>e'. republish_loop (engine_link services) (s\<lparr>cs_subscriptionId := i\<rparr>) e = Some (None, s\<lparr>cs_subscriptionId := i\<rparr>, e') \<and>
    fst (on_RepublishRequest i 1 e') = Republished (messages i (pe_responses e) ! 0)"
proof -
  let ?ms = "messages i (pe_responses e)" and ?s = "s\<lparr>cs_subscriptionId := i\<rparr>"
  have st: "stored i 0 ?ms e" using assms(3,5) by (intro run_stored[OF assms(1,2) _ assms(4) _ assms(6)]) simp_all
  then obtain u where u: "getSubscriptionById e i = Some u" "sub_id u = i" "kept 0 u ?ms"
    and ms: "map nm_sequenceNumber ?ms = [1..<Suc (length ?ms)]" by (auto simp: stored_def)
  define e1 where "e1 = put_sub (resetLifeTimeAndKeepAliveCounters u) e"
  have "nm_sequenceNumber m \<noteq> 0" if "m \<in> set (sub_sent u)" for m
    using that u(3) number_after[OF ms, of m 0] by (auto simp: kept_def)
  then have "on_RepublishRequest i 0 e = (BadMessageNotAvailable, e1)"
    using u(1) by (auto simp: on_RepublishRequest_def getMessageForSequenceNumber_def find_None_iff e1_def Let_def
        split: option.split)
  moreover have last: "cs_lastSequenceNumber ?s = - 1"
    using assms(8) by (auto simp: new_client_subscription_def displayKeepAliveWarning_def Let_def split: if_splits)
  ultimately have "sendRepublish (engine_link services) ?s e = (Inr True, ?s, e1)"
    by (simp add: sendRepublish_def engine_link_def republish_reply_def extractStatusCode_def fault_error_def sameStatusCode_def)
  then have "republish_loop (engine_link services) ?s e = Some (None, ?s, e1)"
    by (simp add: republish_loop.simps[of _ ?s e])
  moreover have "stored i 0 ?ms e1" using st u by (auto simp: e1_def intro: stored_put)
  then have "fst (on_RepublishRequest i 1 e1) = Republished (?ms ! 0)"
    using stored_answer[of i 0 ?ms e1 1] assms(7) by (simp add: Suc_le_eq)
  ultimately show ?thesis by blast
qed

section \<open>Forgotten subscriptions\<close>

lemma forgotten_subscription:
  assumes "getSubscriptionById e (cs_subscriptionId s) = None" and "ce_objects c ob = Some s"
    and "- 1 \<le> cs_lastSequenceNumber s" and "ce_session c"
  shows "askSubscriptionRepublish (engine_link services) valid ignore ob c e =
    recreateSubscriptionAndMonitoredItem (engine_link services) valid ignore ob c e"
proof -
  define err where "err = fault_error ''BadSubscriptionIdInvalid'' BadSubscriptionIdInvalid_code"
  have m: "\<not> matches ''BadSessionInvalid'' (er_message err)" "matches ''SubscriptionIdInvalid'' (er_message err)"
    by (simp_all add: err_def fault_error_def status_text_def hex_digit_def BadSubscriptionIdInvalid_code_def
        constant_status_def sc_value_def)
  have "\<not> sameStatusCode BadSubscriptionIdInvalid_code BadMessageNotAvailable_code"
    by (simp add: sameStatusCode_def BadSubscriptionIdInvalid_code_def BadMessageNotAvailable_code_def
        constant_status_def sc_value_def)
  then have "sendRepublish (engine_link services) s e = (Inl (FailedReply (Some err)), s, e)"
    using assms(1,3)
    by (simp add: sendRepublish_def engine_link_def on_RepublishRequest_def republish_reply_def extractStatusCode_def
        err_def fault_error_def)
  moreover have "put_object ob s c = c" using assms(2) by (simp add: put_object_def fun_upd_idem)
  ultimately show ?thesis
    using assms(2,4) m
    by (simp add: askSubscriptionRepublish_def republish_loop.simps[of _ s e] Let_def failure_message_def)
      (simp add: engine_link_def)
qed

lemma sends_objects [simp]: "ce_objects ((send_publish_request valid ^^ n) c) = ce_objects c"
  by (induction n) simp_all

lemma replenish_same:
  "ce_subscriptionMap (replenish_publish_request_queue valid c) = ce_subscriptionMap c"
  "ce_activeSubscriptionCount (replenish_publish_request_queue valid c) = ce_activeSubscriptionCount c"
  "ce_objects (replenish_publish_request_queue valid c) = ce_objects c"
  using replenish_keeps(2)[of valid c] by (simp_all add: register_def replenish_publish_request_queue_def)

text \<open>A subscription that the server no longer knows is recreated by the republish step: the client gives up
  its old id, registers the new one for the same object, keeps counting it once and keeps its items. It also
  keeps the last sequence number of the old subscription.\<close>

theorem forgotten_subscription_recreated:
  assumes "getSubscriptionById e (cs_subscriptionId s) = None" and "ce_objects c ob = Some s"
    and "- 1 \<le> cs_lastSequenceNumber s" and "ce_session c" and "cs_subscriptionId s \<noteq> TERMINATED_SUBSCRIPTION_ID"
    and "0 < cs_subscriptionId s" and "sl_createSubscription services s e = (Inr r, e1)"
    and "of_nat (cr_revisedMaxKeepAliveCount r) * cr_revisedPublishingInterval r \<le> ce_sessionTimeout c"
    and "0 < cr_subscriptionId r" and "cr_subscriptionId r \<notin> fst ` set (ce_subscriptionMap c)"
    and "\<forall>(h, _) \<in> set (cs_monitoredItems s). 0 < h"
    and "sl_createMonitoredItems services (cr_subscriptionId r) (sort (remdups (map fst (cs_monitoredItems s)))) e1 = (None, e2)"
  shows "\<exists>c' s'. askSubscriptionRepublish (engine_link services) valid ignore ob c e = Some (None, c', e2) \<and>
    ce_subscriptionMap c' =
      insert_by_id (cr_subscriptionId r) ob (filter (\<lambda>(i, _). i \<noteq> cs_subscriptionId s) (ce_subscriptionMap c)) \<and>
    ce_activeSubscriptionCount c' = ce_activeSubscriptionCount c \<and> ce_objects c' ob = Some s' \<and>
    cs_subscriptionId s' = cr_subscriptionId r \<and> cs_monitoredItems s' = cs_monitoredItems s \<and>
    cs_lastSequenceNumber s' = cs_lastSequenceNumber s"
proof -
  define c1 where "c1 = c\<lparr>ce_activeSubscriptionCount := ce_activeSubscriptionCount c - 1,
    ce_subscriptionMap := filter (\<lambda>(i, _). i \<noteq> cs_subscriptionId s) (ce_subscriptionMap c)\<rparr>"
  have un: "unregisterSubscription (cs_subscriptionId s) c = Inr c1"
    using assms(6) by (simp add: unregisterSubscription_def c1_def)
  have new: "map_of (ce_subscriptionMap c1) (cr_subscriptionId r) = None"
    using assms(10) by (auto simp: c1_def map_of_eq_None_iff)
  obtain c2 s' where c2: "create_callback valid ignore ob (Some r) c1 = (c2, None)"
    "ce_subscriptionMap c2 = insert_by_id (cr_subscriptionId r) ob (ce_subscriptionMap c1)"
    "ce_activeSubscriptionCount c2 = ce_activeSubscriptionCount c" "ce_objects c2 ob = Some s'"
    "cs_subscriptionId s' = cr_subscriptionId r" "cs_monitoredItems s' = cs_monitoredItems s"
    "cs_lastSequenceNumber s' = cs_lastSequenceNumber s"
    using assms(2,4,8) new
    by (auto simp: create_callback_def Let_def displayKeepAliveWarning_def registerSubscription_def put_object_def c1_def
        replenish_same)
  moreover have "getSubscription (cr_subscriptionId r) c2 = Inr ob"
    using assms(9) new by (simp add: getSubscription_def c2(2) map_of_insert_by_id)
  moreover have "\<not> (\<exists>(h, _) \<in> set (cs_monitoredItems s). h = 0)" using assms(11) by auto
  ultimately have "recreateSubscriptionAndMonitoredItem (engine_link services) valid ignore ob c e = Some (None, c2, e2)"
    using assms(2,4,5,7,12) un
    by (simp add: recreateSubscriptionAndMonitoredItem_def engine_link_def c1_def)
  with forgotten_subscription[OF assms(1-4)] c2 show ?thesis by (simp add: c1_def)
qed

text \<open>If the server revises the parameters of the recreated subscription to a keep-alive longer than the
  session's timeout, the reconnection never ends: the warning is thrown inside the callback of
  \<^verbatim>\<open>createSubscription\<close>, after the client has given up the old subscription, and the promise that the
  repair awaits is never settled.\<close>

theorem recreation_hangs:
  assumes "getSubscriptionById e (cs_subscriptionId s) = None" and "ce_objects c ob = Some s"
    and "- 1 \<le> cs_lastSequenceNumber s" and "ce_session c" and "cs_subscriptionId s \<noteq> TERMINATED_SUBSCRIPTION_ID"
    and "0 < cs_subscriptionId s" and "sl_createSubscription services s e = (Inr r, e1)"
    and "ce_sessionTimeout c < of_nat (cr_revisedMaxKeepAliveCount r) * cr_revisedPublishingInterval r"
    and "ce_subscriptionMap c = (i, ob) # entries"
  shows "republish (engine_link services) valid False c e = None"
proof -
  have "recreateSubscriptionAndMonitoredItem (engine_link services) valid False ob c e = None"
    using assms(2,4-8)
    by (simp add: recreateSubscriptionAndMonitoredItem_def unregisterSubscription_def engine_link_def create_callback_def
        displayKeepAliveWarning_def Let_def)
  then show ?thesis using forgotten_subscription[OF assms(1-4)] assms(9) by (simp add: republish_def)
qed

section \<open>Runs\<close>

definition answering :: "create_subscription_response \<Rightarrow> (int, (int, unit) engine) session_link" where
  "answering r = \<lparr>sl_statusName = (\<lambda>_. []), sl_usable = (\<lambda>_. True), sl_closeEventHasBeenEmitted = (\<lambda>_. False),
     sl_republish = (\<lambda>i n st. ((None, None), st)), sl_createSubscription = (\<lambda>s st. (Inr r, st)),
     sl_createMonitoredItems = (\<lambda>i hs st. (None, st))\<rparr>"

definition lost_events :: "(int, unit) event list" where
  "lost_events = resend_events @ [Items_changed 1 [(7, (example_item True)\<lparr>mi_queue := [sample 6]\<rparr>)],
     Publish_received (example_publish 8) 0, Run_task 0]"

lemmas lost_simps = lost_events_def resend_simps tick_def age_def discardOldSentNotifications_def
  maxNotificationMessagesInQueue_def cancelTimeoutRequests_def lifeTimeHasExpired_def tick_alive_def

lemma lost_run:
  "case engine_run example_env (new_publish_engine 1) lost_events of Inl x \<Rightarrow> False
   | Inr e \<Rightarrow> getSubscriptionById e 1 \<noteq> None \<and> length (pe_responses e) = 2 \<and>
     messages 1 (pe_responses e) = [resent_message,
       \<lparr>nm_sequenceNumber = 2, nm_notificationData = [DataChangeNotification [sample 6]]\<rparr>]"
  by (simp add: lost_simps timeout_filter_def)

lemma lost_allowed: "allowed_run example_env (new_publish_engine 1) lost_events"
  by (simp add: lost_simps timeout_filter_def)

lemma lost_reached:
  obtains e where "runs example_env lost_events e" and "getSubscriptionById e 1 \<noteq> None"
    and "length (pe_responses e) = 2"
    and "messages 1 (pe_responses e) = [resent_message,
       \<lparr>nm_sequenceNumber = 2, nm_notificationData = [DataChangeNotification [sample 6]]\<rparr>]"
proof -
  obtain e where "engine_run example_env (new_publish_engine 1) lost_events = Inr e" and e: "getSubscriptionById e 1 \<noteq> None"
    "length (pe_responses e) = 2" "messages 1 (pe_responses e) = [resent_message,
       \<lparr>nm_sequenceNumber = 2, nm_notificationData = [DataChangeNotification [sample 6]]\<rparr>]"
    using lost_run by (cases "engine_run example_env (new_publish_engine 1) lost_events") auto
  from runs_more[OF runs_start lost_allowed this(1)] that[OF _ e] show thesis by simp
qed

lemma lost_unacknowledged: "ev \<in> set lost_events \<Longrightarrow> acknowledges i ev = []"
  by (auto simp: lost_events_def resend_events_def example_publish_def)

definition example_receiver :: "int client_subscription" where
  "example_receiver = projr (new_client_subscription 60000 False example_client_options)"

lemma example_receiver: "new_client_subscription 60000 False example_client_options = Inr example_receiver"
  by (simp add: example_receiver_def new_client_subscription_def example_client_options_def displayKeepAliveWarning_def
      client_minimumMaxKeepAliveCount_def)

definition broken_client :: "int client" where
  "broken_client = (new_client 60000)\<lparr>ce_subscriptionMap := [(1, 0)],
     ce_objects := [0 \<mapsto> example_receiver\<lparr>cs_subscriptionId := 1, cs_lastSequenceNumber := 1\<rparr>]\<rparr>"

theorem republish_recovers_lost_messages_witness:
  "\<exists>e c' e' s s'. runs example_env lost_events e \<and>
     republish (engine_link (answering example_created)) True False broken_client e = Some (c', e') \<and>
     ce_objects broken_client 0 = Some s \<and> ce_objects c' 0 = Some s' \<and>
     cs_dispatches s' = cs_dispatches s @ [[DataChangeNotification [sample 6]]] \<and> cs_lastSequenceNumber s' = 2"
proof (rule lost_reached)
  fix e :: "(int, unit) engine"
  assume e: "runs example_env lost_events e" "getSubscriptionById e 1 \<noteq> None" "length (pe_responses e) = 2"
    "messages 1 (pe_responses e) = [resent_message,
       \<lparr>nm_sequenceNumber = 2, nm_notificationData = [DataChangeNotification [sample 6]]\<rparr>]"
  have m: "length (pe_responses e) < MAXVALUE" using e(3) by (simp add: MAXVALUE_def)
  have c: "ce_session broken_client" "distinct (map snd (ce_subscriptionMap broken_client))"
    by (simp_all add: broken_client_def new_client_def)
  have k: "\<forall>(i, ob) \<in> set (ce_subscriptionMap broken_client). getSubscriptionById e i \<noteq> None
      \<and> (\<forall>ev \<in> set lost_events. \<forall>n \<in> set (acknowledges i ev). n \<le> 1) \<and> 1 \<le> length (messages i (pe_responses e))
      \<and> length (messages i (pe_responses e)) \<le> 1 + maxNotificationMessagesInQueue
      \<and> (\<exists>s. ce_objects broken_client ob = Some s \<and> cs_subscriptionId s = i \<and> cs_lastSequenceNumber s = int 1)"
    using e(2,4) by (simp add: broken_client_def lost_unacknowledged maxNotificationMessagesInQueue_def)
  show ?thesis
    using republish_recovers_lost_messages[OF e(1) example_env_ok m c, of "\<lambda>_. 1", OF k, of "answering example_created" True False] e(1,4)
    by (auto simp: broken_client_def)
qed

theorem keep_alive_hides_message_witness:
  "\<exists>e s' e'. runs example_env resend_events e \<and> republish_loop (engine_link (answering example_created))
       (onNotificationMessage \<lparr>nm_sequenceNumber = 1, nm_notificationData = []\<rparr>
         (example_receiver\<lparr>cs_subscriptionId := 1\<rparr>)) e = Some (None, s', e') \<and>
     cs_dispatches s' = [] \<and> fst (on_RepublishRequest 1 1 e') = Republished resent_message"
proof (rule resend_reached)
  fix e s
  assume e: "runs example_env resend_events e" "getSubscriptionById e 1 = Some s"
    "length (pe_responses e) = 1" "messages 1 (pe_responses e) = [resent_message]"
  have b: "length (pe_responses e) < MAXVALUE" "getSubscriptionById e 1 \<noteq> None"
    "length (messages 1 (pe_responses e)) \<le> 0 + maxNotificationMessagesInQueue" "0 < length (messages 1 (pe_responses e))"
    using e(2-4) by (simp_all add: MAXVALUE_def maxNotificationMessagesInQueue_def)
  have d: "cs_dispatches (example_receiver\<lparr>cs_subscriptionId := 1\<rparr>) = []"
    by (simp add: example_receiver_def new_client_subscription_def example_client_options_def displayKeepAliveWarning_def
        client_minimumMaxKeepAliveCount_def)
  show ?thesis
    using keep_alive_hides_message[OF e(1) example_env_ok resend_unacknowledged b(1,3,2,4), where
        alive = "\<lparr>nm_sequenceNumber = 1, nm_notificationData = []\<rparr>" and services = "answering example_created"
        and s = "example_receiver\<lparr>cs_subscriptionId := 1\<rparr>"] e(1,4) d
    by auto
qed

theorem first_messages_not_recovered_witness:
  "\<exists>e e'. runs example_env resend_events e \<and>
     republish_loop (engine_link (answering example_created)) (example_receiver\<lparr>cs_subscriptionId := 1\<rparr>) e =
       Some (None, example_receiver\<lparr>cs_subscriptionId := 1\<rparr>, e') \<and>
     fst (on_RepublishRequest 1 1 e') = Republished resent_message"
proof (rule resend_reached)
  fix e s
  assume e: "runs example_env resend_events e" "getSubscriptionById e 1 = Some s"
    "length (pe_responses e) = 1" "messages 1 (pe_responses e) = [resent_message]"
  have b: "length (pe_responses e) < MAXVALUE" "getSubscriptionById e 1 \<noteq> None"
    "length (messages 1 (pe_responses e)) \<le> maxNotificationMessagesInQueue" "messages 1 (pe_responses e) \<noteq> []"
    using e(2-4) by (simp_all add: MAXVALUE_def maxNotificationMessagesInQueue_def)
  have a: "\<forall>ev \<in> set resend_events. acknowledges 1 ev = []" by (simp add: resend_events_def example_publish_def)
  show ?thesis
    using first_messages_not_recovered[OF e(1) example_env_ok a b(1,3,2,4) example_receiver, of "answering example_created"] e(1,4)
    by auto
qed

lemma broken_client_state:
  "ce_objects broken_client 0 = Some (example_receiver\<lparr>cs_subscriptionId := 1, cs_lastSequenceNumber := 1\<rparr>)"
  "ce_session broken_client" "ce_sessionTimeout broken_client = 60000" "ce_subscriptionMap broken_client = [(1, 0)]"
  by (simp_all add: broken_client_def new_client_def)

lemma empty_engine: "getSubscriptionById (new_publish_engine n) i = None"
  by (simp add: getSubscriptionById_def new_publish_engine_def)

theorem forgotten_subscription_recreated_witness:
  "\<exists>c'. askSubscriptionRepublish (engine_link (answering example_created)) True False 0 broken_client (new_publish_engine 1) =
      Some (None, c', new_publish_engine 1) \<and> ce_subscriptionMap c' = [(7, 0)]"
proof -
  let ?s = "example_receiver\<lparr>cs_subscriptionId := 1, cs_lastSequenceNumber := 1\<rparr>"
  have items: "cs_monitoredItems ?s = []"
    by (simp add: example_receiver_def new_client_subscription_def example_client_options_def displayKeepAliveWarning_def
        client_minimumMaxKeepAliveCount_def)
  show ?thesis
    using forgotten_subscription_recreated[of "new_publish_engine 1" ?s broken_client 0 "answering example_created"
        example_created "new_publish_engine 1" "new_publish_engine 1" True False] items
    by (auto simp: empty_engine broken_client_state TERMINATED_SUBSCRIPTION_ID_def answering_def example_created_def)
qed

theorem recreation_hangs_witness:
  "republish (engine_link (answering (example_created\<lparr>cr_revisedMaxKeepAliveCount := 1000\<rparr>))) True False broken_client
     (new_publish_engine 1) = None"
  by (rule recreation_hangs[OF empty_engine broken_client_state(1), where
        r = "example_created\<lparr>cr_revisedMaxKeepAliveCount := 1000\<rparr>"])
    (simp_all add: broken_client_state TERMINATED_SUBSCRIPTION_ID_def answering_def example_created_def)

end
