(* ===== verification/Session_Repair.thy ===== *)
theory Session_Repair
  imports Session_Republish
begin

text \<open>
  The repair of a session after the secure channel has been replaced (\<^verbatim>\<open>reconnection/reconnection.ts\<close>):
  reactivate the session or create a new one in its place, transfer or recreate the subscriptions, ask
  for the lost messages, resume publishing; a repair that fails is repeated. What it shows: a repair
  through a new session that succeeds leaves publishing resumed, and one that fails leaves it suspended
  for good, because the repetition finds the new session alive and does not resume.
\<close>

section \<open>The services of the repair\<close>

text \<open>
  \<open>rl_wait\<close> is what happens during the two seconds before a repetition. The results of
  \<^verbatim>\<open>TransferSubscriptions\<close> are one for each id.
\<close>

record ('v, 'st) repair_link =
  rl_session :: "('v, 'st) session_link"
  rl_hasBeenClosed :: "'st \<Rightarrow> bool"
  rl_activateSession :: "'st \<Rightarrow> reply_error option \<times> 'st"
  rl_createSession :: "'st \<Rightarrow> reply_error option \<times> 'st"
  rl_closeSession :: "'st \<Rightarrow> 'st"
  rl_beforeSubscriptionRecreate :: "('st \<Rightarrow> failure option \<times> 'st) option"
  rl_transferSubscriptions :: "nat list \<Rightarrow> 'st \<Rightarrow> status_code list option \<times> 'st"
  rl_wait :: "'st \<Rightarrow> 'st"

type_synonym ('v, 'st) settled = "(failure option \<times> 'v client \<times> 'st) option"

text \<open>An awaited step followed by \<^verbatim>\<open>_throwIfShouldNotContinue\<close>; a rejection ends the sequence.\<close>

definition usable_then ::
    "('v, 'st) session_link \<Rightarrow> ('v, 'st) settled \<Rightarrow> ('v client \<Rightarrow> 'st \<Rightarrow> ('v, 'st) settled) \<Rightarrow> ('v, 'st) settled" where
  "usable_then link m f =
     (case m of
        None \<Rightarrow> None
      | Some (Some x, c, st) \<Rightarrow> Some (Some x, c, st)
      | Some (None, c, st) \<Rightarrow> if \<not> sl_usable link st then Some (Some NotUsable, c, st) else f c st)"

section \<open>The steps\<close>

text \<open>\<^verbatim>\<open>republish\<close> calls back without an error: the branch that would create a new session is never taken.\<close>

definition ask_for_subscription_republish ::
    "('v, 'st) session_link \<Rightarrow> bool \<Rightarrow> bool \<Rightarrow> 'v client \<Rightarrow> 'st \<Rightarrow> ('v, 'st) settled" where
  "ask_for_subscription_republish link valid ignore c st =
     (if \<not> sl_usable link st then Some (Some NotUsable, c, st)
      else case republish link valid ignore c st of
        None \<Rightarrow> None
      | Some (c1, st1) \<Rightarrow>
          if \<not> sl_usable link st1 then Some (Some NotUsable, c1, st1)
          else Some (None, if client_subscriptionCount c1 > 0 then replenish_publish_request_queue valid c1 else c1, st1))"

text \<open>What the recreation of one subscription throws is only logged.\<close>

fun recreateSubscriptions ::
    "('v, 'st) session_link \<Rightarrow> bool \<Rightarrow> bool \<Rightarrow> nat list \<Rightarrow> 'v client \<Rightarrow> 'st \<Rightarrow> ('v, 'st) settled" where
  "recreateSubscriptions link valid ignore [] c st =
     Some (if \<not> sl_usable link st then Some NotUsable else None, c, st)"
| "recreateSubscriptions link valid ignore (i # is) c st =
     (if \<not> sl_usable link st then Some (Some NotUsable, c, st)
      else case hasSubscription i c of
        Inl e \<Rightarrow> Some (Some (FailedJs e), c, st)
      | Inr False \<Rightarrow> recreateSubscriptions link valid ignore is c st
      | Inr True \<Rightarrow>
          (case getSubscription i c of
             Inl e \<Rightarrow> Some (Some (FailedJs e), c, st)
           | Inr ob \<Rightarrow>
               (case recreateSubscriptionAndMonitoredItem link valid ignore ob c st of
                  None \<Rightarrow> None
                | Some (_, c1, st1) \<Rightarrow> recreateSubscriptions link valid ignore is c1 st1)))"

definition attempt_subscription_transfer ::
    "('v, 'st) repair_link \<Rightarrow> bool \<Rightarrow> bool \<Rightarrow> 'v client \<Rightarrow> 'st \<Rightarrow> ('v, 'st) settled" where
  "attempt_subscription_transfer link valid ignore c st =
     (let ids = getSubscriptionIds c in
      if \<not> sl_usable (rl_session link) st then Some (Some NotUsable, c, st)
      else if ids = [] then Some (None, c, st)
      else let (results, st1) = rl_transferSubscriptions link ids st in
        if \<not> sl_usable (rl_session link) st1 then Some (Some NotUsable, c, st1)
        else recreateSubscriptions (rl_session link) valid ignore
          (case results of None \<Rightarrow> ids | Some rs \<Rightarrow> map fst (filter (\<lambda>(i, r). \<not> isGood r) (zip ids rs))) c st1)"

definition create_session ::
    "('v, 'st) repair_link \<Rightarrow> 'v client \<Rightarrow> 'st \<Rightarrow> ('v, 'st) settled" where
  "create_session link c st =
     (if \<not> sl_usable (rl_session link) st then Some (Some NotUsable, c, st)
      else let (err, st1) = rl_createSession link st in
        Some (if \<not> sl_usable (rl_session link) st1 then Some NotUsable
              else map_option (\<lambda>e. FailedReply (Some e)) err, c, st1))"

definition activate_session ::
    "('v, 'st) repair_link \<Rightarrow> 'v client \<Rightarrow> 'st \<Rightarrow> ('v, 'st) settled" where
  "activate_session link c st =
     (if \<not> sl_usable (rl_session link) st then Some (Some NotUsable, c, st)
      else case rl_activateSession link st of
        (None, st1) \<Rightarrow> Some (None, c, st1)
      | (Some err, st1) \<Rightarrow> Some (Some (FailedReply (Some err)), c, rl_closeSession link st1))"

definition before_recreate ::
    "('v, 'st) repair_link \<Rightarrow> 'v client \<Rightarrow> 'st \<Rightarrow> ('v, 'st) settled" where
  "before_recreate link c st =
     (case rl_beforeSubscriptionRecreate link of
        None \<Rightarrow> Some (None, c, st)
      | Some hook \<Rightarrow>
          (let (err, st1) = hook st in
           Some (if \<not> sl_usable (rl_session link) st1 then Some NotUsable else err, c, st1)))"

definition repair_client_session_by_recreating_a_new_session ::
    "('v, 'st) repair_link \<Rightarrow> bool \<Rightarrow> bool \<Rightarrow> 'v client \<Rightarrow> 'st \<Rightarrow> ('v, 'st) settled" where
  "repair_client_session_by_recreating_a_new_session link valid ignore c st =
     (if \<not> sl_usable (rl_session link) st then Some (Some NotUsable, c, st)
      else
        usable_then (rl_session link) (create_session link (suspend True valid c) st) (\<lambda>c1 st1.
        usable_then (rl_session link) (activate_session link c1 st1) (\<lambda>c2 st2.
        usable_then (rl_session link) (before_recreate link c2 st2) (\<lambda>c3 st3.
        usable_then (rl_session link) (attempt_subscription_transfer link valid ignore c3 st3) (\<lambda>c4 st4.
        usable_then (rl_session link) (ask_for_subscription_republish (rl_session link) valid ignore c4 st4) (\<lambda>c5 st5.
          Some (None, suspend False valid c5, st5)))))))"

definition repair_once ::
    "('v, 'st) repair_link \<Rightarrow> bool \<Rightarrow> bool \<Rightarrow> 'v client \<Rightarrow> 'st \<Rightarrow> ('v, 'st) settled" where
  "repair_once link valid ignore c st =
     (if \<not> sl_usable (rl_session link) st then Some (Some NotUsable, c, st)
      else let (err, st1) = rl_activateSession link st in
        if \<not> sl_usable (rl_session link) st1 then Some (Some NotUsable, c, st1)
        else if err \<noteq> None then repair_client_session_by_recreating_a_new_session link valid ignore c st1
        else ask_for_subscription_republish (rl_session link) valid ignore c st1)"

text \<open>\<^verbatim>\<open>repeatedAction\<close> of \<^verbatim>\<open>repair_client_session\<close>.\<close>

partial_function (option) repeated_repair ::
    "('v, 'st) repair_link \<Rightarrow> bool \<Rightarrow> bool \<Rightarrow> 'v client \<Rightarrow> 'st \<Rightarrow> ('v, 'st) settled" where
  "repeated_repair link valid ignore c st =
     (if \<not> sl_usable (rl_session link) st then Some (Some NotUsable, c, st)
      else case repair_once link valid ignore c st of
        None \<Rightarrow> None
      | Some (r, c1, st1) \<Rightarrow>
          if \<not> sl_usable (rl_session link) st1 then Some (Some NotUsable, c1, st1)
          else if r = None \<or> rl_hasBeenClosed link st1 then Some (None, c1, st1)
          else if \<not> sl_usable (rl_session link) (rl_wait link st1) then Some (Some NotUsable, c1, rl_wait link st1)
          else repeated_repair link valid ignore c1 (rl_wait link st1))"

section \<open>Suspension\<close>

text \<open>What only \<^verbatim>\<open>suspend\<close> and the answers of publish requests change.\<close>

definition switches :: "'v client \<Rightarrow> bool \<times> bool \<times> int \<times> int" where
  "switches c = (ce_isSuspended c, ce_session c, ce_nbPendingPublishRequests c, ce_nbMaxPublishRequestsAcceptedByServer c)"

lemma switches_put [simp]: "switches (put_object ob s c) = switches c"
  by (simp add: put_object_def switches_def)

lemma switches_replenish [simp]: "switches (replenish_publish_request_queue valid c) = switches c"
  using replenish_keeps[of valid c] by (simp add: register_def traffic_def switches_def)

lemma switches_registration [simp]:
  "switches (c\<lparr>ce_activeSubscriptionCount := n, ce_subscriptionMap := m, ce_timeoutHint := t\<rparr>) = switches c"
  "switches (c\<lparr>ce_activeSubscriptionCount := n, ce_subscriptionMap := m\<rparr>) = switches c"
  by (simp_all add: switches_def)

lemma create_switches: "create_callback valid ignore ob r c = (c', t) \<Longrightarrow> switches c' = switches c"
  by (auto simp: create_callback_def Let_def registerSubscription_def split: option.splits if_splits sum.splits)

lemma unregister_switches: "unregisterSubscription i c = Inr c' \<Longrightarrow> switches c' = switches c"
  by (auto simp: unregisterSubscription_def)

lemma create_switches_fst [simp]: "switches (fst (create_callback valid ignore ob r c)) = switches c"
  using create_switches[of valid ignore ob r c] by (metis prod.collapse)

lemma recreate_switches:
  "recreateSubscriptionAndMonitoredItem link valid ignore ob c st = Some (r, c', st') \<Longrightarrow> switches c' = switches c"
  by (auto simp: recreateSubscriptionAndMonitoredItem_def Let_def
      split: option.splits if_splits sum.splits prod.splits dest!: create_switches unregister_switches)

lemma ask_switches:
  "askSubscriptionRepublish link valid ignore ob c st = Some (r, c', st') \<Longrightarrow> switches c' = switches c"
  by (auto simp: askSubscriptionRepublish_def Let_def split: option.splits if_splits dest!: recreate_switches)

lemma entries_switches:
  "republish_entries link valid ignore entries c st = Some (c', st') \<Longrightarrow> switches c' = switches c"
  by (induction link valid ignore entries c st rule: republish_entries.induct)
    (auto split: option.splits dest!: ask_switches)

lemma ask_for_switches:
  "ask_for_subscription_republish link valid ignore c st = Some (r, c', st') \<Longrightarrow> switches c' = switches c"
  by (auto simp: ask_for_subscription_republish_def republish_def split: option.splits if_splits dest!: entries_switches)

lemma recreates_switches:
  "recreateSubscriptions link valid ignore is c st = Some (r, c', st') \<Longrightarrow> switches c' = switches c"
proof (induction "is" arbitrary: c st)
  case (Cons i "is")
  show ?case
  proof (cases "recreateSubscriptions link valid ignore is c st = Some (r, c', st')")
    case False
    with Cons.prems show ?thesis
      by (auto split: option.splits if_splits sum.splits bool.splits dest!: recreate_switches Cons.IH)
  qed (rule Cons.IH)
qed simp

lemma transfer_switches:
  "attempt_subscription_transfer link valid ignore c st = Some (r, c', st') \<Longrightarrow> switches c' = switches c"
  by (auto simp: attempt_subscription_transfer_def Let_def split: prod.splits if_splits dest!: recreates_switches)

section \<open>After a repair\<close>

lemma sends_scheduled_all:
  assumes "\<not> ce_isSuspended c" and "ce_nbPendingPublishRequests c < ce_nbMaxPublishRequestsAcceptedByServer c"
  shows "scheduled ((send_publish_request valid ^^ n) c) = scheduled c + n"
proof (induction n)
  case (Suc n)
  let ?d = "(send_publish_request valid ^^ n) c"
  have "traffic ?d = traffic c" "register ?d = register c" by simp_all
  then have "\<not> ce_isSuspended ?d" "ce_nbPendingPublishRequests ?d < ce_nbMaxPublishRequestsAcceptedByServer ?d"
    using assms by (simp_all add: traffic_def register_def)
  then have "scheduled (send_publish_request valid ?d) = Suc (scheduled ?d)"
    by (auto simp: send_publish_request_def scheduled_def)
  then show ?case using Suc by simp
qed simp

text \<open>The engine is suspended, its counters are those of \<open>c0\<close>.\<close>

definition paused :: "'v client \<Rightarrow> 'v client \<Rightarrow> bool" where
  "paused c0 c \<longleftrightarrow> ce_isSuspended c \<and> ce_nbPendingPublishRequests c = ce_nbPendingPublishRequests c0 \<and>
     ce_nbMaxPublishRequestsAcceptedByServer c = ce_nbMaxPublishRequestsAcceptedByServer c0"

definition suspended :: "'v client \<Rightarrow> ('v, 'st) settled \<Rightarrow> bool" where
  "suspended c0 m \<longleftrightarrow> (\<forall>r c st. m = Some (r, c, st) \<longrightarrow> paused c0 c)"

definition flows :: "'v client \<Rightarrow> 'v client \<Rightarrow> bool" where
  "flows c0 c \<longleftrightarrow> \<not> ce_isSuspended c \<and>
     (ce_nbPendingPublishRequests c0 < ce_nbMaxPublishRequestsAcceptedByServer c0 \<longrightarrow> 5 \<le> scheduled c)"

text \<open>Publishing is resumed exactly by success.\<close>

definition resumes :: "'v client \<Rightarrow> ('v, 'st) settled \<Rightarrow> bool" where
  "resumes c0 m \<longleftrightarrow> (\<forall>r c st. m = Some (r, c, st) \<longrightarrow> (if r = None then flows c0 c else paused c0 c))"

lemma usable_then_resumes:
  assumes "suspended c0 m" and "\<And>c st. paused c0 c \<Longrightarrow> resumes c0 (f c st)"
  shows "resumes c0 (usable_then link m f)"
  unfolding resumes_def
proof (intro allI impI)
  fix r c' st'
  assume run: "usable_then link m f = Some (r, c', st')"
  then obtain x c st where m: "m = Some (x, c, st)" by (auto simp: usable_then_def split: option.splits)
  then have c: "paused c0 c" using assms(1) by (simp add: suspended_def)
  with run m assms(2)[OF c, of st] show "if r = None then flows c0 c' else paused c0 c'"
    by (cases "x = None \<and> sl_usable link st") (auto simp: usable_then_def resumes_def split: option.splits if_splits)
qed

lemma paused_switches: "switches c' = switches c \<Longrightarrow> paused c0 c \<Longrightarrow> paused c0 c'"
  by (simp add: paused_def switches_def)

lemma step_suspended:
  assumes "paused c0 c"
  shows "suspended c0 (create_session link c st)" and "suspended c0 (activate_session link c st)"
    and "suspended c0 (before_recreate link c st)" and "suspended c0 (attempt_subscription_transfer link valid ignore c st)"
    and "suspended c0 (ask_for_subscription_republish l valid ignore c st)"
  using assms
  by (auto simp: suspended_def create_session_def activate_session_def before_recreate_def Let_def
      split: option.splits if_splits prod.splits intro: paused_switches[OF transfer_switches] paused_switches[OF ask_for_switches])

lemma suspend_paused: "paused c (suspend True valid c)"
  by (simp add: suspend_def paused_def)

lemma resume_flows: "paused c0 c \<Longrightarrow> flows c0 (suspend False valid c)"
proof -
  assume c: "paused c0 c"
  let ?c = "c\<lparr>ce_isSuspended := False\<rparr>"
  have r: "suspend False valid c = replenish_publish_request_queue valid ?c" using c by (simp add: suspend_def paused_def)
  have "switches (suspend False valid c) = switches ?c" by (simp add: r)
  then show ?thesis
    using c sends_scheduled_all[of ?c 5 valid] by (auto simp: flows_def paused_def switches_def r replenish_sends)
qed

lemma new_session_resumes:
  assumes "sl_usable (rl_session link) st"
  shows "resumes c (repair_client_session_by_recreating_a_new_session link valid ignore c st)"
  unfolding repair_client_session_by_recreating_a_new_session_def using assms
  by (simp, intro usable_then_resumes step_suspended) (simp_all add: suspend_paused resumes_def resume_flows)

text \<open>C11: Whatever the server answers, a repair through a new session that ends well leaves the publish engine
  resumed, with five publish requests scheduled unless the limit learnt from the server forbids it; one
  that fails, at any step, leaves the engine suspended.\<close>

theorem new_session_repair:
  assumes "sl_usable (rl_session link) st"
    and "repair_client_session_by_recreating_a_new_session link valid ignore c st = Some (r, c', st')"
  shows "(ce_isSuspended c' \<longleftrightarrow> r \<noteq> None) \<and>
    (r = None \<longrightarrow> ce_nbPendingPublishRequests c < ce_nbMaxPublishRequestsAcceptedByServer c \<longrightarrow> 5 \<le> scheduled c')"
  using new_session_resumes[OF assms(1), of c valid ignore] assms(2)
  by (auto simp: resumes_def flows_def paused_def split: if_splits)

text \<open>C25: A repair that fails once after it has suspended the engine silences the client for good: the repetition
  finds the session it created alive, asks for the lost messages and reports success, and nothing
  resumes publishing. No callback already scheduled sends a request either.\<close>

theorem failed_repair_silences:
  assumes "sl_usable (rl_session link) st" and "rl_activateSession link st = (Some err, st1)"
    and "sl_usable (rl_session link) st1"
    and "repair_client_session_by_recreating_a_new_session link valid ignore c st1 = Some (Some f, c1, st2)"
    and "sl_usable (rl_session link) st2" and "\<not> rl_hasBeenClosed link st2"
    and "sl_usable (rl_session link) (rl_wait link st2)"
    and "rl_activateSession link (rl_wait link st2) = (None, st3)" and "sl_usable (rl_session link) st3"
    and "republish (rl_session link) valid ignore c1 st3 = Some (c2, st4)" and "sl_usable (rl_session link) st4"
  shows "\<exists>c'. repeated_repair link valid ignore c st = Some (None, c', st4) \<and> ce_isSuspended c' \<and>
    (\<forall>h c''. run_immediate h c' = Inr c'' \<longrightarrow> ce_outstanding c'' = ce_outstanding c')"
proof -
  define c' where "c' = (if client_subscriptionCount c2 > 0 then replenish_publish_request_queue valid c2 else c2)"
  have "ce_isSuspended c1" using new_session_resumes[OF assms(3), of c valid ignore] assms(4) by (simp add: resumes_def paused_def)
  moreover have "switches c2 = switches c1" using entries_switches assms(10) unfolding republish_def by metis
  ultimately have susp: "ce_isSuspended c'" using switches_replenish[of valid c2] by (auto simp: switches_def c'_def)
  have once: "repair_once link valid ignore c st = Some (Some f, c1, st2)"
    using assms(1-4) by (simp add: repair_once_def)
  have twice: "repair_once link valid ignore c1 (rl_wait link st2) = Some (None, c', st4)"
    using assms(7-11) by (simp add: repair_once_def ask_for_subscription_republish_def c'_def)
  have "repeated_repair link valid ignore c1 (rl_wait link st2) = Some (None, c', st4)"
    using twice assms(7,11) by (simp add: repeated_repair.simps[of _ _ _ c1])
  then have "repeated_repair link valid ignore c st = Some (None, c', st4)"
    using once assms(1,5-7) by (simp add: repeated_repair.simps[of _ _ _ c])
  moreover have "ce_outstanding c'' = ce_outstanding c'" if "run_immediate h c' = Inr c''" for h c''
    using that susp by (auto simp: run_immediate_def Let_def split: if_splits)
  ultimately show ?thesis using susp by blast
qed

section \<open>A run\<close>

text \<open>
  A server that counts the requests: it refuses the first activation, creates and activates a new
  session, and the application's hook fails the first time.
\<close>

definition counting_link :: "(int, nat) repair_link" where
  "counting_link = \<lparr>
     rl_session = \<lparr>sl_statusName = (\<lambda>_. []), sl_usable = (\<lambda>_. True), sl_closeEventHasBeenEmitted = (\<lambda>_. False),
       sl_republish = (\<lambda>i n st. ((Some (fault_error ''BadMessageNotAvailable'' BadMessageNotAvailable_code), None), Suc st)),
       sl_createSubscription = (\<lambda>s st. (Inr example_created, Suc st)), sl_createMonitoredItems = (\<lambda>i hs st. (None, Suc st))\<rparr>,
     rl_hasBeenClosed = (\<lambda>_. False),
     rl_activateSession = (\<lambda>st. (if st = 0 then Some \<lparr>er_message = ''BadSessionIdInvalid'', er_serviceResult = None\<rparr> else None, Suc st)),
     rl_createSession = (\<lambda>st. (None, Suc st)), rl_closeSession = Suc,
     rl_beforeSubscriptionRecreate = Some (\<lambda>st. (if st = 3 then Some (FailedJs (ThrownError ''hook'')) else None, Suc st)),
     rl_transferSubscriptions = (\<lambda>is st. (Some [], Suc st)), rl_wait = (\<lambda>st. st)\<rparr>"

lemmas repair_defs = counting_link_def repair_client_session_by_recreating_a_new_session_def usable_then_def create_session_def
  activate_session_def before_recreate_def attempt_subscription_transfer_def getSubscriptionIds_def suspend_def
  ask_for_subscription_republish_def republish_def client_subscriptionCount_def new_client_def Let_def

theorem new_session_repair_witness:
  "\<exists>c' st'. repair_client_session_by_recreating_a_new_session counting_link True False (new_client 0) 5 = Some (None, c', st')
     \<and> \<not> ce_isSuspended c' \<and> 5 \<le> scheduled c'"
proof -
  define m where "m = repair_client_session_by_recreating_a_new_session counting_link True False (new_client 0) 5"
  obtain c' st' where m: "m = Some (None, c', st')" by (simp add: m_def repair_defs)
  have "sl_usable (rl_session counting_link) 5" by (simp add: counting_link_def)
  from new_session_repair[OF this m[unfolded m_def]] m show ?thesis by (auto simp: m_def new_client_def)
qed

theorem failed_repair_silences_witness:
  "\<exists>c' st'. repeated_repair counting_link True False (new_client 0) 0 = Some (None, c', st') \<and> ce_isSuspended c'"
proof -
  let ?c1 = "(new_client 0)\<lparr>ce_isSuspended := True\<rparr> :: int client"
  have repair: "repair_client_session_by_recreating_a_new_session counting_link True False (new_client 0) 1 =
      Some (Some (FailedJs (ThrownError ''hook'')), ?c1, 4)"
    by (simp add: repair_defs)
  have asked: "republish (rl_session counting_link) True False ?c1 5 = Some (?c1, 5)"
    by (simp add: republish_def new_client_def)
  have usable: "sl_usable (rl_session counting_link) st" and opened: "\<not> rl_hasBeenClosed counting_link st"
    and first: "rl_activateSession counting_link 0 = (Some \<lparr>er_message = ''BadSessionIdInvalid'', er_serviceResult = None\<rparr>, 1)"
    and second: "rl_activateSession counting_link (rl_wait counting_link 4) = (None, 5)" for st
    by (simp_all add: counting_link_def)
  from failed_repair_silences[OF usable first usable repair usable opened usable second usable asked usable]
  show ?thesis by blast
qed

end
