(* ===== verification/Numeric_Range.thy ===== *)
theory Numeric_Range
  imports Stream_Codec
begin

text \<open>
  \<^verbatim>\<open>NumericRange\<close> of \<^verbatim>\<open>node-opcua-numeric-range\<close>: the index range of a read, a
  write or a monitored item, its text form, and what it selects from an array. Text is a list of UTF-16
  units. An \<^verbatim>\<open>undefined\<close> element of an array is \<open>None\<close>.
\<close>

section \<open>Numbers and text\<close>

text \<open>
  An index is a JavaScript number: \<^verbatim>\<open>NaN\<close>, \<^verbatim>\<open>Infinity\<close> or an integer that a double can
  hold. What \<^verbatim>\<open>parseInt\<close> reads from decimal digits is rounded to the nearest double; the arithmetic on
  indices is only used for positions in an array, far below \<open>2 ^ 53\<close>, and is exact there.
\<close>

datatype js_num = NaN | Infinity | Num int

fun js_lt :: "js_num \<Rightarrow> js_num \<Rightarrow> bool" where
  "js_lt (Num x) (Num y) = (x < y)"
| "js_lt (Num x) Infinity = True"
| "js_lt _ _ = False"

fun js_ge :: "js_num \<Rightarrow> js_num \<Rightarrow> bool" where
  "js_ge (Num x) (Num y) = (x \<ge> y)"
| "js_ge Infinity (Num y) = True"
| "js_ge Infinity Infinity = True"
| "js_ge _ _ = False"

definition js_same :: "js_num \<Rightarrow> js_num \<Rightarrow> bool" where
  "js_same a b \<longleftrightarrow> a = b \<and> a \<noteq> NaN"

definition js_max :: "js_num \<Rightarrow> js_num \<Rightarrow> js_num" where
  "js_max a b = (if a = NaN \<or> b = NaN then NaN else if js_ge a b then a else b)"

definition js_min :: "js_num \<Rightarrow> js_num \<Rightarrow> js_num" where
  "js_min a b = (if a = NaN \<or> b = NaN then NaN else if js_ge a b then b else a)"

definition colon :: "16 word" where "colon = 0x3A"
definition comma :: "16 word" where "comma = 0x2C"

definition is_digit :: "16 word \<Rightarrow> bool" where
  "is_digit c \<longleftrightarrow> 0x30 \<le> unat c \<and> unat c \<le> 0x39"

fun split_on :: "16 word \<Rightarrow> js_string \<Rightarrow> js_string list" where
  "split_on sep [] = [[]]"
| "split_on sep (c # cs) =
     (if c = sep then [] # split_on sep cs
      else case split_on sep cs of [] \<Rightarrow> [[c]] | w # ws \<Rightarrow> (c # w) # ws)"

definition dec_value :: "js_string \<Rightarrow> nat" where
  "dec_value ds = foldl (\<lambda>v c. 10 * v + (unat c - 0x30)) 0 ds"

text \<open>
  The double nearest to a natural number, the even one of two that are equally near: exact below
  \<open>2 ^ 53\<close>, with 53 significant bits from there on.
\<close>

fun bit_length :: "nat \<Rightarrow> nat" where
  "bit_length n = (if n = 0 then 0 else Suc (bit_length (n div 2)))"

definition round_double :: "nat \<Rightarrow> nat" where
  "round_double n =
     (if n < 2 ^ 53 then n
      else let e = bit_length n - 53; q = n div 2 ^ e; r = n mod 2 ^ e
           in (if 2 * r > 2 ^ e \<or> 2 * r = 2 ^ e \<and> odd q then q + 1 else q) * 2 ^ e)"

definition parseInt :: "js_string \<Rightarrow> js_num" where
  "parseInt s =
     (let ds = takeWhile is_digit s; v = round_double (dec_value ds)
      in if ds = [] then NaN else if v < 2 ^ 1024 then Num (int v) else Infinity)"

fun dec_string :: "nat \<Rightarrow> js_string" where
  "dec_string n = (if n < 10 then [of_nat (0x30 + n)] else dec_string (n div 10) @ [of_nat (0x30 + n mod 10)])"

text \<open>
  \<^verbatim>\<open>toString\<close> of a number shows the fewest digits that are read back as the same double, those nearest to it:
  the multiple of the largest power of ten that rounds to it. From \<open>10 ^ 21\<close> on it uses an exponent.
\<close>

fun shortest :: "nat \<Rightarrow> nat \<Rightarrow> nat" where
  "shortest v 0 = v"
| "shortest v (Suc j) =
     (let p = 10 ^ Suc j; w = (v + p div 2) div p * p in if round_double w = v then w else shortest v j)"

definition exponent_string :: "nat \<Rightarrow> js_string" where
  "exponent_string w =
     (let ds = dec_string w; m = rev (dropWhile (\<lambda>c. c = 0x30) (rev ds))
      in take 1 m @ (if length m = 1 then [] else 0x2E # drop 1 m) @ 0x65 # 0x2B # dec_string (length ds - 1))"

definition nat_string :: "nat \<Rightarrow> js_string" where
  "nat_string v =
     (if v < 2 ^ 53 then dec_string v
      else let w = shortest v (length (dec_string v)) in if w < 10 ^ 21 then dec_string w else exponent_string w)"

definition num_string :: "js_num \<Rightarrow> js_string" where
  "num_string v = (case v of
       NaN \<Rightarrow> map (of_nat \<circ> of_char) ''NaN''
     | Infinity \<Rightarrow> map (of_nat \<circ> of_char) ''Infinity''
     | Num i \<Rightarrow> if i < 0 then 0x2D # nat_string (nat (- i)) else nat_string (nat i))"

section \<open>Construction\<close>

datatype numeric_range =
    NrEmpty
  | NrSingle js_num
  | NrArray js_num js_num
  | NrMatrix "js_num \<times> js_num" "js_num \<times> js_num"
  | NrInvalid js_string

definition valid_range :: "js_num \<Rightarrow> js_num \<Rightarrow> bool" where
  "valid_range low high \<longleftrightarrow> \<not> (js_ge low high \<or> js_lt low (Num 0) \<or> js_lt high (Num 0))"

definition construct_bit :: "js_string \<Rightarrow> numeric_range" where
  "construct_bit str =
     (case split_on colon str of
        [a] \<Rightarrow> NrSingle (parseInt a)
      | [a, b] \<Rightarrow> if \<not> valid_range (parseInt a) (parseInt b) then NrInvalid str
                  else NrArray (parseInt a) (parseInt b)
      | _ \<Rightarrow> NrInvalid str)"

fun nr_normalize :: "numeric_range \<Rightarrow> js_num \<times> js_num" where
  "nr_normalize (NrSingle v) = (v, v)"
| "nr_normalize (NrArray a b) = (a, b)"
| "nr_normalize _ = (NaN, NaN)"

fun is_invalid :: "numeric_range \<Rightarrow> bool" where
  "is_invalid (NrInvalid s) = True"
| "is_invalid _ = False"

definition range_chars :: "js_string \<Rightarrow> bool" where
  "range_chars str \<longleftrightarrow> (\<forall>c \<in> set str. is_digit c \<or> c = colon \<or> c = comma)"

definition construct_from_string :: "js_string \<Rightarrow> numeric_range" where
  "construct_from_string str =
     (if \<not> range_chars str then NrInvalid str
      else case split_on comma str of
        [v] \<Rightarrow> construct_bit v
      | [v, w] \<Rightarrow>
          (let r = construct_bit v; c = construct_bit w
           in if is_invalid r \<or> is_invalid c then NrInvalid str else NrMatrix (nr_normalize r) (nr_normalize c))
      | _ \<Rightarrow> NrInvalid str)"

definition set_single_value :: "int \<Rightarrow> numeric_range" where
  "set_single_value v = (if v < 0 then NrInvalid (num_string (Num v)) else NrSingle (Num v))"

definition set_range_value :: "int \<Rightarrow> int \<Rightarrow> numeric_range" where
  "set_range_value low high =
     (if low = high then NrSingle (Num low)
      else if \<not> valid_range (Num low) (Num high) then NrInvalid []
      else NrArray (Num low) (Num high))"

definition construct_from_values :: "int \<Rightarrow> int option \<Rightarrow> numeric_range" where
  "construct_from_values v second =
     (case second of None \<Rightarrow> set_single_value v | Some w \<Rightarrow> set_range_value v w)"

section \<open>Queries and text form\<close>

fun nr_isValid :: "numeric_range \<Rightarrow> bool" where
  "nr_isValid (NrArray a b) = (\<not> (js_lt a (Num 0) \<or> js_lt b (Num 0)))"
| "nr_isValid (NrSingle v) = (\<not> js_lt v (Num 0))"
| "nr_isValid (NrInvalid s) = False"
| "nr_isValid _ = True"

fun nr_isEmpty :: "numeric_range \<Rightarrow> bool" where
  "nr_isEmpty NrEmpty = True"
| "nr_isEmpty _ = False"

fun nr_isDefined :: "numeric_range \<Rightarrow> bool" where
  "nr_isDefined NrEmpty = False"
| "nr_isDefined (NrInvalid s) = False"
| "nr_isDefined _ = True"

definition array_range_to_string :: "js_num \<times> js_num \<Rightarrow> js_string" where
  "array_range_to_string v =
     (if js_same (fst v) (snd v) then num_string (fst v) else num_string (fst v) @ colon # num_string (snd v))"

text \<open>The texts of an empty and of an invalid range are only shown to people: they are not parsed.\<close>

definition empty_text :: js_string where
  "empty_text = map (of_nat \<circ> of_char) ''NumericRange:<Empty>''"

definition invalid_text :: js_string where
  "invalid_text = map (of_nat \<circ> of_char) ''NumericRange:<Invalid>''"

fun nr_toString :: "numeric_range \<Rightarrow> js_string" where
  "nr_toString (NrSingle v) = num_string v"
| "nr_toString (NrArray a b) = array_range_to_string (a, b)"
| "nr_toString NrEmpty = empty_text"
| "nr_toString (NrMatrix r c) = array_range_to_string r @ comma # array_range_to_string c"
| "nr_toString (NrInvalid s) = invalid_text"

fun toEncodeableString :: "numeric_range \<Rightarrow> js_string option" where
  "toEncodeableString NrEmpty = None"
| "toEncodeableString (NrInvalid s) = Some s"
| "toEncodeableString r = Some (nr_toString r)"

definition encodeNumericRange :: "numeric_range \<Rightarrow> bstream \<Rightarrow> bstream result" where
  "encodeNumericRange r = writeString (toEncodeableString r)"

definition new_numeric_range :: "js_string option \<Rightarrow> numeric_range" where
  "new_numeric_range s = (case s of None \<Rightarrow> NrEmpty | Some t \<Rightarrow> construct_from_string t)"

definition decodeNumericRange :: "bstream \<Rightarrow> (numeric_range \<times> bstream) result" where
  "decodeNumericRange st = rbind (readString st) (\<lambda>(s, st1). Inr (new_numeric_range s, st1))"

definition coerceNumericRange :: "js_string option \<Rightarrow> numeric_range" where
  "coerceNumericRange s = (if s = Some empty_text then NrEmpty else new_numeric_range s)"

definition overlap_bounds :: "js_num \<Rightarrow> js_num \<Rightarrow> js_num \<Rightarrow> js_num \<Rightarrow> bool" where
  "overlap_bounds l1 h1 l2 h2 \<longleftrightarrow> js_ge (js_min h1 h2) (js_max l1 l2)"

fun nr_overlap :: "numeric_range \<Rightarrow> numeric_range \<Rightarrow> bool result" where
  "nr_overlap NrEmpty r = Inr True"
| "nr_overlap r NrEmpty = Inr True"
| "nr_overlap (NrSingle a) (NrSingle b) = Inr (js_same a b)"
| "nr_overlap (NrArray a b) (NrArray c d) = Inr (overlap_bounds a b c d)"
| "nr_overlap _ _ = Inl AssertionError"

section \<open>Selecting from an array\<close>

datatype range_status = RsGood | RsBadIndexRangeNoData | RsBadIndexRangeInvalid | RsBadTypeMismatch

record 'a extract_result =
  er_array :: "'a option list option"
  er_dimensions :: "nat list option"
  er_status :: range_status

text \<open>\<^verbatim>\<open>slice\<close>: a negative bound counts from the end, \<^verbatim>\<open>NaN\<close> is 0, and both are clipped.\<close>

definition slice_index :: "nat \<Rightarrow> js_num \<Rightarrow> nat" where
  "slice_index len v = (case v of NaN \<Rightarrow> 0 | Infinity \<Rightarrow> len
     | Num i \<Rightarrow> if i < 0 then nat (max (int len + i) 0) else min (nat i) len)"

definition js_slice :: "'a list \<Rightarrow> js_num \<Rightarrow> js_num \<Rightarrow> 'a list" where
  "js_slice xs start stop =
     (let i = slice_index (length xs) start; j = slice_index (length xs) stop in take (j - i) (drop i xs))"

definition js_succ :: "js_num \<Rightarrow> js_num" where
  "js_succ v = (case v of Num i \<Rightarrow> Num (i + 1) | _ \<Rightarrow> v)"

definition no_data :: "bool \<Rightarrow> 'a extract_result" where
  "no_data isString = \<lparr>er_array = (if isString then Some [] else None), er_dimensions = None,
     er_status = RsBadIndexRangeNoData\<rparr>"

definition extract_empty :: "'a list \<Rightarrow> nat list option \<Rightarrow> 'a extract_result" where
  "extract_empty xs dims = \<lparr>er_array = Some (map Some (js_slice xs (Num 0) (Num (int (length xs))))),
     er_dimensions = dims, er_status = RsGood\<rparr>"

definition extract_single_value :: "bool \<Rightarrow> 'a list \<Rightarrow> js_num \<Rightarrow> 'a extract_result" where
  "extract_single_value isString xs index =
     (if js_ge index (Num (int (length xs))) then no_data isString
      else \<lparr>er_array = Some (map Some (js_slice xs index (js_succ index))), er_dimensions = None, er_status = RsGood\<rparr>)"

definition extract_array_range :: "bool \<Rightarrow> 'a list \<Rightarrow> js_num \<Rightarrow> js_num \<Rightarrow> 'a extract_result result" where
  "extract_array_range isString xs low high =
     (case (low, high) of
        (Num l, Num h) \<Rightarrow>
          rbind (assert_js (l \<ge> 0)) (\<lambda>_. rbind (assert_js (l \<le> h)) (\<lambda>_.
            if l \<ge> int (length xs) then Inr (no_data isString)
            else (let h' = min h (int (length xs) - 1) in
              Inr \<lparr>er_array = Some (map Some (js_slice xs low (Num (h' + 1)))), er_dimensions = None,
                   er_status = RsGood\<rparr>)))
      | _ \<Rightarrow> Inl AssertionError)"

text \<open>
  A matrix is stored flat, row by row, with its dimensions. The loops visit the rows \<open>rowLow\<close> to
  \<open>rowHigh\<close> and the columns \<open>colLow\<close> to \<open>colHigh\<close> without looking at the dimensions; an element
  outside the flat array is \<^verbatim>\<open>undefined\<close>. With a bound that is not a finite number no array of the
  resulting size can be made. The first element is taken not to be \<^verbatim>\<open>null\<close> (the code reads its length, which
  would throw), and the resulting size to be one that an array can have.
\<close>

definition element :: "'a list \<Rightarrow> int \<Rightarrow> 'a option" where
  "element xs i = (if 0 \<le> i \<and> i < int (length xs) then Some (xs ! nat i) else None)"

definition submatrix :: "'a list \<Rightarrow> nat \<Rightarrow> int \<Rightarrow> int \<Rightarrow> int \<Rightarrow> int \<Rightarrow> 'a option list" where
  "submatrix xs nbCol rowLow rowHigh colLow colHigh =
     concat (map (\<lambda>row. map (\<lambda>col. element xs (row * int nbCol + col)) [colLow..colHigh]) [rowLow..rowHigh])"

definition extract_matrix_range ::
    "'a list \<Rightarrow> js_num \<times> js_num \<Rightarrow> js_num \<times> js_num \<Rightarrow> nat list option \<Rightarrow> 'a extract_result result" where
  "extract_matrix_range xs rowRange colRange dims =
     (if xs = [] then Inr (no_data False)
      else case dims of
        None \<Rightarrow> Inr (no_data False)
      | Some ds \<Rightarrow>
          (case (rowRange, colRange) of
             ((Num rl, Num rh), (Num cl, Num ch)) \<Rightarrow>
               Inr \<lparr>er_array = Some (if length ds < 2 then replicate (nat ((rh - rl + 1) * (ch - cl + 1))) None
                       else submatrix xs (ds ! 1) rl rh cl ch),
                    er_dimensions = Some [nat (rh - rl + 1), nat (ch - cl + 1)], er_status = RsGood\<rparr>
           | _ \<Rightarrow> Inl RangeError))"

text \<open>\<open>None\<close> is a missing array. An empty string counts as missing too.\<close>

definition extract_values ::
    "bool \<Rightarrow> numeric_range \<Rightarrow> 'a list option \<Rightarrow> nat list option \<Rightarrow> 'a extract_result result" where
  "extract_values isString r array dims =
     (let missing = (\<lambda>a. \<lparr>er_array = a, er_dimensions = None,
            er_status = (if r = NrEmpty then RsGood else RsBadIndexRangeNoData)\<rparr>) in
      case array of
        None \<Rightarrow> Inr (missing None)
      | Some xs \<Rightarrow>
          if isString \<and> xs = [] then Inr (missing (Some []))
          else case r of
            NrEmpty \<Rightarrow> Inr (extract_empty xs dims)
          | NrSingle index \<Rightarrow> Inr (extract_single_value isString xs index)
          | NrArray low high \<Rightarrow> extract_array_range isString xs low high
          | NrMatrix row col \<Rightarrow> extract_matrix_range xs row col dims
          | NrInvalid s \<Rightarrow> Inr \<lparr>er_array = None, er_dimensions = None, er_status = RsBadIndexRangeInvalid\<rparr>)"

text \<open>
  The matrix range of an array of strings or byte strings that has no dimensions selects characters or
  bytes of the elements of a range of the array. The elements of the selection are replaced in place,
  and when the selection is the whole array, \<^verbatim>\<open>slice\<close> has returned the array itself: the last
  component is what the caller's array holds afterwards. \<open>None\<close> is \<^verbatim>\<open>null\<close>. A range of rows
  outside the array makes the loop read the length of \<^verbatim>\<open>null\<close>.
\<close>

fun extract_each ::
    "bool \<Rightarrow> js_num \<times> js_num \<Rightarrow> 'a list list \<Rightarrow> 'a list option list result" where
  "extract_each isString col [] = Inr []"
| "extract_each isString col (x # xs) =
     rbind (extract_array_range isString x (fst col) (snd col)) (\<lambda>r.
     rbind (extract_each isString col xs) (\<lambda>rs.
       Inr (map_option (map the) (er_array r) # rs)))"

definition extract_elements ::
    "bool \<Rightarrow> 'a list list \<Rightarrow> js_num \<times> js_num \<Rightarrow> js_num \<times> js_num \<Rightarrow>
     ('a list option list option \<times> range_status \<times> 'a list option list) result" where
  "extract_elements isString xs row col =
     (if xs = [] then Inr (None, RsBadIndexRangeNoData, [])
      else rbind (extract_array_range False xs (fst row) (snd row)) (\<lambda>r.
        case er_array r of
          None \<Rightarrow> Inl (ThrownError ''TypeError'')
        | Some ys \<Rightarrow> rbind (extract_each isString col (map the ys)) (\<lambda>zs.
            Inr (Some zs, er_status r, if length ys = length xs then zs else map Some xs))))"

section \<open>Writing into an array\<close>

fun num_value :: "js_num \<Rightarrow> int" where
  "num_value (Num i) = i"
| "num_value _ = 0"

definition range_bounds :: "numeric_range \<Rightarrow> nat \<Rightarrow> (js_num \<times> js_num) option" where
  "range_bounds r len = (case r of
     NrEmpty \<Rightarrow> Some (Num 0, Num (int len - 1))
   | NrSingle v \<Rightarrow> Some (v, v)
   | NrArray a b \<Rightarrow> Some (a, b)
   | _ \<Rightarrow> None)"

datatype array_kind = StandardArray | NodeBuffer | TypedArray

text \<open>For a valid range: its bounds are not negative.\<close>

definition js_splice :: "'a list \<Rightarrow> int \<Rightarrow> int \<Rightarrow> 'a list \<Rightarrow> 'a list" where
  "js_splice xs start count new =
     (let i = slice_index (length xs) (Num start); n = min (nat count) (length xs - i)
      in take i xs @ new @ drop (i + n) xs)"

definition insertInPlace :: "array_kind \<Rightarrow> 'a list \<Rightarrow> int \<Rightarrow> int \<Rightarrow> 'a list \<Rightarrow> 'a list result" where
  "insertInPlace kind xs low high new =
     (if kind = StandardArray then Inr (js_splice xs low (high - low + 1) new)
      else if low = 0 \<and> high = int (length xs) - 1 then Inr new
      else rbind (assert_js (int (length new) = high - low + 1)) (\<lambda>_.
        Inr (fold (\<lambda>i ys. ys[i + nat low := new ! i]) [0..<length new] xs)))"

definition set_values ::
    "array_kind \<Rightarrow> numeric_range \<Rightarrow> 'a list \<Rightarrow> 'a list \<Rightarrow> ('a list option \<times> range_status) result" where
  "set_values kind r xs new =
     (case r of
        NrMatrix _ _ \<Rightarrow> Inr (Some xs, RsBadIndexRangeNoData)
      | _ \<Rightarrow>
          (case range_bounds r (length xs) of
             None \<Rightarrow> Inr (None, RsBadIndexRangeInvalid)
           | Some (low, high) \<Rightarrow>
               if js_ge high (Num (int (length xs))) \<or> js_ge low (Num (int (length xs)))
               then Inr (None, RsBadIndexRangeNoData)
               else if r \<noteq> NrEmpty \<and>
                 (case (low, high) of (Num l, Num h) \<Rightarrow> int (length new) \<noteq> h - l + 1 | _ \<Rightarrow> True)
               then Inr (None, RsBadIndexRangeInvalid)
               else rbind (insertInPlace kind xs (num_value low) (num_value high) new) (\<lambda>ys. Inr (Some ys, RsGood))))"

definition set_cell :: "nat \<Rightarrow> int \<Rightarrow> int \<Rightarrow> nat \<Rightarrow> 'a list \<Rightarrow> int \<Rightarrow> int \<Rightarrow> 'a list \<Rightarrow> 'a list" where
  "set_cell nbCols rowStart colStart nbColInNew new row col xs =
     xs[nat (row * int nbCols + col) := new ! nat ((row - rowStart) * int nbColInNew + (col - colStart))]"

definition set_values_matrix ::
    "numeric_range \<Rightarrow> 'a list \<Rightarrow> nat list \<Rightarrow> 'a list \<Rightarrow> ('a list \<times> range_status) result" where
  "set_values_matrix r xs dims new =
     (case r of
        NrMatrix (Num rs, Num re) (Num cs, Num ce) \<Rightarrow>
          rbind (assert_js (length dims = 2)) (\<lambda>_.
          rbind (assert_js (length xs = dims ! 0 * dims ! 1)) (\<lambda>_.
            let nr = re - rs + 1; nc = ce - cs + 1 in
            if nr * nc \<noteq> int (length new) then Inr (xs, RsBadTypeMismatch)
            else if re \<ge> int (dims ! 0) \<or> ce \<ge> int (dims ! 1) then Inr (xs, RsBadTypeMismatch)
            else Inr (fold (\<lambda>row ys. fold (\<lambda>col zs. set_cell (dims ! 1) rs cs (nat nc) new row col zs) [cs..ce] ys)
                [rs..re] xs, RsGood)))
      | NrMatrix _ _ \<Rightarrow>
          rbind (assert_js (length dims = 2)) (\<lambda>_.
          rbind (assert_js (length xs = dims ! 0 * dims ! 1)) (\<lambda>_. Inr (xs, RsBadTypeMismatch)))
      | _ \<Rightarrow> Inr (xs, RsBadTypeMismatch))"

section \<open>Printing and parsing\<close>

text \<open>The ranges whose indices are numbers below \<open>10 ^ 21\<close>, which \<^verbatim>\<open>toString\<close> prints without an exponent.\<close>

fun printable :: "js_num \<Rightarrow> bool" where
  "printable (Num i) \<longleftrightarrow> i < 10 ^ 21"
| "printable _ \<longleftrightarrow> False"

definition printable_range :: "numeric_range \<Rightarrow> bool" where
  "printable_range r = (case r of
     NrSingle v \<Rightarrow> printable v
   | NrArray a b \<Rightarrow> printable a \<and> printable b
   | NrMatrix (a, b) (c, d) \<Rightarrow> printable a \<and> printable b \<and> printable c \<and> printable d
   | _ \<Rightarrow> True)"

lemma digit_word: "n < 10 \<Longrightarrow> unat (of_nat (48 + n) :: 16 word) = 48 + n"
  by (simp add: unat_of_nat take_bit_nat_eq_self del: of_nat_add)

declare dec_string.simps [simp del]

lemma dec_string_digits: "\<forall>c \<in> set (dec_string n). is_digit c"
proof (induction n rule: dec_string.induct)
  case (1 n)
  show ?case
  proof (cases "n < 10")
    case True
    then show ?thesis by (subst dec_string.simps) (simp add: is_digit_def digit_word del: of_nat_add)
  next
    case False
    have "is_digit (of_nat (48 + n mod 10))" by (simp add: is_digit_def digit_word del: of_nat_add)
    with 1 False show ?thesis by (subst dec_string.simps) (auto simp del: of_nat_add)
  qed
qed

lemma dec_string_nonempty [simp]: "dec_string n \<noteq> []"
  by (subst dec_string.simps) simp

lemma dec_value_snoc: "dec_value (ds @ [c]) = 10 * dec_value ds + (unat c - 48)"
  by (simp add: dec_value_def)

lemma dec_value_string: "dec_value (dec_string n) = n"
proof (induction n rule: dec_string.induct)
  case (1 n)
  show ?case
  proof (cases "n < 10")
    case True
    then show ?thesis by (subst dec_string.simps) (simp add: dec_value_def digit_word del: of_nat_add)
  next
    case False
    have "unat (of_nat (48 + n mod 10) :: 16 word) = 48 + n mod 10" by (rule digit_word) simp
    with 1 False show ?thesis
      by (subst dec_string.simps) (simp only: if_False dec_value_snoc, simp)
  qed
qed

subsection \<open>Rounding\<close>

declare bit_length.simps [simp del]

lemma bit_length_eq: "2 ^ k \<le> n \<Longrightarrow> n < 2 ^ Suc k \<Longrightarrow> bit_length n = Suc k"
proof (induction k arbitrary: n)
  case 0
  then have "n = 1" by simp
  then show ?case by (simp add: bit_length.simps)
next
  case (Suc k)
  have "2 ^ k \<le> n div 2" "n div 2 < 2 ^ Suc k" "n \<noteq> 0" using Suc.prems by auto
  then show ?case using Suc.IH[of "n div 2"] by (simp add: bit_length.simps[of n])
qed

lemma bit_length_ex: "0 < n \<Longrightarrow> \<exists>k. 2 ^ k \<le> n \<and> n < 2 ^ Suc k" for n :: nat
proof (induction n rule: less_induct)
  case (less n)
  show ?case
  proof (cases "n = 1")
    case False
    then obtain k where "2 ^ k \<le> n div 2" "n div 2 < 2 ^ Suc k" using less.IH[of "n div 2"] less.prems by auto
    then have "2 ^ Suc k \<le> n \<and> n < 2 ^ Suc (Suc k)" by auto
    then show ?thesis by blast
  qed (auto intro: exI[of _ 0])
qed

lemma round_significant:
  assumes "2 ^ 52 \<le> q" and "q < 2 ^ 53"
  shows "round_double (q * 2 ^ e) = q * 2 ^ e"
proof (cases e)
  case (Suc d)
  have "2 ^ (52 + e) \<le> q * 2 ^ e" "q * 2 ^ e < 2 ^ (53 + e)" using assms by (simp_all add: power_add)
  then have l: "bit_length (q * 2 ^ e) = 53 + e" using bit_length_eq[of "52 + e" "q * 2 ^ e"] by simp
  have "(2 :: nat) ^ 53 \<le> 2 ^ (52 + e)" using Suc by (intro power_increasing) auto
  then have "\<not> q * 2 ^ e < 2 ^ 53" using \<open>2 ^ (52 + e) \<le> q * 2 ^ e\<close> by linarith
  then show ?thesis using l by (simp add: round_double_def)
qed (use assms in \<open>simp add: round_double_def\<close>)

lemma round_twice: "round_double (round_double n) = round_double n"
proof (cases "n < 2 ^ 53")
  case True
  then show ?thesis by (simp add: round_double_def)
next
  case False
  then obtain k where k: "2 ^ k \<le> n" "n < 2 ^ Suc k" using bit_length_ex[of n] by auto
  have "(2 :: nat) ^ 53 < 2 ^ Suc k" using False k(2) by linarith
  then have "53 \<le> k" using power_less_imp_less_exp[of "2 :: nat" 53 "Suc k"] by simp
  then obtain e where e: "k = 52 + e" by (intro that[of "k - 52"]) simp
  define q where "q = n div 2 ^ e"
  have q: "2 ^ 52 \<le> q" "q < 2 ^ 53"
    using k by (simp_all add: q_def e less_eq_div_iff_mult_less_eq div_less_iff_less_mult power_add)
  obtain q' where q': "round_double n = q' * 2 ^ e" "q' = q \<or> q' = q + 1"
    using False bit_length_eq[OF k] that by (auto simp: round_double_def Let_def e q_def[symmetric])
  show ?thesis
  proof (cases "q' < 2 ^ 53")
    case True
    then show ?thesis using q q' round_significant[of q' e] by auto
  next
    case False
    then have "q' * 2 ^ e = 2 ^ 52 * 2 ^ Suc e" using q q' by (auto simp: power_add)
    then show ?thesis using q'(1) round_significant[of "2 ^ 52" "Suc e"] by (simp del: power_Suc)
  qed
qed

lemma shortest_rounds: "round_double v = v \<Longrightarrow> round_double (shortest v j) = v"
  by (induction v j rule: shortest.induct) (simp_all add: Let_def)

text \<open>Rounding to a multiple of a power of ten does not pass \<open>10 ^ 21\<close>.\<close>

lemma nearest_multiple:
  assumes "v \<le> c * p" and "0 < p"
  shows "(v + p div 2) div p * p \<le> c * (p :: nat)"
proof -
  have "(v + p div 2) div p < Suc c" using assms by (simp add: div_less_iff_less_mult)
  then show ?thesis using assms(2) by simp
qed

lemma shortest_bound: "v < 10 ^ 21 \<Longrightarrow> j \<le> 21 \<Longrightarrow> shortest v j \<le> 10 ^ 21"
proof (induction v j rule: shortest.induct)
  case (2 v j)
  have "(10 :: nat) ^ 21 = 10 ^ (21 - Suc j) * 10 ^ Suc j" using 2(3) by (simp only: power_add[symmetric] le_add_diff_inverse2)
  then have "(v + 10 ^ Suc j div 2) div 10 ^ Suc j * 10 ^ Suc j \<le> (10 :: nat) ^ 21"
    using 2(2) nearest_multiple[of v "10 ^ (21 - Suc j)" "10 ^ Suc j"] by (simp del: power_Suc)
  then show ?case using 2 by (simp add: Let_def del: power_Suc)
qed simp

lemma dec_string_length: "n < 10 ^ k \<Longrightarrow> 0 < k \<Longrightarrow> length (dec_string n) \<le> k"
proof (induction k arbitrary: n)
  case (Suc k)
  show ?case
  proof (cases "n < 10")
    case False
    then have "0 < k" using Suc.prems by (cases k) auto
    then have "length (dec_string (n div 10)) \<le> k" using Suc.prems by (intro Suc.IH) auto
    then show ?thesis using False by (subst dec_string.simps) simp
  qed (subst dec_string.simps, simp)
qed simp

lemma round_limit: "round_double (10 ^ 21) = 10 ^ 21"
  using round_significant[of 7629394531250000 17] by simp

text \<open>An index below the limit is printed as decimal digits that are read back as it.\<close>

lemma nat_string_digits:
  assumes "round_double v = v" and "v < 10 ^ 21"
  obtains w where "nat_string v = dec_string w" and "round_double w = v"
proof (cases "v < 2 ^ 53")
  case True
  then show thesis by (intro that[of v]) (use assms in \<open>simp_all add: nat_string_def\<close>)
next
  case False
  define w where "w = shortest v (length (dec_string v))"
  have "w \<le> 10 ^ 21" unfolding w_def using assms(2) dec_string_length[OF assms(2)] by (intro shortest_bound) simp_all
  moreover have r: "round_double w = v" unfolding w_def by (rule shortest_rounds[OF assms(1)])
  moreover have "w \<noteq> 10 ^ 21" using r round_limit assms(2) by auto
  ultimately have "nat_string v = dec_string w" using False by (simp add: nat_string_def w_def[symmetric] Let_def)
  then show thesis using r by (rule that)
qed

lemma parse_dec_string: "round_double w = v \<Longrightarrow> v \<le> 10 ^ 21 \<Longrightarrow> parseInt (dec_string w) = Num (int v)"
proof -
  assume v: "round_double w = v" "v \<le> 10 ^ 21"
  have "(10 :: nat) ^ 21 < 2 ^ 1024" by simp
  then have "v < 2 ^ 1024" using v(2) by linarith
  moreover have "takeWhile is_digit (dec_string w) = dec_string w" using dec_string_digits by auto
  ultimately show ?thesis using v(1) by (simp add: parseInt_def dec_value_string Let_def del: takeWhile_eq_all_conv)
qed

lemma split_on_free: "sep \<notin> set s \<Longrightarrow> split_on sep s = [s]"
  by (induction s) auto

lemma split_on_append: "sep \<notin> set s \<Longrightarrow> split_on sep (s @ sep # t) = s # split_on sep t"
  by (induction s) auto

lemma separators: "\<not> is_digit colon" "\<not> is_digit comma" "colon \<noteq> comma" "comma \<noteq> colon"
  by (simp_all add: is_digit_def colon_def comma_def)

subsection \<open>Round trip\<close>

definition index_ok :: "int \<Rightarrow> bool" where
  "index_ok i \<longleftrightarrow> 0 \<le> i \<and> i < 10 ^ 21 \<and> round_double (nat i) = nat i"

lemma num_string_index:
  assumes "index_ok i"
  shows "parseInt (num_string (Num i)) = Num i" and "\<forall>c \<in> set (num_string (Num i)). is_digit c"
    and "colon \<notin> set (num_string (Num i))" and "comma \<notin> set (num_string (Num i))"
proof -
  have i: "0 \<le> i" "round_double (nat i) = nat i" "nat i < 10 ^ 21" using assms by (auto simp: index_ok_def nat_less_iff)
  obtain w where w: "nat_string (nat i) = dec_string w" "round_double w = nat i" by (rule nat_string_digits[OF i(2,3)])
  then have n: "num_string (Num i) = dec_string w" using i(1) by (simp add: num_string_def)
  show "parseInt (num_string (Num i)) = Num i" using parse_dec_string[OF w(2) less_imp_le[OF i(3)]] i(1) by (simp add: n)
  show "\<forall>c \<in> set (num_string (Num i)). is_digit c" using dec_string_digits by (simp add: n)
  then show "colon \<notin> set (num_string (Num i))" "comma \<notin> set (num_string (Num i))" using separators by blast+
qed

text \<open>A pair of bounds that parsing produces and that can be printed: a single index, or two in ascending order.\<close>

fun bounds_ok :: "js_num \<times> js_num \<Rightarrow> bool" where
  "bounds_ok (Num a, Num b) \<longleftrightarrow> index_ok a \<and> index_ok b \<and> a \<le> b"
| "bounds_ok _ \<longleftrightarrow> False"

lemma bounds_okE:
  assumes "bounds_ok p"
  obtains a b where "p = (Num a, Num b)" "index_ok a" "index_ok b" "a \<le> b"
  using assms by (cases p rule: bounds_ok.cases) auto

lemma print_bounds:
  "array_range_to_string (Num a, Num b) =
     (if a = b then num_string (Num a) else num_string (Num a) @ colon # num_string (Num b))"
  by (simp add: array_range_to_string_def js_same_def)

lemma parse_bounds:
  assumes "index_ok a" and "index_ok b" and "a \<le> b"
  shows "construct_bit (array_range_to_string (Num a, Num b)) = (if a = b then NrSingle (Num a) else NrArray (Num a) (Num b))"
proof -
  note A = num_string_index[OF assms(1)] and B = num_string_index[OF assms(2)]
  have "0 \<le> a" "0 \<le> b" using assms by (simp_all add: index_ok_def)
  then show ?thesis
    using A B assms(3) by (auto simp: print_bounds construct_bit_def split_on_free split_on_append valid_range_def)
qed

lemma printed_chars:
  assumes "index_ok a" and "index_ok b"
  shows "range_chars (array_range_to_string (Num a, Num b))" and "comma \<notin> set (array_range_to_string (Num a, Num b))"
  using num_string_index[OF assms(1)] num_string_index[OF assms(2)] separators
  by (auto simp: print_bounds range_chars_def)

lemma parse_printed:
  assumes "bounds_ok p"
  shows "construct_from_string (array_range_to_string p) = construct_bit (array_range_to_string p)"
proof -
  obtain a b where p: "p = (Num a, Num b)" "index_ok a" "index_ok b" using assms by (rule bounds_okE)
  show ?thesis using printed_chars[OF p(2,3)] by (simp add: p(1) construct_from_string_def split_on_free)
qed

lemma parse_printed_matrix:
  assumes "bounds_ok p" and "bounds_ok q"
  shows "construct_from_string (array_range_to_string p @ comma # array_range_to_string q) = NrMatrix p q"
proof -
  obtain a b where p: "p = (Num a, Num b)" "index_ok a" "index_ok b" "a \<le> b" using assms(1) by (rule bounds_okE)
  obtain c d where q: "q = (Num c, Num d)" "index_ok c" "index_ok d" "c \<le> d" using assms(2) by (rule bounds_okE)
  have "range_chars (array_range_to_string p @ comma # array_range_to_string q)"
    using printed_chars(1)[OF p(2,3)] printed_chars(1)[OF q(2,3)] by (auto simp: p(1) q(1) range_chars_def)
  then show ?thesis
    using printed_chars(2)[OF p(2,3)] printed_chars(2)[OF q(2,3)] parse_bounds[OF p(2-4)] parse_bounds[OF q(2-4)]
    by (simp add: p(1) q(1) construct_from_string_def split_on_append split_on_free Let_def)
qed

lemma parseInt_double: "parseInt s = Num v \<Longrightarrow> 0 \<le> v \<and> round_double (nat v) = nat v"
  by (auto simp: parseInt_def Let_def round_twice split: if_splits)

lemma parseInt_printable: "printable (parseInt s) \<Longrightarrow> \<exists>i. parseInt s = Num i \<and> index_ok i"
  using parseInt_double[of s] by (cases "parseInt s") (auto simp: index_ok_def)

lemma construct_bit_bounds:
  assumes "construct_bit s = r" and "\<not> is_invalid r" and "nr_normalize r = (a, b)" and "printable a" "printable b"
  shows "bounds_ok (a, b)" and "\<forall>x y. r = NrArray x y \<longrightarrow> a \<noteq> b"
proof -
  have "(\<exists>v. r = NrSingle v \<and> (\<exists>t. parseInt t = v)) \<or>
      (\<exists>x y. r = NrArray x y \<and> valid_range x y \<and> (\<exists>t u. parseInt t = x \<and> parseInt u = y))"
    using assms(1,2) by (auto simp: construct_bit_def split: list.splits if_splits)
  then show "bounds_ok (a, b)" "\<forall>x y. r = NrArray x y \<longrightarrow> a \<noteq> b"
    using assms(3-5) by (auto dest!: parseInt_printable simp: valid_range_def)
qed

lemma construct_bit_kinds:
  obtains (single) v where "construct_bit s = NrSingle v" | (array) a b where "construct_bit s = NrArray a b"
    | (invalid) "construct_bit s = NrInvalid s"
proof -
  have "(\<exists>v. construct_bit s = NrSingle v) \<or> (\<exists>a b. construct_bit s = NrArray a b) \<or> construct_bit s = NrInvalid s"
    by (auto simp: construct_bit_def split: list.split)
  with that show thesis by blast
qed

lemma split_on_nonempty [simp]: "split_on sep s \<noteq> []"
  by (induction s) (auto split: list.split)

lemma split_on_single: "split_on sep s = [v] \<Longrightarrow> v = s"
proof (induction s arbitrary: v)
  case (Cons c s)
  then show ?case by (cases "split_on sep s") (auto split: if_splits list.splits)
qed simp

lemma print_parse_bit:
  assumes "construct_bit s = r" and "printable_range r" and "\<not> is_invalid r"
  shows "construct_from_string (the (toEncodeableString r)) = r"
proof (cases s rule: construct_bit_kinds)
  case (single v)
  then have r: "r = NrSingle v" "printable v" using assms(1,2) by (auto simp: printable_range_def)
  then have b: "bounds_ok (v, v)" using construct_bit_bounds(1)[OF assms(1,3)] by simp
  then obtain a where a: "v = Num a" "index_ok a" by (auto elim: bounds_okE)
  have "construct_from_string (array_range_to_string (v, v)) = NrSingle v"
    unfolding parse_printed[OF b] using parse_bounds[OF a(2,2)] by (simp add: a(1))
  then show ?thesis by (simp add: r a(1) print_bounds)
next
  case (array x y)
  then have r: "r = NrArray x y" "printable x" "printable y" using assms(1,2) by (auto simp: printable_range_def)
  then have b: "bounds_ok (x, y)" "x \<noteq> y" using construct_bit_bounds[OF assms(1,3), of x y] by simp_all
  from b(1) obtain a c where a: "x = Num a" "y = Num c" "index_ok a" "index_ok c" "a \<le> c" by (rule bounds_okE) simp
  have "construct_from_string (array_range_to_string (x, y)) = NrArray x y"
    unfolding parse_printed[OF b(1)] using parse_bounds[OF a(3-5)] b(2) by (simp add: a(1,2))
  then show ?thesis by (simp add: r)
qed (use assms in auto)

lemma print_parse:
  assumes r: "construct_from_string s = r" and fin: "printable_range r"
  shows "construct_from_string (the (toEncodeableString r)) = r"
proof (cases "is_invalid r")
  case True
  have "r = NrInvalid s"
  proof (cases "range_chars s")
    case chars: True
    show ?thesis
    proof (cases "\<exists>v. split_on comma s = [v]")
      case one: True
      then have "construct_bit s = r" using r chars split_on_single[of comma s] by (auto simp: construct_from_string_def)
      with True show ?thesis by (cases s rule: construct_bit_kinds) auto
    next
      case False
      with r True chars show ?thesis
        by (auto simp: construct_from_string_def Let_def split: list.splits if_splits)
    qed
  next
    case False
    with r show ?thesis by (simp add: construct_from_string_def)
  qed
  with r show ?thesis by simp
next
  case False
  then have chars: "range_chars s" using r by (auto simp: construct_from_string_def split: if_splits)
  show ?thesis
  proof (cases "\<exists>v. split_on comma s = [v]")
    case True
    then have "construct_bit s = r" using r chars split_on_single[of comma s] by (auto simp: construct_from_string_def)
    then show ?thesis using print_parse_bit fin False by blast
  next
    case many: False
    with r chars False obtain v w where
      "r = NrMatrix (nr_normalize (construct_bit v)) (nr_normalize (construct_bit w))"
      and ok: "\<not> is_invalid (construct_bit v)" "\<not> is_invalid (construct_bit w)"
      by (auto simp: construct_from_string_def Let_def split: list.splits if_splits)
    moreover from this(1) fin obtain a b c d where
      n: "nr_normalize (construct_bit v) = (a, b)" "nr_normalize (construct_bit w) = (c, d)"
        "printable a" "printable b" "printable c" "printable d"
      by (auto simp: printable_range_def split: prod.splits)
    moreover have "bounds_ok (a, b)" "bounds_ok (c, d)"
      using construct_bit_bounds(1)[OF refl ok(1) n(1,3,4)] construct_bit_bounds(1)[OF refl ok(2) n(2,5,6)] by auto
    ultimately show ?thesis using parse_printed_matrix by simp
  qed
qed

text \<open>C28: An index range survives the wire: if all its indices are numbers below \<open>10 ^ 21\<close> (none is missing), the
  text it is encoded as, written to a stream and read back, gives the same range - a single index, an interval, a
  matrix range, the empty range, or the same invalid text - provided that this text can be written at all (it is
  well-formed UTF-16 and within the length limit of strings). That holds of indices above \<open>2 ^ 53\<close> too, which
  are rounded when they are parsed and printed with the fewest digits that are read back as the same number.\<close>

theorem numeric_range_roundtrip:
  assumes "printable_range (new_numeric_range s)" and "string_ok (toEncodeableString (new_numeric_range s))"
  shows "emits (encodeNumericRange (new_numeric_range s)) (string_bytes (toEncodeableString (new_numeric_range s))) \<and>
    parses decodeNumericRange (string_bytes (toEncodeableString (new_numeric_range s))) (new_numeric_range s)"
proof -
  define r where "r = new_numeric_range s"
  have e: "emits (encodeNumericRange (new_numeric_range s)) (string_bytes (toEncodeableString (new_numeric_range s)))"
    using emits_writeString[OF assms(2)] by (simp add: encodeNumericRange_def[abs_def])
  have "new_numeric_range (toEncodeableString r) = r"
  proof (cases s)
    case None
    then show ?thesis by (simp add: r_def new_numeric_range_def)
  next
    case (Some t)
    then have "construct_from_string t = r" "printable_range r" using assms(1) by (simp_all add: r_def new_numeric_range_def)
    note pp = print_parse[OF this]
    have "r \<noteq> NrEmpty"
      using Some by (cases t rule: construct_bit_kinds)
        (auto simp: r_def new_numeric_range_def construct_from_string_def Let_def construct_bit_def split: list.splits if_splits)
    then have "toEncodeableString r \<noteq> None" by (cases r) auto
    with pp show ?thesis by (auto simp: new_numeric_range_def)
  qed
  then have "parses decodeNumericRange (string_bytes (toEncodeableString (new_numeric_range s))) (new_numeric_range s)"
    using parses_readString[OF assms(2)] by (simp add: r_def parses_def decodeNumericRange_def)
  with e show ?thesis by blast
qed

theorem numeric_range_roundtrip_witness:
  "parses decodeNumericRange (string_bytes (Some [0x31, 0x3A, 0x32, 0x2C, 0x35]))
     (NrMatrix (Num 1, Num 2) (Num 5, Num 5))"
proof -
  have r: "new_numeric_range (Some [0x31, 0x3A, 0x32, 0x2C, 0x35]) = NrMatrix (Num 1, Num 2) (Num 5, Num 5)"
    by (simp add: new_numeric_range_def construct_from_string_def range_chars_def is_digit_def colon_def comma_def
        construct_bit_def parseInt_def round_double_def dec_value_def valid_range_def Let_def)
  have t: "toEncodeableString (NrMatrix (Num 1, Num 2) (Num 5, Num 5)) = Some [0x31, 0x3A, 0x32, 0x2C, 0x35]"
    by (simp add: array_range_to_string_def js_same_def num_string_def nat_string_def dec_string.simps colon_def comma_def)
  have "string_ok (Some [0x31, 0x3A, 0x32, 0x2C, 0x35])"
    by (simp add: string_ok_def utf_eval maxStringLength_def)
  then show ?thesis
    using numeric_range_roundtrip[of "Some [0x31, 0x3A, 0x32, 0x2C, 0x35]", unfolded r t]
    by (simp add: printable_range_def)
qed

text \<open>The limit is sharp: the index \<open>10 ^ 21\<close> is accepted, but it is written as \<^verbatim>\<open>1e+21\<close>, which the
  other side reads as an invalid range.\<close>

definition large_index :: js_string where
  "large_index = 0x31 # replicate 21 0x30"

definition large_index_text :: js_string where
  "large_index_text = [0x31, 0x65, 0x2B, 0x32, 0x31]"

lemma dec_string_power: "dec_string (10 ^ k) = 0x31 # replicate k 0x30"
proof (induction k)
  case (Suc k)
  then show ?case by (subst dec_string.simps) (simp add: replicate_append_same)
qed (simp add: dec_string.simps)

lemma large_index_printed: "nat_string (10 ^ 21) = large_index_text"
proof -
  define big where "big = (10 :: nat) ^ 21"
  have d: "dec_string big = 0x31 # replicate 21 0x30" unfolding big_def by (rule dec_string_power)
  have "shortest big (Suc 20) = big"
    unfolding shortest.simps(2)[of _ 20] big_def using round_limit by (simp add: Let_def)
  then have s: "shortest big (Suc 21) = big"
    unfolding shortest.simps(2)[of _ 21] big_def by (simp add: round_double_def[of 0] Let_def)
  have "dec_string 21 = [0x32, 0x31]" by (simp add: dec_string.simps)
  moreover have "\<not> big < 2 ^ 53" "\<not> big < 10 ^ 21" by (simp_all add: big_def)
  moreover have "dropWhile (\<lambda>c. c = 0x30) (replicate 21 0x30 @ [0x31]) = [0x31 :: 16 word]" by (subst dropWhile_append2) simp_all
  ultimately have "nat_string big = large_index_text"
    using s by (simp add: nat_string_def d exponent_string_def large_index_text_def Let_def)
  then show ?thesis by (simp only: big_def)
qed

lemma large_index_lost:
  "new_numeric_range (Some large_index) = NrSingle (Num (10 ^ 21))"
  "toEncodeableString (new_numeric_range (Some large_index)) = Some large_index_text"
  "new_numeric_range (Some large_index_text) = NrInvalid large_index_text"
proof -
  have "parseInt large_index = Num (int (10 ^ 21))"
    using parse_dec_string[OF round_limit order_refl] unfolding dec_string_power large_index_def .
  moreover have "comma \<notin> set large_index" "colon \<notin> set large_index" "range_chars large_index"
    by (auto simp: range_chars_def is_digit_def large_index_def comma_def colon_def)
  ultimately show n: "new_numeric_range (Some large_index) = NrSingle (Num (10 ^ 21))"
    by (simp add: new_numeric_range_def construct_from_string_def construct_bit_def split_on_free)
  show "toEncodeableString (new_numeric_range (Some large_index)) = Some large_index_text"
  proof -
    have "nat (10 ^ 21) = 10 ^ 21" by simp
    then show ?thesis using large_index_printed by (simp add: n num_string_def del: nat_numeral)
  qed
  show "new_numeric_range (Some large_index_text) = NrInvalid large_index_text"
    by (simp add: large_index_text_def new_numeric_range_def construct_from_string_def range_chars_def is_digit_def colon_def comma_def)
qed

text \<open>
  A missing index is accepted: the empty text is a valid single index that is not a number, and a lone
  colon is a valid interval on which the extraction fails an assertion.
\<close>

lemma missing_index_accepted:
  "new_numeric_range (Some []) = NrSingle NaN" "nr_isValid (new_numeric_range (Some []))"
  "new_numeric_range (Some [colon]) = NrArray NaN NaN" "nr_isValid (new_numeric_range (Some [colon]))"
  "extract_values False (new_numeric_range (Some [colon])) (Some xs) None = Inl AssertionError"
  by (simp_all add: new_numeric_range_def construct_from_string_def range_chars_def construct_bit_def separators
      parseInt_def valid_range_def extract_values_def extract_array_range_def)

section \<open>Writing and reading back a block of a matrix\<close>

lemma upto_offset: "[a..b] = map (\<lambda>i. a + int i) [0..<nat (b - a + 1)]"
  by (rule nth_equalityI) (simp_all add: nth_upto)

lemma flat_index: "nat (int i * int m + int j) = i * m + j"
  by (metis nat_int of_nat_add of_nat_mult)

lemma take_min_length: "take (min n (length xs)) xs = take n xs"
  by (simp add: min_def)

lemma grid_indices: "concat (map (\<lambda>i. map (\<lambda>j. i * m + j) [0..<m]) [0..<n]) = [0..<n * m]"
proof (induction n)
  case (Suc n)
  have "map (\<lambda>j. n * m + j) [0..<m] = [n * m..<n * m + m]" by (rule nth_equalityI) simp_all
  with Suc show ?case using upt_add_eq_append[of 0 "n * m" m] by (simp add: add.commute)
qed simp

lemma fold_product: "fold (\<lambda>r ys. fold (\<lambda>c zs. h r c zs) cs ys) rs xs = fold (\<lambda>(r, c). h r c) (List.product rs cs) xs"
proof -
  have row: "fold (\<lambda>(r, c). h r c) (map (Pair r) cs) ys = fold (h r) cs ys" for r ys
    by (induction cs arbitrary: ys) simp_all
  show ?thesis by (induction rs arbitrary: xs) (simp_all add: row)
qed

lemma fold_updates_length: "length (fold (\<lambda>p ys. ys[f p := g p]) ps xs) = length xs"
  by (induction ps arbitrary: xs) simp_all

lemma fold_updates_other: "\<forall>p \<in> set ps. f p \<noteq> j \<Longrightarrow> fold (\<lambda>p ys. ys[f p := g p]) ps xs ! j = xs ! j"
  by (induction ps arbitrary: xs) simp_all

lemma fold_updates_at:
  "inj_on f (set ps) \<Longrightarrow> p \<in> set ps \<Longrightarrow> distinct ps \<Longrightarrow> f p < length xs \<Longrightarrow>
     fold (\<lambda>p ys. ys[f p := g p]) ps xs ! f p = g p"
proof (induction ps arbitrary: xs)
  case (Cons q ps)
  show ?case
  proof (cases "p = q")
    case True
    have "\<forall>r \<in> set ps. f r \<noteq> f q" using Cons.prems(1,3) by (auto simp: inj_on_def)
    then show ?thesis using True Cons.prems(4) by (simp add: fold_updates_other)
  next
    case False
    then show ?thesis using Cons by (auto simp: inj_on_def)
  qed
qed simp

lemma submatrix_product:
  "submatrix xs nbCol rl rh cl ch = map (\<lambda>(r, c). element xs (r * int nbCol + c)) (List.product [rl..rh] [cl..ch])"
  by (simp add: submatrix_def product_concat_map map_concat comp_def)

lemma cell_inj:
  fixes r c r' c' :: int
  assumes "r * n + c = r' * n + c'" and "0 \<le> c" "c < n" "0 \<le> c'" "c' < n"
  shows "r = r'" and "c = c'"
proof -
  have "(c + r * n) div n = r" "(c' + r' * n) div n = r'" using assms by simp_all
  then show "r = r'" using assms(1) by (metis add.commute)
  then show "c = c'" using assms(1) by simp
qed

text \<open>The cells of a block: its positions in the flat array, and its contents in row order.\<close>

definition block :: "int \<Rightarrow> int \<Rightarrow> int \<Rightarrow> int \<Rightarrow> (int \<times> int) list" where
  "block rl rh cl ch = List.product [rl..rh] [cl..ch]"

definition cell_at :: "nat \<Rightarrow> int \<times> int \<Rightarrow> nat" where
  "cell_at nc p = nat (fst p * int nc + snd p)"

definition block_value :: "'a list \<Rightarrow> int \<Rightarrow> int \<Rightarrow> nat \<Rightarrow> int \<times> int \<Rightarrow> 'a" where
  "block_value new rl cl w p = new ! nat ((fst p - rl) * int w + (snd p - cl))"

lemma in_block: "p \<in> set (block rl rh cl ch) \<longleftrightarrow> rl \<le> fst p \<and> fst p \<le> rh \<and> cl \<le> snd p \<and> snd p \<le> ch"
  by (cases p) (auto simp: block_def)

lemma block_distinct: "distinct (block rl rh cl ch)"
  by (simp add: block_def distinct_product)

lemma block_cell:
  assumes "0 \<le> rl" "rh < int nr" "0 \<le> cl" "ch < int nc" "p \<in> set (block rl rh cl ch)"
  shows "0 \<le> fst p * int nc + snd p" and "cell_at nc p < nr * nc"
proof -
  have p: "rl \<le> fst p" "fst p \<le> rh" "cl \<le> snd p" "snd p \<le> ch" using assms(5) by (auto simp: in_block)
  show nonneg: "0 \<le> fst p * int nc + snd p" using p assms by simp
  have "fst p * int nc + snd p < (fst p + 1) * int nc" using p assms by (simp add: algebra_simps)
  also have "\<dots> \<le> int nr * int nc" using p assms by (intro mult_right_mono) auto
  finally show "cell_at nc p < nr * nc" using nonneg by (simp add: cell_at_def nat_less_iff)
qed

lemma block_cell_eq:
  assumes "0 \<le> rl" "rh < int nr" "0 \<le> cl" "ch < int nc" "p \<in> set (block rl rh cl ch)"
    and "cell_at nc p = nat (r * int nc + c)" "0 \<le> r" "0 \<le> c" "c < int nc"
  shows "p = (r, c)"
proof -
  have "fst p * int nc + snd p = r * int nc + c"
    using assms(6-8) block_cell(1)[OF assms(1-5)] by (simp add: cell_at_def nat_eq_iff)
  moreover have "0 \<le> snd p" "snd p < int nc" using assms(3-5) by (auto simp: in_block)
  ultimately show ?thesis using cell_inj[of "fst p" "int nc" "snd p" r c] assms(8,9) by (cases p) simp
qed

lemma block_inj:
  assumes "0 \<le> rl" "rh < int nr" "0 \<le> cl" "ch < int nc"
  shows "inj_on (cell_at nc) (set (block rl rh cl ch))"
proof (rule inj_onI)
  fix p q assume pq: "p \<in> set (block rl rh cl ch)" "q \<in> set (block rl rh cl ch)" "cell_at nc p = cell_at nc q"
  have "0 \<le> fst q" "0 \<le> snd q" "snd q < int nc" using pq(2) assms by (auto simp: in_block)
  then show "p = q" using block_cell_eq[OF assms pq(1), of "fst q" "snd q"] pq(3) by (simp add: cell_at_def)
qed

lemma block_values:
  assumes "length new = nat (rh - rl + 1) * nat (ch - cl + 1)"
  shows "map (block_value new rl cl (nat (ch - cl + 1))) (block rl rh cl ch) = new"
proof -
  define w where "w = nat (ch - cl + 1)"
  define h where "h = nat (rh - rl + 1)"
  have "map (block_value new rl cl w) (block rl rh cl ch) = concat (map (\<lambda>i. map (\<lambda>j. new ! (i * w + j)) [0..<w]) [0..<h])"
    by (simp add: block_def product_concat_map map_concat comp_def block_value_def upto_offset[of rl]
        upto_offset[of cl] h_def[symmetric] w_def[symmetric] flat_index)
  also have "\<dots> = map (nth new) (concat (map (\<lambda>i. map (\<lambda>j. i * w + j) [0..<w]) [0..<h]))"
    by (simp add: map_concat comp_def)
  also have "\<dots> = new" using assms map_nth[of new] by (simp add: grid_indices w_def h_def)
  finally show ?thesis by (simp add: w_def)
qed

text \<open>C29: Writing a block into a matrix and reading the same block back returns exactly what was written, and no
  other cell of the matrix has changed: for every range of rows and columns inside the dimensions and
  every block of that size, \<^verbatim>\<open>set_values_matrix\<close> succeeds, \<^verbatim>\<open>extract_values\<close> on the result
  gives the block with its dimensions, and every cell outside the block keeps its value.\<close>

theorem matrix_write_read:
  assumes bounds: "0 \<le> rl" "rl \<le> rh" "rh < int nr" "0 \<le> cl" "cl \<le> ch" "ch < int nc"
    and sizes: "length xs = nr * nc" "int (length new) = (rh - rl + 1) * (ch - cl + 1)"
  shows "\<exists>ys. set_values_matrix (NrMatrix (Num rl, Num rh) (Num cl, Num ch)) xs [nr, nc] new = Inr (ys, RsGood) \<and>
    extract_values False (NrMatrix (Num rl, Num rh) (Num cl, Num ch)) (Some ys) (Some [nr, nc]) =
      Inr \<lparr>er_array = Some (map Some new), er_dimensions = Some [nat (rh - rl + 1), nat (ch - cl + 1)],
           er_status = RsGood\<rparr> \<and>
    (\<forall>r c. r < nr \<and> c < nc \<and> \<not> (rl \<le> int r \<and> int r \<le> rh \<and> cl \<le> int c \<and> int c \<le> ch) \<longrightarrow>
       ys ! (r * nc + c) = xs ! (r * nc + c))"
proof -
  define w where "w = nat (ch - cl + 1)"
  define ps where "ps = block rl rh cl ch"
  define ys where "ys = fold (\<lambda>p ys. ys[cell_at nc p := block_value new rl cl w p]) ps xs"
  have len: "length ys = length xs" by (simp add: ys_def fold_updates_length)
  note cell = block_cell[OF bounds(1,3,4,6)]
  have set_ok: "set_values_matrix (NrMatrix (Num rl, Num rh) (Num cl, Num ch)) xs [nr, nc] new = Inr (ys, RsGood)"
    using bounds sizes
    by (simp add: set_values_matrix_def Let_def fold_product set_cell_def[abs_def] ys_def ps_def block_def cell_at_def
        block_value_def w_def case_prod_beta')
  have el: "element ys (fst p * int nc + snd p) = Some (block_value new rl cl w p)" if "p \<in> set ps" for p
    using fold_updates_at[OF block_inj[OF bounds(1,3,4,6)] _ block_distinct, of p xs "block_value new rl cl w"]
      cell[of p] that len sizes(1) by (simp add: element_def ys_def ps_def cell_at_def nat_less_iff)
  have "length new = nat (rh - rl + 1) * w"
    using sizes(2) bounds by (simp add: w_def nat_mult_distrib[symmetric])
  then have "map (block_value new rl cl w) ps = new" unfolding w_def ps_def by (rule block_values)
  then have "map (Some \<circ> block_value new rl cl w) ps = map Some new" by (metis map_map)
  moreover have "map (\<lambda>(r, c). element ys (r * int nc + c)) ps = map (Some \<circ> block_value new rl cl w) ps"
    by (rule map_cong) (auto dest: el)
  ultimately have sub: "submatrix ys nc rl rh cl ch = map Some new"
    by (simp add: submatrix_product block_def[symmetric] ps_def[symmetric])
  have "ys \<noteq> []" using len sizes bounds by auto
  then have get_ok: "extract_values False (NrMatrix (Num rl, Num rh) (Num cl, Num ch)) (Some ys) (Some [nr, nc]) =
      Inr \<lparr>er_array = Some (map Some new), er_dimensions = Some [nat (rh - rl + 1), nat (ch - cl + 1)],
           er_status = RsGood\<rparr>"
    by (simp add: extract_values_def extract_matrix_range_def sub)
  have rest: "ys ! (r * nc + c) = xs ! (r * nc + c)"
    if rc: "r < nr" "c < nc" "\<not> (rl \<le> int r \<and> int r \<le> rh \<and> cl \<le> int c \<and> int c \<le> ch)" for r c
  proof -
    have "cell_at nc p \<noteq> r * nc + c" if "p \<in> set ps" for p
      using block_cell_eq[OF bounds(1,3,4,6), of p "int r" "int c"] that rc
      by (auto simp: ps_def in_block flat_index)
    then show ?thesis by (simp add: ys_def fold_updates_other)
  qed
  show ?thesis using set_ok get_ok rest by blast
qed

theorem matrix_write_read_witness:
  "\<exists>ys. set_values_matrix (NrMatrix (Num 0, Num 1) (Num 1, Num 1)) [1, 2, 3, 4, 5, 6 :: nat] [2, 3] [8, 9] =
      Inr (ys, RsGood) \<and>
    extract_values False (NrMatrix (Num 0, Num 1) (Num 1, Num 1)) (Some ys) (Some [2, 3]) =
      Inr \<lparr>er_array = Some (map Some [8, 9]), er_dimensions = Some [nat (1 - 0 + 1), nat (1 - 1 + 1)],
           er_status = RsGood\<rparr> \<and>
    (\<forall>r c. r < 2 \<and> c < 3 \<and> \<not> (0 \<le> int r \<and> int r \<le> 1 \<and> 1 \<le> int c \<and> int c \<le> 1) \<longrightarrow>
       ys ! (r * 3 + c) = [1, 2, 3, 4, 5, 6] ! (r * 3 + c))"
  by (rule matrix_write_read) simp_all

section \<open>Outside the dimensions\<close>

text \<open>
  The extraction of a matrix range does not look at the dimensions: columns beyond the last one are taken
  from the next row, with status Good, and rows beyond the last one are undefined. The range of an array
  of strings that covers all of its rows changes the array it reads from.
\<close>

lemma columns_beyond_the_matrix:
  "extract_values False (NrMatrix (Num 0, Num 0) (Num 1, Num 3)) (Some [1, 2, 3, 4, 5, 6 :: nat]) (Some [2, 3]) =
     Inr \<lparr>er_array = Some [Some 2, Some 3, Some 4], er_dimensions = Some [1, 3], er_status = RsGood\<rparr>"
  by (simp add: extract_values_def extract_matrix_range_def submatrix_def element_def upto.simps numeral_eq_Suc)

text \<open>C30: Reading characters of an array of strings through an index range that covers all of its rows destroys
  the array: the elements are cut down to the selected characters in place, whatever they are, so that the
  caller's array holds afterwards exactly what was selected.\<close>

theorem element_range_overwrites_source:
  assumes "xs \<noteq> []" and "int (length xs) \<le> rh + 1" and "0 \<le> cl" and "cl \<le> ch"
  shows "\<exists>zs. extract_elements True xs (Num 0, Num rh) (Num cl, Num ch) = Inr (Some zs, RsGood, zs) \<and>
    zs = map (\<lambda>x. Some (take (nat (ch - cl + 1)) (drop (nat cl) x))) xs"
proof -
  have each: "extract_each True (Num cl, Num ch) ys = Inr (map (\<lambda>x. Some (take (nat (ch - cl + 1)) (drop (nat cl) x))) ys)" for ys :: "'a list list"
  proof (induction ys)
    case (Cons y ys)
    show ?case
    proof (cases "cl \<ge> int (length y)")
      case True
      then have "drop (nat cl) y = []" by simp
      with True Cons assms(3,4) show ?thesis by (simp add: extract_array_range_def no_data_def)
    next
      case False
      define h where "h = min ch (int (length y) - 1)"
      have "nat (h + 1) - nat cl = min (nat (ch - cl + 1)) (length y - nat cl)"
        using False assms(3,4) by (auto simp: h_def min_def)
      moreover have "slice_index (length y) (Num cl) = nat cl" "slice_index (length y) (Num (h + 1)) = nat (h + 1)"
        using False assms(3,4) by (auto simp: slice_index_def h_def min_def)
      ultimately have "js_slice y (Num cl) (Num (h + 1)) = take (nat (ch - cl + 1)) (drop (nat cl) y)"
        using take_min_length[of "nat (ch - cl + 1)" "drop (nat cl) y"] by (simp add: js_slice_def Let_def)
      with False Cons assms(3,4) show ?thesis by (simp add: extract_array_range_def h_def[symmetric] Let_def comp_def)
    qed
  qed simp
  have rh: "0 \<le> rh" using assms(1,2) by (cases xs) auto
  have "js_slice xs (Num 0) (Num (min rh (int (length xs) - 1) + 1)) = xs"
    using assms(1,2) by (auto simp: js_slice_def slice_index_def Let_def min_def)
  then show ?thesis
    using assms(1,2) each[of xs] rh
    by (simp add: extract_elements_def extract_array_range_def Let_def comp_def) 
qed

theorem element_range_overwrites_source_witness:
  "\<exists>zs. extract_elements True [[1, 2, 3], [4, 5 :: nat]] (Num 0, Num 7) (Num 0, Num 0) = Inr (Some zs, RsGood, zs) \<and>
    zs = [Some [1], Some [4]]"
  using element_range_overwrites_source[of "[[1, 2, 3], [4, 5 :: nat]]" 7 0 0] by simp

end
