(* ===== verification/Client_Channel.thy ===== *)
theory Client_Channel
  imports Token_Stack Data_Value "HOL-Library.AList"
begin

text \<open>
  The transactions of a client's secure channel: \<^verbatim>\<open>ClientSecureChannelLayer\<close> of
  \<^verbatim>\<open>client_secure_channel_layer.ts\<close>, from the moment its transport is connected. A channel is
  a record of the private fields; the closures the code makes for a transaction (the modified callback
  with its timer, the request, the request data) are one \<open>transaction\<close> record, and \<open>cc_requests\<close>
  maps the request ids of \<^verbatim>\<open>#_requests\<close> to their positions. Timers, promises and
  \<^verbatim>\<open>setImmediate\<close> are steps of a run that the environment takes in any order. A callback given by
  a user is a log entry: what it does next is later steps. The result of
  \<^verbatim>\<open>chunkSecureMessage\<close>, the nonces and the clock are arguments.
\<close>

section \<open>State\<close>

datatype channel_error =
    SocketIsClosed
  | TransactionTimedOut nat
  | ClosedByClient
  | ServiceResult status_code
  | TransactionCanceled
  | ClientNotConnected
  | InvalidSecurityPolicy
  | InvalidServerNonce
  | NotOpened
  | ConnectionBroken
  | TransportFailure
  | BuilderFailure

datatype 'b response_body =
    ServiceFault
  | OpenSecureChannelResponse security_token "byte list option"
  | OtherResponse 'b

record 'b response =
  rs_serviceResult :: status_code
  rs_body :: "'b response_body"

datatype msg_type = MSG | OPN | CLO

text \<open>Who waits for a transaction: a caller of \<^verbatim>\<open>performMessageTransaction\<close>, the opening or renewal
  of the channel (with its nonce and the time it was sent), or \<^verbatim>\<open>close\<close>.\<close>

datatype caller =
    User
  | OpenChannel bool "byte list option" int
  | CloseChannel

record transaction =
  tx_caller :: caller
  tx_msgType :: msg_type
  tx_requestHandle :: nat
  tx_timeout :: nat
  tx_local :: bool
  tx_timer :: bool
  tx_callback :: bool

datatype socket = NoSocket | Live | Destroyed

record transport =
  ts_socket :: socket
  ts_isDisconnecting :: bool

datatype continuation = AbortDone | CloseAborted | CloseDone

datatype task =
    SendOpen
  | Renew
  | NotConnected nat
  | CloTimer nat
  | AbortStep continuation
  | Continue continuation

datatype 'b channel_event =
    Answered nat "channel_error option" "'b response option"
  | Opened "channel_error option"
  | Renewed "channel_error option"
  | Closed "channel_error option"
  | CloseEvent "channel_error option"
  | TimedOutRequest nat
  | TokenCreated security_token
  | Lifetime75 security_token
  | CallbackThrew js_error
  | InvalidRequestId nat

record ('b, 'k) channel =
  cc_transport :: "transport option"
  cc_lastRequestId :: nat
  cc_requests :: "(nat \<times> nat) list"
  cc_transactions :: "transaction list"
  cc_normalClose :: bool
  cc_timedOutCount :: nat
  cc_watchdog :: "(security_token \<times> nat) option"
  cc_isOpened :: bool
  cc_isDisconnecting :: bool
  cc_channelId :: nat
  cc_activeToken :: "security_token option"
  cc_tokens :: "'k token_stack"
  cc_timeDrift :: int
  cc_tasks :: "task list"
  cc_afterClose :: "continuation list"
  cc_closeEmitted :: bool
  cc_hasReceivedError :: bool
  cc_log :: "'b channel_event list"

text \<open>What the channel is configured with. \<open>ch_secured\<close> says that the security mode is not
  None, \<open>ch_policyKnown\<close> and \<open>ch_builderPolicyKnown\<close> that there is a crypto factory for the
  policy of the channel and of its message builder.\<close>

record 'k channel_env =
  ch_secured :: bool
  ch_policyKnown :: bool
  ch_builderPolicyKnown :: bool
  ch_computeDerivedKeys :: "byte list \<Rightarrow> byte list \<Rightarrow> 'k derived_pair"
  ch_tokenRenewalInterval :: nat
  ch_defaultTransactionTimeout :: nat

text \<open>The channel once \<^verbatim>\<open>#_on_connection\<close> has installed a transport.\<close>

definition on_connection :: "('b, 'k) channel" where
  "on_connection =
     \<lparr>cc_transport = Some \<lparr>ts_socket = Live, ts_isDisconnecting = False\<rparr>, cc_lastRequestId = 0, cc_requests = [],
      cc_transactions = [], cc_normalClose = False, cc_timedOutCount = 0, cc_watchdog = None, cc_isOpened = False,
      cc_isDisconnecting = False, cc_channelId = 0, cc_activeToken = None, cc_tokens = [], cc_timeDrift = 0,
      cc_tasks = [SendOpen], cc_afterClose = [], cc_closeEmitted = False, cc_hasReceivedError = False, cc_log = []\<rparr>"

definition emit :: "'b channel_event \<Rightarrow> ('b, 'k) channel \<Rightarrow> ('b, 'k) channel" where
  "emit e st = st\<lparr>cc_log := cc_log st @ [e]\<rparr>"

definition later :: "task \<Rightarrow> ('b, 'k) channel \<Rightarrow> ('b, 'k) channel" where
  "later k st = st\<lparr>cc_tasks := cc_tasks st @ [k]\<rparr>"

definition set_transaction :: "nat \<Rightarrow> (transaction \<Rightarrow> transaction) \<Rightarrow> ('b, 'k) channel \<Rightarrow> ('b, 'k) channel" where
  "set_transaction t f st = st\<lparr>cc_transactions := (cc_transactions st)[t := f (cc_transactions st ! t)]\<rparr>"

definition isTransactionInProgress :: "('b, 'k) channel \<Rightarrow> bool" where
  "isTransactionInProgress st \<longleftrightarrow> cc_requests st \<noteq> []"

definition isValid :: "('b, 'k) channel \<Rightarrow> bool" where
  "isValid st = (case cc_transport st of None \<Rightarrow> False | Some tr \<Rightarrow> ts_socket tr = Live)"

section \<open>Disconnection\<close>

definition transport_isDisconnecting :: "transport \<Rightarrow> bool" where
  "transport_isDisconnecting tr \<longleftrightarrow> ts_socket tr = NoSocket \<or> ts_isDisconnecting tr"

text \<open>\<^verbatim>\<open>#_dispose_transports\<close> (the byte counters are left out), and \<^verbatim>\<open>dispose\<close>, whose
  \<^verbatim>\<open>abortConnection\<close> has an empty callback.\<close>

definition dispose_transports :: "('b, 'k) channel \<Rightarrow> ('b, 'k) channel" where
  "dispose_transports st = st\<lparr>cc_transport := None\<rparr>"

definition cancel_security_token_watchdog :: "('b, 'k) channel \<Rightarrow> ('b, 'k) channel" where
  "cancel_security_token_watchdog st = st\<lparr>cc_watchdog := None\<rparr>"

definition dispose :: "('b, 'k) channel \<Rightarrow> ('b, 'k) channel" where
  "dispose st =
     (let st1 = dispose_transports st;
          st2 = (if cc_isDisconnecting st1 then st1 else later (AbortStep AbortDone) (st1\<lparr>cc_isDisconnecting := True\<rparr>))
      in cancel_security_token_watchdog st2)"

fun continue :: "continuation \<Rightarrow> ('b, 'k) channel \<Rightarrow> ('b, 'k) channel" where
  "continue AbortDone st = st"
| "continue CloseAborted st = emit (Closed (Some NotOpened)) (dispose st)"
| "continue CloseDone st = emit (Closed None) (dispose st)"

definition abortConnection :: "continuation \<Rightarrow> ('b, 'k) channel \<Rightarrow> ('b, 'k) channel" where
  "abortConnection k st =
     (if cc_isDisconnecting st then continue k st
      else later (AbortStep k) (st\<lparr>cc_isDisconnecting := True\<rparr>))"

text \<open>\<^verbatim>\<open>disconnect\<close> of the transport: the continuation runs at once, or after the socket has closed.\<close>

definition disconnect :: "transport \<Rightarrow> continuation \<Rightarrow> ('b, 'k) channel \<Rightarrow> ('b, 'k) channel" where
  "disconnect tr k st =
     (if transport_isDisconnecting tr
      then continue k (st\<lparr>cc_transport := Some (tr\<lparr>ts_isDisconnecting := True\<rparr>)\<rparr>)
      else st\<lparr>cc_transport := Some \<lparr>ts_socket = NoSocket, ts_isDisconnecting = True\<rparr>,
             cc_afterClose := cc_afterClose st @ [k]\<rparr>)"

definition abort_step :: "continuation \<Rightarrow> ('b, 'k) channel \<Rightarrow> ('b, 'k) channel" where
  "abort_step k st = (case cc_transport st of None \<Rightarrow> continue k st | Some tr \<Rightarrow> disconnect tr k st)"

text \<open>\<^verbatim>\<open>prematureTerminate\<close> only acts on a transport that is dropped right after, so that nothing of it
  is left in the state; the close event of its socket is a later step.\<close>

definition closeWithError :: "('b, 'k) channel \<Rightarrow> ('b, 'k) channel" where
  "closeWithError st = dispose st"

section \<open>Callbacks\<close>

definition open_done :: "bool \<Rightarrow> channel_error option \<Rightarrow> ('b, 'k) channel \<Rightarrow> ('b, 'k) channel" where
  "open_done isInitial err st = emit (if isInitial then Opened err else Renewed err) st"

text \<open>Fractions of a millisecond are dropped, as \<^verbatim>\<open>setTimeout\<close> does.\<close>

definition renewal_timeout :: "'k channel_env \<Rightarrow> security_token \<Rightarrow> nat" where
  "renewal_timeout env securityToken =
     (let lifeTime = max (tk_revisedLifetime securityToken) 20;
          part = 75 * lifeTime div 100;
          timeout = (if ch_tokenRenewalInterval env = 0 then part else ch_tokenRenewalInterval env)
      in max (min timeout part) 50)"

definition install_security_token_watchdog ::
    "'k channel_env \<Rightarrow> security_token \<Rightarrow> ('b, 'k) channel \<Rightarrow> ('b, 'k) channel result" where
  "install_security_token_watchdog env securityToken st =
     rbind (assert_js (cc_watchdog st = None))
       (\<lambda>_. Inr (st\<lparr>cc_watchdog := Some (securityToken, renewal_timeout env securityToken)\<rparr>))"

definition derive_keys ::
    "'k channel_env \<Rightarrow> byte list option \<Rightarrow> byte list option \<Rightarrow> channel_error + 'k derived_pair option" where
  "derive_keys env clientNonce serverNonce =
     (if \<not> ch_secured env then Inr None
      else case (serverNonce, clientNonce) of
             (Some s, Some c) \<Rightarrow>
               if length s \<noteq> length c then Inl InvalidServerNonce
               else if \<not> ch_builderPolicyKnown env then Inl InvalidSecurityPolicy
               else Inr (Some (ch_computeDerivedKeys env s c))
           | _ \<Rightarrow> Inl InvalidServerNonce)"

text \<open>The callback of \<^verbatim>\<open>#_send_open_secure_channel_request\<close>, from its end to its beginning. An exception
  in it (an assertion of \<^verbatim>\<open>pushNewToken\<close> or of \<^verbatim>\<open>#_install_security_token_watchdog\<close>, a response that has
  no token) is caught by the modified callback, which only prints it: the callback of the caller is never called.
  The event \<open>CallbackThrew\<close> records the error that is swallowed in this way.\<close>

definition accept_token ::
    "'k channel_env \<Rightarrow> int \<Rightarrow> bool \<Rightarrow> security_token \<Rightarrow> 'k derived_pair option \<Rightarrow> ('b, 'k) channel \<Rightarrow> ('b, 'k) channel" where
  "accept_token env now isInitial securityToken derivedKeys st =
     (case pushNewToken now securityToken derivedKeys (cc_tokens st) of
        Inl e \<Rightarrow> emit (CallbackThrew e) st
      | Inr tokens \<Rightarrow>
          let st1 = emit (TokenCreated securityToken) (st\<lparr>cc_tokens := tokens\<rparr>)
          in case install_security_token_watchdog env securityToken st1 of
               Inl e \<Rightarrow> emit (CallbackThrew e) st1
             | Inr st2 \<Rightarrow>
                 open_done isInitial None (st2\<lparr>cc_activeToken := Some securityToken, cc_isOpened := True\<rparr>))"

definition token_received ::
    "'k channel_env \<Rightarrow> int \<Rightarrow> bool \<Rightarrow> byte list option \<Rightarrow> int \<Rightarrow> security_token \<Rightarrow> byte list option \<Rightarrow>
     ('b, 'k) channel \<Rightarrow> ('b, 'k) channel" where
  "token_received env now isInitial clientNonce startDate token serverNonce st =
     (let midDate = (startDate + now) div 2;
          st1 = st\<lparr>cc_channelId := tk_channelId token,
                   cc_timeDrift := (case tk_createdAt token of None \<Rightarrow> cc_timeDrift st | Some c \<Rightarrow> c - midDate)\<rparr>
      in case derive_keys env clientNonce serverNonce of
           Inl e \<Rightarrow> open_done isInitial (Some e) st1
         | Inr derivedKeys \<Rightarrow> accept_token env now isInitial (token\<lparr>tk_createdAt := Some midDate\<rparr>) derivedKeys st1)"

definition opening_callback ::
    "'k channel_env \<Rightarrow> int \<Rightarrow> bool \<Rightarrow> byte list option \<Rightarrow> int \<Rightarrow> channel_error option \<Rightarrow> 'b response option \<Rightarrow>
     ('b, 'k) channel \<Rightarrow> ('b, 'k) channel" where
  "opening_callback env now isInitial clientNonce startDate err response st =
     (let err1 = (case response of
                    Some r \<Rightarrow> if rs_serviceResult r \<noteq> Good then Some (ServiceResult (rs_serviceResult r)) else err
                  | None \<Rightarrow> err)
      in case (err1, response) of
           (None, Some r) \<Rightarrow>
             (case rs_body r of
                OpenSecureChannelResponse token serverNonce \<Rightarrow>
                  token_received env now isInitial clientNonce startDate token serverNonce st
              | _ \<Rightarrow> emit (CallbackThrew (ThrownError ''TypeError'')) st)
         | _ \<Rightarrow> open_done isInitial err1 st)"

definition closing_callback :: "('b, 'k) channel \<Rightarrow> ('b, 'k) channel" where
  "closing_callback st =
     (case cc_transport st of
        Some tr \<Rightarrow> disconnect tr CloseDone st
      | None \<Rightarrow> continue CloseDone st)"

fun run_callback ::
    "'k channel_env \<Rightarrow> int \<Rightarrow> caller \<Rightarrow> channel_error option \<Rightarrow> 'b response option \<Rightarrow> ('b, 'k) channel \<Rightarrow> ('b, 'k) channel" where
  "run_callback env now User err response st = st"
| "run_callback env now (OpenChannel isInitial nonce startDate) err response st =
     opening_callback env now isInitial nonce startDate err response st"
| "run_callback env now CloseChannel err response st = closing_callback st"

text \<open>\<^verbatim>\<open>modified_callback\<close> of \<^verbatim>\<open>#_make_timeout_callback\<close>.\<close>

definition modified_callback ::
    "'k channel_env \<Rightarrow> int \<Rightarrow> nat \<Rightarrow> channel_error option \<Rightarrow> 'b response option \<Rightarrow> ('b, 'k) channel \<Rightarrow> ('b, 'k) channel" where
  "modified_callback env now t err response st =
     (let tx = cc_transactions st ! t
      in if \<not> tx_local tx then st
         else
           let st1 = set_transaction t (\<lambda>tx. tx\<lparr>tx_timer := False\<rparr>) st;
               st2 = st1\<lparr>cc_requests := AList.delete (tx_requestHandle tx) (cc_requests st1)\<rparr>;
               st3 = run_callback env now (tx_caller tx) err response (emit (Answered t err response) st2)
           in set_transaction t (\<lambda>tx. tx\<lparr>tx_local := False\<rparr>) st3)"

definition process_request_callback ::
    "'k channel_env \<Rightarrow> int \<Rightarrow> nat \<Rightarrow> channel_error option \<Rightarrow> 'b response option \<Rightarrow> ('b, 'k) channel \<Rightarrow>
     ('b, 'k) channel result" where
  "process_request_callback env now t err response st =
     (let tx = cc_transactions st ! t;
          err1 = (if response = None \<and> err = None \<and> tx_msgType tx \<noteq> CLO then Some ClosedByClient else err);
          (err2, response2) =
            (case response of
               Some r \<Rightarrow> if rs_body r = ServiceFault then (Some (ServiceResult (rs_serviceResult r)), None) else (err1, response)
             | None \<Rightarrow> (err1, response))
      in rbind (assert_js (tx_callback tx))
           (\<lambda>_. rbind (assert_js (tx_msgType tx = CLO \<or> err2 \<noteq> None \<and> response2 = None \<or> err2 = None \<and> response2 \<noteq> None))
              (\<lambda>_. Inr (modified_callback env now t err2 (if err2 = None then response2 else None)
                         (set_transaction t (\<lambda>tx. tx\<lparr>tx_callback := False\<rparr>) st)))))"

section \<open>Messages from the server\<close>

text \<open>\<^verbatim>\<open>#_on_message_received\<close>. An unknown request id throws; the message builder catches what the
  listeners of its message event throw, so the channel only sees a log entry.\<close>

definition on_message_received ::
    "'k channel_env \<Rightarrow> int \<Rightarrow> 'b response \<Rightarrow> nat \<Rightarrow> ('b, 'k) channel \<Rightarrow> ('b, 'k) channel result" where
  "on_message_received env now response requestId st =
     (let st1 = (case rs_body response of
                   OpenSecureChannelResponse token _ \<Rightarrow>
                     if cc_channelId st = 0 then st\<lparr>cc_channelId := tk_channelId token\<rparr> else st
                 | _ \<Rightarrow> st)
      in case map_of (cc_requests st1) requestId of
           None \<Rightarrow> Inr (if cc_normalClose st1 then st1 else emit (InvalidRequestId requestId) st1)
         | Some t \<Rightarrow>
             process_request_callback env now t None (Some response)
               (st1\<lparr>cc_requests := AList.delete requestId (cc_requests st1)\<rparr>))"

text \<open>The listeners of \<^verbatim>\<open>abandon\<close> and \<^verbatim>\<open>error\<close> of the message builder.\<close>

definition BadOperationAbandoned :: status_code where
  "BadOperationAbandoned = constant_status 0x80B30000"

definition on_abandon ::
    "'k channel_env \<Rightarrow> int \<Rightarrow> nat \<Rightarrow> ('b, 'k) channel \<Rightarrow> ('b, 'k) channel result" where
  "on_abandon env now requestId st =
     (case map_of (cc_requests st) requestId of
        None \<Rightarrow> Inl (ThrownError ''TypeError'')
      | Some t \<Rightarrow>
          let st1 = st\<lparr>cc_requests := AList.delete requestId (cc_requests st)\<rparr>
          in Inr (if tx_callback (cc_transactions st ! t)
                  then modified_callback env now t None
                         (Some \<lparr>rs_serviceResult = BadOperationAbandoned, rs_body = ServiceFault\<rparr>) st1
                  else st1))"

definition on_builder_error ::
    "'k channel_env \<Rightarrow> int \<Rightarrow> nat option \<Rightarrow> ('b, 'k) channel \<Rightarrow> ('b, 'k) channel" where
  "on_builder_error env now requestId st =
     (case requestId of
        None \<Rightarrow> st
      | Some i \<Rightarrow>
          if i = 0 then st
          else case map_of (cc_requests st) i of
            None \<Rightarrow> st
          | Some t \<Rightarrow>
              let st1 = st\<lparr>cc_requests := AList.delete i (cc_requests st)\<rparr>;
                  st2 = (if tx_callback (cc_transactions st ! t)
                         then modified_callback env now t (Some BuilderFailure) None st1 else st1)
              in closeWithError st2)"

text \<open>What the message builder does of it: \<^verbatim>\<open>_report_error\<close> sets \<^verbatim>\<open>#_hasReceivedError\<close>, with which
  \<^verbatim>\<open>feed\<close> ignores all further data, and emits the error with the request id of the last sequence header it has
  read (\<open>current\<close>). \<^verbatim>\<open>_report_abandon\<close> clears the flag, and an exception of the
  listener of its event is caught by \<^verbatim>\<open>#_feed_messageChunk\<close> and reported as an error.\<close>

definition report_error ::
    "'k channel_env \<Rightarrow> int \<Rightarrow> nat option \<Rightarrow> ('b, 'k) channel \<Rightarrow> ('b, 'k) channel" where
  "report_error env now current st = on_builder_error env now current (st\<lparr>cc_hasReceivedError := True\<rparr>)"

definition receive_abandon ::
    "'k channel_env \<Rightarrow> int \<Rightarrow> nat \<Rightarrow> nat option \<Rightarrow> ('b, 'k) channel \<Rightarrow> ('b, 'k) channel" where
  "receive_abandon env now requestId current st =
     (let st1 = st\<lparr>cc_hasReceivedError := False\<rparr>
      in case on_abandon env now requestId st1 of
           Inl _ \<Rightarrow> report_error env now current st1
         | Inr st2 \<Rightarrow> st2)"

section \<open>Requests\<close>

definition makeRequestId :: "('b, 'k) channel \<Rightarrow> nat \<times> ('b, 'k) channel" where
  "makeRequestId st = (cc_lastRequestId st + 1, st\<lparr>cc_lastRequestId := cc_lastRequestId st + 1\<rparr>)"

definition adjustRequestTimeout :: "'k channel_env \<Rightarrow> nat \<Rightarrow> nat" where
  "adjustRequestTimeout env timeoutHint =
     (let timeout = (if timeoutHint \<noteq> 0 then timeoutHint
                     else if ch_defaultTransactionTimeout env \<noteq> 0 then ch_defaultTransactionTimeout env else 15000)
      in max 5000 timeout)"

text \<open>\<^verbatim>\<open>#_sendSecureOpcUARequest\<close>, with the status of \<^verbatim>\<open>chunkSecureMessage\<close>: when the message is
  refused the fault is delivered at once; after the last chunk of a CLO message its timer is set.\<close>

definition sendSecureOpcUARequest ::
    "'k channel_env \<Rightarrow> int \<Rightarrow> nat \<Rightarrow> status_code \<Rightarrow> ('b, 'k) channel \<Rightarrow> ('b, 'k) channel result" where
  "sendSecureOpcUARequest env now t statusCode st =
     (if statusCode \<noteq> Good
      then on_message_received env now \<lparr>rs_serviceResult = statusCode, rs_body = ServiceFault\<rparr>
             (tx_requestHandle (cc_transactions st ! t)) st
      else Inr (if tx_msgType (cc_transactions st ! t) = CLO then later (CloTimer t) st else st))"

definition internal_perform_transaction ::
    "'k channel_env \<Rightarrow> int \<Rightarrow> nat \<Rightarrow> status_code \<Rightarrow> ('b, 'k) channel \<Rightarrow> ('b, 'k) channel result" where
  "internal_perform_transaction env now t statusCode st =
     (if cc_transport st = None then Inr (later (NotConnected t) st)
      else
        let (requestId, st1) = makeRequestId st;
            st2 = set_transaction t (\<lambda>tx. tx\<lparr>tx_requestHandle := requestId\<rparr>) st1
        in sendSecureOpcUARequest env now t statusCode (st2\<lparr>cc_requests := AList.update requestId t (cc_requests st2)\<rparr>))"

definition requestHandleNotSetValue :: nat where "requestHandleNotSetValue = 0xdeadbeef"

text \<open>\<^verbatim>\<open>#_performMessageTransaction\<close>. A transaction that is refused because the socket is closed has a record
  too, which was never armed.\<close>

definition perform ::
    "'k channel_env \<Rightarrow> int \<Rightarrow> caller \<Rightarrow> msg_type \<Rightarrow> nat \<Rightarrow> status_code \<Rightarrow> ('b, 'k) channel \<Rightarrow> ('b, 'k) channel result" where
  "perform env now caller msgType timeoutHint statusCode st =
     (let t = length (cc_transactions st);
          valid = isValid st;
          tx = \<lparr>tx_caller = caller, tx_msgType = msgType, tx_requestHandle = requestHandleNotSetValue,
                tx_timeout = adjustRequestTimeout env timeoutHint, tx_local = valid, tx_timer = valid, tx_callback = valid\<rparr>;
          st1 = st\<lparr>cc_transactions := cc_transactions st @ [tx]\<rparr>
      in if \<not> valid
         then Inr (run_callback env now caller (Some SocketIsClosed) None (emit (Answered t (Some SocketIsClosed) None) st1))
         else internal_perform_transaction env now t statusCode st1)"

definition send_open_secure_channel_request ::
    "'k channel_env \<Rightarrow> int \<Rightarrow> bool \<Rightarrow> byte list option \<Rightarrow> status_code \<Rightarrow> ('b, 'k) channel \<Rightarrow> ('b, 'k) channel result" where
  "send_open_secure_channel_request env now isInitial clientNonce statusCode st =
     (if \<not> ch_policyKnown env then Inr (open_done isInitial (Some InvalidSecurityPolicy) st)
      else perform env now (OpenChannel isInitial clientNonce now) OPN 0 statusCode (st\<lparr>cc_isOpened := \<not> isInitial\<rparr>))"

section \<open>Timers and the end of the connection\<close>

definition transaction_timer :: "'k channel_env \<Rightarrow> int \<Rightarrow> nat \<Rightarrow> ('b, 'k) channel \<Rightarrow> ('b, 'k) channel" where
  "transaction_timer env now t st =
     (if t < length (cc_transactions st) \<and> tx_timer (cc_transactions st ! t)
      then
        let st1 = set_transaction t (\<lambda>tx. tx\<lparr>tx_timer := False\<rparr>) st;
            st2 = modified_callback env now t (Some (TransactionTimedOut (tx_timeout (cc_transactions st ! t)))) None st1
        in emit (TimedOutRequest t) (st2\<lparr>cc_timedOutCount := cc_timedOutCount st2 + 1\<rparr>)
      else st)"

definition clo_timer :: "'k channel_env \<Rightarrow> int \<Rightarrow> nat \<Rightarrow> ('b, 'k) channel \<Rightarrow> ('b, 'k) channel" where
  "clo_timer env now t st =
     (if tx_callback (cc_transactions st ! t)
      then set_transaction t (\<lambda>tx. tx\<lparr>tx_callback := False\<rparr>) (modified_callback env now t None None st)
      else st)"

fun cancel_each ::
    "'k channel_env \<Rightarrow> int \<Rightarrow> channel_error option \<Rightarrow> (nat \<times> nat) list \<Rightarrow> ('b, 'k) channel \<Rightarrow> ('b, 'k) channel result" where
  "cancel_each env now err [] st = Inr st"
| "cancel_each env now err ((requestId, t) # requests) st =
     rbind (process_request_callback env now t err None st) (cancel_each env now err requests)"

definition cancel_pending_transactions ::
    "'k channel_env \<Rightarrow> int \<Rightarrow> channel_error option \<Rightarrow> ('b, 'k) channel \<Rightarrow> ('b, 'k) channel result" where
  "cancel_pending_transactions env now err st =
     rbind (cancel_each env now err (cc_requests st) st) (\<lambda>st1. Inr (st1\<lparr>cc_requests := []\<rparr>))"

definition on_transport_closed ::
    "'k channel_env \<Rightarrow> int \<Rightarrow> channel_error option \<Rightarrow> ('b, 'k) channel \<Rightarrow> ('b, 'k) channel result" where
  "on_transport_closed env now err st =
     (let err1 = (if cc_normalClose st then None else err)
      in rbind (cancel_pending_transactions env now err1 (dispose_transports (emit (CloseEvent err1) st)))
           (\<lambda>st1. Inr (dispose (cancel_security_token_watchdog st1))))"

text \<open>The close event of the socket: the transport emits its own only once, then the continuations of
  \<^verbatim>\<open>disconnect\<close> are scheduled.\<close>

definition socket_closed ::
    "'k channel_env \<Rightarrow> int \<Rightarrow> channel_error option \<Rightarrow> ('b, 'k) channel \<Rightarrow> ('b, 'k) channel result" where
  "socket_closed env now err st =
     rbind (if cc_closeEmitted st then Inr st else on_transport_closed env now err (st\<lparr>cc_closeEmitted := True\<rparr>))
       (\<lambda>st1. Inr (st1\<lparr>cc_tasks := cc_tasks st1 @ map Continue (cc_afterClose st1), cc_afterClose := []\<rparr>))"

fun cancel_transactions ::
    "'k channel_env \<Rightarrow> int \<Rightarrow> (nat \<times> nat) list \<Rightarrow> ('b, 'k) channel \<Rightarrow> ('b, 'k) channel" where
  "cancel_transactions env now [] st = st"
| "cancel_transactions env now ((requestId, t) # requests) st =
     cancel_transactions env now requests
       (if tx_callback (cc_transactions st ! t) then modified_callback env now t (Some TransactionCanceled) None st else st)"

definition cancelPendingTransactions :: "'k channel_env \<Rightarrow> int \<Rightarrow> ('b, 'k) channel \<Rightarrow> ('b, 'k) channel" where
  "cancelPendingTransactions env now st = cancel_transactions env now (cc_requests st) st"

definition close :: "'k channel_env \<Rightarrow> int \<Rightarrow> status_code \<Rightarrow> ('b, 'k) channel \<Rightarrow> ('b, 'k) channel result" where
  "close env now statusCode st =
     (let st1 = cancel_security_token_watchdog (cancelPendingTransactions env now st);
          st2 = st1\<lparr>cc_normalClose := True\<rparr>
      in if (case cc_transport st2 of None \<Rightarrow> True | Some tr \<Rightarrow> transport_isDisconnecting tr \<or> \<not> cc_isOpened st2)
         then Inr (abortConnection CloseAborted st2)
         else perform env now CloseChannel CLO 0 statusCode st2)"

definition security_token_about_to_expire :: "('b, 'k) channel \<Rightarrow> ('b, 'k) channel" where
  "security_token_about_to_expire st =
     (case cc_watchdog st of
        None \<Rightarrow> st
      | Some (securityToken, _) \<Rightarrow> later Renew (emit (Lifetime75 securityToken) (st\<lparr>cc_watchdog := None\<rparr>)))"

text \<open>After \<^verbatim>\<open>beforeSecurityRenew\<close>, which may fail (\<open>ok\<close>).\<close>

definition renew_security_token ::
    "'k channel_env \<Rightarrow> int \<Rightarrow> bool \<Rightarrow> byte list option \<Rightarrow> status_code \<Rightarrow> ('b, 'k) channel \<Rightarrow> ('b, 'k) channel result" where
  "renew_security_token env now ok clientNonce statusCode st =
     (if \<not> ok \<or> \<not> isValid st then Inr st
      else send_open_secure_channel_request env now False clientNonce statusCode st)"

section \<open>Runs\<close>

text \<open>What can happen to a channel. The nonce and the status are those of the request the step sends, if
  it sends one.\<close>

datatype 'b channel_step =
    Perform nat status_code
  | TimerFires nat
  | WatchdogFires
  | RunTask nat bool "byte list option" status_code
  | Receive nat "'b response"
  | ReceiveAbandon nat "nat option"
  | ReceiveError "nat option"
  | SocketDestroyed
  | SocketClosed "channel_error option"
  | ConnectionBreak
  | CloseChannelRequested status_code

definition run_task ::
    "'k channel_env \<Rightarrow> int \<Rightarrow> task \<Rightarrow> bool \<Rightarrow> byte list option \<Rightarrow> status_code \<Rightarrow> ('b, 'k) channel \<Rightarrow> ('b, 'k) channel result" where
  "run_task env now task ok clientNonce statusCode st =
     (case task of
        SendOpen \<Rightarrow> send_open_secure_channel_request env now True clientNonce statusCode st
      | Renew \<Rightarrow> renew_security_token env now ok clientNonce statusCode st
      | NotConnected t \<Rightarrow> Inr (modified_callback env now t (Some ClientNotConnected) None st)
      | CloTimer t \<Rightarrow> Inr (clo_timer env now t st)
      | AbortStep k \<Rightarrow> Inr (abort_step k st)
      | Continue k \<Rightarrow> Inr (continue k st))"

definition remove_task :: "nat \<Rightarrow> ('b, 'k) channel \<Rightarrow> ('b, 'k) channel" where
  "remove_task i st = st\<lparr>cc_tasks := take i (cc_tasks st) @ drop (Suc i) (cc_tasks st)\<rparr>"

fun step_channel ::
    "'k channel_env \<Rightarrow> int \<times> 'b channel_step \<Rightarrow> ('b, 'k) channel \<Rightarrow> ('b, 'k) channel result" where
  "step_channel env (now, Perform timeoutHint statusCode) st = perform env now User MSG timeoutHint statusCode st"
| "step_channel env (now, TimerFires t) st = Inr (transaction_timer env now t st)"
| "step_channel env (now, WatchdogFires) st = Inr (security_token_about_to_expire st)"
| "step_channel env (now, RunTask i ok clientNonce statusCode) st =
     (if i < length (cc_tasks st) then run_task env now (cc_tasks st ! i) ok clientNonce statusCode (remove_task i st) else Inr st)"
| "step_channel env (now, Receive requestId response) st =
     (if cc_hasReceivedError st then Inr st else on_message_received env now response requestId st)"
| "step_channel env (now, ReceiveAbandon requestId current) st =
     Inr (if cc_hasReceivedError st then st else receive_abandon env now requestId current st)"
| "step_channel env (now, ReceiveError current) st =
     Inr (if cc_hasReceivedError st then st else report_error env now current st)"
| "step_channel env (now, SocketDestroyed) st =
     Inr (st\<lparr>cc_transport := map_option (\<lambda>tr. if ts_socket tr = Live then tr\<lparr>ts_socket := Destroyed\<rparr> else tr) (cc_transport st)\<rparr>)"
| "step_channel env (now, SocketClosed err) st = socket_closed env now err st"
| "step_channel env (now, ConnectionBreak) st = on_transport_closed env now (Some ConnectionBroken) st"
| "step_channel env (now, CloseChannelRequested statusCode) st = close env now statusCode st"

fun channel_run ::
    "'k channel_env \<Rightarrow> (int \<times> 'b channel_step) list \<Rightarrow> ('b, 'k) channel \<Rightarrow> ('b, 'k) channel result" where
  "channel_run env [] st = Inr st"
| "channel_run env (s # steps) st = rbind (step_channel env s st) (channel_run env steps)"

end
