(* ===== verification/Client_Transactions.thy ===== *)
theory Client_Transactions
  imports Client_Channel
begin

text \<open>
  What a client channel guarantees to those who wait for its transactions: nothing it does fails an
  assertion, a transaction is answered once and, until then, is registered under its request id with its
  timer armed. The operations that only touch the connection keep the transactions (\<open>frame\<close>), so
  that the invariant has to be looked at in \<open>modified_callback\<close> and in what registers a transaction.
\<close>

section \<open>What leaves the transactions alone\<close>

fun is_answer :: "nat \<Rightarrow> 'b channel_event \<Rightarrow> bool" where
  "is_answer t (Answered t' err response) = (t' = t)"
| "is_answer t _ = False"

definition answers :: "nat \<Rightarrow> ('b, 'k) channel \<Rightarrow> nat" where
  "answers t st = length (filter (is_answer t) (cc_log st))"

definition frame :: "('b, 'k) channel \<Rightarrow> ('b, 'k) channel \<Rightarrow> bool" where
  "frame st st' \<longleftrightarrow>
     cc_requests st' = cc_requests st \<and> cc_transactions st' = cc_transactions st \<and>
     cc_lastRequestId st' = cc_lastRequestId st \<and> (\<forall>t. answers t st' = answers t st) \<and>
     set (cc_tasks st') \<subseteq> set (cc_tasks st) \<union> range AbortStep"

named_theorems frames \<open>operations that keep the transactions\<close>

lemma frame_refl [simp]: "frame st st" by (simp add: frame_def)

lemma frame_trans: "frame st st' \<Longrightarrow> frame st' st'' \<Longrightarrow> frame st st''"
  unfolding frame_def by (auto simp: subset_iff)

lemma answers_emit [simp]: "answers t (emit e st) = answers t st + (if is_answer t e then 1 else 0)"
  by (simp add: answers_def emit_def)

lemma emit_fields [simp]:
  "cc_requests (emit e st) = cc_requests st" "cc_transactions (emit e st) = cc_transactions st"
  "cc_lastRequestId (emit e st) = cc_lastRequestId st" "cc_tasks (emit e st) = cc_tasks st"
  "cc_watchdog (emit e st) = cc_watchdog st" "cc_transport (emit e st) = cc_transport st"
  "cc_isDisconnecting (emit e st) = cc_isDisconnecting st" "cc_tokens (emit e st) = cc_tokens st"
  "cc_activeToken (emit e st) = cc_activeToken st" "cc_normalClose (emit e st) = cc_normalClose st"
  "cc_hasReceivedError (emit e st) = cc_hasReceivedError st" "cc_closeEmitted (emit e st) = cc_closeEmitted st"
  by (simp_all add: emit_def)

lemma frame_emit [frames]: "(\<forall>t. \<not> is_answer t e) \<Longrightarrow> frame st (emit e st)"
  by (simp add: frame_def)

lemma frame_dispose [frames]: "frame st (dispose st)"
  by (auto simp: dispose_def dispose_transports_def cancel_security_token_watchdog_def later_def frame_def answers_def Let_def)

lemma frame_continue [frames]: "frame st (continue k st)"
  using frame_dispose [of st] by (cases k) (auto simp: frame_def)

lemma frame_abortConnection [frames]: "frame st (abortConnection k st)"
proof (cases "cc_isDisconnecting st")
  case True
  then show ?thesis by (simp add: abortConnection_def frame_continue)
next
  case False
  then show ?thesis by (auto simp: abortConnection_def later_def frame_def answers_def)
qed

lemma frame_disconnect [frames]: "frame st (disconnect tr k st)"
proof -
  have 1: "frame st (st\<lparr>cc_transport := u\<rparr>)" for u by (simp add: frame_def answers_def)
  have 2: "frame st (st\<lparr>cc_transport := u, cc_afterClose := v\<rparr>)" for u v by (simp add: frame_def answers_def)
  show ?thesis using frame_trans [OF 1 frame_continue] 2 by (simp add: disconnect_def)
qed

lemma frame_abort_step [frames]: "frame st (abort_step k st)"
  by (simp add: abort_step_def frame_continue frame_disconnect split: option.splits)

lemma frame_closing [frames]: "frame st (closing_callback st)"
  unfolding closing_callback_def by (cases "cc_transport st") (simp_all add: frames del: continue.simps)

lemma frame_open_done [frames]: "frame st (open_done isInitial err st)"
  by (simp add: open_done_def frame_def)

lemma frame_accept_token: "frame st (accept_token env now isInitial token keys st)"
proof -
  have f: "frame st (st\<lparr>cc_tokens := ts, cc_log := cc_log st @ [TokenCreated k], cc_watchdog := w, cc_activeToken := a, cc_isOpened := b\<rparr>)"
    "frame st (st\<lparr>cc_tokens := ts, cc_log := cc_log st @ [TokenCreated k]\<rparr>)" for ts w a b k
    by (simp_all add: frame_def answers_def)
  show ?thesis
    using frame_trans [OF f(1) frame_open_done] frame_trans [OF f(2) frame_emit] frame_emit [of "CallbackThrew _" st]
    by (simp add: accept_token_def Let_def install_security_token_watchdog_def assert_js_def emit_def split: sum.split)
qed

lemma frame_token_received: "frame st (token_received env now isInitial nonce start token serverNonce st)"
proof -
  have f: "frame st (st\<lparr>cc_channelId := c, cc_timeDrift := d\<rparr>)" for c d by (simp add: frame_def answers_def)
  show ?thesis
    using frame_trans [OF f frame_open_done] frame_trans [OF f frame_accept_token]
    by (simp add: token_received_def Let_def split: sum.split)
qed

lemma frame_opening [frames]: "frame st (opening_callback env now isInitial nonce start err response st)"
  by (auto simp: opening_callback_def Let_def frame_open_done frame_token_received frame_emit split: option.split response_body.split)

lemma frame_callback [frames]: "frame st (run_callback env now c err response st)"
  by (cases c) (simp_all add: frames)

lemma callback_fields [simp]:
  "cc_transactions (run_callback env now c err response st) = cc_transactions st"
  "cc_requests (run_callback env now c err response st) = cc_requests st"
  using frame_callback [of st env now c err response] by (simp_all add: frame_def)

section \<open>The invariant\<close>

fun task_ok :: "nat \<Rightarrow> task \<Rightarrow> bool" where
  "task_ok n (NotConnected t) = False"
| "task_ok n (CloTimer t) = (t < n)"
| "task_ok n _ = True"

text \<open>The transactions of \<open>E\<close> are being answered.\<close>

definition transactions_ok :: "nat set \<Rightarrow> ('b, 'k) channel \<Rightarrow> bool" where
  "transactions_ok E st \<longleftrightarrow>
     distinct (map fst (cc_requests st)) \<and>
     (\<forall>(i, t) \<in> set (cc_requests st). i \<le> cc_lastRequestId st \<and> t < length (cc_transactions st) \<and>
        tx_requestHandle (cc_transactions st ! t) = i \<and>
        (t \<notin> E \<longrightarrow> tx_local (cc_transactions st ! t) \<and> tx_timer (cc_transactions st ! t) \<and> tx_callback (cc_transactions st ! t))) \<and>
     (\<forall>t < length (cc_transactions st). t \<notin> E \<longrightarrow> tx_local (cc_transactions st ! t) \<longrightarrow>
        (tx_requestHandle (cc_transactions st ! t), t) \<in> set (cc_requests st)) \<and>
     inj_on (\<lambda>t. tx_requestHandle (cc_transactions st ! t)) {t. t < length (cc_transactions st) \<and> tx_local (cc_transactions st ! t)} \<and>
     (\<forall>t. answers t st = (if t < length (cc_transactions st) \<and> \<not> tx_local (cc_transactions st ! t) then 1 else 0)) \<and>
     (\<forall>k \<in> set (cc_tasks st). task_ok (length (cc_transactions st)) k)"

abbreviation transactions_wf :: "('b, 'k) channel \<Rightarrow> bool" where
  "transactions_wf \<equiv> transactions_ok {}"

lemma task_ok_AbortStep: "k \<in> range AbortStep \<Longrightarrow> task_ok n k" by auto

lemma frame_ok: "frame st st' \<Longrightarrow> transactions_ok E st \<Longrightarrow> transactions_ok E st'"
  unfolding frame_def transactions_ok_def using task_ok_AbortStep by (simp add: subset_iff) blast

lemma transactions_ok_mono: "transactions_ok E st \<Longrightarrow> E \<subseteq> E' \<Longrightarrow> transactions_ok E' st"
  unfolding transactions_ok_def by (auto simp: subset_iff)

lemma okD:
  assumes "transactions_ok E st"
  shows "distinct (map fst (cc_requests st))"
    and "(i, t) \<in> set (cc_requests st) \<Longrightarrow> i \<le> cc_lastRequestId st \<and> t < length (cc_transactions st) \<and>
           tx_requestHandle (cc_transactions st ! t) = i"
    and "(i, t) \<in> set (cc_requests st) \<Longrightarrow> t \<notin> E \<Longrightarrow>
           tx_local (cc_transactions st ! t) \<and> tx_timer (cc_transactions st ! t) \<and> tx_callback (cc_transactions st ! t)"
    and "t < length (cc_transactions st) \<Longrightarrow> t \<notin> E \<Longrightarrow> tx_local (cc_transactions st ! t) \<Longrightarrow>
           (tx_requestHandle (cc_transactions st ! t), t) \<in> set (cc_requests st)"
    and "inj_on (\<lambda>t. tx_requestHandle (cc_transactions st ! t)) {t. t < length (cc_transactions st) \<and> tx_local (cc_transactions st ! t)}"
    and "answers t st = (if t < length (cc_transactions st) \<and> \<not> tx_local (cc_transactions st ! t) then 1 else 0)"
    and "k \<in> set (cc_tasks st) \<Longrightarrow> task_ok (length (cc_transactions st)) k"
  using assms unfolding transactions_ok_def by blast+

text \<open>Answering a transaction: the one that is being answered is registered, or was until just now.\<close>

lemma modified_callback_ok:
  assumes ok: "transactions_ok {t} st" and t: "t < length (cc_transactions st)" "tx_local (cc_transactions st ! t)"
    and eq: "st' = modified_callback env now t err response st"
  shows "transactions_wf st'"
    and "cc_requests st' = AList.delete (tx_requestHandle (cc_transactions st ! t)) (cc_requests st)"
    and "length (cc_transactions st') = length (cc_transactions st)"
    and "\<not> tx_local (cc_transactions st' ! t)"
    and "u \<noteq> t \<Longrightarrow> cc_transactions st' ! u = cc_transactions st ! u"
    and "tx_requestHandle (cc_transactions st' ! u) = tx_requestHandle (cc_transactions st ! u)"
proof -
  let ?h = "tx_requestHandle (cc_transactions st ! t)"
  define s1 where "s1 = set_transaction t (\<lambda>tx. tx\<lparr>tx_timer := False\<rparr>) st"
  define s2 where "s2 = emit (Answered t err response) (s1\<lparr>cc_requests := AList.delete ?h (cc_requests s1)\<rparr>)"
  define s3 where "s3 = run_callback env now (tx_caller (cc_transactions st ! t)) err response s2"
  have st': "st' = set_transaction t (\<lambda>tx. tx\<lparr>tx_local := False\<rparr>) s3"
    using t by (simp add: eq modified_callback_def Let_def s1_def s2_def s3_def)
  have f: "frame s2 s3" unfolding s3_def by (rule frame_callback)
  have tx: "cc_transactions s2 = (cc_transactions st)[t := (cc_transactions st ! t)\<lparr>tx_timer := False\<rparr>]"
    by (simp add: s1_def s2_def set_transaction_def)
  have tx3: "cc_transactions s3 = cc_transactions s2" using f by (simp add: frame_def)
  have tx': "cc_transactions st' = (cc_transactions st)[t := (cc_transactions st ! t)\<lparr>tx_timer := False, tx_local := False\<rparr>]"
    using t by (simp add: st' set_transaction_def tx3 tx)
  have r': "cc_requests st' = AList.delete ?h (cc_requests st)"
    using f by (simp add: st' set_transaction_def frame_def s1_def s2_def)
  have l': "cc_lastRequestId st' = cc_lastRequestId st"
    using f by (simp add: st' set_transaction_def frame_def s1_def s2_def)
  have a': "answers u st' = answers u st + (if u = t then 1 else 0)" for u
  proof -
    have "answers u st' = answers u s3" by (simp add: st' set_transaction_def answers_def)
    also have "\<dots> = answers u s2" using f by (simp add: frame_def)
    also have "\<dots> = answers u st + (if u = t then 1 else 0)" by (simp add: s1_def s2_def set_transaction_def answers_def emit_def)
    finally show ?thesis .
  qed
  have k': "set (cc_tasks st') \<subseteq> set (cc_tasks st) \<union> range AbortStep"
    using f by (simp add: st' set_transaction_def frame_def s1_def s2_def)
  show "cc_requests st' = AList.delete ?h (cc_requests st)" by (rule r')
  show "length (cc_transactions st') = length (cc_transactions st)" by (simp add: tx')
  show "\<not> tx_local (cc_transactions st' ! t)" using t by (simp add: tx')
  show "u \<noteq> t \<Longrightarrow> cc_transactions st' ! u = cc_transactions st ! u" by (simp add: tx')
  show "tx_requestHandle (cc_transactions st' ! u) = tx_requestHandle (cc_transactions st ! u)"
    using t by (cases "u = t") (simp_all add: tx')
  note D = okD [OF ok]
  have reg: "i \<le> cc_lastRequestId st' \<and> u < length (cc_transactions st') \<and> tx_requestHandle (cc_transactions st' ! u) = i \<and>
        tx_local (cc_transactions st' ! u) \<and> tx_timer (cc_transactions st' ! u) \<and> tx_callback (cc_transactions st' ! u)"
    if m: "(i, u) \<in> set (cc_requests st')" for i u
  proof -
    have m': "(i, u) \<in> set (cc_requests st)" "i \<noteq> ?h" using m by (auto simp: r' set_delete)
    then have "u \<noteq> t" using D(2) by blast
    then show ?thesis using D(2,3) [OF m'(1)] by (simp add: tx' l')
  qed
  have pend: "(tx_requestHandle (cc_transactions st' ! u), u) \<in> set (cc_requests st')"
    if u: "u < length (cc_transactions st')" "tx_local (cc_transactions st' ! u)" for u
  proof -
    have ne: "u \<noteq> t" using u t by (auto simp: tx')
    then have m: "(tx_requestHandle (cc_transactions st ! u), u) \<in> set (cc_requests st)"
      using D(4) [of u] u by (simp add: tx')
    have "tx_requestHandle (cc_transactions st ! u) \<noteq> ?h"
      using inj_onD [OF D(5), of u t] u t ne by (auto simp: tx')
    then show ?thesis using m ne by (simp add: tx' r' set_delete)
  qed
  have inj: "inj_on (\<lambda>u. tx_requestHandle (cc_transactions st' ! u)) {u. u < length (cc_transactions st') \<and> tx_local (cc_transactions st' ! u)}"
  proof (rule inj_onI)
    fix u v assume a: "u \<in> {u. u < length (cc_transactions st') \<and> tx_local (cc_transactions st' ! u)}"
      "v \<in> {u. u < length (cc_transactions st') \<and> tx_local (cc_transactions st' ! u)}"
      "tx_requestHandle (cc_transactions st' ! u) = tx_requestHandle (cc_transactions st' ! v)"
    then have "u \<noteq> t" "v \<noteq> t" using t by (auto simp: tx')
    then show "u = v" using inj_onD [OF D(5), of u v] a by (simp add: tx')
  qed
  have d: "distinct (map fst (cc_requests st'))" using D(1) by (simp add: r' distinct_delete)
  have a: "answers u st' = (if u < length (cc_transactions st') \<and> \<not> tx_local (cc_transactions st' ! u) then 1 else 0)" for u
    using a' [of u] D(6) [of u] t by (cases "u = t") (simp_all add: tx')
  have k: "task_ok (length (cc_transactions st')) k" if "k \<in> set (cc_tasks st')" for k
    using that k' D(7) task_ok_AbortStep by (fastforce simp: tx')
  show "transactions_wf st'"
    unfolding transactions_ok_def using d reg pend inj a k by blast
qed


lemma set_transaction_nth:
  "cc_transactions (set_transaction t f st) ! u =
     (if u = t \<and> t < length (cc_transactions st) then f (cc_transactions st ! t) else cc_transactions st ! u)"
  by (cases "t < length (cc_transactions st)") (auto simp: set_transaction_def list_update_beyond)

lemma set_transaction_ok:
  assumes ok: "transactions_ok E st" and t: "t \<in> E \<or> \<not> tx_local (cc_transactions st ! t)"
    and f: "\<And>tx. tx_local (f tx) = tx_local tx" "\<And>tx. tx_requestHandle (f tx) = tx_requestHandle tx"
  shows "transactions_ok E (set_transaction t f st)"
proof -
  let ?st = "set_transaction t f st"
  note D = okD [OF ok]
  have l: "tx_local (cc_transactions ?st ! u) = tx_local (cc_transactions st ! u)"
    "tx_requestHandle (cc_transactions ?st ! u) = tx_requestHandle (cc_transactions st ! u)" for u
    by (simp_all add: set_transaction_nth f)
  have s: "length (cc_transactions ?st) = length (cc_transactions st)" "cc_requests ?st = cc_requests st"
    "cc_lastRequestId ?st = cc_lastRequestId st" "cc_tasks ?st = cc_tasks st" "answers u ?st = answers u st" for u
    by (simp_all add: set_transaction_def answers_def)
  have reg: "i \<le> cc_lastRequestId st \<and> u < length (cc_transactions st) \<and> tx_requestHandle (cc_transactions st ! u) = i \<and>
      (u \<notin> E \<longrightarrow> tx_local (cc_transactions st ! u) \<and> tx_timer (cc_transactions ?st ! u) \<and> tx_callback (cc_transactions ?st ! u))"
    if "(i, u) \<in> set (cc_requests st)" for i u
    using D(2,3) [OF that] t by (auto simp: set_transaction_nth)
  show ?thesis unfolding transactions_ok_def s l using D(1,4,5,6,7) reg by blast
qed

lemma process_request_callback_ok:
  assumes ok: "transactions_ok {t} st" and t: "t < length (cc_transactions st)" "tx_local (cc_transactions st ! t)"
    and c: "tx_callback (cc_transactions st ! t)" and r: "err = None \<or> response = None"
  obtains st' where "process_request_callback env now t err response st = Inr st'" "transactions_wf st'"
    "cc_requests st' = AList.delete (tx_requestHandle (cc_transactions st ! t)) (cc_requests st)"
    "length (cc_transactions st') = length (cc_transactions st)" "\<not> tx_local (cc_transactions st' ! t)"
    "\<And>u. u \<noteq> t \<Longrightarrow> cc_transactions st' ! u = cc_transactions st ! u"
proof -
  let ?st = "set_transaction t (\<lambda>tx. tx\<lparr>tx_callback := False\<rparr>) st"
  have l: "length (cc_transactions ?st) = length (cc_transactions st)" "tx_local (cc_transactions ?st ! t)"
    "tx_requestHandle (cc_transactions ?st ! t) = tx_requestHandle (cc_transactions st ! t)"
    "cc_requests ?st = cc_requests st" "\<And>u. u \<noteq> t \<Longrightarrow> cc_transactions ?st ! u = cc_transactions st ! u"
    using t by (simp_all add: set_transaction_def)
  have "\<exists>e x. process_request_callback env now t err response st = Inr (modified_callback env now t e x ?st)"
  proof (cases response)
    case None
    then show ?thesis using c
      by (cases err; cases "tx_msgType (cc_transactions st ! t) = CLO") (auto simp: process_request_callback_def Let_def)
  next
    case (Some x)
    then show ?thesis using c r
      by (cases "rs_body x = ServiceFault") (auto simp: process_request_callback_def Let_def)
  qed
  then obtain e x where "process_request_callback env now t err response st = Inr (modified_callback env now t e x ?st)"
    by blast
  then show thesis
    using that modified_callback_ok [OF set_transaction_ok [OF ok, of t "\<lambda>tx. tx\<lparr>tx_callback := False\<rparr>"] _ _ refl] t l by simp
qed


lemma requested:
  assumes ok: "transactions_wf st" and m: "map_of (cc_requests st) i = Some t"
  shows "t < length (cc_transactions st)" "tx_local (cc_transactions st ! t)" "tx_callback (cc_transactions st ! t)"
    "tx_requestHandle (cc_transactions st ! t) = i" "transactions_ok {t} (st\<lparr>cc_requests := AList.delete i (cc_requests st)\<rparr>)"
proof -
  note D = okD [OF ok]
  have m': "(i, t) \<in> set (cc_requests st)" using m by (rule map_of_SomeD)
  show t: "t < length (cc_transactions st)" "tx_local (cc_transactions st ! t)" "tx_callback (cc_transactions st ! t)"
    "tx_requestHandle (cc_transactions st ! t) = i"
    using D(2,3) [OF m'] by simp_all
  have "(tx_requestHandle (cc_transactions st ! u), u) \<in> set (AList.delete i (cc_requests st))"
    if "u < length (cc_transactions st)" "u \<noteq> t" "tx_local (cc_transactions st ! u)" for u
    using D(4) [of u] that inj_onD [OF D(5), of u t] t by (auto simp: set_delete)
  then show "transactions_ok {t} (st\<lparr>cc_requests := AList.delete i (cc_requests st)\<rparr>)"
    using ok unfolding transactions_ok_def answers_def by (auto simp: set_delete distinct_delete)
qed

lemma on_message_received_ok:
  assumes "transactions_wf st"
  obtains st' where "on_message_received env now response requestId st = Inr st'" "transactions_wf st'"
proof -
  define st1 where "st1 = (case rs_body response of
                   OpenSecureChannelResponse token _ \<Rightarrow>
                     if cc_channelId st = 0 then st\<lparr>cc_channelId := tk_channelId token\<rparr> else st
                 | _ \<Rightarrow> st)"
  have "frame st st1" by (simp add: st1_def frame_def answers_def split: response_body.split)
  then have ok: "transactions_wf st1" using frame_ok assms by blast
  show thesis
  proof (cases "map_of (cc_requests st1) requestId")
    case None
    have "transactions_wf (emit (InvalidRequestId requestId) st1)" by (rule frame_ok [OF frame_emit ok]) simp
    then show thesis using that ok None by (simp add: on_message_received_def Let_def st1_def)
  next
    case (Some t)
    note R = requested [OF ok Some]
    show thesis
      by (rule process_request_callback_ok [OF R(5), where err = None and response = "Some response" and env = env and now = now])
        (use R Some that in \<open>simp_all add: on_message_received_def Let_def st1_def\<close>)
  qed
qed

lemma on_abandon_ok: "transactions_wf st \<Longrightarrow> on_abandon env now requestId st = Inr st' \<Longrightarrow> transactions_wf st'"
  by (auto simp: on_abandon_def Let_def requested(3) split: option.splits
           intro!: modified_callback_ok(1) [OF requested(5) _ _ refl] dest: requested(1,2))

lemma on_builder_error_ok:
  assumes "transactions_wf st" shows "transactions_wf (on_builder_error env now requestId st)"
  using assms
  by (auto simp: on_builder_error_def Let_def requested(3) closeWithError_def split: option.splits
           intro!: frame_ok [OF frame_dispose] modified_callback_ok(1) [OF requested(5) _ _ refl] dest: requested(1,2))

lemma receive_abandon_ok:
  assumes "transactions_wf st" shows "transactions_wf (receive_abandon env now requestId current st)"
proof -
  have ok: "transactions_wf (st\<lparr>cc_hasReceivedError := b\<rparr>)" for b
    by (rule frame_ok [OF _ assms]) (simp add: frame_def answers_def)
  have "transactions_wf (report_error env now current (st\<lparr>cc_hasReceivedError := False\<rparr>))"
    using on_builder_error_ok [OF ok] by (simp add: report_error_def)
  then show ?thesis using on_abandon_ok [OF ok] by (auto simp: receive_abandon_def Let_def split: sum.split)
qed


lemma task_ok_mono: "task_ok n k \<Longrightarrow> n \<le> m \<Longrightarrow> task_ok m k"
  by (cases k) auto

lemma later_ok: "transactions_wf st \<Longrightarrow> task_ok (length (cc_transactions st)) k \<Longrightarrow> transactions_wf (later k st)"
  unfolding transactions_ok_def later_def answers_def by auto

lemma sendSecureOpcUARequest_ok:
  assumes "transactions_wf st" "t < length (cc_transactions st)"
  obtains st' where "sendSecureOpcUARequest env now t statusCode st = Inr st'" "transactions_wf st'"
proof (cases "statusCode = Good")
  case True
  then show thesis using that assms later_ok [OF assms(1), of "CloTimer t"] by (simp add: sendSecureOpcUARequest_def)
next
  case False
  then show thesis
    using on_message_received_ok [OF assms(1), where env = env and now = now] that by (metis sendSecureOpcUARequest_def)
qed

text \<open>A new transaction, armed and registered under a fresh id.\<close>

lemma register_ok:
  assumes ok: "transactions_wf st"
    and tx: "tx_local tx" "tx_timer tx" "tx_callback tx" "tx_requestHandle tx = Suc (cc_lastRequestId st)"
    and st': "cc_transactions st' = cc_transactions st @ [tx]" "cc_lastRequestId st' = Suc (cc_lastRequestId st)"
      "cc_requests st' = AList.update (Suc (cc_lastRequestId st)) (length (cc_transactions st)) (cc_requests st)"
      "cc_tasks st' = cc_tasks st" "cc_log st' = cc_log st"
  shows "transactions_wf st'"
proof -
  note D = okD [OF ok]
  let ?i = "Suc (cc_lastRequestId st)"
  have fresh: "?i \<notin> fst ` set (cc_requests st)" using D(2) by fastforce
  have u: "cc_requests st' = cc_requests st @ [(?i, length (cc_transactions st))]"
    by (simp add: st' update_fresh [OF fresh])
  have n: "cc_transactions st' ! v = (if v < length (cc_transactions st) then cc_transactions st ! v else tx)"
    if "v < length (cc_transactions st')" for v
    using that by (auto simp: st' nth_append less_Suc_eq)
  have small: "tx_requestHandle (cc_transactions st ! v) \<le> cc_lastRequestId st"
    if "v < length (cc_transactions st)" "tx_local (cc_transactions st ! v)" for v
    using D(4) [of v] D(2) that by blast
  have reg: "\<forall>(i, v) \<in> set (cc_requests st'). i \<le> cc_lastRequestId st' \<and> v < length (cc_transactions st') \<and>
      tx_requestHandle (cc_transactions st' ! v) = i \<and> (v \<notin> {} \<longrightarrow> tx_local (cc_transactions st' ! v) \<and>
      tx_timer (cc_transactions st' ! v) \<and> tx_callback (cc_transactions st' ! v))"
    using D(2,3) tx by (fastforce simp: u st' nth_append)
  have inj: "inj_on (\<lambda>v. tx_requestHandle (cc_transactions st' ! v)) {v. v < length (cc_transactions st') \<and> tx_local (cc_transactions st' ! v)}"
  proof (rule inj_onI)
    fix v w assume a: "v \<in> {v. v < length (cc_transactions st') \<and> tx_local (cc_transactions st' ! v)}"
      "w \<in> {v. v < length (cc_transactions st') \<and> tx_local (cc_transactions st' ! v)}"
      "tx_requestHandle (cc_transactions st' ! v) = tx_requestHandle (cc_transactions st' ! w)"
    then show "v = w" using inj_onD [OF D(5), of v w] n [of v] n [of w] small [of v] small [of w] tx(4) st'(1)
      by (auto split: if_splits)
  qed
  have "answers v st' = (if v < length (cc_transactions st') \<and> \<not> tx_local (cc_transactions st' ! v) then 1 else 0)" for v
    using D(6) [of v] n [of v] tx(1) by (auto simp: st' answers_def)
  moreover have "\<forall>k \<in> set (cc_tasks st'). task_ok (length (cc_transactions st')) k"
    using D(7) task_ok_mono by (fastforce simp: st')
  moreover have "(tx_requestHandle (cc_transactions st' ! v), v) \<in> set (cc_requests st')"
    if "v < length (cc_transactions st')" "tx_local (cc_transactions st' ! v)" for v
    using D(4) [of v] n [of v] that tx(4) by (auto simp: u st' less_Suc_eq)
  moreover have "distinct (map fst (cc_requests st'))" using D(1) fresh by (simp add: u)
  ultimately show ?thesis unfolding transactions_ok_def using inj reg by blast
qed

lemma refused_ok:
  assumes ok: "transactions_wf st" and tx: "\<not> tx_local tx"
    and st': "cc_transactions st' = cc_transactions st @ [tx]" "cc_lastRequestId st' = cc_lastRequestId st"
      "cc_requests st' = cc_requests st" "cc_tasks st' = cc_tasks st"
      "cc_log st' = cc_log st @ [Answered (length (cc_transactions st)) err response]"
  shows "transactions_wf st'"
proof -
  note D = okD [OF ok]
  have n: "cc_transactions st' ! v = (if v < length (cc_transactions st) then cc_transactions st ! v else tx)"
    if "v < length (cc_transactions st')" for v
    using that by (auto simp: st' nth_append less_Suc_eq)
  have "answers v st' = (if v < length (cc_transactions st') \<and> \<not> tx_local (cc_transactions st' ! v) then 1 else 0)" for v
    using D(6) [of v] n [of v] tx by (auto simp: st' answers_def)
  moreover have "{v. v < length (cc_transactions st') \<and> tx_local (cc_transactions st' ! v)} =
      {v. v < length (cc_transactions st) \<and> tx_local (cc_transactions st ! v)}"
    using n tx by (auto simp: st' less_Suc_eq)
  moreover have "inj_on (\<lambda>v. tx_requestHandle (cc_transactions st' ! v)) {v. v < length (cc_transactions st) \<and> tx_local (cc_transactions st ! v)}"
    using D(5) n by (simp add: inj_on_def st')
  moreover have "\<forall>k \<in> set (cc_tasks st'). task_ok (length (cc_transactions st')) k"
    using D(7) task_ok_mono by (fastforce simp: st')
  moreover have "\<forall>(i, v) \<in> set (cc_requests st'). i \<le> cc_lastRequestId st' \<and> v < length (cc_transactions st') \<and>
      tx_requestHandle (cc_transactions st' ! v) = i \<and> (v \<notin> {} \<longrightarrow> tx_local (cc_transactions st' ! v) \<and>
      tx_timer (cc_transactions st' ! v) \<and> tx_callback (cc_transactions st' ! v))"
    using D(2,3) by (fastforce simp: st' nth_append)
  moreover have "(tx_requestHandle (cc_transactions st' ! v), v) \<in> set (cc_requests st')"
    if "v < length (cc_transactions st')" "tx_local (cc_transactions st' ! v)" for v
    using D(4) [of v] n [of v] that tx by (auto simp: st' less_Suc_eq)
  ultimately show ?thesis unfolding transactions_ok_def using D(1) st'(3) by simp
qed

lemma perform_ok:
  assumes ok: "transactions_wf st"
  obtains st' where "perform env now c msgType timeoutHint statusCode st = Inr st'" "transactions_wf st'"
proof (cases "isValid st")
  case True
  define tx where "tx = \<lparr>tx_caller = c, tx_msgType = msgType, tx_requestHandle = Suc (cc_lastRequestId st),
     tx_timeout = adjustRequestTimeout env timeoutHint, tx_local = True, tx_timer = True, tx_callback = True\<rparr>"
  define st2 where "st2 = st\<lparr>cc_lastRequestId := Suc (cc_lastRequestId st), cc_transactions := cc_transactions st @ [tx],
     cc_requests := AList.update (Suc (cc_lastRequestId st)) (length (cc_transactions st)) (cc_requests st)\<rparr>"
  have p: "perform env now c msgType timeoutHint statusCode st =
      sendSecureOpcUARequest env now (length (cc_transactions st)) statusCode st2"
    using True
    by (cases "cc_transport st")
      (simp_all add: isValid_def perform_def internal_perform_transaction_def makeRequestId_def set_transaction_def Let_def st2_def tx_def)
  have "transactions_wf st2"
    by (rule register_ok [OF ok, of tx]) (simp_all add: tx_def st2_def)
  moreover have "length (cc_transactions st) < length (cc_transactions st2)" by (simp add: st2_def)
  ultimately show thesis using that sendSecureOpcUARequest_ok unfolding p by metis
next
  case False
  define tx where "tx = \<lparr>tx_caller = c, tx_msgType = msgType, tx_requestHandle = requestHandleNotSetValue,
     tx_timeout = adjustRequestTimeout env timeoutHint, tx_local = False, tx_timer = False, tx_callback = False\<rparr>"
  define st2 where "st2 = emit (Answered (length (cc_transactions st)) (Some SocketIsClosed) None)
     (st\<lparr>cc_transactions := cc_transactions st @ [tx]\<rparr>)"
  have p: "perform env now c msgType timeoutHint statusCode st = Inr (run_callback env now c (Some SocketIsClosed) None st2)"
    using False by (simp add: perform_def Let_def st2_def tx_def)
  have "transactions_wf st2"
    by (rule refused_ok [OF ok, of tx]) (simp_all add: tx_def st2_def emit_def)
  then show thesis using that p frame_ok [OF frame_callback] by metis
qed

lemma open_request_ok:
  assumes ok: "transactions_wf st"
  obtains st' where "send_open_secure_channel_request env now isInitial nonce statusCode st = Inr st'" "transactions_wf st'"
proof (cases "ch_policyKnown env")
  case True
  have "transactions_wf (st\<lparr>cc_isOpened := \<not> isInitial\<rparr>)"
    by (rule frame_ok [OF _ ok]) (simp add: frame_def answers_def)
  then show thesis using that True perform_ok by (metis send_open_secure_channel_request_def)
next
  case False
  then show thesis using that frame_ok [OF frame_open_done ok] by (simp add: send_open_secure_channel_request_def)
qed

section \<open>Timers and the end of the connection\<close>

lemma modified_callback_wf:
  assumes ok: "transactions_wf st" and t: "t < length (cc_transactions st)"
  shows "transactions_wf (modified_callback env now t err response st)"
proof (cases "tx_local (cc_transactions st ! t)")
  case True
  then show ?thesis using modified_callback_ok(1) [OF transactions_ok_mono [OF ok] t True refl] by blast
next
  case False
  then show ?thesis using ok by (simp add: modified_callback_def Let_def)
qed

lemma length_modified [simp]:
  "length (cc_transactions (modified_callback env now t err response st)) = length (cc_transactions st)"
  by (simp add: modified_callback_def Let_def set_transaction_def)

lemma transaction_timer_ok:
  assumes ok: "transactions_wf st" shows "transactions_wf (transaction_timer env now t st)"
proof (cases "t < length (cc_transactions st) \<and> tx_timer (cc_transactions st ! t)")
  case True
  define st1 where "st1 = set_transaction t (\<lambda>tx. tx\<lparr>tx_timer := False\<rparr>) st"
  define st2 where "st2 = modified_callback env now t (Some (TransactionTimedOut (tx_timeout (cc_transactions st ! t)))) None st1"
  have l: "t < length (cc_transactions st1)" "tx_local (cc_transactions st1 ! t) = tx_local (cc_transactions st ! t)"
    using True by (simp_all add: st1_def set_transaction_def)
  have wf2: "transactions_wf st2"
  proof (cases "tx_local (cc_transactions st ! t)")
    case True
    have "transactions_ok {t} st1"
      unfolding st1_def by (rule set_transaction_ok [OF transactions_ok_mono [OF ok]]) simp_all
    then show ?thesis unfolding st2_def using modified_callback_ok(1) [OF _ l(1) _ refl] l True by blast
  next
    case False
    have "transactions_wf st1" unfolding st1_def by (rule set_transaction_ok [OF ok]) (simp_all add: False)
    then show ?thesis unfolding st2_def by (rule modified_callback_wf) (rule l(1))
  qed
  have "transaction_timer env now t st = emit (TimedOutRequest t) (st2\<lparr>cc_timedOutCount := cc_timedOutCount st2 + 1\<rparr>)"
    using True by (simp add: transaction_timer_def Let_def st1_def st2_def)
  then show ?thesis using frame_ok [OF _ wf2] by (simp add: frame_def answers_def emit_def)
qed (use ok in \<open>auto simp: transaction_timer_def\<close>)


lemma clo_timer_ok:
  assumes ok: "transactions_wf st" and t: "t < length (cc_transactions st)"
  shows "transactions_wf (clo_timer env now t st)"
proof -
  define st1 where "st1 = modified_callback env now t None None st"
  have wf: "transactions_wf st1" unfolding st1_def by (rule modified_callback_wf [OF ok t])
  have "\<not> tx_local (cc_transactions st1 ! t)"
    using modified_callback_ok(4) [OF transactions_ok_mono [OF ok] t _ refl]
    by (cases "tx_local (cc_transactions st ! t)") (auto simp: st1_def modified_callback_def Let_def)
  then have "transactions_wf (set_transaction t (\<lambda>tx. tx\<lparr>tx_callback := False\<rparr>) st1)"
    by (intro set_transaction_ok [OF wf]) simp_all
  then show ?thesis using ok by (simp add: clo_timer_def st1_def)
qed

text \<open>Cancelling in the order of \<^verbatim>\<open>#_requests\<close>: each turn answers the first of what is left.\<close>

lemma first_request:
  assumes ok: "transactions_wf st" and r: "cc_requests st = (i, t) # rs"
  shows "t < length (cc_transactions st)" "tx_local (cc_transactions st ! t)" "tx_callback (cc_transactions st ! t)"
    "AList.delete (tx_requestHandle (cc_transactions st ! t)) (cc_requests st) = rs"
  using okD(1,2,3) [OF ok] r delete_fresh [of i rs] by (force simp: r)+

lemma cancel_each_ok:
  assumes "transactions_wf st" "cc_requests st = rs"
  obtains st' where "cancel_each env now err rs st = Inr st'" "transactions_wf st'" "cc_requests st' = []"
  using assms
proof (induction rs arbitrary: st thesis)
  case Nil
  then show ?case by simp
next
  case (Cons p rs)
  obtain i t where p: "p = (i, t)" by (cases p)
  note F = first_request [OF Cons.prems(2) Cons.prems(3) [unfolded p]]
  obtain st1 where 1: "process_request_callback env now t err None st = Inr st1" "transactions_wf st1" "cc_requests st1 = rs"
    using process_request_callback_ok [OF transactions_ok_mono [OF Cons.prems(2)] F(1-3), of err None env now] F(4) by auto
  obtain st' where "cancel_each env now err rs st1 = Inr st'" "transactions_wf st'" "cc_requests st' = []"
    using Cons.IH [OF _ 1(2,3)] by blast
  then show ?case using Cons.prems(1) 1 by (simp add: p)
qed

lemma cancel_transactions_ok:
  assumes "transactions_wf st" "cc_requests st = rs"
  shows "transactions_wf (cancel_transactions env now rs st)" "cc_requests (cancel_transactions env now rs st) = []"
proof -
  have "transactions_wf (cancel_transactions env now rs st) \<and> cc_requests (cancel_transactions env now rs st) = []"
    using assms
  proof (induction rs arbitrary: st)
    case (Cons p rs)
    obtain i t where p: "p = (i, t)" by (cases p)
    note F = first_request [OF Cons.prems(1) Cons.prems(2) [unfolded p]]
    let ?st1 = "modified_callback env now t (Some TransactionCanceled) None st"
    have "transactions_wf ?st1" "cc_requests ?st1 = rs"
      using modified_callback_ok(1,2) [OF transactions_ok_mono [OF Cons.prems(1)] F(1,2) refl] F(4) by simp_all
    then show ?case using Cons.IH F(3) by (simp add: p)
  qed simp
  then show "transactions_wf (cancel_transactions env now rs st)" "cc_requests (cancel_transactions env now rs st) = []" by simp_all
qed

lemma on_transport_closed_ok:
  assumes ok: "transactions_wf st"
  obtains st' where "on_transport_closed env now err st = Inr st'" "transactions_wf st'" "cc_requests st' = []" "cc_transport st' = None"
proof -
  let ?err = "if cc_normalClose st then None else err"
  let ?st = "dispose_transports (emit (CloseEvent ?err) st)"
  have "transactions_wf ?st"
    by (rule frame_ok [OF _ ok]) (simp add: frame_def answers_def dispose_transports_def emit_def)
  then obtain st1 where 1: "cancel_each env now ?err (cc_requests ?st) ?st = Inr st1" "transactions_wf st1" "cc_requests st1 = []"
    using cancel_each_ok by metis
  let ?st2 = "dispose (cancel_security_token_watchdog st1)"
  have e: "st1\<lparr>cc_requests := []\<rparr> = st1" using 1(3) by (cases st1) simp
  have f: "frame st1 ?st2"
    by (rule frame_trans [OF _ frame_dispose]) (simp add: frame_def answers_def cancel_security_token_watchdog_def)
  have "on_transport_closed env now err st = Inr ?st2"
    using 1(1) e by (simp add: on_transport_closed_def cancel_pending_transactions_def Let_def)
  moreover have "cc_transport ?st2 = None"
    by (simp add: dispose_def dispose_transports_def cancel_security_token_watchdog_def later_def Let_def)
  ultimately show thesis using that frame_ok [OF f 1(2)] f 1(3) by (simp add: frame_def)
qed

lemma socket_closed_ok:
  fixes st :: "('b, 'k) channel"
  assumes ok: "transactions_wf st"
  obtains st' where "socket_closed env now err st = Inr st'" "transactions_wf st'"
    "\<not> cc_closeEmitted st \<Longrightarrow> cc_requests st' = [] \<and> cc_transport st' = None"
proof -
  have ok1: "transactions_wf (st\<lparr>cc_closeEmitted := True\<rparr>)"
    by (rule frame_ok [OF _ ok]) (simp add: frame_def answers_def)
  have k: "transactions_wf (st1\<lparr>cc_tasks := cc_tasks st1 @ map Continue ks, cc_afterClose := []\<rparr>)"
    if "transactions_wf st1" for st1 :: "('b, 'k) channel" and ks
    using that unfolding transactions_ok_def answers_def by auto
  obtain st1 where "on_transport_closed env now err (st\<lparr>cc_closeEmitted := True\<rparr>) = Inr st1" "transactions_wf st1"
    "cc_requests st1 = []" "cc_transport st1 = None"
    using on_transport_closed_ok [OF ok1] by blast
  then show thesis using that k k [OF ok] by (cases "cc_closeEmitted st") (simp_all add: socket_closed_def)
qed

lemma close_ok:
  assumes ok: "transactions_wf st"
  obtains st' where "close env now statusCode st = Inr st'" "transactions_wf st'"
proof -
  define st2 where "st2 = (cancel_security_token_watchdog (cancelPendingTransactions env now st))\<lparr>cc_normalClose := True\<rparr>"
  have ok2: "transactions_wf st2"
    by (rule frame_ok [OF _ cancel_transactions_ok(1) [OF ok refl, of env now]])
      (simp add: st2_def frame_def answers_def cancel_security_token_watchdog_def cancelPendingTransactions_def)
  have "transactions_wf (abortConnection CloseAborted st2)" by (rule frame_ok [OF frame_abortConnection ok2])
  moreover obtain st3 where "perform env now CloseChannel CLO 0 statusCode st2 = Inr st3" "transactions_wf st3"
    using perform_ok [OF ok2] by blast
  moreover have "close env now statusCode st =
      (if (case cc_transport st2 of None \<Rightarrow> True | Some tr \<Rightarrow> transport_isDisconnecting tr \<or> \<not> cc_isOpened st2)
       then Inr (abortConnection CloseAborted st2) else perform env now CloseChannel CLO 0 statusCode st2)"
    unfolding close_def Let_def st2_def by (rule refl)
  ultimately show thesis using that by (metis (full_types))
qed

section \<open>Runs\<close>

lemma remove_task_ok: "transactions_wf st \<Longrightarrow> transactions_wf (remove_task i st)"
  unfolding transactions_ok_def remove_task_def answers_def by (auto dest: in_set_takeD in_set_dropD)

lemma run_task_ok:
  assumes ok: "transactions_wf st" and k: "task_ok (length (cc_transactions st)) k"
  obtains st' where "run_task env now k ok' nonce statusCode st = Inr st'" "transactions_wf st'"
proof (cases k)
  case SendOpen
  then show thesis using that open_request_ok [OF ok] by (simp add: run_task_def) metis
next
  case Renew
  then show thesis
    using that ok open_request_ok [OF ok, of env now False nonce statusCode]
    by (cases "ok' \<and> isValid st") (auto simp: run_task_def renew_security_token_def)
next
  case (AbortStep c)
  then show thesis using that frame_ok [OF frame_abort_step ok] by (simp add: run_task_def)
next
  case (Continue c)
  then show thesis using that frame_ok [OF frame_continue ok] by (simp add: run_task_def)
qed (use that k clo_timer_ok [OF ok] in \<open>auto simp: run_task_def\<close>)

lemma step_ok:
  assumes ok: "transactions_wf st"
  obtains st' where "step_channel env s st = Inr st'" "transactions_wf st'"
proof -
  obtain now a where s: "s = (now, a)" by (cases s)
  show thesis
  proof (cases a)
    case (Perform timeoutHint statusCode)
    then show thesis using that s perform_ok [OF ok] by (metis step_channel.simps(1))
  next
    case (RunTask i ok' nonce statusCode)
    show thesis
    proof (cases "i < length (cc_tasks st)")
      case True
      then have "task_ok (length (cc_transactions (remove_task i st))) (cc_tasks st ! i)"
        using okD(7) [OF ok] by (simp add: remove_task_def)
      then show thesis
        using that s RunTask True run_task_ok [OF remove_task_ok [OF ok], of i _ env now ok' nonce statusCode] by auto
    qed (use that s RunTask ok in simp)
  next
    case (Receive requestId response)
    then show thesis
      using that s ok on_message_received_ok [OF ok, of env now response requestId] by (cases "cc_hasReceivedError st") auto
  next
    case (ReceiveAbandon requestId current)
    then show thesis using that s ok receive_abandon_ok [OF ok] by simp
  next
    case (ReceiveError current)
    have "transactions_wf (st\<lparr>cc_hasReceivedError := True\<rparr>)"
      by (rule frame_ok [OF _ ok]) (simp add: frame_def answers_def)
    then have "transactions_wf (report_error env now current st)" by (simp add: report_error_def on_builder_error_ok)
    then show thesis using that s ok ReceiveError by simp
  next
    case WatchdogFires
    have "transactions_wf (st\<lparr>cc_watchdog := None, cc_log := cc_log st @ [Lifetime75 tk], cc_tasks := cc_tasks st @ [Renew]\<rparr>)" for tk
      using ok unfolding transactions_ok_def answers_def by auto
    then show thesis
      using that s ok WatchdogFires by (auto simp: security_token_about_to_expire_def later_def emit_def split: option.splits prod.splits)
  next
    case SocketDestroyed
    have "transactions_wf (st\<lparr>cc_transport := tr\<rparr>)" for tr
      by (rule frame_ok [OF _ ok]) (simp add: frame_def answers_def)
    then show thesis using that s SocketDestroyed by simp
  next
    case (SocketClosed err)
    then show thesis using that s socket_closed_ok [OF ok] by (metis step_channel.simps(9))
  next
    case ConnectionBreak
    then show thesis using that s on_transport_closed_ok [OF ok] by (metis step_channel.simps(10))
  next
    case (CloseChannelRequested statusCode)
    then show thesis using that s close_ok [OF ok] by (metis step_channel.simps(11))
  qed (use that s transaction_timer_ok [OF ok] in simp)
qed

lemma run_append: "channel_run env (xs @ ys) st = rbind (channel_run env xs st) (channel_run env ys)"
  by (induction xs arbitrary: st) (auto simp: rbind_def split: sum.split)

lemma run_ok:
  assumes "transactions_wf st"
  obtains st' where "channel_run env steps st = Inr st'" "transactions_wf st'"
  using assms
proof (induction steps arbitrary: st thesis)
  case (Cons s steps)
  obtain st1 where "step_channel env s st = Inr st1" "transactions_wf st1" using step_ok [OF Cons.prems(2)] .
  then show ?case using Cons.IH [of st1] Cons.prems(1) by auto
qed simp

lemma on_connection_ok: "transactions_wf on_connection"
  by (simp add: transactions_ok_def on_connection_def answers_def)

end
