(* ===== verification/Channel_Renewal.thy ===== *)
theory Channel_Renewal
  imports Client_Transactions
begin

text \<open>
  What follows for the callers and for the security token. A relation that holds across the answer to a
  transaction, and across whatever leaves transactions, tokens and the watchdog alone, holds across every operation
  of the channel: the locale \<open>callback_relation\<close>. It is interpreted twice, for the answers that stay and for the number of
  requests for a token under way, which never grows: a renewal that fails is the last one.
\<close>

section \<open>What leaves transactions and tokens alone\<close>

fun opens :: "task \<Rightarrow> bool" where
  "opens SendOpen = True"
| "opens Renew = True"
| "opens _ = False"

definition quiet :: "('b, 'k) channel \<Rightarrow> ('b, 'k) channel \<Rightarrow> bool" where
  "quiet st st' \<longleftrightarrow>
     cc_transactions st' = cc_transactions st \<and> cc_watchdog st' \<in> {cc_watchdog st, None} \<and>
     cc_hasReceivedError st' = cc_hasReceivedError st \<and> cc_activeToken st' = cc_activeToken st \<and> cc_tokens st' = cc_tokens st \<and>
     filter opens (cc_tasks st') = filter opens (cc_tasks st)"

lemma quiet_refl [simp]: "quiet st st" by (simp add: quiet_def)

lemma quiet_trans: "quiet s1 s2 \<Longrightarrow> quiet s2 s3 \<Longrightarrow> quiet s1 s3"
  unfolding quiet_def by auto

lemma quiet_emit [simp]: "quiet st (emit e st') = quiet st st'"
  by (simp add: quiet_def)

lemma quiet_open_done [simp]: "quiet st (open_done b err st') = quiet st st'"
  by (simp add: open_done_def)

lemma quiet_dispose: "quiet st (dispose st)"
  by (simp add: dispose_def dispose_transports_def cancel_security_token_watchdog_def later_def quiet_def Let_def)

lemma quiet_continue: "quiet st (continue k st)"
  by (cases k) (simp_all add: quiet_dispose)

lemma quiet_abortConnection: "quiet st (abortConnection k st)"
  by (cases "cc_isDisconnecting st") (simp_all add: abortConnection_def quiet_continue, simp add: later_def quiet_def)

lemma quiet_disconnect: "quiet st (disconnect tr k st)"
proof -
  have "quiet st (st\<lparr>cc_transport := u\<rparr>)" for u by (simp add: quiet_def)
  moreover have "quiet st (st\<lparr>cc_transport := u, cc_afterClose := v\<rparr>)" for u v by (simp add: quiet_def)
  ultimately show ?thesis using quiet_trans quiet_continue by (simp add: disconnect_def) blast
qed

lemma quiet_abort_step: "quiet st (abort_step k st)"
  by (simp add: abort_step_def quiet_continue quiet_disconnect split: option.split)

lemma quiet_closing: "quiet st (closing_callback st)"
  using quiet_continue [of st CloseDone]
  by (simp add: closing_callback_def quiet_disconnect del: continue.simps split: option.split)

lemma quiet_error: "quiet st (run_callback env now c (Some err) None st)"
  by (cases c) (simp_all add: opening_callback_def quiet_closing)

section \<open>Relations across a callback\<close>

locale callback_relation =
  fixes R :: "('b, 'k) channel \<Rightarrow> ('b, 'k) channel \<Rightarrow> bool" and waits :: "caller \<Rightarrow> bool"
  assumes R_trans: "R s1 s2 \<Longrightarrow> R s2 s3 \<Longrightarrow> R s1 s3"
    and R_quiet: "quiet s1 s2 \<Longrightarrow> R s1 s2"
    and R_answered: "t < length (cc_transactions st) \<Longrightarrow> R st (modified_callback env now t err response st)"
    and R_updated: "(\<And>tx. tx_local (f tx) = tx_local tx) \<Longrightarrow> (\<And>tx. tx_caller (f tx) = tx_caller tx) \<Longrightarrow>
          R st (set_transaction t f st)"
    and R_added: "waits (tx_caller tx) \<Longrightarrow> R st (st\<lparr>cc_transactions := cc_transactions st @ [tx]\<rparr>)"
    and R_received: "\<not> cc_hasReceivedError st \<Longrightarrow> R st (st\<lparr>cc_hasReceivedError := b\<rparr>)"
    and waits: "waits User" "waits CloseChannel"
begin

lemma R_refl: "R st st" by (rule R_quiet) simp

lemma process_request_callback:
  assumes "process_request_callback env now t err response st = Inr st'" "t < length (cc_transactions st)"
  shows "R st st'"
proof -
  let ?st = "set_transaction t (\<lambda>tx. tx\<lparr>tx_callback := False\<rparr>) st"
  obtain e x where "st' = modified_callback env now t e x ?st"
    using assms(1) by (auto simp: process_request_callback_def Let_def split: prod.splits)
  moreover have "R st ?st" by (rule R_updated) simp_all
  ultimately show ?thesis using R_trans R_answered [of t ?st] assms(2) by (simp add: set_transaction_def)
qed

lemma on_message_received:
  assumes ok: "transactions_wf st" and r: "on_message_received env now response requestId st = Inr st'"
  shows "R st st'"
proof -
  define st1 where "st1 = (case rs_body response of
                   OpenSecureChannelResponse token _ \<Rightarrow>
                     if cc_channelId st = 0 then st\<lparr>cc_channelId := tk_channelId token\<rparr> else st
                 | _ \<Rightarrow> st)"
  have s: "cc_requests st1 = cc_requests st" "cc_transactions st1 = cc_transactions st" "quiet st st1"
    by (simp_all add: st1_def quiet_def split: response_body.split)
  have eq: "on_message_received env now response requestId st =
      (case map_of (cc_requests st1) requestId of
         None \<Rightarrow> Inr (if cc_normalClose st1 then st1 else emit (InvalidRequestId requestId) st1)
       | Some t \<Rightarrow> process_request_callback env now t None (Some response)
           (st1\<lparr>cc_requests := AList.delete requestId (cc_requests st1)\<rparr>))"
    unfolding on_message_received_def Let_def st1_def by (rule refl)
  show ?thesis
  proof (cases "map_of (cc_requests st) requestId")
    case None
    then have "st' = (if cc_normalClose st1 then st1 else emit (InvalidRequestId requestId) st1)"
      using r s(1) by (simp add: eq)
    then show ?thesis using s(3) R_quiet by simp
  next
    case (Some t)
    let ?st2 = "st1\<lparr>cc_requests := AList.delete requestId (cc_requests st1)\<rparr>"
    have "process_request_callback env now t None (Some response) ?st2 = Inr st'"
      using r s(1) Some by (simp add: eq)
    moreover have "quiet st ?st2" using s(3) by (simp add: quiet_def)
    ultimately show ?thesis
      using process_request_callback [of env now t] requested(1) [OF ok Some] s(2) R_quiet R_trans by fastforce
  qed
qed

lemma on_builder_error:
  assumes ok: "transactions_wf st" shows "R st (on_builder_error env now requestId st)"
proof -
  have "R st (closeWithError (if b then modified_callback env now t e x (st\<lparr>cc_requests := rs\<rparr>) else st\<lparr>cc_requests := rs\<rparr>))"
    if "t < length (cc_transactions st)" for t b e x rs
  proof -
    have "R st (st\<lparr>cc_requests := rs\<rparr>)" by (rule R_quiet) (simp add: quiet_def)
    then have "R st (if b then modified_callback env now t e x (st\<lparr>cc_requests := rs\<rparr>) else st\<lparr>cc_requests := rs\<rparr>)"
      using R_answered [of t "st\<lparr>cc_requests := rs\<rparr>"] that R_trans by auto
    then show ?thesis unfolding closeWithError_def using R_quiet [OF quiet_dispose] R_trans by blast
  qed
  then show ?thesis
    using requested(1) [OF ok] R_refl by (simp add: on_builder_error_def Let_def split: option.split)
qed

lemma receive_abandon:
  assumes ok: "transactions_wf st" and e: "\<not> cc_hasReceivedError st"
  shows "R st (receive_abandon env now requestId current st)"
proof -
  have ok1: "transactions_wf (st\<lparr>cc_hasReceivedError := b\<rparr>)" for b
    by (rule frame_ok [OF _ ok]) (simp add: frame_def answers_def)
  show ?thesis
  proof (cases "map_of (cc_requests st) requestId")
    case None
    have "receive_abandon env now requestId current st = on_builder_error env now current (st\<lparr>cc_hasReceivedError := True\<rparr>)"
      using None by (simp add: receive_abandon_def on_abandon_def report_error_def)
    then show ?thesis using R_trans [OF R_received [OF e] on_builder_error [OF ok1]] by simp
  next
    case (Some t)
    let ?st1 = "st\<lparr>cc_hasReceivedError := False, cc_requests := AList.delete requestId (cc_requests st)\<rparr>"
    have "R st ?st1" by (rule R_quiet) (simp add: quiet_def e)
    moreover have "t < length (cc_transactions ?st1)" using requested(1) [OF ok Some] by simp
    ultimately have "R st (modified_callback env now t e x ?st1)" for e x using R_answered R_trans by blast
    then show ?thesis
      using Some requested(3) [OF ok Some] by (simp add: receive_abandon_def on_abandon_def Let_def)
  qed
qed

lemma sendSecureOpcUARequest:
  assumes ok: "transactions_wf st" and r: "sendSecureOpcUARequest env now t statusCode st = Inr st'"
  shows "R st st'"
proof (cases "statusCode = Good")
  case True
  have "quiet st (later (CloTimer t) st)" by (simp add: later_def quiet_def)
  then show ?thesis using r True R_refl R_quiet by (auto simp: sendSecureOpcUARequest_def split: if_splits)
next
  case False
  then show ?thesis using r on_message_received [OF ok] by (simp add: sendSecureOpcUARequest_def)
qed

text \<open>A new transaction adds its record; the rest is as above.\<close>

lemma performed:
  assumes ok: "transactions_wf st" and r: "perform env now c msgType timeoutHint statusCode st = Inr st'"
  obtains tx where "tx_caller tx = c" "R (st\<lparr>cc_transactions := cc_transactions st @ [tx]\<rparr>) st'"
proof -
  define tx where "tx = \<lparr>tx_caller = c, tx_msgType = msgType, tx_requestHandle = requestHandleNotSetValue,
     tx_timeout = adjustRequestTimeout env timeoutHint, tx_local = isValid st, tx_timer = isValid st, tx_callback = isValid st\<rparr>"
  define st1 where "st1 = st\<lparr>cc_transactions := cc_transactions st @ [tx]\<rparr>"
  have "R st1 st'"
  proof (cases "isValid st")
    case True
    let ?t = "length (cc_transactions st)"
    define st2 where "st2 = set_transaction ?t (\<lambda>tx. tx\<lparr>tx_requestHandle := Suc (cc_lastRequestId st)\<rparr>) st1"
    define st3 where "st3 = st2\<lparr>cc_lastRequestId := Suc (cc_lastRequestId st),
       cc_requests := AList.update (Suc (cc_lastRequestId st)) ?t (cc_requests st)\<rparr>"
    have eq: "st3 = st\<lparr>cc_lastRequestId := Suc (cc_lastRequestId st),
       cc_transactions := cc_transactions st @ [tx\<lparr>tx_requestHandle := Suc (cc_lastRequestId st)\<rparr>],
       cc_requests := AList.update (Suc (cc_lastRequestId st)) ?t (cc_requests st)\<rparr>"
      by (simp add: st3_def st2_def st1_def set_transaction_def)
    have p: "sendSecureOpcUARequest env now ?t statusCode st3 = Inr st'"
      using True r
      by (cases "cc_transport st")
        (simp_all add: isValid_def perform_def internal_perform_transaction_def makeRequestId_def set_transaction_def Let_def
           eq tx_def)
    have "transactions_wf st3"
      by (rule register_ok [OF ok, of "tx\<lparr>tx_requestHandle := Suc (cc_lastRequestId st)\<rparr>"])
        (simp_all add: tx_def st1_def st2_def st3_def set_transaction_def True)
    moreover have "R st1 st2" unfolding st2_def by (rule R_updated) simp_all
    moreover have "R st2 st3" by (rule R_quiet) (simp add: st3_def quiet_def)
    ultimately show ?thesis using p sendSecureOpcUARequest R_trans by blast
  next
    case False
    let ?st2 = "emit (Answered (length (cc_transactions st)) (Some SocketIsClosed) None) st1"
    have "st' = run_callback env now c (Some SocketIsClosed) None ?st2"
      using False r by (simp add: perform_def Let_def st1_def tx_def)
    moreover have "quiet st1 ?st2" by simp
    ultimately show ?thesis using R_quiet [OF quiet_trans [OF _ quiet_error]] by blast
  qed
  then show thesis using that [of tx] by (simp add: tx_def st1_def)
qed

lemma perform:
  assumes "transactions_wf st" "waits c" "perform env now c msgType timeoutHint statusCode st = Inr st'"
  shows "R st st'"
  using performed [OF assms(1,3)] R_added assms(2) R_trans by metis

lemma transaction_timer: "R st (transaction_timer env now t st)"
proof (cases "t < length (cc_transactions st) \<and> tx_timer (cc_transactions st ! t)")
  case True
  let ?st1 = "set_transaction t (\<lambda>tx. tx\<lparr>tx_timer := False\<rparr>) st"
  let ?st2 = "modified_callback env now t (Some (TransactionTimedOut (tx_timeout (cc_transactions st ! t)))) None ?st1"
  have 1: "R st ?st1" by (rule R_updated) simp_all
  have 2: "R ?st1 ?st2" by (rule R_answered) (use True in \<open>simp add: set_transaction_def\<close>)
  have 3: "R ?st2 (emit (TimedOutRequest t) (?st2\<lparr>cc_timedOutCount := n\<rparr>))" for n
    by (rule R_quiet) (simp add: quiet_def)
  show ?thesis using True R_trans [OF R_trans [OF 1 2] 3] by (simp add: transaction_timer_def Let_def)
qed (use R_refl in \<open>auto simp: transaction_timer_def\<close>)

lemma clo_timer: "t < length (cc_transactions st) \<Longrightarrow> R st (clo_timer env now t st)"
proof -
  assume t: "t < length (cc_transactions st)"
  have "R st (set_transaction t (\<lambda>tx. tx\<lparr>tx_callback := False\<rparr>) (modified_callback env now t None None st))"
    by (rule R_trans [OF R_answered [OF t] R_updated]) simp_all
  then show ?thesis using R_refl by (simp add: clo_timer_def)
qed

lemma cancel_each:
  assumes "transactions_wf st" "cc_requests st = rs" "cancel_each env now err rs st = Inr st'"
  shows "R st st'"
  using assms
proof (induction rs arbitrary: st)
  case Nil
  then show ?case using R_refl by simp
next
  case (Cons p rs)
  obtain i t where p: "p = (i, t)" by (cases p)
  note F = first_request [OF Cons.prems(1) Cons.prems(2) [unfolded p]]
  obtain st1 where 1: "process_request_callback env now t err None st = Inr st1" "transactions_wf st1" "cc_requests st1 = rs"
    using process_request_callback_ok [OF transactions_ok_mono [OF Cons.prems(1)] F(1-3), of err None env now] F(4) by auto
  then have "R st1 st'" using Cons.IH Cons.prems(3) by (simp add: p)
  then show ?case using R_trans process_request_callback [OF 1(1) F(1)] by blast
qed

lemma cancel_transactions:
  "\<forall>(i, t) \<in> set rs. t < length (cc_transactions st) \<Longrightarrow> R st (cancel_transactions env now rs st)"
proof (induction rs arbitrary: st)
  case Nil
  then show ?case using R_refl by simp
next
  case (Cons p rs)
  obtain i t where p: "p = (i, t)" by (cases p)
  let ?st1 = "if tx_callback (cc_transactions st ! t) then modified_callback env now t (Some TransactionCanceled) None st else st"
  have "R st ?st1" using Cons.prems R_answered R_refl by (simp add: p)
  moreover have "R ?st1 (cancel_transactions env now rs ?st1)" using Cons.prems by (intro Cons.IH) (auto simp: p)
  moreover have "cancel_transactions env now (p # rs) st = cancel_transactions env now rs ?st1" by (simp add: p)
  ultimately show ?case using R_trans by metis
qed

lemma on_transport_closed:
  assumes ok: "transactions_wf st" and r: "on_transport_closed env now err st = Inr st'"
  shows "R st st'"
proof -
  define err' where "err' = (if cc_normalClose st then None else err)"
  define st1 where "st1 = dispose_transports (emit (CloseEvent err') st)"
  have "transactions_wf st1"
    by (rule frame_ok [OF _ ok]) (simp add: st1_def frame_def answers_def dispose_transports_def emit_def)
  moreover obtain st2 where 2: "cancel_each env now err' (cc_requests st1) st1 = Inr st2"
    "st' = dispose (cancel_security_token_watchdog (st2\<lparr>cc_requests := []\<rparr>))"
    using r unfolding on_transport_closed_def Let_def err'_def [symmetric] st1_def [symmetric]
    by (auto simp: cancel_pending_transactions_def)
  moreover have "R st st1" by (rule R_quiet) (simp add: st1_def dispose_transports_def quiet_def)
  moreover have "quiet st2 (cancel_security_token_watchdog (st2\<lparr>cc_requests := []\<rparr>))"
    by (simp add: quiet_def cancel_security_token_watchdog_def)
  ultimately show ?thesis using cancel_each R_trans R_quiet quiet_trans quiet_dispose by metis
qed

lemma socket_closed:
  assumes ok: "transactions_wf st" and r: "socket_closed env now err st = Inr st'"
  shows "R st st'"
proof -
  let ?st = "st\<lparr>cc_closeEmitted := True\<rparr>"
  have ok1: "transactions_wf ?st" by (rule frame_ok [OF _ ok]) (simp add: frame_def answers_def)
  have q: "R st ?st" by (rule R_quiet) (simp add: quiet_def)
  have t: "filter opens (map Continue ks) = []" for ks by (induction ks) auto
  have k: "R st1 (st1\<lparr>cc_tasks := cc_tasks st1 @ map Continue ks, cc_afterClose := []\<rparr>)" for st1 ks
    by (rule R_quiet) (simp add: quiet_def t)
  show ?thesis
    using r k R_trans [OF R_trans [OF q on_transport_closed [OF ok1]] k]
    by (auto simp: socket_closed_def split: if_splits)
qed

lemma close:
  assumes ok: "transactions_wf st" and r: "close env now statusCode st = Inr st'"
  shows "R st st'"
proof -
  define st1 where "st1 = cancelPendingTransactions env now st"
  define st2 where "st2 = (cancel_security_token_watchdog st1)\<lparr>cc_normalClose := True\<rparr>"
  have 1: "R st st1"
    unfolding st1_def cancelPendingTransactions_def using okD(2) [OF ok] by (intro cancel_transactions) auto
  have 2: "R st1 st2" by (rule R_quiet) (simp add: st2_def quiet_def cancel_security_token_watchdog_def)
  have ok2: "transactions_wf st2"
    by (rule frame_ok [OF _ cancel_transactions_ok(1) [OF ok refl, of env now]])
      (simp add: st2_def st1_def frame_def answers_def cancel_security_token_watchdog_def cancelPendingTransactions_def)
  have "R st2 (abortConnection CloseAborted st2)" by (rule R_quiet [OF quiet_abortConnection])
  moreover have "perform env now CloseChannel CLO 0 statusCode st2 = Inr st' \<Longrightarrow> R st2 st'"
    using perform [OF ok2 waits(2)] .
  ultimately have "R st2 st'"
    using r unfolding close_def Let_def st1_def [symmetric] st2_def [symmetric] by (auto split: if_splits)
  then show ?thesis using R_trans [OF R_trans [OF 1 2]] by blast
qed

text \<open>Every step but those that ask for a token.\<close>

lemma step:
  assumes ok: "transactions_wf st" and r: "step_channel env (now, a) st = Inr st'"
    and a: "a \<noteq> WatchdogFires" "\<And>i ok' nonce statusCode. a = RunTask i ok' nonce statusCode \<Longrightarrow> \<not> (i < length (cc_tasks st) \<and> opens (cc_tasks st ! i))"
  shows "R st st'"
proof (cases a)
  case (RunTask i ok' nonce statusCode)
  show ?thesis
  proof (cases "i < length (cc_tasks st)")
    case True
    have k: "\<not> opens (cc_tasks st ! i)" using a(2) [OF RunTask] True by blast
    have "filter opens (cc_tasks st) = filter opens (take i (cc_tasks st) @ cc_tasks st ! i # drop (Suc i) (cc_tasks st))"
      using id_take_nth_drop [OF True] by simp
    then have q: "R st (remove_task i st)" using k by (intro R_quiet) (simp add: quiet_def remove_task_def)
    have "task_ok (length (cc_transactions (remove_task i st))) (cc_tasks st ! i)"
      using okD(7) [OF ok] True by (simp add: remove_task_def)
    then have "R (remove_task i st) st'"
      using r RunTask True k clo_timer [of _ "remove_task i st"] R_quiet [OF quiet_abort_step] R_quiet [OF quiet_continue]
      by (cases "cc_tasks st ! i") (auto simp: run_task_def)
    then show ?thesis using R_trans [OF q] by blast
  qed (use r RunTask R_refl in simp)
next
  case (ReceiveError current)
  let ?st = "st\<lparr>cc_hasReceivedError := True\<rparr>"
  have "transactions_wf ?st" by (rule frame_ok [OF _ ok]) (simp add: frame_def answers_def)
  then have "\<not> cc_hasReceivedError st \<Longrightarrow> R st (report_error env now current st)"
    unfolding report_error_def using R_trans R_received on_builder_error by blast
  then show ?thesis using r ReceiveError R_refl by (auto split: if_splits)
next
  case SocketDestroyed
  have "R st (st\<lparr>cc_transport := tr\<rparr>)" for tr by (rule R_quiet) (simp add: quiet_def)
  then show ?thesis using r SocketDestroyed by auto
qed (use ok r a(1) perform [OF ok waits(1)] transaction_timer on_message_received [OF ok] receive_abandon [OF ok] socket_closed [OF ok]
       on_transport_closed [OF ok] close [OF ok] R_refl in \<open>auto split: if_splits\<close>)

end


section \<open>What is settled stays settled\<close>

lemma accept_token_keeps [simp]:
  "cc_hasReceivedError (accept_token env now b token keys st) = cc_hasReceivedError st"
  "cc_tasks (accept_token env now b token keys st) = cc_tasks st"
  by (simp_all add: accept_token_def open_done_def install_security_token_watchdog_def assert_js_def emit_def Let_def split: sum.split)

lemma opening_keeps [simp]:
  "cc_hasReceivedError (opening_callback env now b nonce start err response st) = cc_hasReceivedError st"
  "cc_tasks (opening_callback env now b nonce start err response st) = cc_tasks st"
  by (auto simp: opening_callback_def token_received_def open_done_def Let_def split: option.split response_body.split sum.split)

lemma callback_keeps [simp]:
  "cc_hasReceivedError (run_callback env now c err response st) = cc_hasReceivedError st"
  "filter opens (cc_tasks (run_callback env now c err response st)) = filter opens (cc_tasks st)"
  using quiet_closing [of st] by (cases c; simp add: quiet_def)+

definition settled :: "('b, 'k) channel \<Rightarrow> ('b, 'k) channel \<Rightarrow> bool" where
  "settled st st' \<longleftrightarrow>
     length (cc_transactions st) \<le> length (cc_transactions st') \<and>
     (\<forall>t < length (cc_transactions st). \<not> tx_local (cc_transactions st ! t) \<longrightarrow> \<not> tx_local (cc_transactions st' ! t)) \<and>
     (cc_hasReceivedError st \<longrightarrow> cc_hasReceivedError st')"

lemma set_transaction_fields [simp]:
  "length (cc_transactions (set_transaction t f st)) = length (cc_transactions st)"
  "cc_hasReceivedError (set_transaction t f st) = cc_hasReceivedError st" "cc_tasks (set_transaction t f st) = cc_tasks st"
  "cc_watchdog (set_transaction t f st) = cc_watchdog st" "cc_activeToken (set_transaction t f st) = cc_activeToken st"
  "cc_tokens (set_transaction t f st) = cc_tokens st"
  by (simp_all add: set_transaction_def)

lemma modified_transactions:
  "t < length (cc_transactions st) \<Longrightarrow>
     cc_transactions (modified_callback env now t err response st) =
       (if tx_local (cc_transactions st ! t)
        then (cc_transactions st)[t := (cc_transactions st ! t)\<lparr>tx_timer := False, tx_local := False\<rparr>] else cc_transactions st)"
  by (simp add: modified_callback_def Let_def set_transaction_def)

lemma modified_keeps [simp]:
  "cc_hasReceivedError (modified_callback env now t err response st) = cc_hasReceivedError st"
  "filter opens (cc_tasks (modified_callback env now t err response st)) = filter opens (cc_tasks st)"
  by (simp_all add: modified_callback_def Let_def set_transaction_def)

lemma settled_trans: "settled s1 s2 \<Longrightarrow> settled s2 s3 \<Longrightarrow> settled s1 s3"
  unfolding settled_def by (meson order.trans order.strict_trans2)

interpretation settled: callback_relation settled "\<lambda>_. True"
  by unfold_locales (erule (1) settled_trans,
    auto simp: settled_def quiet_def set_transaction_nth nth_append nth_list_update modified_transactions)

lemma settled_step:
  assumes ok: "transactions_wf st" and r: "step_channel env (now, a) st = Inr st'"
  shows "settled st st'"
proof (cases "a = WatchdogFires \<or> (\<exists>i ok' nonce statusCode. a = RunTask i ok' nonce statusCode \<and> i < length (cc_tasks st) \<and> opens (cc_tasks st ! i))")
  case False
  then show ?thesis using settled.step [OF ok r] by blast
next
  case True
  then consider "a = WatchdogFires" | i ok' nonce statusCode where "a = RunTask i ok' nonce statusCode" "i < length (cc_tasks st)" "opens (cc_tasks st ! i)"
    by blast
  then show ?thesis
  proof cases
    case 1
    then have "cc_transactions st' = cc_transactions st \<and> cc_hasReceivedError st' = cc_hasReceivedError st"
      using r by (auto simp: security_token_about_to_expire_def later_def split: option.splits prod.splits)
    then show ?thesis by (simp add: settled_def)
  next
    case 2
    have ok1: "transactions_wf (remove_task i st)" by (rule remove_task_ok [OF ok])
    have "settled st (remove_task i st)" by (simp add: settled_def remove_task_def)
    moreover have "settled (remove_task i st) st'"
    proof -
      have "settled s s'" if "transactions_wf s" "send_open_secure_channel_request env now b nonce statusCode s = Inr s'" for s s' b
      proof -
        have "transactions_wf (s\<lparr>cc_isOpened := \<not> b\<rparr>)"
          by (rule frame_ok [OF _ that(1)]) (simp add: frame_def answers_def)
        moreover have "settled s (s\<lparr>cc_isOpened := \<not> b\<rparr>)" "settled s (open_done b e s)" for e
          by (simp_all add: settled_def open_done_def)
        ultimately show ?thesis
          using that(2) settled.perform settled_trans unfolding send_open_secure_channel_request_def by (metis sum.inject(2))
      qed
      then show ?thesis
        using r 2 ok1 settled.R_refl
        by (cases "cc_tasks st ! i") (auto simp: run_task_def renew_security_token_def split: if_splits)
    qed
    ultimately show ?thesis by (rule settled_trans)
  qed
qed

lemma settled_run:
  assumes "transactions_wf st" "channel_run env steps st = Inr st'"
  shows "settled st st'"
  using assms
proof (induction steps arbitrary: st)
  case Nil
  then show ?case using settled.R_refl by simp
next
  case (Cons s steps)
  obtain st1 where 1: "step_channel env s st = Inr st1" "channel_run env steps st1 = Inr st'" using Cons.prems(2) by auto
  have "transactions_wf st1" using step_ok [OF Cons.prems(1), of env s] 1(1) by auto
  then show ?case using Cons.IH 1 settled_trans settled_step [OF Cons.prems(1)] by (metis prod.collapse)
qed


section \<open>Requests for a token under way\<close>

fun is_opening :: "caller \<Rightarrow> bool" where
  "is_opening (OpenChannel b nonce start) = True"
| "is_opening _ = False"

definition waiting_openings :: "('b, 'k) channel \<Rightarrow> nat" where
  "waiting_openings st = length (filter (\<lambda>tx. tx_local tx \<and> is_opening (tx_caller tx)) (cc_transactions st))"

definition openings :: "('b, 'k) channel \<Rightarrow> nat" where
  "openings st =
     (if cc_watchdog st = None then 0 else 1) + length (filter opens (cc_tasks st)) + waiting_openings st"

definition no_new_opening :: "('b, 'k) channel \<Rightarrow> ('b, 'k) channel \<Rightarrow> bool" where
  "no_new_opening st st' \<longleftrightarrow>
     openings st' \<le> openings st \<and>
     (openings st = 0 \<longrightarrow> cc_activeToken st' = cc_activeToken st \<and> cc_tokens st' = cc_tokens st)"

lemma no_new_opening_trans: "no_new_opening s1 s2 \<Longrightarrow> no_new_opening s2 s3 \<Longrightarrow> no_new_opening s1 s3"
  unfolding no_new_opening_def by auto

lemma filter_update:
  "t < length xs \<Longrightarrow>
     length (filter P (xs[t := y])) + (if P (xs ! t) then 1 else 0) = length (filter P xs) + (if P y then 1 else 0)"
proof (induction xs arbitrary: t)
  case (Cons x xs)
  then show ?case by (cases t) auto
qed simp

lemma filter_update_same: "P (f (xs ! t)) = P (xs ! t) \<Longrightarrow> length (filter P (xs[t := f (xs ! t)])) = length (filter P xs)"
  using filter_update [of t xs P "f (xs ! t)"] by (cases "t < length xs") (auto simp: list_update_beyond split: if_splits)

text \<open>The answer to a request for a token uses it up; it may set the watchdog.\<close>

lemma waiting_modified:
  assumes t: "t < length (cc_transactions st)" "tx_local (cc_transactions st ! t)"
  shows "waiting_openings (modified_callback env now t err response st) +
           (if is_opening (tx_caller (cc_transactions st ! t)) then 1 else 0) = waiting_openings st"
  using filter_update [OF t(1), of "\<lambda>tx. tx_local tx \<and> is_opening (tx_caller tx)"] t
  by (simp add: waiting_openings_def modified_transactions)

lemma quiet_opening_fails:
  assumes "err \<noteq> None \<and> response = None \<or> (\<exists>r. response = Some r \<and> rs_serviceResult r \<noteq> Good)"
  shows "quiet st (run_callback env now c err response st)"
  using assms by (cases c) (auto simp: opening_callback_def quiet_closing split: option.split)

lemma modified_quiet:
  assumes "is_opening (tx_caller (cc_transactions st ! t)) \<Longrightarrow>
      err \<noteq> None \<and> response = None \<or> (\<exists>r. response = Some r \<and> rs_serviceResult r \<noteq> Good)"
  shows "cc_watchdog (modified_callback env now t err response st) \<in> {cc_watchdog st, None} \<and>
     cc_activeToken (modified_callback env now t err response st) = cc_activeToken st \<and>
     cc_tokens (modified_callback env now t err response st) = cc_tokens st"
proof -
  have "quiet s (run_callback env now (tx_caller (cc_transactions st ! t)) err response s)" for s
  proof (cases "is_opening (tx_caller (cc_transactions st ! t))")
    case True
    then show ?thesis using quiet_opening_fails [OF assms] by blast
  next
    case False
    then show ?thesis using quiet_closing by (cases "tx_caller (cc_transactions st ! t)") auto
  qed
  note q = this
  define s1 where "s1 = set_transaction t (\<lambda>tx. tx\<lparr>tx_timer := False\<rparr>) st"
  define s2 where "s2 = emit (Answered t err response)
     (s1\<lparr>cc_requests := AList.delete (tx_requestHandle (cc_transactions st ! t)) (cc_requests s1)\<rparr>)"
  define s3 where "s3 = run_callback env now (tx_caller (cc_transactions st ! t)) err response s2"
  have m: "modified_callback env now t err response st =
      (if tx_local (cc_transactions st ! t) then set_transaction t (\<lambda>tx. tx\<lparr>tx_local := False\<rparr>) s3 else st)"
    by (simp add: modified_callback_def Let_def s1_def s2_def s3_def)
  have "quiet s2 s3" unfolding s3_def by (rule q)
  then show ?thesis by (simp add: m quiet_def) (simp add: s2_def s1_def)
qed

lemma no_new_opening_answered:
  assumes t: "t < length (cc_transactions st)"
  shows "no_new_opening st (modified_callback env now t err response st)"
proof (cases "tx_local (cc_transactions st ! t)")
  case False
  then show ?thesis by (simp add: no_new_opening_def modified_callback_def Let_def)
next
  case True
  note W = waiting_modified [OF t True, of env now err response]
  show ?thesis
  proof (cases "is_opening (tx_caller (cc_transactions st ! t))")
    case True
    then show ?thesis using W by (auto simp: no_new_opening_def openings_def)
  next
    case False
    then show ?thesis using W modified_quiet [of st t err response env now] by (auto simp: no_new_opening_def openings_def)
  qed
qed

lemma no_new_opening_quiet: "quiet s1 s2 \<Longrightarrow> no_new_opening s1 s2"
  by (auto simp: no_new_opening_def openings_def quiet_def waiting_openings_def)

lemma no_new_opening_updated:
  assumes "\<And>tx. tx_local (f tx) = tx_local tx" "\<And>tx. tx_caller (f tx) = tx_caller tx"
  shows "no_new_opening st (set_transaction t f st)"
proof -
  have "waiting_openings (set_transaction t f st) = waiting_openings st"
    unfolding waiting_openings_def set_transaction_def using assms by (simp add: filter_update_same)
  then show ?thesis by (simp add: no_new_opening_def openings_def)
qed

lemma openings_added:
  "openings (st\<lparr>cc_transactions := cc_transactions st @ [tx]\<rparr>) \<le> openings st + (if is_opening (tx_caller tx) then 1 else 0)"
  by (simp add: openings_def waiting_openings_def)

lemma no_new_opening_added: "\<not> is_opening (tx_caller tx) \<Longrightarrow> no_new_opening st (st\<lparr>cc_transactions := cc_transactions st @ [tx]\<rparr>)"
  using openings_added [of st tx] by (simp add: no_new_opening_def)

lemma no_new_opening_received: "no_new_opening st (st\<lparr>cc_hasReceivedError := b\<rparr>)"
  by (simp add: no_new_opening_def openings_def waiting_openings_def)

interpretation renewals: callback_relation no_new_opening "\<lambda>c. \<not> is_opening c"
  by unfold_locales (erule (1) no_new_opening_trans,
    auto intro: no_new_opening_quiet no_new_opening_answered no_new_opening_updated no_new_opening_added no_new_opening_received)

text \<open>A request for a token takes the place of the task that sends it.\<close>

lemma openings_removed:
  assumes "i < length (cc_tasks st)" "opens (cc_tasks st ! i)"
  shows "openings st = Suc (openings (remove_task i st))"
proof -
  have "filter opens (cc_tasks st) = filter opens (take i (cc_tasks st) @ cc_tasks st ! i # drop (Suc i) (cc_tasks st))"
    using id_take_nth_drop [OF assms(1)] by simp
  then show ?thesis using assms(2) by (simp add: openings_def remove_task_def waiting_openings_def)
qed

lemma openings_open_request:
  assumes ok: "transactions_wf st" and r: "send_open_secure_channel_request env now b nonce statusCode st = Inr st'"
  shows "openings st' \<le> Suc (openings st)"
proof (cases "ch_policyKnown env")
  case False
  then have "quiet st st'" using r by (auto simp: send_open_secure_channel_request_def)
  then show ?thesis using no_new_opening_quiet by (fastforce simp: no_new_opening_def)
next
  case True
  let ?st = "st\<lparr>cc_isOpened := \<not> b\<rparr>"
  have "transactions_wf ?st" by (rule frame_ok [OF _ ok]) (simp add: frame_def answers_def)
  moreover have "perform env now (OpenChannel b nonce now) OPN 0 statusCode ?st = Inr st'"
    using r True by (simp add: send_open_secure_channel_request_def)
  ultimately obtain tx where "no_new_opening (?st\<lparr>cc_transactions := cc_transactions ?st @ [tx]\<rparr>) st'"
    using renewals.performed by blast
  moreover have "openings ?st = openings st" by (simp add: openings_def waiting_openings_def)
  ultimately show ?thesis using openings_added [of ?st tx] by (auto simp: no_new_opening_def split: if_splits)
qed

lemma no_new_opening_step:
  assumes ok: "transactions_wf st" and r: "step_channel env (now, a) st = Inr st'"
  shows "no_new_opening st st'"
proof (cases "a = WatchdogFires \<or> (\<exists>i ok' nonce statusCode. a = RunTask i ok' nonce statusCode \<and> i < length (cc_tasks st) \<and> opens (cc_tasks st ! i))")
  case False
  then show ?thesis using renewals.step [OF ok r] by blast
next
  case True
  then consider "a = WatchdogFires" | i ok' nonce statusCode where "a = RunTask i ok' nonce statusCode" "i < length (cc_tasks st)" "opens (cc_tasks st ! i)"
    by blast
  then show ?thesis
  proof cases
    case 1
    then show ?thesis
      using r by (auto simp: security_token_about_to_expire_def later_def emit_def no_new_opening_def openings_def waiting_openings_def
          split: option.splits prod.splits)
  next
    case 2
    have ok1: "transactions_wf (remove_task i st)" by (rule remove_task_ok [OF ok])
    have "openings st' \<le> Suc (openings (remove_task i st))"
      using r 2 openings_open_request [OF ok1]
      by (cases "cc_tasks st ! i") (auto simp: run_task_def renew_security_token_def split: if_splits)
    then show ?thesis using openings_removed [OF 2(2,3)] by (simp add: no_new_opening_def)
  qed
qed

lemma no_new_opening_run:
  assumes "transactions_wf st" "channel_run env steps st = Inr st'"
  shows "no_new_opening st st'"
  using assms
proof (induction steps arbitrary: st)
  case Nil
  then show ?case using renewals.R_refl by simp
next
  case (Cons s steps)
  obtain st1 where 1: "step_channel env s st = Inr st1" "channel_run env steps st1 = Inr st'" using Cons.prems(2) by auto
  have "transactions_wf st1" using step_ok [OF Cons.prems(1), of env s] 1(1) by auto
  then show ?case using Cons.IH 1 no_new_opening_trans no_new_opening_step [OF Cons.prems(1)] by (metis prod.collapse)
qed


section \<open>Properties\<close>

lemma reached_ok: "channel_run env steps on_connection = Inr st \<Longrightarrow> transactions_wf st"
  using run_ok [OF on_connection_ok, of env steps] by auto

lemma reached_openings: "channel_run env steps on_connection = Inr st \<Longrightarrow> openings st \<le> 1"
  using no_new_opening_run [OF on_connection_ok, of env steps st]
  by (simp add: no_new_opening_def openings_def waiting_openings_def on_connection_def)

lemma transaction_timer_eq:
  assumes "t < length (cc_transactions st)" "tx_timer (cc_transactions st ! t)"
  obtains st2 where
    "st2 = modified_callback env now t (Some (TransactionTimedOut (tx_timeout (cc_transactions st ! t)))) None
       (set_transaction t (\<lambda>tx. tx\<lparr>tx_timer := False\<rparr>) st)"
    "cc_transactions (transaction_timer env now t st) = cc_transactions st2"
    "openings (transaction_timer env now t st) = openings st2"
    "cc_activeToken (transaction_timer env now t st) = cc_activeToken st2"
    "cc_tokens (transaction_timer env now t st) = cc_tokens st2"
  using assms by (simp add: transaction_timer_def Let_def openings_def waiting_openings_def)

lemma timer_answers:
  assumes "t < length (cc_transactions st)" "tx_timer (cc_transactions st ! t)"
  shows "\<not> tx_local (cc_transactions (transaction_timer env now t st) ! t)"
proof -
  obtain st2 where st2: "st2 = modified_callback env now t (Some (TransactionTimedOut (tx_timeout (cc_transactions st ! t)))) None
       (set_transaction t (\<lambda>tx. tx\<lparr>tx_timer := False\<rparr>) st)"
    "cc_transactions (transaction_timer env now t st) = cc_transactions st2"
    using transaction_timer_eq [OF assms] by blast
  have "\<not> tx_local (cc_transactions st2 ! t)"
    using assms by (simp add: st2(1) modified_transactions set_transaction_nth)
  then show ?thesis by (simp add: st2(2))
qed

text \<open>C14: Every transaction of a client channel comes to an end. At whatever point of a run the timer of a
  transaction fires, or the connection closes for the first time, the transaction has been answered, exactly once,
  from then on.\<close>

theorem transactions_end:
  assumes run: "channel_run env steps on_connection = Inr st" and t: "t < length (cc_transactions st)"
    and a: "a = TimerFires t \<or> \<not> cc_closeEmitted st \<and> (\<exists>err. a = SocketClosed err)"
  shows "\<exists>st'. channel_run env (steps @ (now, a) # steps') on_connection = Inr st' \<and> answers t st' = 1"
proof -
  have ok: "transactions_wf st" by (rule reached_ok [OF run])
  obtain st1 where 1: "step_channel env (now, a) st = Inr st1" "transactions_wf st1" using step_ok [OF ok] .
  have s1: "settled st st1" by (rule settled_step [OF ok 1(1)])
  then have t1: "t < length (cc_transactions st1)" using t by (simp add: settled_def)
  have "\<not> tx_local (cc_transactions st1 ! t)"
  proof (cases "tx_local (cc_transactions st ! t)")
    case False
    then show ?thesis using s1 t by (simp add: settled_def)
  next
    case True
    from a show ?thesis
    proof
      assume a: "a = TimerFires t"
      have "tx_timer (cc_transactions st ! t)" using okD(3) [OF ok okD(4) [OF ok t _ True]] by simp
      moreover have "st1 = transaction_timer env now t st" using 1(1) a by simp
      ultimately show ?thesis using timer_answers [OF t] by simp
    next
      assume "\<not> cc_closeEmitted st \<and> (\<exists>err. a = SocketClosed err)"
      then obtain err where e: "\<not> cc_closeEmitted st" "a = SocketClosed err" by blast
      obtain st2 where "socket_closed env now err st = Inr st2" "cc_requests st2 = []"
        using socket_closed_ok [OF ok, of env now err] e(1) by metis
      then have "cc_requests st1 = []" using 1(1) e(2) by simp
      then show ?thesis using okD(4) [OF 1(2) t1] by auto
    qed
  qed
  moreover obtain st' where 2: "channel_run env steps' st1 = Inr st'" "transactions_wf st'" using run_ok [OF 1(2)] .
  moreover have "settled st1 st'" by (rule settled_run [OF 1(2) 2(1)])
  ultimately have "answers t st' = 1" using okD(6) [OF 2(2), of t] t1 by (simp add: settled_def)
  then show ?thesis using run 1(1) 2(1) by (auto simp: run_append)
qed

text \<open>A request for a token that is answered badly was the only one under way, and leaves none.\<close>

lemma opening_answered_badly:
  assumes t: "t < length (cc_transactions st)" "tx_local (cc_transactions st ! t)" "is_opening (tx_caller (cc_transactions st ! t))"
    and o: "openings st \<le> 1"
    and bad: "err \<noteq> None \<and> response = None \<or> (\<exists>r. response = Some r \<and> rs_serviceResult r \<noteq> Good)"
    and eq: "st' = modified_callback env now t err response st"
  shows "openings st' = 0" "cc_activeToken st' = cc_activeToken st" "cc_tokens st' = cc_tokens st"
proof -
  note q = modified_quiet [of st t err response env now, OF bad]
  have w: "waiting_openings st = Suc (waiting_openings st')"
    using waiting_modified [OF t(1,2), of env now err response] t(3) by (simp add: eq)
  then have "cc_watchdog st = None \<and> length (filter opens (cc_tasks st)) = 0 \<and> waiting_openings st' = 0"
    using o unfolding openings_def by (simp split: if_splits)
  then show "openings st' = 0" "cc_activeToken st' = cc_activeToken st" "cc_tokens st' = cc_tokens st"
    using q by (simp_all add: openings_def eq)
qed

lemma opening_received:
  assumes ok: "transactions_wf st" and m: "map_of (cc_requests st) i = Some t" and r: "rs_serviceResult r \<noteq> Good"
  obtains err response st1 where
    "on_message_received env now r i st = Inr (modified_callback env now t err response st1)"
    "err \<noteq> None \<and> response = None \<or> (\<exists>r. response = Some r \<and> rs_serviceResult r \<noteq> Good)"
    "openings st1 = openings st" "cc_activeToken st1 = cc_activeToken st" "cc_tokens st1 = cc_tokens st"
    "length (cc_transactions st1) = length (cc_transactions st)"
    "tx_local (cc_transactions st1 ! t) = tx_local (cc_transactions st ! t)"
    "tx_caller (cc_transactions st1 ! t) = tx_caller (cc_transactions st ! t)"
proof -
  define st0 where "st0 = (case rs_body r of
                   OpenSecureChannelResponse token _ \<Rightarrow>
                     if cc_channelId st = 0 then st\<lparr>cc_channelId := tk_channelId token\<rparr> else st
                 | _ \<Rightarrow> st)"
  have eq: "on_message_received env now r i st =
      (case map_of (cc_requests st0) i of
         None \<Rightarrow> Inr (if cc_normalClose st0 then st0 else emit (InvalidRequestId i) st0)
       | Some t \<Rightarrow> process_request_callback env now t None (Some r)
           (st0\<lparr>cc_requests := AList.delete i (cc_requests st0)\<rparr>))"
    unfolding on_message_received_def Let_def st0_def by (rule refl)
  let ?st1 = "st0\<lparr>cc_requests := AList.delete i (cc_requests st0)\<rparr>"
  let ?st2 = "set_transaction t (\<lambda>tx. tx\<lparr>tx_callback := False\<rparr>) ?st1"
  have s: "cc_requests st0 = cc_requests st" "cc_transactions st0 = cc_transactions st" "quiet st st0" "cc_watchdog st0 = cc_watchdog st"
    by (simp_all add: st0_def quiet_def split: response_body.split)
  have e: "on_message_received env now r i st = Inr (modified_callback env now t
      (if rs_body r = ServiceFault then Some (ServiceResult (rs_serviceResult r)) else None)
      (if rs_body r = ServiceFault then None else Some r) ?st2)"
    using requested(3) [OF ok m] m s(1,2) by (simp add: eq process_request_callback_def Let_def)
  have w: "waiting_openings ?st2 = waiting_openings st"
    using s(2) by (simp add: waiting_openings_def set_transaction_def filter_update_same)
  show thesis
    by (rule that [OF e]) (use r s w in \<open>simp_all add: quiet_def openings_def set_transaction_nth\<close>)
qed

text \<open>C22: A renewal of the security token that fails is never tried again. When the request for a token
  times out, or is answered with a bad status, the watchdog that asks for the next token is not set, and nothing sets it
  later: whatever happens to the channel afterwards, its tokens stay the ones it had, until they expire.\<close>

theorem failed_renewal_is_final:
  assumes run: "channel_run env steps on_connection = Inr st"
    and t: "t < length (cc_transactions st)" "tx_local (cc_transactions st ! t)"
      "tx_caller (cc_transactions st ! t) = OpenChannel b nonce start"
    and a: "a = TimerFires t \<or>
      \<not> cc_hasReceivedError st \<and> (\<exists>r. a = Receive (tx_requestHandle (cc_transactions st ! t)) r \<and> rs_serviceResult r \<noteq> Good)"
    and run': "channel_run env ((now, a) # steps') st = Inr st'"
  shows "cc_activeToken st' = cc_activeToken st \<and> cc_tokens st' = cc_tokens st \<and> cc_watchdog st' = None"
proof -
  have ok: "transactions_wf st" and o: "openings st \<le> 1" using reached_ok reached_openings run by blast+
  note D = okD [OF ok]
  obtain st1 where s: "step_channel env (now, a) st = Inr st1" "transactions_wf st1" using step_ok [OF ok] .
  then have 1: "step_channel env (now, a) st = Inr st1" "channel_run env steps' st1 = Inr st'" "transactions_wf st1"
    using run' by simp_all
  have "openings st1 = 0 \<and> cc_activeToken st1 = cc_activeToken st \<and> cc_tokens st1 = cc_tokens st"
    using a
  proof
    assume a: "a = TimerFires t"
    let ?st = "set_transaction t (\<lambda>tx. tx\<lparr>tx_timer := False\<rparr>) st"
    have timer: "tx_timer (cc_transactions st ! t)" using D(3) [OF D(4) [OF t(1) _ t(2)]] by simp
    have o1: "openings ?st \<le> 1" using no_new_opening_updated [of "\<lambda>tx. tx\<lparr>tx_timer := False\<rparr>" st t] o by (simp add: no_new_opening_def)
    obtain st2 where st2: "st2 = modified_callback env now t (Some (TransactionTimedOut (tx_timeout (cc_transactions st ! t)))) None ?st"
      "openings st1 = openings st2" "cc_activeToken st1 = cc_activeToken st2" "cc_tokens st1 = cc_tokens st2"
      using transaction_timer_eq [OF t(1) timer] 1(1) a by auto
    show ?thesis
      using opening_answered_badly [OF _ _ _ o1 _ st2(1)] t by (simp add: st2(2-4) set_transaction_nth)
  next
    let ?h = "tx_requestHandle (cc_transactions st ! t)"
    assume "\<not> cc_hasReceivedError st \<and> (\<exists>r. a = Receive ?h r \<and> rs_serviceResult r \<noteq> Good)"
    then obtain r where a: "\<not> cc_hasReceivedError st" "a = Receive ?h r" "rs_serviceResult r \<noteq> Good" by blast
    have m: "map_of (cc_requests st) ?h = Some t" using D(4) [OF t(1) _ t(2)] D(1) by simp
    obtain e x st2 where 2: "on_message_received env now r ?h st = Inr (modified_callback env now t e x st2)"
      "e \<noteq> None \<and> x = None \<or> (\<exists>r. x = Some r \<and> rs_serviceResult r \<noteq> Good)"
      "openings st2 = openings st" "cc_activeToken st2 = cc_activeToken st" "cc_tokens st2 = cc_tokens st"
      "length (cc_transactions st2) = length (cc_transactions st)"
      "tx_local (cc_transactions st2 ! t) = tx_local (cc_transactions st ! t)"
      "tx_caller (cc_transactions st2 ! t) = tx_caller (cc_transactions st ! t)"
      by (rule opening_received [OF ok m a(3)])
    have "st1 = modified_callback env now t e x st2" using 1(1) a(1,2) 2(1) by simp
    then show ?thesis
      using opening_answered_badly [OF _ _ _ _ 2(2), of t st2 st1 env now] t o 2(3-8) by simp
  qed
  then show ?thesis
    using no_new_opening_run [OF 1(3,2)] by (auto simp: no_new_opening_def openings_def split: if_splits)
qed


text \<open>C23: An abort message for a request that has already timed out makes the client deaf. The listener
  of the abandon event reads a field of a request that is not there; the exception is caught and reported as an error of
  the message builder, which then ignores all further data, while the listener of that error finds no request and leaves
  the connection open: no later response is ever delivered, and every pending or new transaction has to wait for its
  timer.\<close>

theorem late_abandon_deafens:
  assumes run: "channel_run env steps on_connection = Inr st"
    and st: "\<not> cc_hasReceivedError st" "requestId \<notin> fst ` set (cc_requests st)"
      "case current of None \<Rightarrow> True | Some i \<Rightarrow> i \<notin> fst ` set (cc_requests st)"
    and run': "channel_run env ((now, ReceiveAbandon requestId current) # steps') st = Inr st'"
  shows "step_channel env (now, ReceiveAbandon requestId current) st = Inr (st\<lparr>cc_hasReceivedError := True\<rparr>) \<and>
     step_channel env (now', Receive i response) st' = Inr st'"
proof -
  have n: "map_of (cc_requests st) requestId = None" using st(2) by (simp add: map_of_eq_None_iff)
  have c: "map_of (cc_requests st) i = None" if "current = Some i" for i
    using st(3) that by (simp add: map_of_eq_None_iff)
  have 1: "step_channel env (now, ReceiveAbandon requestId current) st = Inr (st\<lparr>cc_hasReceivedError := True\<rparr>)"
    using st(1) n c by (simp add: receive_abandon_def on_abandon_def report_error_def on_builder_error_def split: option.split)
  have "transactions_wf (st\<lparr>cc_hasReceivedError := True\<rparr>)"
    by (rule frame_ok [OF _ reached_ok [OF run]]) (simp add: frame_def answers_def)
  then have "cc_hasReceivedError st'" using settled_run [of _ env steps' st'] run' 1 by (simp add: settled_def)
  then show ?thesis using 1 by simp
qed

text \<open>An abandoned request is reported as a success whose response is a fault, although the fault that the
  server sends for a request is reported as an error.\<close>

lemma abandon_reported_as_success:
  assumes ok: "transactions_wf st" and t: "map_of (cc_requests st) i = Some t" "tx_caller (cc_transactions st ! t) = User"
  shows "\<exists>st1 st2.
     on_abandon env now i st = Inr st1 \<and>
     last (cc_log st1) = Answered t None (Some \<lparr>rs_serviceResult = BadOperationAbandoned, rs_body = ServiceFault\<rparr>) \<and>
     on_message_received env now \<lparr>rs_serviceResult = s, rs_body = ServiceFault\<rparr> i st = Inr st2 \<and>
     last (cc_log st2) = Answered t (Some (ServiceResult s)) None"
  using t requested [OF ok t(1)]
  by (simp add: on_abandon_def on_message_received_def process_request_callback_def modified_callback_def set_transaction_def
        emit_def Let_def)

section \<open>An example\<close>

definition plain_env :: "nat channel_env" where
  "plain_env = \<lparr>ch_secured = False, ch_policyKnown = True, ch_builderPolicyKnown = True,
     ch_computeDerivedKeys = (\<lambda>_ _. \<lparr>derivedClientKeys = None, derivedServerKeys = None\<rparr>), ch_tokenRenewalInterval = 0,
     ch_defaultTransactionTimeout = 15000\<rparr>"

definition opened :: "nat \<Rightarrow> nat response" where
  "opened i = \<lparr>rs_serviceResult = Good, rs_body = OpenSecureChannelResponse
     \<lparr>tk_tokenId = i, tk_createdAt = Some 0, tk_revisedLifetime = 60000, tk_channelId = 7\<rparr> None\<rparr>"

text \<open>The channel opens, a request times out, another one waits.\<close>

definition example_steps :: "(int \<times> nat channel_step) list" where
  "example_steps = [(0, RunTask 0 True None Good), (10, Receive 1 (opened 1)), (20, Perform 0 Good),
     (15020, TimerFires 1), (15030, Perform 0 Good)]"

definition reached :: "(int \<times> nat channel_step) list \<Rightarrow> (nat, nat) channel" where
  "reached steps = (case channel_run plain_env steps on_connection of Inr st \<Rightarrow> st | Inl _ \<Rightarrow> on_connection)"

lemma reached: "channel_run plain_env steps on_connection = Inr (reached steps)"
proof -
  obtain st where "channel_run plain_env steps on_connection = Inr st" using run_ok [OF on_connection_ok] .
  then show ?thesis by (simp add: reached_def)
qed

lemma reached_from: "channel_run plain_env steps' (reached steps) = Inr (reached (steps @ steps'))"
  using run_append [of plain_env steps steps' on_connection] by (simp add: reached)

lemmas channel_evaluation = on_connection_def emit_def later_def set_transaction_def isValid_def run_task_def remove_task_def
  send_open_secure_channel_request_def perform_def internal_perform_transaction_def makeRequestId_def sendSecureOpcUARequest_def
  requestHandleNotSetValue_def adjustRequestTimeout_def on_message_received_def process_request_callback_def modified_callback_def
  opening_callback_def token_received_def accept_token_def derive_keys_def pushNewToken_def removeOldTokens_def
  install_security_token_watchdog_def renewal_timeout_def open_done_def transaction_timer_def
  security_token_about_to_expire_def renew_security_token_def receive_abandon_def on_abandon_def report_error_def on_builder_error_def
  Let_def plain_env_def opened_def example_steps_def

text \<open>C13: Whatever happens to a channel after its connection, in whatever order, no exception leaves its
  handlers: the two assertions of \<^verbatim>\<open>process_request_callback\<close> hold at each call of it. Each transaction
  either has been answered exactly once (its modified callback has called the callback of the caller), or has not been
  answered and is still registered in \<^verbatim>\<open>#_requests\<close> under the handle of its request, with its timer
  armed; request ids are distinct, and \<^verbatim>\<open>isTransactionInProgress\<close> says whether a transaction has not been
  answered. This says nothing of what the callbacks do: an exception thrown inside the callback of an opening
  transaction (a token id pushed again, a watchdog that is armed already, a response without a token) does not leave the
  modified callback, which prints it and drops it; the model logs it as \<open>CallbackThrew\<close>, and the transaction
  counts as answered.\<close>

theorem transactions_answered_once:
  "\<exists>st. channel_run env steps on_connection = Inr st \<and>
     (\<forall>t < length (cc_transactions st).
        answers t st = 1 \<and> \<not> tx_local (cc_transactions st ! t) \<or>
        answers t st = 0 \<and> tx_local (cc_transactions st ! t) \<and> tx_timer (cc_transactions st ! t) \<and>
        (tx_requestHandle (cc_transactions st ! t), t) \<in> set (cc_requests st)) \<and>
     distinct (map fst (cc_requests st)) \<and>
     (isTransactionInProgress st \<longleftrightarrow> (\<exists>t < length (cc_transactions st). answers t st = 0))"
proof -
  obtain st where st: "channel_run env steps on_connection = Inr st" "transactions_wf st"
    using run_ok [OF on_connection_ok] .
  note D = okD [OF st(2)]
  have "isTransactionInProgress st \<longleftrightarrow> (\<exists>t < length (cc_transactions st). answers t st = 0)"
  proof
    assume "isTransactionInProgress st"
    then obtain i t where "(i, t) \<in> set (cc_requests st)" by (cases "cc_requests st") (auto simp: isTransactionInProgress_def)
    then have "t < length (cc_transactions st) \<and> answers t st = 0" using D(2,3) [of i t] D(6) [of t] by simp
    then show "\<exists>t < length (cc_transactions st). answers t st = 0" by blast
  next
    assume "\<exists>t < length (cc_transactions st). answers t st = 0"
    then show "isTransactionInProgress st"
      using D(4,6) by (force simp: isTransactionInProgress_def split: if_splits)
  qed
  moreover have "answers t st = 1 \<and> \<not> tx_local (cc_transactions st ! t) \<or>
        answers t st = 0 \<and> tx_local (cc_transactions st ! t) \<and> tx_timer (cc_transactions st ! t) \<and>
        (tx_requestHandle (cc_transactions st ! t), t) \<in> set (cc_requests st)" if "t < length (cc_transactions st)" for t
    using that D(3) [OF D(4) [of t]] D(4,6) [of t] by auto
  ultimately show ?thesis using st(1) D(1) by blast
qed

theorem transactions_answered_once_witness:
  "\<exists>st. channel_run plain_env example_steps on_connection = Inr st \<and> length (cc_transactions st) = 3 \<and>
     (answers 1 st = 1 \<and> answers 2 st = 0) \<and> (\<exists>i. (i, 2) \<in> set (cc_requests st))"
proof -
  let ?st = "reached example_steps"
  have l: "length (cc_transactions ?st) = 3" "tx_local (cc_transactions ?st ! 2)" "\<not> tx_local (cc_transactions ?st ! 1)"
    by (simp_all add: reached_def channel_evaluation cong: if_weak_cong)
  have "(answers t ?st = 1 \<and> \<not> tx_local (cc_transactions ?st ! t)) \<or>
      answers t ?st = 0 \<and> tx_local (cc_transactions ?st ! t) \<and> tx_timer (cc_transactions ?st ! t) \<and>
      (tx_requestHandle (cc_transactions ?st ! t), t) \<in> set (cc_requests ?st)" if "t < 3" for t
    using transactions_answered_once [of plain_env example_steps] that l(1) by (simp add: reached)
  from this [of 1] this [of 2] show ?thesis using l reached by auto
qed

theorem transactions_end_witness:
  "\<exists>st'. channel_run plain_env (example_steps @ (30030, TimerFires 2) # [(40000, Perform 0 Good)]) on_connection = Inr st' \<and>
     answers 2 st' = 1"
proof -
  have l: "2 < length (cc_transactions (reached example_steps))"
    by (simp add: reached_def channel_evaluation cong: if_weak_cong)
  show ?thesis using transactions_end [OF reached l] by blast
qed

theorem failed_renewal_is_final_witness:
  "let steps = example_steps @ [(45000, WatchdogFires), (45000, RunTask 0 True None Good)];
       st' = reached (steps @ [(60000, TimerFires 3), (80000, Perform 0 Good)])
   in cc_activeToken st' = cc_activeToken (reached steps) \<and> cc_tokens st' = cc_tokens (reached steps) \<and> cc_watchdog st' = None"
proof -
  let ?steps = "example_steps @ [(45000, WatchdogFires), (45000, RunTask 0 True None Good)]"
  have l: "3 < length (cc_transactions (reached ?steps))" "tx_local (cc_transactions (reached ?steps) ! 3)"
    "tx_caller (cc_transactions (reached ?steps) ! 3) = OpenChannel False None 45000"
    by (simp_all add: reached_def channel_evaluation cong: if_weak_cong)
  show ?thesis unfolding Let_def by (rule failed_renewal_is_final [OF reached l disjI1 [OF refl] reached_from])
qed

theorem late_abandon_deafens_witness:
  "step_channel plain_env (15050, Receive 3 \<lparr>rs_serviceResult = Good, rs_body = OtherResponse 5\<rparr>)
     (reached (example_steps @ [(15040, ReceiveAbandon 2 (Some 1))])) =
   Inr (reached (example_steps @ [(15040, ReceiveAbandon 2 (Some 1))]))"
proof -
  have l: "\<not> cc_hasReceivedError (reached example_steps)" "2 \<notin> fst ` set (cc_requests (reached example_steps))"
    "case Some 1 of None \<Rightarrow> True | Some i \<Rightarrow> i \<notin> fst ` set (cc_requests (reached example_steps))"
    by (simp_all add: reached_def channel_evaluation cong: if_weak_cong)
  show ?thesis using late_abandon_deafens [OF reached l reached_from] by blast
qed

end
