(* ===== verification/Like_Matcher.thy ===== *)
theory Like_Matcher
  imports Binary_Stream
begin

text \<open>
  \<^verbatim>\<open>node-opcua-like-matcher\<close>: the \<^verbatim>\<open>Like\<close> operator of OPC 10000-4. A
  JavaScript string is a list of 16-bit code units, indexed as the code indexes it; comparing two
  one-unit strings compares their units. The Unicode case tables (\<^verbatim>\<open>toLowerCase\<close>,
  \<^verbatim>\<open>toUpperCase\<close>, which may yield more than one unit) are the two fields of
  \<open>case_maps\<close>, about which nothing is assumed. The parser throws
  \<open>InvalidLikePatternError\<close>, the left summand here; the reasons stand for the message texts.
  This theory holds the pattern language: the parser, the printer it inverts, and what a list
  of elements denotes. \<open>Like_Search\<close> holds the search.
\<close>

type_synonym unit16 = "16 word"

definition units :: "string \<Rightarrow> js_string" where
  "units s = map (\<lambda>c. word_of_nat (of_char c)) s"

abbreviation PERCENT :: unit16 where "PERCENT \<equiv> 0x25"
abbreviation MINUS :: unit16 where "MINUS \<equiv> 0x2D"
abbreviation LBRACKET :: unit16 where "LBRACKET \<equiv> 0x5B"
abbreviation BACKSLASH :: unit16 where "BACKSLASH \<equiv> 0x5C"
abbreviation RBRACKET :: unit16 where "RBRACKET \<equiv> 0x5D"
abbreviation CARET :: unit16 where "CARET \<equiv> 0x5E"
abbreviation UNDERSCORE :: unit16 where "UNDERSCORE \<equiv> 0x5F"

section \<open>Data\<close>

datatype invalid_reason =
    TooLong
  | DanglingEscape
  | UnterminatedList
  | ReversedRange unit16 unit16
  | EmptyList

datatype invalid_like_pattern =
  InvalidLikePatternError (lk_pattern: js_string) (lk_index: nat) (lk_reason: invalid_reason)

type_synonym 'a like_result = "invalid_like_pattern + 'a"

record like_options =
  lo_caseInsensitive :: "bool option"
  lo_maxPatternLength :: "nat option"

datatype pattern_element =
    AnyString
  | AnyChar
  | Literal unit16
  | CharList bool "unit16 list" "(unit16 \<times> unit16) list"

record list_atom =
  at_char :: unit16
  at_escaped :: bool
  at_index :: nat

definition DEFAULT_MAX_PATTERN_LENGTH :: nat where
  "DEFAULT_MAX_PATTERN_LENGTH = 2048"

section \<open>Lists of characters\<close>

text \<open>The first loop of \<^verbatim>\<open>parseList\<close>: the atoms up to the closing bracket.\<close>

function read_atoms :: "js_string \<Rightarrow> nat \<Rightarrow> list_atom list \<Rightarrow> (bool \<times> nat \<times> list_atom list) like_result" where
  "read_atoms p i atoms =
     (if i < length p then
        if p ! i = RBRACKET then Inr (True, i + 1, atoms)
        else if p ! i = BACKSLASH then
          if length p \<le> i + 1 then Inl (InvalidLikePatternError p i DanglingEscape)
          else read_atoms p (i + 2) (atoms @ [\<lparr>at_char = p ! (i + 1), at_escaped = True, at_index = i\<rparr>])
        else read_atoms p (i + 1) (atoms @ [\<lparr>at_char = p ! i, at_escaped = False, at_index = i\<rparr>])
      else Inr (False, i, atoms))"
  by pat_completeness auto
termination by (relation "measure (\<lambda>(p, i, _). length p - i)") auto

declare read_atoms.simps [simp del]

text \<open>Its second loop: an unescaped minus between two atoms makes a range.\<close>

fun split_atoms ::
    "js_string \<Rightarrow> list_atom list \<Rightarrow> unit16 list \<Rightarrow> (unit16 \<times> unit16) list \<Rightarrow>
     (unit16 list \<times> (unit16 \<times> unit16) list) like_result" where
  "split_atoms p (a # b # c # rest) chars ranges =
     (if \<not> at_escaped b \<and> at_char b = MINUS then
        if at_char c < at_char a
        then Inl (InvalidLikePatternError p (at_index a) (ReversedRange (at_char a) (at_char c)))
        else split_atoms p rest chars (ranges @ [(at_char a, at_char c)])
      else split_atoms p (b # c # rest) (chars @ [at_char a]) ranges)"
| "split_atoms p (a # rest) chars ranges = split_atoms p rest (chars @ [at_char a]) ranges"
| "split_atoms p [] chars ranges = Inr (chars, ranges)"

definition parseList :: "js_string \<Rightarrow> nat \<Rightarrow> (pattern_element \<times> nat) like_result" where
  "parseList p start =
     (let negated = start + 1 < length p \<and> p ! (start + 1) = CARET;
          i = (if negated then start + 2 else start + 1)
      in case read_atoms p i [] of
           Inl err \<Rightarrow> Inl err
         | Inr (closed, next, atoms) \<Rightarrow>
             if \<not> closed then Inl (InvalidLikePatternError p start UnterminatedList)
             else (case split_atoms p atoms [] [] of
                     Inl err \<Rightarrow> Inl err
                   | Inr (chars, ranges) \<Rightarrow>
                       if chars = [] \<and> ranges = []
                       then Inl (InvalidLikePatternError p start EmptyList)
                       else Inr (CharList negated chars ranges, next)))"

lemma read_atoms_next: "read_atoms p i atoms = Inr (closed, next, atoms') \<Longrightarrow> i \<le> next"
  by (induction p i atoms rule: read_atoms.induct)
    (subst (asm) (3) read_atoms.simps, fastforce split: if_splits)

lemma parseList_next: "parseList p i = Inr (element, next) \<Longrightarrow> i < next"
  by (auto simp: parseList_def Let_def split: sum.splits if_splits dest!: read_atoms_next)

section \<open>Patterns\<close>

function parse_loop :: "js_string \<Rightarrow> nat \<Rightarrow> pattern_element list \<Rightarrow> pattern_element list like_result" where
  "parse_loop p i elements =
     (if i < length p then
        if p ! i = PERCENT then
          parse_loop p (i + 1)
            (if elements \<noteq> [] \<and> last elements = AnyString then elements else elements @ [AnyString])
        else if p ! i = UNDERSCORE then parse_loop p (i + 1) (elements @ [AnyChar])
        else if p ! i = BACKSLASH then
          if length p \<le> i + 1 then Inl (InvalidLikePatternError p i DanglingEscape)
          else parse_loop p (i + 2) (elements @ [Literal (p ! (i + 1))])
        else if p ! i = LBRACKET then
          (case parseList p i of
             Inl err \<Rightarrow> Inl err
           | Inr (element, next) \<Rightarrow> parse_loop p next (elements @ [element]))
        else parse_loop p (i + 1) (elements @ [Literal (p ! i)])
      else Inr elements)"
  by pat_completeness auto
termination
  by (relation "measure (\<lambda>(p, i, _). length p - i)") (auto dest: parseList_next)

declare parse_loop.simps [simp del]

definition parsePattern :: "js_string \<Rightarrow> nat \<Rightarrow> pattern_element list like_result" where
  "parsePattern p maxPatternLength =
     (if maxPatternLength < length p
      then Inl (InvalidLikePatternError p maxPatternLength TooLong)
      else parse_loop p 0 [])"

definition max_length :: "like_options option \<Rightarrow> nat" where
  "max_length options =
     (case Option.bind options lo_maxPatternLength of None \<Rightarrow> DEFAULT_MAX_PATTERN_LENGTH | Some n \<Rightarrow> n)"

definition isValidLikePattern :: "js_string \<Rightarrow> like_options option \<Rightarrow> bool" where
  "isValidLikePattern p options =
     (case parsePattern p (max_length options) of Inl _ \<Rightarrow> False | Inr _ \<Rightarrow> True)"

section \<open>What the parser returns\<close>

text \<open>Well-formed elements: a list is not empty and its ranges are not reversed; no two
  adjacent elements are both \<open>AnyString\<close>.\<close>

fun wf_element :: "pattern_element \<Rightarrow> bool" where
  "wf_element (CharList negated chars ranges) \<longleftrightarrow>
     (chars \<noteq> [] \<or> ranges \<noteq> []) \<and> list_all (\<lambda>(from, to). from \<le> to) ranges"
| "wf_element _ \<longleftrightarrow> True"

definition collapsed :: "pattern_element list \<Rightarrow> bool" where
  "collapsed es = successively (\<lambda>a b. \<not> (a = AnyString \<and> b = AnyString)) es"

definition wf_elements :: "pattern_element list \<Rightarrow> bool" where
  "wf_elements es \<longleftrightarrow> list_all wf_element es \<and> collapsed es"

lemma collapsed_append_one:
  "collapsed (es @ [x]) \<longleftrightarrow> collapsed es \<and> (es \<noteq> [] \<longrightarrow> \<not> (last es = AnyString \<and> x = AnyString))"
  by (auto simp: collapsed_def successively_append_iff)

lemma wf_elements_snoc:
  "wf_elements (es @ [x]) \<longleftrightarrow>
     wf_elements es \<and> wf_element x \<and> (es \<noteq> [] \<longrightarrow> \<not> (last es = AnyString \<and> x = AnyString))"
  by (auto simp: wf_elements_def collapsed_append_one)

lemma wf_elements_Nil [simp]: "wf_elements []"
  by (simp add: wf_elements_def collapsed_def)

lemma split_atoms_ranges:
  "split_atoms p atoms chars ranges = Inr (chars', ranges') \<Longrightarrow>
     list_all (\<lambda>(from, to). from \<le> to) ranges \<Longrightarrow> list_all (\<lambda>(from, to). from \<le> to) ranges'"
  by (induction p atoms chars ranges rule: split_atoms.induct) (auto split: if_splits)

lemma parseList_wf: "parseList p i = Inr (element, next) \<Longrightarrow> wf_element element \<and> element \<noteq> AnyString"
  by (auto simp: parseList_def Let_def split: sum.splits if_splits dest!: split_atoms_ranges)

text \<open>The rule of the loop: what every iteration keeps holds of the elements returned.\<close>

lemma parse_loop_rule:
  assumes "parse_loop p i es = Inr es'" and "P i es"
    and "\<And>i es. i < length p \<Longrightarrow> P i es \<Longrightarrow> p ! i = PERCENT \<Longrightarrow>
           P (i + 1) (if es \<noteq> [] \<and> last es = AnyString then es else es @ [AnyString])"
    and "\<And>i es. i < length p \<Longrightarrow> P i es \<Longrightarrow> p ! i = UNDERSCORE \<Longrightarrow> P (i + 1) (es @ [AnyChar])"
    and "\<And>i es. i + 1 < length p \<Longrightarrow> P i es \<Longrightarrow> p ! i = BACKSLASH \<Longrightarrow>
           P (i + 2) (es @ [Literal (p ! (i + 1))])"
    and "\<And>i es element next. i < length p \<Longrightarrow> P i es \<Longrightarrow> p ! i = LBRACKET \<Longrightarrow>
           parseList p i = Inr (element, next) \<Longrightarrow> P next (es @ [element])"
    and "\<And>i es. i < length p \<Longrightarrow> P i es \<Longrightarrow> p ! i \<notin> {PERCENT, UNDERSCORE, BACKSLASH, LBRACKET} \<Longrightarrow>
           P (i + 1) (es @ [Literal (p ! i)])"
  shows "\<exists>i'\<ge>length p. P i' es'"
  using assms(1,2)
proof (induction "length p - i" arbitrary: i es rule: less_induct)
  case less
  have next': "\<exists>i'\<ge>length p. P i' es'" if "parse_loop p j es2 = Inr es'" "P j es2" "i < j" "i < length p" for j es2
    using less.hyps[OF _ that(1,2)] that(3,4) by simp
  show ?case
  proof (cases "i < length p")
    case i: True
    note run = less.prems(1)[unfolded parse_loop.simps[of p i es] if_P[OF i]]
    consider (percent) "p ! i = PERCENT" | (underscore) "p ! i = UNDERSCORE" | (escape) "p ! i = BACKSLASH"
      | (bracket) "p ! i = LBRACKET" | (other) "p ! i \<notin> {PERCENT, UNDERSCORE, BACKSLASH, LBRACKET}" by blast
    then show ?thesis
    proof cases
      case percent
      with run have "parse_loop p (i + 1) (if es \<noteq> [] \<and> last es = AnyString then es else es @ [AnyString]) = Inr es'"
        by simp
      from next'[OF this assms(3)[OF i less.prems(2) percent]] i show ?thesis by simp
    next
      case underscore
      with run next'[OF _ assms(4)[OF i less.prems(2) underscore]] i show ?thesis by simp
    next
      case escape
      with run next'[OF _ assms(5)[OF _ less.prems(2) escape]] i show ?thesis by (simp split: if_splits)
    next
      case bracket
      with run obtain element n where "parseList p i = Inr (element, n)" "parse_loop p n (es @ [element]) = Inr es'"
        by (auto split: sum.splits)
      with next'[OF _ assms(6)[OF i less.prems(2) bracket]] i parseList_next show ?thesis by blast
    next
      case other
      with run next'[OF _ assms(7)[OF i less.prems(2) other]] i show ?thesis by simp
    qed
  next
    case False
    with less.prems show ?thesis by (intro exI[of _ i]) (auto simp: parse_loop.simps[of p i es])
  qed
qed

lemma parse_loop_wf: "parse_loop p i es = Inr es' \<Longrightarrow> wf_elements es \<Longrightarrow> wf_elements es'"
  by (drule parse_loop_rule[where P = "\<lambda>_. wf_elements"])
    (auto simp: wf_elements_snoc dest: parseList_wf)

section \<open>Printing\<close>

text \<open>A pattern for given elements: literals and list members escaped throughout.\<close>

definition escape :: "js_string \<Rightarrow> js_string" where
  "escape cs = concat (map (\<lambda>c. [BACKSLASH, c]) cs)"

definition print_ranges :: "(unit16 \<times> unit16) list \<Rightarrow> js_string" where
  "print_ranges rs = concat (map (\<lambda>(from, to). [BACKSLASH, from, MINUS, BACKSLASH, to]) rs)"

fun print_element :: "pattern_element \<Rightarrow> js_string" where
  "print_element AnyString = [PERCENT]"
| "print_element AnyChar = [UNDERSCORE]"
| "print_element (Literal c) = [BACKSLASH, c]"
| "print_element (CharList negated chars ranges) =
     LBRACKET # (if negated then [CARET] else []) @ escape chars @ print_ranges ranges @ [RBRACKET]"

definition print_pattern :: "pattern_element list \<Rightarrow> js_string" where
  "print_pattern es = concat (map print_element es)"

lemma escape_simps [simp]: "escape [] = []" "escape (c # cs) = BACKSLASH # c # escape cs"
  by (simp_all add: escape_def)

lemma print_ranges_simps [simp]:
  "print_ranges [] = []"
  "print_ranges ((from, to) # rs) = BACKSLASH # from # MINUS # BACKSLASH # to # print_ranges rs"
  by (simp_all add: print_ranges_def)

lemma print_pattern_simps [simp]:
  "print_pattern [] = []"
  "print_pattern (e # es) = print_element e @ print_pattern es"
  by (simp_all add: print_pattern_def)

lemma read_escaped:
  "read_atoms (pre @ BACKSLASH # c # suf) (length pre) atoms =
   read_atoms ((pre @ [BACKSLASH, c]) @ suf) (length (pre @ [BACKSLASH, c]))
     (atoms @ [\<lparr>at_char = c, at_escaped = True, at_index = length pre\<rparr>])"
  by (subst read_atoms.simps) (simp add: nth_append)

lemma read_minus:
  "read_atoms (pre @ MINUS # suf) (length pre) atoms =
   read_atoms ((pre @ [MINUS]) @ suf) (length (pre @ [MINUS]))
     (atoms @ [\<lparr>at_char = MINUS, at_escaped = False, at_index = length pre\<rparr>])"
  by (subst read_atoms.simps) (simp add: nth_append)

lemma read_closing:
  "read_atoms (pre @ RBRACKET # suf) (length pre) atoms = Inr (True, length pre + 1, atoms)"
  by (subst read_atoms.simps) (simp add: nth_append)

fun range_atoms :: "list_atom list \<Rightarrow> (unit16 \<times> unit16) list \<Rightarrow> bool" where
  "range_atoms [] [] \<longleftrightarrow> True"
| "range_atoms (a # b # c # atoms) ((from, to) # rs) \<longleftrightarrow>
     at_char a = from \<and> at_escaped a \<and> at_char b = MINUS \<and> \<not> at_escaped b \<and> at_char c = to \<and>
     range_atoms atoms rs"
| "range_atoms _ _ \<longleftrightarrow> False"

lemma read_chars:
  "\<exists>as. map at_char as = cs \<and> list_all at_escaped as \<and>
     read_atoms (pre @ escape cs @ suf) (length pre) atoms =
     read_atoms ((pre @ escape cs) @ suf) (length (pre @ escape cs)) (atoms @ as)"
proof (induction cs arbitrary: pre atoms)
  case (Cons c cs)
  let ?a = "\<lparr>at_char = c, at_escaped = True, at_index = length pre\<rparr>"
  obtain as where "map at_char as = cs" "list_all at_escaped as"
    "read_atoms ((pre @ [BACKSLASH, c]) @ escape cs @ suf) (length (pre @ [BACKSLASH, c])) (atoms @ [?a]) =
     read_atoms (((pre @ [BACKSLASH, c]) @ escape cs) @ suf) (length ((pre @ [BACKSLASH, c]) @ escape cs)) ((atoms @ [?a]) @ as)"
    using Cons.IH[of "pre @ [BACKSLASH, c]" "atoms @ [?a]"] by blast
  then show ?case
    by (intro exI[of _ "?a # as"]) (simp add: read_escaped)
qed simp

lemma read_ranges:
  "\<exists>as. range_atoms as rs \<and>
     read_atoms (pre @ print_ranges rs @ suf) (length pre) atoms =
     read_atoms ((pre @ print_ranges rs) @ suf) (length (pre @ print_ranges rs)) (atoms @ as)"
proof (induction rs arbitrary: pre atoms)
  case (Cons r rs)
  obtain from' to' where r: "r = (from', to')" by (cases r)
  let ?a = "\<lparr>at_char = from', at_escaped = True, at_index = length pre\<rparr>"
    and ?b = "\<lparr>at_char = MINUS, at_escaped = False, at_index = Suc (Suc (length pre))\<rparr>"
    and ?c = "\<lparr>at_char = to', at_escaped = True, at_index = Suc (Suc (Suc (length pre)))\<rparr>"
  let ?pre = "pre @ [BACKSLASH, from', MINUS, BACKSLASH, to']"
  obtain as where as: "range_atoms as rs"
    "read_atoms (?pre @ print_ranges rs @ suf) (length ?pre) (atoms @ [?a, ?b, ?c]) =
     read_atoms ((?pre @ print_ranges rs) @ suf) (length (?pre @ print_ranges rs)) ((atoms @ [?a, ?b, ?c]) @ as)"
    using Cons.IH[of ?pre "atoms @ [?a, ?b, ?c]"] by blast
  have "read_atoms (pre @ print_ranges (r # rs) @ suf) (length pre) atoms =
        read_atoms (?pre @ print_ranges rs @ suf) (length ?pre) (atoms @ [?a, ?b, ?c])"
    using read_escaped[of pre from' "MINUS # BACKSLASH # to' # print_ranges rs @ suf" atoms]
      read_minus[of "pre @ [BACKSLASH, from']" "BACKSLASH # to' # print_ranges rs @ suf" "atoms @ [?a]"]
      read_escaped[of "pre @ [BACKSLASH, from', MINUS]" to' "print_ranges rs @ suf" "atoms @ [?a, ?b]"]
    by (simp add: r)
  with as show ?case
    by (intro exI[of _ "?a # ?b # ?c # as"]) (simp add: r)
qed (auto intro: exI[of _ "[]"])

lemma split_range_atoms:
  "range_atoms as rs \<Longrightarrow> list_all (\<lambda>(from, to). from \<le> to) rs \<Longrightarrow>
     split_atoms p as cs rs0 = Inr (cs, rs0 @ rs)"
  by (induction as rs arbitrary: rs0 rule: range_atoms.induct) (auto simp: not_less)

lemma split_escaped:
  "list_all at_escaped as \<Longrightarrow> bs = [] \<or> at_escaped (hd bs) \<Longrightarrow>
     split_atoms p (as @ bs) cs rs0 = split_atoms p bs (cs @ map at_char as) rs0"
proof (induction as arbitrary: cs)
  case (Cons a as)
  have "split_atoms p (a # as @ bs) cs rs0 = split_atoms p (as @ bs) (cs @ [at_char a]) rs0"
  proof (cases "as @ bs")
    case outer: (Cons b rest)
    with Cons.prems have "at_escaped b" by (cases as) auto
    with outer show ?thesis by (cases rest) simp_all
  qed simp
  with Cons show ?case by simp
qed simp

lemma range_atoms_hd: "range_atoms as rs \<Longrightarrow> as = [] \<or> at_escaped (hd as)"
  by (cases "(as, rs)" rule: range_atoms.cases) auto

lemma not_caret: "escape cs @ print_ranges rs @ [RBRACKET] = c # r \<Longrightarrow> c \<noteq> CARET"
  by (cases cs; cases rs) auto

lemma parseList_printed:
  assumes "wf_element (CharList negated chars ranges)"
  shows "parseList (pre @ print_element (CharList negated chars ranges) @ suf) (length pre) =
         Inr (CharList negated chars ranges, length (pre @ print_element (CharList negated chars ranges)))"
proof -
  let ?p = "pre @ print_element (CharList negated chars ranges) @ suf"
  let ?pre = "pre @ LBRACKET # (if negated then [CARET] else [])"
  let ?body = "escape chars @ print_ranges ranges"
  have p: "?p = ?pre @ escape chars @ print_ranges ranges @ RBRACKET # suf" by simp
  have neg: "(length pre + 1 < length ?p \<and> ?p ! (length pre + 1) = CARET) = negated"
    by (cases chars; cases ranges) (auto simp: nth_append)
  obtain as where as: "map at_char as = chars" "list_all at_escaped as"
    "read_atoms ?p (length ?pre) [] = read_atoms ((?pre @ escape chars) @ print_ranges ranges @ RBRACKET # suf)
       (length (?pre @ escape chars)) as"
    using read_chars[of chars ?pre "print_ranges ranges @ RBRACKET # suf" "[]"] p by auto
  obtain bs where bs: "range_atoms bs ranges"
    "read_atoms ((?pre @ escape chars) @ print_ranges ranges @ RBRACKET # suf) (length (?pre @ escape chars)) as =
     read_atoms (((?pre @ escape chars) @ print_ranges ranges) @ RBRACKET # suf)
       (length ((?pre @ escape chars) @ print_ranges ranges)) (as @ bs)"
    using read_ranges by blast
  have "read_atoms ?p (length ?pre) [] = Inr (True, length (?pre @ ?body) + 1, as @ bs)"
    unfolding as(3) bs(2) read_closing by simp
  moreover have "split_atoms ?p (as @ bs) [] [] = Inr (chars, ranges)"
    using split_escaped[OF as(2) range_atoms_hd[OF bs(1)]] split_range_atoms[OF bs(1)] assms as(1) by simp
  ultimately show ?thesis
    using assms neg by (cases negated) (simp_all add: parseList_def)
qed

lemma parse_loop_end: "parse_loop pre (length pre) es = Inr es"
  by (subst parse_loop.simps) simp

lemma parse_printed_element:
  assumes "wf_element e" and "es \<noteq> [] \<Longrightarrow> \<not> (last es = AnyString \<and> e = AnyString)"
  shows "parse_loop (pre @ print_element e @ suf) (length pre) es =
         parse_loop ((pre @ print_element e) @ suf) (length (pre @ print_element e)) (es @ [e])"
proof (cases e)
  case (CharList negated chars ranges)
  with assms parseList_printed[of negated chars ranges pre suf] show ?thesis
    by (subst parse_loop.simps) (simp add: nth_append)
qed (use assms(2) in \<open>(subst parse_loop.simps, auto simp: nth_append)+\<close>)

lemma parse_printed_pattern:
  "list_all wf_element es \<Longrightarrow> collapsed (es0 @ es) \<Longrightarrow>
     parse_loop (pre @ print_pattern es) (length pre) es0 = Inr (es0 @ es)"
proof (induction es arbitrary: pre es0)
  case (Cons e es)
  have "collapsed ((es0 @ [e]) @ es)" using Cons.prems(2) by simp
  moreover from this have "es0 \<noteq> [] \<Longrightarrow> \<not> (last es0 = AnyString \<and> e = AnyString)"
    by (auto simp: collapsed_def successively_append_iff)
  ultimately show ?case
    using Cons.IH[of "es0 @ [e]" "pre @ print_element e"] parse_printed_element[of e es0 pre "print_pattern es"]
      Cons.prems(1) by simp
qed (simp add: parse_loop_end)

text \<open>C36: Parsing inverts printing. For every list of well-formed elements without two adjacent
  \<open>%\<close> the pattern that writes them (everything literal escaped) is parsed back to
  exactly these elements, wherever a literal is a wildcard, a bracket, a minus or a backslash, inside
  a list or outside; conversely every pattern the parser accepts yields such elements, so that it
  means the same as its canonical print.\<close>

theorem pattern_roundtrip:
  "(wf_elements es \<and> length (print_pattern es) \<le> n \<longrightarrow> parsePattern (print_pattern es) n = Inr es) \<and>
   (parsePattern p m = Inr es' \<longrightarrow> wf_elements es' \<and> parse_loop (print_pattern es') 0 [] = Inr es')"
proof -
  have "parse_loop (print_pattern es) 0 [] = Inr es" if "wf_elements es" for es
    using that parse_printed_pattern[of es "[]" "[]"] by (simp add: wf_elements_def)
  moreover have "wf_elements es'" if "parsePattern p m = Inr es'"
    using that by (auto simp: parsePattern_def split: if_splits dest: parse_loop_wf)
  ultimately show ?thesis by (simp add: parsePattern_def)
qed

theorem pattern_roundtrip_witness:
  "parsePattern (print_pattern [AnyString, Literal PERCENT, CharList True [MINUS] [(0x61, 0x7A)], AnyChar]) 2048 =
     Inr [AnyString, Literal PERCENT, CharList True [MINUS] [(0x61, 0x7A)], AnyChar]"
  using pattern_roundtrip[of "[AnyString, Literal PERCENT, CharList True [MINUS] [(0x61, 0x7A)], AnyChar]" 2048 "[]" 0 "[]"]
  by (simp add: wf_elements_def collapsed_def)

section \<open>Errors\<close>

text \<open>An error of the parser proper names the pattern and an index in it.\<close>

definition located :: "js_string \<Rightarrow> invalid_like_pattern \<Rightarrow> bool" where
  "located p err \<longleftrightarrow> lk_pattern err = p \<and> lk_index err < length p \<and> lk_reason err \<noteq> TooLong"

lemma read_atoms_located:
  "list_all (\<lambda>a. at_index a < length p) atoms \<Longrightarrow>
     (case read_atoms p i atoms of
        Inl err \<Rightarrow> located p err
      | Inr (closed, next, atoms') \<Rightarrow>
          (i \<le> length p \<longrightarrow> next \<le> length p) \<and> list_all (\<lambda>a. at_index a < length p) atoms')"
  by (induction p i atoms rule: read_atoms.induct)
    (subst read_atoms.simps, auto simp: located_def split: sum.splits)

lemma split_atoms_located:
  "list_all (\<lambda>a. at_index a < length p) atoms \<Longrightarrow> split_atoms p atoms cs rs = Inl err \<Longrightarrow> located p err"
  by (induction p atoms cs rs rule: split_atoms.induct) (auto simp: located_def split: if_splits)

lemma parseList_located:
  assumes "i < length p" and "p ! i = LBRACKET"
  shows "case parseList p i of Inl err \<Rightarrow> located p err | Inr (element, next) \<Rightarrow> next \<le> length p"
proof -
  define j where "j = (if i + 1 < length p \<and> p ! (i + 1) = CARET then i + 2 else i + 1)"
  have "j \<le> length p" using assms by (auto simp: j_def)
  moreover have "case read_atoms p j [] of
        Inl err \<Rightarrow> located p err
      | Inr (closed, next, atoms') \<Rightarrow>
          (j \<le> length p \<longrightarrow> next \<le> length p) \<and> list_all (\<lambda>a. at_index a < length p) atoms'"
    by (rule read_atoms_located) simp
  ultimately have r: "case read_atoms p j [] of
        Inl err \<Rightarrow> located p err
      | Inr (closed, next, atoms) \<Rightarrow> next \<le> length p \<and> list_all (\<lambda>a. at_index a < length p) atoms"
    by (simp split: sum.splits prod.splits)
  show ?thesis
  proof (cases "read_atoms p j []")
    case (Inl err)
    with r show ?thesis unfolding parseList_def Let_def j_def[symmetric] by simp
  next
    case (Inr t)
    then obtain closed n atoms where t: "read_atoms p j [] = Inr (closed, n, atoms)" by (cases t) auto
    with r have n: "n \<le> length p" "list_all (\<lambda>a. at_index a < length p) atoms" by simp_all
    show ?thesis
      using t n(1) assms(1) split_atoms_located[OF n(2)] unfolding parseList_def Let_def j_def[symmetric]
      by (cases "split_atoms p atoms [] []") (simp_all add: located_def split: prod.split)
  qed
qed

lemma parse_loop_count:
  assumes "parse_loop p 0 [] = Inr es"
  shows "length es \<le> length p"
proof -
  have "\<exists>i\<ge>length p. length es \<le> i \<and> i \<le> length p"
    using assms
  proof (rule parse_loop_rule[where P = "\<lambda>i es. length es \<le> i \<and> i \<le> length p"])
    fix i "next" and es :: "pattern_element list" and element
    assume a: "i < length p" "length es \<le> i \<and> i \<le> length p" "p ! i = LBRACKET" "parseList p i = Inr (element, next)"
    with parseList_located[OF a(1,3)] parseList_next[OF a(4)]
    show "length (es @ [element]) \<le> next \<and> next \<le> length p" by simp
  qed auto
  then show ?thesis by auto
qed

lemma parse_loop_located: "parse_loop p i es = Inl err \<Longrightarrow> located p err"
proof (induction "length p - i" arbitrary: i es rule: less_induct)
  case less
  note run = less.prems[unfolded parse_loop.simps[of p i es]]
  have ih: "located p err" if "parse_loop p k es2 = Inl err" "i < k" "i < length p" for k es2
    using that less.hyps[of k es2] by (simp add: diff_less_mono2)
  show ?case
  proof (cases "i < length p \<and> p ! i = LBRACKET")
    case True
    show ?thesis
    proof (cases "parseList p i")
      case (Inl e)
      with True run parseList_located[of i p] show ?thesis by simp
    next
      case (Inr r)
      obtain element n where r: "r = (element, n)" by (cases r)
      with Inr True run parseList_next[of p i element n] ih[of n "es @ [element]"]
      show ?thesis by simp
    qed
  next
    case False
    have "located p (InvalidLikePatternError p i DanglingEscape)" if "i < length p"
      using that by (simp add: located_def)
    with False run show ?thesis
      by (auto split: if_splits intro: ih)
  qed
qed

text \<open>Parsing is bounded before it starts: an accepted pattern is at most
  \<open>maxPatternLength\<close> units long and makes at most one element for each of its units; a
  refused one reports an index inside the pattern, the limit itself when the pattern is too long.\<close>

theorem pattern_parse_bounds:
  "case parsePattern p n of
     Inr es \<Rightarrow> length es \<le> length p \<and> length p \<le> n
   | Inl err \<Rightarrow> lk_pattern err = p \<and> lk_index err < length p \<and> (lk_reason err = TooLong \<longleftrightarrow> n < length p)"
proof (cases "n < length p")
  case False
  show ?thesis
  proof (cases "parse_loop p 0 []")
    case (Inl err)
    with False parse_loop_located[OF Inl] show ?thesis by (simp add: parsePattern_def located_def)
  next
    case (Inr es)
    with False parse_loop_count[OF Inr] show ?thesis by (simp add: parsePattern_def)
  qed
qed (simp add: parsePattern_def)

end
