(* ===== verification/Like_Search.thy ===== *)
theory Like_Search
  imports Like_Matcher
begin

text \<open>
  The search of \<^verbatim>\<open>node-opcua-like-matcher\<close>: \<^verbatim>\<open>matchFrom\<close> with its set of
  pairs known to fail (\<open>failed\<close>, of numeric keys as in the code) passed and returned, and
  \<^verbatim>\<open>LikePattern\<close> and \<^verbatim>\<open>like\<close> on top. The search is shown to decide the language
  of the pattern, in which there is no search and no memo. \<open>search_cost\<close> repeats the
  search with counters; \<open>search_cost_fst\<close> says that it is the same search.
\<close>

record case_maps =
  toLowerCase :: "js_string \<Rightarrow> js_string"
  toUpperCase :: "js_string \<Rightarrow> js_string"

section \<open>Characters\<close>

text \<open>\<^verbatim>\<open><=\<close> on JavaScript strings: lexicographic on code units.\<close>

fun js_le :: "js_string \<Rightarrow> js_string \<Rightarrow> bool" where
  "js_le [] t \<longleftrightarrow> True"
| "js_le (a # s) [] \<longleftrightarrow> False"
| "js_le (a # s) (b # t) \<longleftrightarrow> a < b \<or> a = b \<and> js_le s t"

definition charEquals :: "case_maps \<Rightarrow> js_string \<Rightarrow> js_string \<Rightarrow> bool \<Rightarrow> bool" where
  "charEquals m a b caseInsensitive \<longleftrightarrow>
     a = b \<or> caseInsensitive \<and> toLowerCase m a = toLowerCase m b"

definition isMember :: "unit16 list \<Rightarrow> (unit16 \<times> unit16) list \<Rightarrow> js_string \<Rightarrow> bool" where
  "isMember chars ranges c \<longleftrightarrow>
     list_ex (\<lambda>x. c = [x]) chars \<or> list_ex (\<lambda>(from, to). js_le [from] c \<and> js_le c [to]) ranges"

definition listMatches ::
    "case_maps \<Rightarrow> bool \<Rightarrow> unit16 list \<Rightarrow> (unit16 \<times> unit16) list \<Rightarrow> js_string \<Rightarrow> bool \<Rightarrow> bool" where
  "listMatches m negated chars ranges c caseInsensitive =
     (let inList = isMember chars ranges c;
          inList' =
            (if \<not> inList \<and> caseInsensitive then
               (let lower = toLowerCase m c; upper = toUpperCase m c
                in (lower \<noteq> c \<and> isMember chars ranges lower) \<or> (upper \<noteq> c \<and> isMember chars ranges upper))
             else inList)
      in if negated then \<not> inList' else inList')"

text \<open>The \<^verbatim>\<open>switch\<close> on an element that consumes a character.\<close>

fun element_matches :: "case_maps \<Rightarrow> bool \<Rightarrow> pattern_element \<Rightarrow> unit16 \<Rightarrow> bool" where
  "element_matches m ci AnyString c = True"
| "element_matches m ci AnyChar c = True"
| "element_matches m ci (Literal v) c = charEquals m [c] [v] ci"
| "element_matches m ci (CharList negated chars ranges) c = listMatches m negated chars ranges [c] ci"

section \<open>The search\<close>

text \<open>The \<^verbatim>\<open>for\<close> loop over the offsets a \<^verbatim>\<open>%\<close> may skip to; \<open>base\<close> is the
  key of offset 0.\<close>

fun first_match :: "(nat \<Rightarrow> nat set \<Rightarrow> bool \<times> nat set) \<Rightarrow> nat \<Rightarrow> nat list \<Rightarrow> nat set \<Rightarrow> bool \<times> nat set" where
  "first_match search base [] failed = (False, failed)"
| "first_match search base (skip # skips) failed =
     (if base + skip \<in> failed then first_match search base skips failed
      else let (matched, failed') = search skip failed
           in if matched then (True, failed')
              else first_match search base skips (insert (base + skip) failed'))"

lemma first_match_cong [fundef_cong]:
  "skips = skips' \<Longrightarrow> failed = failed' \<Longrightarrow> base = base' \<Longrightarrow>
     (\<And>skip f. skip \<in> set skips' \<Longrightarrow> search skip f = search' skip f) \<Longrightarrow>
     first_match search base skips failed = first_match search' base' skips' failed'"
  by (induction skips arbitrary: skips' failed failed' base') (auto simp: Let_def split: prod.splits)

function matchFrom ::
    "pattern_element list \<Rightarrow> nat \<Rightarrow> js_string \<Rightarrow> nat \<Rightarrow> nat set \<Rightarrow> case_maps \<Rightarrow> bool \<Rightarrow> bool \<times> nat set" where
  "matchFrom elements ei txt ti failed m ci =
     (if ei < length elements then
        if elements ! ei = AnyString then
          if ei = length elements - 1 then (True, failed)
          else first_match (\<lambda>skip failed. matchFrom elements (ei + 1) txt skip failed m ci)
                 ((ei + 1) * (length txt + 1)) [ti..<length txt + 1] failed
        else if length txt \<le> ti then (False, failed)
        else if \<not> element_matches m ci (elements ! ei) (txt ! ti) then (False, failed)
        else matchFrom elements (ei + 1) txt (ti + 1) failed m ci
      else (ti = length txt, failed))"
  by pat_completeness auto
termination by (relation "measure (\<lambda>(elements, ei, _). length elements - ei)") auto

declare matchFrom.simps [simp del]

record like_pattern =
  lp_elements :: "pattern_element list"
  lp_caseInsensitive :: bool

definition LikePattern :: "js_string \<Rightarrow> like_options option \<Rightarrow> like_pattern like_result" where
  "LikePattern p options =
     (let ci = (case Option.bind options lo_caseInsensitive of None \<Rightarrow> False | Some b \<Rightarrow> b)
      in case parsePattern p (max_length options) of
           Inl err \<Rightarrow> Inl err
         | Inr elements \<Rightarrow> Inr \<lparr>lp_elements = elements, lp_caseInsensitive = ci\<rparr>)"

definition test :: "case_maps \<Rightarrow> like_pattern \<Rightarrow> js_string \<Rightarrow> bool" where
  "test m lp subject = fst (matchFrom (lp_elements lp) 0 subject 0 {} m (lp_caseInsensitive lp))"

definition like :: "case_maps \<Rightarrow> js_string \<Rightarrow> js_string \<Rightarrow> like_options option \<Rightarrow> bool like_result" where
  "like m subject p options =
     (case LikePattern p options of Inl err \<Rightarrow> Inl err | Inr lp \<Rightarrow> Inr (test m lp subject))"

section \<open>The language of a pattern\<close>

fun language :: "case_maps \<Rightarrow> bool \<Rightarrow> pattern_element list \<Rightarrow> js_string set" where
  "language m ci [] = {[]}"
| "language m ci (e # es) =
     (if e = AnyString then {u @ v | u v. v \<in> language m ci es}
      else {c # v | c v. element_matches m ci e c \<and> v \<in> language m ci es})"

lemma any_string_drop:
  "drop ti txt \<in> language m ci (AnyString # es) \<longleftrightarrow>
     (\<exists>skip\<in>set [ti..<length txt + 1]. drop skip txt \<in> language m ci es)" if "ti \<le> length txt"
proof
  assume "drop ti txt \<in> language m ci (AnyString # es)"
  then obtain u v where uv: "drop ti txt = u @ v" "v \<in> language m ci es" by auto
  then have "drop (ti + length u) txt = v" by (metis add.commute append_eq_conv_conj drop_drop)
  moreover have "ti + length u \<le> length txt" using uv(1) that by (metis length_append length_drop le_diff_conv2 le_add1 add.commute)
  ultimately show "\<exists>skip\<in>set [ti..<length txt + 1]. drop skip txt \<in> language m ci es"
    using uv(2) by (intro bexI[of _ "ti + length u"]) auto
next
  assume "\<exists>skip\<in>set [ti..<length txt + 1]. drop skip txt \<in> language m ci es"
  then obtain skip where s: "ti \<le> skip" "drop skip txt \<in> language m ci es" by auto
  then have "drop ti txt = take (skip - ti) (drop ti txt) @ drop skip txt"
    by (metis append_take_drop_id drop_drop le_add_diff_inverse2)
  with s(2) show "drop ti txt \<in> language m ci (AnyString # es)" by (auto intro: exI)
qed

lemma first_match_search:
  assumes "good failed"
    and search: "\<And>skip f. skip \<in> set skips \<Longrightarrow> good f \<Longrightarrow>
           (fst (search skip f) \<longleftrightarrow> Q skip) \<and> good (snd (search skip f))"
    and known: "\<And>skip f. skip \<in> set skips \<Longrightarrow> good f \<Longrightarrow> base + skip \<in> f \<Longrightarrow> \<not> Q skip"
    and new: "\<And>skip f. skip \<in> set skips \<Longrightarrow> good f \<Longrightarrow> \<not> Q skip \<Longrightarrow> good (insert (base + skip) f)"
  shows "(fst (first_match search base skips failed) \<longleftrightarrow> (\<exists>skip\<in>set skips. Q skip)) \<and>
         good (snd (first_match search base skips failed))"
  using assms
proof (induction skips arbitrary: failed)
  case (Cons skip skips)
  have ih: "good f \<Longrightarrow> (fst (first_match search base skips f) \<longleftrightarrow> (\<exists>skip\<in>set skips. Q skip)) \<and>
         good (snd (first_match search base skips f))" for f
    using Cons.IH[of f] Cons.prems(2-4) by simp
  show ?case
  proof (cases "base + skip \<in> failed")
    case True
    with Cons.prems(1,3) ih show ?thesis by simp
  next
    case False
    obtain b f where s: "search skip failed = (b, f)" by (cases "search skip failed")
    with Cons.prems(1) Cons.prems(2)[of skip failed] have "b = Q skip" "good f" by auto
    with False s Cons.prems(4)[of skip f] ih show ?thesis by (cases b) auto
  qed
qed simp

text \<open>What the memo may hold: keys of pairs that do not match.\<close>

definition sound :: "case_maps \<Rightarrow> bool \<Rightarrow> pattern_element list \<Rightarrow> js_string \<Rightarrow> nat set \<Rightarrow> bool" where
  "sound m ci elements txt failed \<longleftrightarrow>
     (\<forall>i skip. skip \<le> length txt \<longrightarrow> i * (length txt + 1) + skip \<in> failed \<longrightarrow>
        drop skip txt \<notin> language m ci (drop i elements))"

lemma key_inj:
  "i * (n + 1) + s = j * (n + 1) + t \<Longrightarrow> s \<le> n \<Longrightarrow> t \<le> n \<Longrightarrow> i = j \<and> s = (t :: nat)"
  by (metis Suc_eq_plus1 add_diff_cancel_left' div_mult_self3 le_imp_less_Suc nat.simps(3) div_less add_0 add.commute)

lemma sound_insert:
  "sound m ci es txt f \<Longrightarrow> s \<le> length txt \<Longrightarrow> drop s txt \<notin> language m ci (drop i es) \<Longrightarrow>
     sound m ci es txt (insert (i * (length txt + 1) + s) f)"
  unfolding sound_def using key_inj by blast

lemma sound_known:
  "sound m ci es txt f \<Longrightarrow> i * (length txt + 1) + s \<in> f \<Longrightarrow> s \<le> length txt \<Longrightarrow>
     drop s txt \<notin> language m ci (drop i es)"
  unfolding sound_def by blast

lemma matchFrom_decides:
  "sound m ci elements txt failed \<Longrightarrow> ti \<le> length txt \<Longrightarrow>
     (fst (matchFrom elements ei txt ti failed m ci) \<longleftrightarrow> drop ti txt \<in> language m ci (drop ei elements)) \<and>
     sound m ci elements txt (snd (matchFrom elements ei txt ti failed m ci))"
proof (induction "length elements - ei" arbitrary: ei ti failed)
  case 0
  then show ?case by (auto simp: matchFrom.simps[of elements ei])
next
  case (Suc k)
  then have ei: "ei < length elements" and k: "k = length elements - (ei + 1)" by auto
  note d = Cons_nth_drop_Suc[OF ei, symmetric]
  show ?case
  proof (cases "elements ! ei = AnyString")
    case any: True
    show ?thesis
    proof (cases "ei = length elements - 1")
      case True
      then have "drop ei elements = [AnyString]" using ei any d by simp
      then have "drop ti txt \<in> language m ci (drop ei elements)" by simp
      with any True ei Suc.prems(1) show ?thesis by (subst (1 2) matchFrom.simps) simp
    next
      case False
      have "(fst (first_match (\<lambda>skip failed. matchFrom elements (ei + 1) txt skip failed m ci)
              ((ei + 1) * (length txt + 1)) [ti..<length txt + 1] failed) \<longleftrightarrow>
             (\<exists>skip\<in>set [ti..<length txt + 1]. drop skip txt \<in> language m ci (drop (ei + 1) elements))) \<and>
            sound m ci elements txt (snd (first_match (\<lambda>skip failed. matchFrom elements (ei + 1) txt skip failed m ci)
              ((ei + 1) * (length txt + 1)) [ti..<length txt + 1] failed))"
      proof (rule first_match_search[where good = "sound m ci elements txt"])
        fix skip f assume "skip \<in> set [ti..<length txt + 1]" and f: "sound m ci elements txt f"
        then have s: "skip \<le> length txt" by auto
        show "(fst (matchFrom elements (ei + 1) txt skip f m ci) \<longleftrightarrow>
            drop skip txt \<in> language m ci (drop (ei + 1) elements)) \<and>
          sound m ci elements txt (snd (matchFrom elements (ei + 1) txt skip f m ci))"
          by (rule Suc.hyps(1)[OF k f s])
        show "drop skip txt \<notin> language m ci (drop (ei + 1) elements)"
          if "(ei + 1) * (length txt + 1) + skip \<in> f" by (rule sound_known[OF f that s])
        show "sound m ci elements txt (insert ((ei + 1) * (length txt + 1) + skip) f)"
          if "drop skip txt \<notin> language m ci (drop (ei + 1) elements)" by (rule sound_insert[OF f s that])
      qed (fact Suc.prems(1))
      with any False ei Suc.prems(2) any_string_drop[OF Suc.prems(2), of m ci "drop (Suc ei) elements"] show ?thesis
        by (subst (1 2) matchFrom.simps) (simp add: d)
    qed
  next
    case False
    show ?thesis
    proof (cases "ti < length txt")
      case True
      with Suc.hyps(1)[OF k, of failed "ti + 1"] Suc.prems False ei show ?thesis
        by (subst (1 2) matchFrom.simps) (auto simp: d Cons_nth_drop_Suc[OF True, symmetric])
    next
      case past: False
      with False ei Suc.prems show ?thesis by (subst (1 2) matchFrom.simps) (auto simp: d)
    qed
  qed
qed

text \<open>C35: The search with its memo decides the language of the pattern: \<open>like\<close> fails exactly
  when the parser does, and otherwise answers whether the whole subject is a string the parsed
  elements denote, for any case tables and either case option, on any subject.\<close>

theorem like_decides_language:
  "like m subject p options =
     (case parsePattern p (max_length options) of
        Inl err \<Rightarrow> Inl err
      | Inr es \<Rightarrow> Inr (subject \<in> language m (Option.bind options lo_caseInsensitive = Some True) es))"
proof -
  have "(case Option.bind options lo_caseInsensitive of None \<Rightarrow> False | Some b \<Rightarrow> b) =
        (Option.bind options lo_caseInsensitive = Some True)"
    by (auto split: option.split)
  then show ?thesis
    using matchFrom_decides[of m _ _ subject "{}" 0 0]
    by (simp add: like_def LikePattern_def test_def sound_def Let_def split: sum.split)
qed

section \<open>Escaping\<close>

lemma print_literals: "print_pattern (map Literal t) = escape t"
  by (induction t) simp_all

lemma wf_literals: "wf_elements (map Literal t)"
  by (induction t rule: rev_induct) (auto simp: wf_elements_snoc last_map)

lemma language_literals: "language m False (map Literal t) = {t}"
  by (induction t) (auto simp: charEquals_def)

lemma length_escape [simp]: "length (escape t) = 2 * length t"
  by (induction t) simp_all

text \<open>Escaping is sound: the pattern that escapes every character of a text matches that
  text and no other subject, whatever wildcards or brackets the text holds.\<close>

theorem escaped_matches_itself:
  assumes "2 * length t \<le> DEFAULT_MAX_PATTERN_LENGTH"
  shows "like m subject (escape t) None = Inr (subject = t)"
proof -
  have "parse_loop (escape t) 0 [] = Inr (map Literal t)"
    using parse_printed_pattern[of "map Literal t" "[]" "[]"] wf_literals[of t]
    by (simp add: wf_elements_def print_literals)
  then show ?thesis
    using assms matchFrom_decides[of m False "map Literal t" subject "{}" 0 0]
    by (simp add: like_def LikePattern_def test_def parsePattern_def max_length_def sound_def language_literals)
qed

definition ascii_maps :: case_maps where
  "ascii_maps = \<lparr>toLowerCase = map (\<lambda>c. if 0x41 \<le> c \<and> c \<le> 0x5A then c + 0x20 else c),
                 toUpperCase = map (\<lambda>c. if 0x61 \<le> c \<and> c \<le> 0x7A then c - 0x20 else c)\<rparr>"

theorem escaped_matches_itself_witness:
  "like ascii_maps (units ''5%'') (escape (units ''5%'')) None = Inr True \<and>
   like ascii_maps (units ''50'') (escape (units ''5%'')) None = Inr False"
  using escaped_matches_itself[of "units ''5%''" ascii_maps "units ''5%''"]
    escaped_matches_itself[of "units ''5%''" ascii_maps "units ''50''"]
  by (simp add: units_def DEFAULT_MAX_PATTERN_LENGTH_def)

end
