(* ===== verification/Like_Cost.thy ===== *)
theory Like_Cost
  imports Like_Search
begin

text \<open>
  What a search costs, measured on the search itself: \<open>search_cost\<close> is \<^verbatim>\<open>matchFrom\<close>
  with three counters that decide nothing - the calls of \<^verbatim>\<open>matchFrom\<close>, the depth of
  the recursion, and the iterations of the \<^verbatim>\<open>for\<close> loop over offsets
  (\<open>search_cost_fst\<close>). The bounds are the ones the cost note of the module announces; the last
  theorem shows the one that does not hold.
\<close>

record cost =
  calls :: nat
  depth :: nat
  iterations :: nat

type_synonym costed = "(bool \<times> nat set) \<times> cost"

definition one_call :: cost where
  "one_call = \<lparr>calls = 1, depth = 1, iterations = 0\<rparr>"

fun first_match_cost :: "(nat \<Rightarrow> nat set \<Rightarrow> costed) \<Rightarrow> nat \<Rightarrow> nat list \<Rightarrow> nat set \<Rightarrow> costed" where
  "first_match_cost search base [] failed = ((False, failed), \<lparr>calls = 0, depth = 0, iterations = 0\<rparr>)"
| "first_match_cost search base (skip # skips) failed =
     (if base + skip \<in> failed
      then let (r, c) = first_match_cost search base skips failed in (r, c\<lparr>iterations := Suc (iterations c)\<rparr>)
      else let ((matched, failed'), c) = search skip failed
           in if matched then ((True, failed'), c\<lparr>iterations := Suc (iterations c)\<rparr>)
              else let (r, c') = first_match_cost search base skips (insert (base + skip) failed')
                   in (r, \<lparr>calls = calls c + calls c', depth = max (depth c) (depth c'),
                           iterations = Suc (iterations c + iterations c')\<rparr>))"

lemma first_match_cost_cong [fundef_cong]:
  "skips = skips' \<Longrightarrow> failed = failed' \<Longrightarrow> base = base' \<Longrightarrow>
     (\<And>skip f. skip \<in> set skips' \<Longrightarrow> search skip f = search' skip f) \<Longrightarrow>
     first_match_cost search base skips failed = first_match_cost search' base' skips' failed'"
  by (induction skips arbitrary: skips' failed failed' base') (auto simp: Let_def split: prod.splits)

function search_cost ::
    "pattern_element list \<Rightarrow> nat \<Rightarrow> js_string \<Rightarrow> nat \<Rightarrow> nat set \<Rightarrow> case_maps \<Rightarrow> bool \<Rightarrow> costed" where
  "search_cost elements ei txt ti failed m ci =
     (if ei < length elements then
        if elements ! ei = AnyString then
          if ei = length elements - 1 then ((True, failed), one_call)
          else let (r, c) = first_match_cost (\<lambda>skip failed. search_cost elements (ei + 1) txt skip failed m ci)
                              ((ei + 1) * (length txt + 1)) [ti..<length txt + 1] failed
               in (r, c\<lparr>calls := Suc (calls c), depth := Suc (depth c)\<rparr>)
        else if length txt \<le> ti then ((False, failed), one_call)
        else if \<not> element_matches m ci (elements ! ei) (txt ! ti) then ((False, failed), one_call)
        else search_cost elements (ei + 1) txt (ti + 1) failed m ci
      else ((ti = length txt, failed), one_call))"
  by pat_completeness auto
termination by (relation "measure (\<lambda>(elements, ei, _). length elements - ei)") auto

declare search_cost.simps [simp del]

section \<open>Rules for the search\<close>

lemma search_eqs:
  "length elements \<le> ei \<Longrightarrow> matchFrom elements ei txt ti failed m ci = (ti = length txt, failed)"
  "ei < length elements \<Longrightarrow> elements ! ei = AnyString \<Longrightarrow> ei = length elements - 1 \<Longrightarrow>
     matchFrom elements ei txt ti failed m ci = (True, failed)"
  "Suc ei < length elements \<Longrightarrow> elements ! ei = AnyString \<Longrightarrow>
     matchFrom elements ei txt ti failed m ci =
       first_match (\<lambda>skip failed. matchFrom elements (ei + 1) txt skip failed m ci)
         ((ei + 1) * (length txt + 1)) [ti..<length txt + 1] failed"
  "ei < length elements \<Longrightarrow> elements ! ei \<noteq> AnyString \<Longrightarrow>
     length txt \<le> ti \<or> \<not> element_matches m ci (elements ! ei) (txt ! ti) \<Longrightarrow>
     matchFrom elements ei txt ti failed m ci = (False, failed)"
  "ei < length elements \<Longrightarrow> elements ! ei \<noteq> AnyString \<Longrightarrow> ti < length txt \<Longrightarrow>
     element_matches m ci (elements ! ei) (txt ! ti) \<Longrightarrow>
     matchFrom elements ei txt ti failed m ci = matchFrom elements (ei + 1) txt (ti + 1) failed m ci"
  by (subst matchFrom.simps, auto)+

lemma search_cost_eqs:
  "length elements \<le> ei \<Longrightarrow> search_cost elements ei txt ti failed m ci = ((ti = length txt, failed), one_call)"
  "ei < length elements \<Longrightarrow> elements ! ei = AnyString \<Longrightarrow> ei = length elements - 1 \<Longrightarrow>
     search_cost elements ei txt ti failed m ci = ((True, failed), one_call)"
  "Suc ei < length elements \<Longrightarrow> elements ! ei = AnyString \<Longrightarrow>
     search_cost elements ei txt ti failed m ci =
       (let (r, c) = first_match_cost (\<lambda>skip failed. search_cost elements (ei + 1) txt skip failed m ci)
          ((ei + 1) * (length txt + 1)) [ti..<length txt + 1] failed
        in (r, c\<lparr>calls := Suc (calls c), depth := Suc (depth c)\<rparr>))"
  "ei < length elements \<Longrightarrow> elements ! ei \<noteq> AnyString \<Longrightarrow>
     length txt \<le> ti \<or> \<not> element_matches m ci (elements ! ei) (txt ! ti) \<Longrightarrow>
     search_cost elements ei txt ti failed m ci = ((False, failed), one_call)"
  "ei < length elements \<Longrightarrow> elements ! ei \<noteq> AnyString \<Longrightarrow> ti < length txt \<Longrightarrow>
     element_matches m ci (elements ! ei) (txt ! ti) \<Longrightarrow>
     search_cost elements ei txt ti failed m ci = search_cost elements (ei + 1) txt (ti + 1) failed m ci"
  by (subst search_cost.simps, auto)+

text \<open>Every call ends at the end of the elements, at a last \<open>%\<close>, on a character that does
  not match, or goes on: over the offsets after a \<open>%\<close>, or past one character.\<close>

lemma search_rule [consumes 1, case_names over last loop fail step]:
  assumes "ti \<le> length txt"
    and over: "\<And>ei ti. length elements \<le> ei \<Longrightarrow> ti \<le> length txt \<Longrightarrow> P ei ti"
    and last: "\<And>ei ti. ei < length elements \<Longrightarrow> elements ! ei = AnyString \<Longrightarrow> ei = length elements - 1 \<Longrightarrow>
       ti \<le> length txt \<Longrightarrow> P ei ti"
    and loop: "\<And>ei ti. Suc ei < length elements \<Longrightarrow> elements ! ei = AnyString \<Longrightarrow>
       ti \<le> length txt \<Longrightarrow> (\<And>skip. skip \<le> length txt \<Longrightarrow> P (ei + 1) skip) \<Longrightarrow> P ei ti"
    and fail: "\<And>ei ti. ei < length elements \<Longrightarrow> elements ! ei \<noteq> AnyString \<Longrightarrow> ti \<le> length txt \<Longrightarrow>
       length txt \<le> ti \<or> \<not> element_matches m ci (elements ! ei) (txt ! ti) \<Longrightarrow> P ei ti"
    and step: "\<And>ei ti. ei < length elements \<Longrightarrow> elements ! ei \<noteq> AnyString \<Longrightarrow> ti < length txt \<Longrightarrow>
       element_matches m ci (elements ! ei) (txt ! ti) \<Longrightarrow> P (ei + 1) (ti + 1) \<Longrightarrow> P ei ti"
  shows "P ei ti"
  using assms(1)
proof (induction "length elements - ei" arbitrary: ei ti)
  case 0
  then show ?case by (simp add: over)
next
  case (Suc k)
  then have ei: "ei < length elements" and k: "k = length elements - (ei + 1)" by auto
  note ih = Suc.hyps(1)[OF k]
  consider "elements ! ei = AnyString" "ei = length elements - 1" | "elements ! ei = AnyString" "Suc ei < length elements"
    | "elements ! ei \<noteq> AnyString" "length txt \<le> ti \<or> \<not> element_matches m ci (elements ! ei) (txt ! ti)"
    | "elements ! ei \<noteq> AnyString" "ti < length txt" "element_matches m ci (elements ! ei) (txt ! ti)"
    using ei by linarith
  then show ?case
  proof cases
    case 1 with last[OF ei] Suc.prems show ?thesis by blast
  next
    case 2 with loop ih Suc.prems show ?thesis by blast
  next
    case 3 with fail[OF ei] Suc.prems show ?thesis by blast
  next
    case 4 with step[OF ei] ih[of "ti + 1"] show ?thesis by simp
  qed
qed

lemma first_match_cost_fst:
  "(\<And>skip f. skip \<in> set skips \<Longrightarrow> fst (search skip f) = search' skip f) \<Longrightarrow>
     fst (first_match_cost search base skips failed) = first_match search' base skips failed"
proof (induction skips arbitrary: failed)
  case (Cons skip skips)
  obtain b f c where s: "search skip failed = ((b, f), c)" by (metis prod.exhaust)
  with Cons.prems[of skip failed] have "search' skip failed = (b, f)" by simp
  with s Cons show ?case by (cases b) (simp_all add: case_prod_unfold Let_def)
qed simp

lemma search_cost_fst:
  "ti \<le> length txt \<Longrightarrow> fst (search_cost elements ei txt ti failed m ci) = matchFrom elements ei txt ti failed m ci"
proof (induction ei ti arbitrary: failed rule: search_rule[where elements = elements and m = m and ci = ci])
  case (loop ei ti)
  have "fst (first_match_cost (\<lambda>skip failed. search_cost elements (ei + 1) txt skip failed m ci) b [ti..<length txt + 1] f) =
        first_match (\<lambda>skip failed. matchFrom elements (ei + 1) txt skip failed m ci) b [ti..<length txt + 1] f" for b f
    by (rule first_match_cost_fst) (use loop(4) in auto)
  with loop show ?case
    by (simp add: search_eqs(3) search_cost_eqs(3) case_prod_unfold Let_def)
qed (simp_all add: search_eqs search_cost_eqs)

section \<open>The keys of the memo\<close>

definition any_positions :: "pattern_element list \<Rightarrow> nat \<Rightarrow> nat set" where
  "any_positions elements ei = {i. ei \<le> i \<and> i < length elements \<and> elements ! i = AnyString}"

text \<open>The keys a call at \<open>ei\<close> may add.\<close>

definition keys :: "pattern_element list \<Rightarrow> js_string \<Rightarrow> nat \<Rightarrow> nat set" where
  "keys elements txt ei = (\<lambda>(i, s). (i + 1) * (length txt + 1) + s) ` (any_positions elements ei \<times> {0..length txt})"

lemma finite_any_positions [simp]: "finite (any_positions elements ei)"
  by (simp add: any_positions_def)

lemma finite_keys [simp]: "finite (keys elements txt ei)"
  by (simp add: keys_def)

lemma card_keys: "card (keys elements txt ei) \<le> card (any_positions elements ei) * (length txt + 1)"
  unfolding keys_def by (rule order_trans[OF card_image_le]) (simp_all add: card_cartesian_product)

lemma keys_mono: "ei \<le> ei' \<Longrightarrow> keys elements txt ei' \<subseteq> keys elements txt ei"
  by (auto simp: keys_def any_positions_def)

lemma keys_here:
  "ei < length elements \<Longrightarrow> elements ! ei = AnyString \<Longrightarrow> skip \<le> length txt \<Longrightarrow>
     (ei + 1) * (length txt + 1) + skip \<in> keys elements txt ei"
  by (auto simp: keys_def any_positions_def intro!: image_eqI[of _ _ "(ei, skip)"])

lemma keys_later:
  assumes "skip \<le> length txt"
  shows "(ei + 1) * (length txt + 1) + skip \<notin> keys elements txt (ei + 1)"
proof
  assume "(ei + 1) * (length txt + 1) + skip \<in> keys elements txt (ei + 1)"
  then obtain i s where "ei + 1 \<le> i" "s \<le> length txt" "(ei + 1) * (length txt + 1) + skip = (i + 1) * (length txt + 1) + s"
    by (auto simp: keys_def any_positions_def)
  with key_inj[OF this(3) assms] show False by simp
qed

lemma first_match_grows:
  assumes "\<And>skip f. skip \<in> set skips \<Longrightarrow> f \<subseteq> snd (search skip f) \<and> snd (search skip f) \<subseteq> f \<union> K"
    and "\<And>skip. skip \<in> set skips \<Longrightarrow> base + skip \<in> K"
  shows "failed \<subseteq> snd (first_match search base skips failed) \<and>
         snd (first_match search base skips failed) \<subseteq> failed \<union> K"
  using assms
proof (induction skips arbitrary: failed)
  case (Cons skip skips)
  obtain b f where s: "search skip failed = (b, f)" by (cases "search skip failed")
  with Cons.prems(1)[of skip failed] have "failed \<subseteq> f" "f \<subseteq> failed \<union> K" by auto
  with s Cons.IH[of failed] Cons.IH[of "insert (base + skip) f"] Cons.prems show ?case by (cases b) auto
qed simp

lemma memo_grows:
  "ti \<le> length txt \<Longrightarrow>
     failed \<subseteq> snd (matchFrom elements ei txt ti failed m ci) \<and>
     snd (matchFrom elements ei txt ti failed m ci) \<subseteq> failed \<union> keys elements txt ei"
proof (induction ei ti arbitrary: failed rule: search_rule[where elements = elements and m = m and ci = ci])
  case (loop ei ti)
  have "f \<subseteq> snd (matchFrom elements (ei + 1) txt skip f m ci) \<and>
        snd (matchFrom elements (ei + 1) txt skip f m ci) \<subseteq> f \<union> keys elements txt ei"
    if "skip \<in> set [ti..<length txt + 1]" for skip f
  proof -
    have "skip \<le> length txt" using that by auto
    with loop(4)[of skip f] keys_mono[of ei "ei + 1" elements "txt"] show ?thesis by force
  qed
  moreover have "(ei + 1) * (length txt + 1) + skip \<in> keys elements txt ei" if "skip \<in> set [ti..<length txt + 1]" for skip
    by (rule keys_here) (use that loop(1,2) in auto)
  ultimately have "failed \<subseteq> snd (first_match (\<lambda>skip failed. matchFrom elements (ei + 1) txt skip failed m ci)
      ((ei + 1) * (length txt + 1)) [ti..<length txt + 1] failed) \<and>
    snd (first_match (\<lambda>skip failed. matchFrom elements (ei + 1) txt skip failed m ci)
      ((ei + 1) * (length txt + 1)) [ti..<length txt + 1] failed) \<subseteq> failed \<union> keys elements txt ei"
    by (rule first_match_grows)
  with loop(1,2) show ?case by (simp only: search_eqs(3))
next
  case (step ei ti)
  with step(5)[of failed] keys_mono[of ei "ei + 1" elements "txt"] show ?case
    by (simp add: search_eqs(5)) blast
qed (simp_all add: search_eqs)

section \<open>Calls\<close>

text \<open>Every call of the loop either matches, which ends the search, or leaves a key of its own.\<close>

lemma first_match_calls:
  assumes "finite failed"
    and "\<And>skip f. skip \<in> set skips \<Longrightarrow> finite f \<Longrightarrow>
       (case search skip f of ((matched, f'), c) \<Rightarrow>
          calls c + card f \<le> card f' + 1 + (if matched then n else 0) \<and> finite f' \<and>
          (base + skip \<notin> f \<longrightarrow> base + skip \<notin> f'))"
  shows "case first_match_cost search base skips failed of ((matched, f'), c) \<Rightarrow>
           calls c + card failed \<le> card f' + (if matched then n + 1 else 0)"
  using assms
proof (induction skips arbitrary: failed)
  case (Cons skip skips)
  obtain b f c where s: "search skip failed = ((b, f), c)" by (metis prod.exhaust)
  show ?case
  proof (cases "base + skip \<in> failed")
    case True
    with Cons.IH[of failed] Cons.prems show ?thesis by (auto split: prod.splits)
  next
    case False
    with s Cons.prems(1) Cons.prems(2)[of skip failed]
    have f: "calls c + card failed \<le> card f + 1 + (if b then n else 0)" "finite f" "base + skip \<notin> f"
      by simp_all
    with False s Cons.IH[of "insert (base + skip) f"] Cons.prems(2) show ?thesis
      by (cases b) (auto split: prod.splits)
  qed
qed simp

lemma any_positions_loop:
  "ei < length elements \<Longrightarrow> elements ! ei = AnyString \<Longrightarrow>
     card (any_positions elements ei) = Suc (card (any_positions elements (ei + 1)))"
proof -
  assume "ei < length elements" "elements ! ei = AnyString"
  then have "any_positions elements ei = insert ei (any_positions elements (ei + 1))"
    by (auto simp: any_positions_def le_less Suc_le_eq)
  then show ?thesis by (simp add: any_positions_def[of elements "Suc ei"])
qed

lemma any_positions_step:
  "elements ! ei \<noteq> AnyString \<Longrightarrow> any_positions elements ei = any_positions elements (ei + 1)"
  by (auto simp: any_positions_def) (metis le_antisym not_less_eq_eq)

lemma search_calls:
  "ti \<le> length txt \<Longrightarrow> finite failed \<Longrightarrow>
     (case search_cost elements ei txt ti failed m ci of ((matched, f'), c) \<Rightarrow>
        calls c + card failed \<le> card f' + 1 + (if matched then card (any_positions elements ei) else 0))"
proof (induction ei ti arbitrary: failed rule: search_rule[where elements = elements and m = m and ci = ci])
  case (loop ei ti)
  let ?search = "\<lambda>skip failed. search_cost elements (ei + 1) txt skip failed m ci"
  have "case first_match_cost ?search ((ei + 1) * (length txt + 1)) [ti..<length txt + 1] failed of ((matched, f'), c) \<Rightarrow>
      calls c + card failed \<le> card f' + (if matched then card (any_positions elements (ei + 1)) + 1 else 0)"
  proof (rule first_match_calls[OF loop(5)])
    fix skip f assume "skip \<in> set [ti..<length txt + 1]" and f: "finite (f :: nat set)"
    then have s: "skip \<le> length txt" by auto
    obtain b f' c where r: "?search skip f = ((b, f'), c)" by (metis prod.exhaust)
    with search_cost_fst[OF s, of elements "ei + 1" f m ci] have "matchFrom elements (ei + 1) txt skip f m ci = (b, f')"
      by simp
    with memo_grows[OF s, of f elements "ei + 1" m ci] have "f' \<subseteq> f \<union> keys elements txt (ei + 1)" by simp
    with keys_later[OF s, of ei elements] f have "finite f'"
      "(ei + 1) * (length txt + 1) + skip \<notin> f \<longrightarrow> (ei + 1) * (length txt + 1) + skip \<notin> f'"
      by (auto intro: finite_subset)
    with r loop(4)[OF s f] show "case ?search skip f of ((matched, f'), c) \<Rightarrow>
        calls c + card f \<le> card f' + 1 + (if matched then card (any_positions elements (ei + 1)) else 0) \<and> finite f' \<and>
        ((ei + 1) * (length txt + 1) + skip \<notin> f \<longrightarrow> (ei + 1) * (length txt + 1) + skip \<notin> f')"
      by simp
  qed
  with loop(1,2) show ?case
    by (auto simp: search_cost_eqs(3) any_positions_loop simp del: upt_Suc split: prod.splits if_splits)
next
  case (step ei ti)
  show ?case unfolding search_cost_eqs(5)[OF step(1-4)] any_positions_step[OF step(2)] by (rule step(5)[OF step(6)])
qed (simp_all add: search_cost_eqs one_call_def)

text \<open>C37: The memo keeps its promise: a search makes at most one call for each pair of a
  \<open>%\<close> and an offset, plus one per \<open>%\<close> on the way to a match and the first; the set
  holds at most one key for each such pair. A pattern that alternates \<open>%\<close> and \<open>_\<close> cannot
  make it exponential.\<close>

theorem search_calls_bounded:
  "calls (snd (search_cost es 0 subject 0 {} m ci)) \<le> card {i. i < length es \<and> es ! i = AnyString} * (length subject + 2) + 1 \<and>
   fst (search_cost es 0 subject 0 {} m ci) = matchFrom es 0 subject 0 {} m ci \<and>
   card (snd (matchFrom es 0 subject 0 {} m ci)) \<le> card {i. i < length es \<and> es ! i = AnyString} * (length subject + 1)"
proof -
  let ?n = "card {i. i < length es \<and> es ! i = AnyString}"
  have a: "any_positions es 0 = {i. i < length es \<and> es ! i = AnyString}" by (auto simp: any_positions_def)
  have f: "fst (search_cost es 0 subject 0 {} m ci) = matchFrom es 0 subject 0 {} m ci"
    by (simp add: search_cost_fst)
  have "card (snd (matchFrom es 0 subject 0 {} m ci)) \<le> card (keys es subject 0)"
    using memo_grows[of 0 subject "{}" es 0 m ci] by (intro card_mono) auto
  also have "\<dots> \<le> ?n * (length subject + 1)" using card_keys[of es subject 0] by (simp add: a)
  finally have m: "card (snd (matchFrom es 0 subject 0 {} m ci)) \<le> ?n * (length subject + 1)" .
  obtain b f' c where r: "search_cost es 0 subject 0 {} m ci = ((b, f'), c)" by (metis prod.exhaust)
  with f have "matchFrom es 0 subject 0 {} m ci = (b, f')" by simp
  with r f m search_calls[of 0 subject "{}" es 0 m ci] show ?thesis by (auto simp: a split: if_splits)
qed

section \<open>Depth\<close>

lemma first_match_depth:
  "(\<And>skip f. skip \<in> set skips \<Longrightarrow> depth (snd (search skip f)) \<le> d) \<Longrightarrow>
     depth (snd (first_match_cost search base skips failed)) \<le> d"
proof (induction skips arbitrary: failed)
  case (Cons skip skips)
  obtain b f c where s: "search skip failed = ((b, f), c)" by (metis prod.exhaust)
  with Cons.prems[of skip failed] have "depth c \<le> d" by simp
  with s Cons show ?case by (cases b) (simp_all add: case_prod_unfold Let_def)
qed simp

lemma collapsed_nth:
  "collapsed es \<Longrightarrow> Suc i < length es \<Longrightarrow> es ! i = AnyString \<Longrightarrow> es ! Suc i \<noteq> AnyString"
  by (auto simp: collapsed_def successively_conv_nth)

text \<open>After a \<open>%\<close> comes an element that consumes a character, so every level costs one.\<close>

lemma search_depth:
  assumes "collapsed elements"
  shows "ti \<le> length txt \<Longrightarrow>
     depth (snd (search_cost elements ei txt ti failed m ci)) \<le> length txt - ti + 2 \<and>
     (ei < length elements \<longrightarrow> elements ! ei \<noteq> AnyString \<longrightarrow>
        depth (snd (search_cost elements ei txt ti failed m ci)) \<le> length txt - ti + 1)"
proof (induction ei ti arbitrary: failed rule: search_rule[where elements = elements and m = m and ci = ci])
  case (loop ei ti)
  have "depth (snd (first_match_cost (\<lambda>skip failed. search_cost elements (ei + 1) txt skip failed m ci)
          ((ei + 1) * (length txt + 1)) [ti..<length txt + 1] failed)) \<le> length txt - ti + 1"
  proof (rule first_match_depth)
    fix skip f assume "skip \<in> set [ti..<length txt + 1]"
    then have s: "ti \<le> skip" "skip \<le> length txt" by auto
    from loop(4)[OF s(2), of f] loop(1) collapsed_nth[OF assms loop(1,2)]
    have "depth (snd (search_cost elements (ei + 1) txt skip f m ci)) \<le> length txt - skip + 1" by simp
    with s(1) show "depth (snd (search_cost elements (ei + 1) txt skip f m ci)) \<le> length txt - ti + 1" by simp
  qed
  with loop(1,2) show ?case
    by (simp only: search_cost_eqs(3) case_prod_unfold Let_def) simp
next
  case (step ei ti)
  have "length txt - (ti + 1) + 2 = length txt - ti + 1" using step(3) by simp
  with step(5)[of failed] show ?case unfolding search_cost_eqs(5)[OF step(1-4)] by simp
qed (simp_all add: search_cost_eqs one_call_def)

text \<open>The recursion of a search is no deeper than the subject is long, plus two, however long
  the pattern: the parser never leaves two \<open>%\<close> side by side.\<close>

theorem search_depth_bounded:
  assumes "parsePattern p n = Inr es"
  shows "depth (snd (search_cost es 0 subject 0 {} m ci)) \<le> length subject + 2"
proof -
  have "wf_elements es" using assms by (auto simp: parsePattern_def split: if_splits dest: parse_loop_wf)
  then have "collapsed es" by (simp add: wf_elements_def)
  from search_depth[OF this, of 0 subject 0 "{}" m ci] show ?thesis by simp
qed

theorem search_depth_bounded_witness:
  "depth (snd (search_cost [AnyString, AnyChar] 0 [0x61] 0 {} ascii_maps False)) \<le> 3"
proof -
  have "parse_loop [PERCENT, UNDERSCORE] 0 [] = Inr [AnyString, AnyChar]"
    by (simp add: parse_loop.simps)
  then have "parsePattern [PERCENT, UNDERSCORE] 2 = Inr [AnyString, AnyChar]" by (simp add: parsePattern_def)
  from search_depth_bounded[OF this, of "[0x61]" ascii_maps False] show ?thesis by simp
qed

section \<open>Iterations\<close>

text \<open>The pattern \<open>%a%b\<close> on a subject of \<open>n\<close> letters \<open>a\<close>: every offset of the first
  \<open>%\<close> runs the loop of the second over all the offsets left, though each of them is known to
  fail since the first time.\<close>

definition percent_a_percent_b :: "pattern_element list" where
  "percent_a_percent_b = [AnyString, Literal 0x61, AnyString, Literal 0x62]"

definition letters :: "nat \<Rightarrow> js_string" where
  "letters n = replicate n 0x61"

lemma length_letters [simp]: "length (letters n) = n"
  by (simp add: letters_def)

lemma last_call:
  "search_cost percent_a_percent_b 3 (letters n) skip f m False = ((False, f), one_call)"
  by (subst search_cost.simps) (auto simp: percent_a_percent_b_def letters_def charEquals_def)

lemma inner_loop:
  "\<exists>f' c. first_match_cost (\<lambda>skip failed. search_cost percent_a_percent_b 3 (letters n) skip failed m False) base skips f =
     ((False, f'), c) \<and> iterations c = length skips \<and> f' \<subseteq> f \<union> {base..}"
proof (induction skips arbitrary: f)
  case (Cons skip skips)
  obtain f1 c1 where 1: "first_match_cost (\<lambda>skip failed. search_cost percent_a_percent_b 3 (letters n) skip failed m False) base skips f =
     ((False, f1), c1)" "iterations c1 = length skips" "f1 \<subseteq> f \<union> {base..}"
    using Cons.IH[of f] by blast
  obtain f2 c2 where 2: "first_match_cost (\<lambda>skip failed. search_cost percent_a_percent_b 3 (letters n) skip failed m False) base skips
     (insert (base + skip) f) = ((False, f2), c2)" "iterations c2 = length skips" "f2 \<subseteq> insert (base + skip) f \<union> {base..}"
    using Cons.IH by blast
  then have "f2 \<subseteq> f \<union> {base..}" by auto
  with 1 2 show ?case by (simp add: last_call one_call_def)
qed simp

lemma second_percent:
  "\<exists>f' c. search_cost percent_a_percent_b 2 (letters n) ti f m False = ((False, f'), c) \<and>
     iterations c = n + 1 - ti \<and> f' \<subseteq> f \<union> {3 * (n + 1)..}"
proof -
  obtain f' c where "first_match_cost (\<lambda>skip failed. search_cost percent_a_percent_b 3 (letters n) skip failed m False)
      (3 * (n + 1)) [ti..<n + 1] f = ((False, f'), c)" "iterations c = n + 1 - ti" "f' \<subseteq> f \<union> {3 * (n + 1)..}"
    using inner_loop[of n m "3 * (n + 1)" "[ti..<n + 1]" f] unfolding length_upt by blast
  moreover have "Suc 2 < length percent_a_percent_b" "percent_a_percent_b ! 2 = AnyString"
    by (simp_all add: percent_a_percent_b_def)
  ultimately show ?thesis by (simp add: search_cost_eqs(3) numeral_3_eq_3 del: upt_Suc)
qed

lemma first_letter:
  assumes "ti \<le> n"
  shows "\<exists>f' c. search_cost percent_a_percent_b 1 (letters n) ti f m False = ((False, f'), c) \<and>
     iterations c = n - ti \<and> f' \<subseteq> f \<union> {3 * (n + 1)..}"
proof (cases "ti < n")
  case True
  then have "search_cost percent_a_percent_b 1 (letters n) ti f m False =
      search_cost percent_a_percent_b 2 (letters n) (ti + 1) f m False"
    by (subst search_cost.simps) (simp add: percent_a_percent_b_def letters_def charEquals_def numeral_2_eq_2)
  with second_percent[of n "ti + 1" f m] show ?thesis by simp
next
  case False
  then have "search_cost percent_a_percent_b 1 (letters n) ti f m False = ((False, f), one_call)"
    by (subst search_cost.simps) (simp add: percent_a_percent_b_def)
  with False show ?thesis by (simp add: one_call_def)
qed

lemma outer_loop:
  "k \<le> n + 1 \<Longrightarrow> f \<subseteq> {n + 1..<n + 1 + k} \<union> {3 * (n + 1)..} \<Longrightarrow>
     2 * iterations (snd (first_match_cost (\<lambda>skip failed. search_cost percent_a_percent_b 1 (letters n) skip failed m False)
       (n + 1) [k..<n + 1] f)) = (n + 1 - k) * (n + 2 - k)"
proof (induction "n + 1 - k" arbitrary: k f)
  case (Suc d)
  then have k: "k \<le> n" by simp
  then have upt: "[k..<n + 1] = k # [k + 1..<n + 1]" by (subst upt_conv_Cons) simp_all
  have new: "n + 1 + k \<notin> f" using Suc.prems(2) k by auto
  obtain f' c where c: "search_cost percent_a_percent_b 1 (letters n) k f m False = ((False, f'), c)"
    "iterations c = n - k" "f' \<subseteq> f \<union> {3 * (n + 1)..}" using first_letter[OF k] by blast
  let ?rest = "first_match_cost (\<lambda>skip failed. search_cost percent_a_percent_b 1 (letters n) skip failed m False)
       (n + 1) [k + 1..<n + 1] (insert (n + 1 + k) f')"
  have "insert (n + 1 + k) f' \<subseteq> {n + 1..<n + 1 + (k + 1)} \<union> {3 * (n + 1)..}" using c(3) Suc.prems(2) by fastforce
  then have ih: "2 * iterations (snd ?rest) = (n + 1 - (k + 1)) * (n + 2 - (k + 1))"
    using Suc.hyps(1)[of "k + 1" "insert (n + 1 + k) f'"] Suc.hyps(2) k by simp
  have "iterations (snd (first_match_cost (\<lambda>skip failed. search_cost percent_a_percent_b 1 (letters n) skip failed m False)
       (n + 1) [k..<n + 1] f)) = Suc (n - k + iterations (snd ?rest))"
    unfolding upt using new c(1,2) by (simp add: case_prod_unfold Let_def del: upt_Suc)
  moreover obtain j where "n = k + j" using k le_Suc_ex by blast
  ultimately show ?case using ih by (simp add: algebra_simps)
qed simp

text \<open>C38: Matching is not linear in the subject, although the cost note of the module says
  \<open>O(E * T)\<close>: for the four-element pattern \<open>%a%b\<close> and a subject of \<open>n\<close> letters
  \<open>a\<close> the loops run \<open>(n + 1) * (n + 2) / 2\<close> iterations - the memo saves the calls but not the
  walk over the offsets already known to fail.\<close>

theorem search_quadratic:
  "parsePattern (units ''%a%b'') DEFAULT_MAX_PATTERN_LENGTH = Inr percent_a_percent_b \<and>
   2 * iterations (snd (search_cost percent_a_percent_b 0 (letters n) 0 {} m False)) = (n + 1) * (n + 2)"
proof -
  have "Suc 0 < length percent_a_percent_b" "percent_a_percent_b ! 0 = AnyString"
    by (simp_all add: percent_a_percent_b_def)
  with outer_loop[of 0 n "{}" m]
  have "2 * iterations (snd (search_cost percent_a_percent_b 0 (letters n) 0 {} m False)) = (n + 1) * (n + 2)"
    by (simp add: search_cost_eqs(3) case_prod_unfold Let_def del: upt_Suc)
  moreover have "parse_loop (units ''%a%b'') 0 [] = Inr percent_a_percent_b"
    by (simp add: parse_loop.simps units_def percent_a_percent_b_def)
  ultimately show ?thesis by (simp add: parsePattern_def DEFAULT_MAX_PATTERN_LENGTH_def units_def)
qed

end
