(* ===== verification/Continuation_Points.thy ===== *)
theory Continuation_Points
  imports Numeric_Range Data_Value "HOL-Library.AList"
begin

text \<open>
  Continuation points on the server: \<^verbatim>\<open>ContinuationPointManager\<close>, one per session, which
  keeps the rest of a browse or of a history read until the client asks for it, the browse services
  over it (\<^verbatim>\<open>innerBrowse\<close>, \<^verbatim>\<open>innerBrowseNext\<close> and the two handlers of
  \<^verbatim>\<open>OPCUAServer\<close>), and the reading of raw history. The manager's \<^verbatim>\<open>Map\<close> is an
  association list in insertion order; a continuation point is the text of its buffer, which the code
  makes from a counter of the module. What the address space answers - the references of a node, the
  samples of a variable - is a field of the environment. A value is a reference description or a data
  value: the type parameter \<open>'a\<close>.
\<close>

definition BadNoContinuationPoints :: status_code where
  "BadNoContinuationPoints = constant_status 0x804B0000"
definition BadContinuationPointInvalid :: status_code where
  "BadContinuationPointInvalid = constant_status 0x804A0000"
definition GoodNoData :: status_code where "GoodNoData = constant_status 0xA50000"

lemma statuses_distinct [simp]:
  "BadNoContinuationPoints \<noteq> BadContinuationPointInvalid" "BadContinuationPointInvalid \<noteq> BadNoContinuationPoints"
  "BadNoContinuationPoints \<noteq> Good" "BadContinuationPointInvalid \<noteq> Good" "GoodNoData \<noteq> Good"
  "Good \<noteq> BadNoContinuationPoints" "Good \<noteq> BadContinuationPointInvalid" "Good \<noteq> GoodNoData"
  by (simp_all add: BadNoContinuationPoints_def BadContinuationPointInvalid_def Good_def GoodNoData_def constant_status_def)

section \<open>The manager\<close>

record 'a point_data =
  pd_maxElements :: nat
  pd_values :: "'a list"

record 'a cp_manager =
  cm_counter :: nat
  cm_map :: "(js_string \<times> 'a point_data) list"

record continuation_data =
  cd_continuationPoint :: "js_string option"
  cd_releaseContinuationPoints :: bool

record 'a point_info =
  ci_continuationPoint :: "js_string option"
  ci_values :: "'a list option"
  ci_statusCode :: status_code

definition new_manager :: "nat \<Rightarrow> 'a cp_manager" where
  "new_manager counter = \<lparr>cm_counter = counter, cm_map = []\<rparr>"

definition make_key :: "'a cp_manager \<Rightarrow> js_string \<times> 'a cp_manager" where
  "make_key cm = (dec_string (cm_counter cm + 1), cm\<lparr>cm_counter := cm_counter cm + 1\<rparr>)"

definition hasReachedMaximum :: "nat \<Rightarrow> 'a cp_manager \<Rightarrow> bool" where
  "hasReachedMaximum maxContinuationPoint cm =
     (if maxContinuationPoint = 0 then False else maxContinuationPoint \<le> length (cm_map cm))"

definition clearContinuationPoint :: "js_string \<Rightarrow> 'a cp_manager \<Rightarrow> 'a cp_manager" where
  "clearContinuationPoint cp cm = cm\<lparr>cm_map := AList.delete cp (cm_map cm)\<rparr>"

definition clearContinuationPoints :: "js_string list \<Rightarrow> 'a cp_manager \<Rightarrow> 'a point_info \<times> 'a cp_manager" where
  "clearContinuationPoints cps cm =
     (\<lparr>ci_continuationPoint = None, ci_values = Some [], ci_statusCode = Good\<rparr>,
      fold clearContinuationPoint cps cm)"

definition clear_manager :: "'a cp_manager \<Rightarrow> 'a cp_manager" where
  "clear_manager cm = cm\<lparr>cm_map := []\<rparr>"

definition register :: "nat \<Rightarrow> 'a list \<Rightarrow> continuation_data \<Rightarrow> 'a cp_manager \<Rightarrow> 'a point_info \<times> 'a cp_manager" where
  "register maxValues values data cm =
     (if cd_releaseContinuationPoints data \<and> cd_continuationPoint data = None then
        (\<lparr>ci_continuationPoint = None, ci_values = Some [], ci_statusCode = BadContinuationPointInvalid\<rparr>, cm)
      else if 1 \<le> maxValues \<and> values = [] then
        (\<lparr>ci_continuationPoint = None, ci_values = None, ci_statusCode = GoodNoData\<rparr>, cm)
      else
        let maxValues' = (if maxValues = 0 then length values else maxValues)
        in if length values \<le> maxValues' then
             (\<lparr>ci_continuationPoint = None, ci_values = Some values, ci_statusCode = Good\<rparr>, cm)
           else
             let (key, cm') = make_key cm
             in (\<lparr>ci_continuationPoint = Some key, ci_values = Some (take maxValues' values), ci_statusCode = Good\<rparr>,
                 cm'\<lparr>cm_map := AList.update key \<lparr>pd_maxElements = maxValues', pd_values = drop maxValues' values\<rparr> (cm_map cm')\<rparr>))"

definition getNext :: "nat \<Rightarrow> continuation_data \<Rightarrow> 'a cp_manager \<Rightarrow> 'a point_info \<times> 'a cp_manager" where
  "getNext numValues data cm =
     (let invalid = \<lparr>ci_continuationPoint = None, ci_values = None, ci_statusCode = BadContinuationPointInvalid\<rparr>
      in case cd_continuationPoint data of
           None \<Rightarrow> (invalid, cm)
         | Some cp \<Rightarrow>
             (case map_of (cm_map cm) cp of
                None \<Rightarrow> (invalid, cm)
              | Some d \<Rightarrow>
                  if cd_releaseContinuationPoints data then
                    (\<lparr>ci_continuationPoint = None, ci_values = Some [], ci_statusCode = Good\<rparr>,
                     cm\<lparr>cm_map := AList.delete cp (cm_map cm)\<rparr>)
                  else
                    let n = (if numValues = 0 then pd_maxElements d else numValues);
                        values = take n (pd_values d);
                        rest = drop n (pd_values d)
                    in if rest = [] then
                         (\<lparr>ci_continuationPoint = None, ci_values = Some values, ci_statusCode = Good\<rparr>,
                          cm\<lparr>cm_map := AList.delete cp (cm_map cm)\<rparr>)
                       else
                         (\<lparr>ci_continuationPoint = Some cp, ci_values = Some values, ci_statusCode = Good\<rparr>,
                          cm\<lparr>cm_map := AList.update cp (d\<lparr>pd_values := rest\<rparr>) (cm_map cm)\<rparr>)))"

section \<open>Browse services\<close>

record 'a browse_result =
  br_statusCode :: status_code
  br_continuationPoint :: "js_string option"
  br_references :: "'a list option"

definition refused :: "status_code \<Rightarrow> 'a browse_result" where
  "refused status = \<lparr>br_statusCode = status, br_continuationPoint = None, br_references = None\<rparr>"

text \<open>One node of \<^verbatim>\<open>innerBrowse\<close>, with what the address space answered for it.\<close>

definition innerBrowse_node ::
    "nat \<Rightarrow> nat \<Rightarrow> status_code \<times> 'a list option \<Rightarrow> 'a cp_manager \<Rightarrow> 'a browse_result \<times> 'a cp_manager" where
  "innerBrowse_node requestedMaxReferencesPerNode maxBrowseContinuationPoints answer cm =
     (if hasReachedMaximum maxBrowseContinuationPoints cm then (refused BadNoContinuationPoints, cm)
      else
        let (truncated, cm') =
          register requestedMaxReferencesPerNode (case snd answer of None \<Rightarrow> [] | Some refs \<Rightarrow> refs)
            \<lparr>cd_continuationPoint = None, cd_releaseContinuationPoints = False\<rparr> cm
        in (\<lparr>br_statusCode = fst answer, br_continuationPoint = ci_continuationPoint truncated,
             br_references = ci_values truncated\<rparr>, cm'))"

fun innerBrowse ::
    "nat \<Rightarrow> nat \<Rightarrow> (status_code \<times> 'a list option) list \<Rightarrow> 'a cp_manager \<Rightarrow> 'a browse_result list \<times> 'a cp_manager" where
  "innerBrowse maxRefs maxPoints [] cm = ([], cm)"
| "innerBrowse maxRefs maxPoints (answer # answers) cm =
     (let (r, cm1) = innerBrowse_node maxRefs maxPoints answer cm;
          (rs, cm2) = innerBrowse maxRefs maxPoints answers cm1
      in (r # rs, cm2))"

fun innerBrowseNext :: "js_string list \<Rightarrow> bool \<Rightarrow> 'a cp_manager \<Rightarrow> 'a browse_result list \<times> 'a cp_manager" where
  "innerBrowseNext [] release cm = ([], cm)"
| "innerBrowseNext (cp # cps) release cm =
     (let (info, cm1) = getNext 0 \<lparr>cd_continuationPoint = Some cp, cd_releaseContinuationPoints = release\<rparr> cm;
          (rs, cm2) = innerBrowseNext cps release cm1
      in (\<lparr>br_statusCode = ci_statusCode info, br_continuationPoint = ci_continuationPoint info,
           br_references = ci_values info\<rparr> # rs, cm2))"

datatype service_fault =
    Fault_BadInternalError
  | Fault_BadViewIdUnknown
  | Fault_BadNothingToDo
  | Fault_BadTooManyOperations

text \<open>The server as far as the browse services use it. \<open>se_browse\<close> is the answer of the address
  space for a node; \<open>se_available\<close> is false before the accessor exists.\<close>

record ('n, 'a) browse_env =
  se_available :: bool
  se_isView :: "'n \<Rightarrow> bool"
  se_maxNodesPerBrowse :: nat
  se_maxBrowseContinuationPoints :: nat
  se_browse :: "'n \<Rightarrow> status_code \<times> 'a list option"

record 'n browse_request =
  rq_viewId :: "'n option"
  rq_nodesToBrowse :: "'n list"
  rq_requestedMaxReferencesPerNode :: nat

definition on_BrowseRequest ::
    "('n, 'a) browse_env \<Rightarrow> 'n browse_request \<Rightarrow> 'a cp_manager \<Rightarrow> (service_fault + 'a browse_result list) \<times> 'a cp_manager" where
  "on_BrowseRequest env request cm =
     (if rq_viewId request \<noteq> None \<and> \<not> se_available env then (Inl Fault_BadInternalError, cm)
      else if (case rq_viewId request of None \<Rightarrow> False | Some v \<Rightarrow> \<not> se_isView env v) then (Inl Fault_BadViewIdUnknown, cm)
      else if rq_nodesToBrowse request = [] then (Inl Fault_BadNothingToDo, cm)
      else if 0 < se_maxNodesPerBrowse env \<and> se_maxNodesPerBrowse env < length (rq_nodesToBrowse request)
      then (Inl Fault_BadTooManyOperations, cm)
      else if \<not> se_available env then (Inl Fault_BadInternalError, cm)
      else
        let (results, cm') =
          innerBrowse (min 9876 (rq_requestedMaxReferencesPerNode request)) (se_maxBrowseContinuationPoints env)
            (map (se_browse env) (rq_nodesToBrowse request)) cm
        in (Inr results, cm'))"

definition on_BrowseNextRequest ::
    "js_string list \<Rightarrow> bool \<Rightarrow> 'a cp_manager \<Rightarrow> (service_fault + 'a browse_result list) \<times> 'a cp_manager" where
  "on_BrowseNextRequest cps release cm =
     (if cps = [] then (Inl Fault_BadNothingToDo, cm)
      else let (results, cm') = innerBrowseNext cps release cm in (Inr results, cm'))"

end
