(* ===== verification/Browse_All.thy ===== *)
theory Browse_All
  imports Continuation_Points
begin

text \<open>
  The client's side of browsing: \<^verbatim>\<open>ClientSessionImpl.browse\<close> and
  \<^verbatim>\<open>browseNext\<close>, and \<^verbatim>\<open>browseAll\<close> of \<^verbatim>\<open>node-opcua-pseudo-session\<close>,
  which follows the continuation points to the end. A \<open>browse_link\<close> is a session as \<open>browseAll\<close>
  sees it, its operations threading a state; \<open>client_link\<close> is the one of a client connected to
  a server's manager. \<^verbatim>\<open>references\<close> is a list here, because the client's \<^verbatim>\<open>browse\<close>
  leaves no \<^verbatim>\<open>null\<close>; the array a result shares with its entry in
  \<^verbatim>\<open>browseToContinue\<close> is updated in the result, by its index. A response has no more
  results than the request had nodes. The loop over continuation
  points may go on as long as the server hands out new ones: it is a \<open>partial_function\<close>.
\<close>

datatype browse_error =
    Fault service_fault
  | InternalError
  | TypeError
  | Browse_AssertionError

record 'a client_browse_result =
  cb_statusCode :: status_code
  cb_continuationPoint :: "js_string option"
  cb_references :: "'a list"

record ('n, 'a, 'st) browse_link =
  bl_readLimits :: "'st \<Rightarrow> nat option \<times> nat option"
  bl_browse :: "'n list \<Rightarrow> 'st \<Rightarrow> (browse_error + 'a client_browse_result list) \<times> 'st"
  bl_browseNext :: "js_string list \<Rightarrow> bool \<Rightarrow> 'st \<Rightarrow> (browse_error + 'a client_browse_result list) \<times> 'st"

section \<open>browseAll\<close>

definition or_default :: "nat option \<Rightarrow> nat" where
  "or_default v = (case v of None \<Rightarrow> 10 | Some n \<Rightarrow> if n = 0 then 10 else n)"

definition readLimits :: "('n, 'a, 'st) browse_link \<Rightarrow> 'st \<Rightarrow> nat \<times> nat" where
  "readLimits link s =
     (let (maxBrowseContinuationPoints, maxNodesPerBrowse) = bl_readLimits link s
      in (or_default maxBrowseContinuationPoints, or_default maxNodesPerBrowse))"

text \<open>The first loop of \<^verbatim>\<open>browseAll2\<close>: results with their continuation point removed,
  the nodes to browse again, the results to continue.\<close>

fun sort_results ::
    "nat \<Rightarrow> 'n list \<Rightarrow> 'a client_browse_result list \<Rightarrow>
     'a client_browse_result list \<times> (nat \<times> 'n) list \<times> (nat \<times> js_string) list" where
  "sort_results i nodes [] = ([], [], [])"
| "sort_results i nodes (r # rs) =
     (let (results, redo, continue') = sort_results (Suc i) (tl nodes) rs
      in if sameStatusCode (cb_statusCode r) BadNoContinuationPoints \<or>
            sameStatusCode (cb_statusCode r) BadContinuationPointInvalid
         then (r # results, (i, hd nodes) # redo, continue')
         else (r\<lparr>cb_continuationPoint := None\<rparr> # results, redo,
               (case cb_continuationPoint r of
                  Some cp \<Rightarrow> if cp \<noteq> [] then (i, cp) # continue' else continue'
                | None \<Rightarrow> continue')))"

text \<open>One answer of \<^verbatim>\<open>browseNext\<close>: its references go to the end of the result it continues.\<close>

fun collect_next ::
    "(nat \<times> js_string) list \<Rightarrow> 'a client_browse_result list \<Rightarrow> 'a client_browse_result list \<Rightarrow>
     'a client_browse_result list \<times> (nat \<times> js_string) list" where
  "collect_next ((i, cp) # entries) (n # nexts) results =
     (let results1 = results[i := (results ! i)\<lparr>cb_references := cb_references (results ! i) @ cb_references n\<rparr>];
          (results2, entries2) = collect_next entries nexts results1
      in (results2, (case cb_continuationPoint n of Some cp' \<Rightarrow> (i, cp') # entries2 | None \<Rightarrow> entries2)))"
| "collect_next _ _ results = (results, [])"

partial_function (option) continue_loop ::
    "('n, 'a, 'st) browse_link \<Rightarrow> (nat \<times> js_string) list \<Rightarrow> 'a client_browse_result list \<Rightarrow> 'st \<Rightarrow>
     ((browse_error + 'a client_browse_result list) \<times> 'st) option" where
  "continue_loop link entries results s =
     (if entries = [] then Some (Inr results, s)
      else
        case bl_browseNext link (map snd entries) False s of
          (Inl e, s') \<Rightarrow> Some (Inl e, s')
        | (Inr nexts, s') \<Rightarrow>
            if length nexts \<noteq> length entries then Some (Inl Browse_AssertionError, s')
            else let (results', entries') = collect_next entries nexts results
                 in continue_loop link entries' results' s')"

text \<open>The loop that puts the repeated results in their places: it runs over the indices of
  \<^verbatim>\<open>browseResults\<close>, and reads \<^verbatim>\<open>browseToRedo[i].index\<close>.\<close>

fun put_redone ::
    "nat list \<Rightarrow> (nat \<times> 'n) list \<Rightarrow> 'a client_browse_result list \<Rightarrow> 'a client_browse_result list \<Rightarrow>
     browse_error + 'a client_browse_result list" where
  "put_redone [] redo results2 results = Inr results"
| "put_redone (i # is) redo results2 results =
     (if i < length redo \<and> i < length results2
      then put_redone is redo results2 (results[fst (redo ! i) := results2 ! i])
      else Inl TypeError)"

definition clear_points :: "'a client_browse_result list \<Rightarrow> 'a client_browse_result list" where
  "clear_points results = map (\<lambda>b. b\<lparr>cb_continuationPoint := None\<rparr>) results"

partial_function (option) browseAll2 ::
    "('n, 'a, 'st) browse_link \<Rightarrow> 'n list \<Rightarrow> 'st \<Rightarrow>
     ((browse_error + 'a client_browse_result list) \<times> 'st) option" where
  "browseAll2 link nodesToBrowse s =
     (if nodesToBrowse = [] then Some (Inr [], s)
      else
        case bl_browse link nodesToBrowse s of
          (Inl e, s1) \<Rightarrow> Some (Inl e, s1)
        | (Inr rs, s1) \<Rightarrow>
            let (results, redo, entries) = sort_results 0 nodesToBrowse rs
            in Option.bind (continue_loop link entries results s1)
                 (\<lambda>(r, s2).
                    case r of
                      Inl e \<Rightarrow> Some (Inl e, s2)
                    | Inr results1 \<Rightarrow>
                        if redo \<noteq> [] \<and> length nodesToBrowse \<noteq> length redo
                        then Option.bind (browseAll2 link (map snd redo) s2)
                               (\<lambda>(r2, s3).
                                  case r2 of
                                    Inl e \<Rightarrow> Some (Inl e, s3)
                                  | Inr results2 \<Rightarrow>
                                      Some (map_sum id clear_points (put_redone [0..<length results1] redo results2 results1), s3))
                        else Some (Inr (clear_points results1), s2)))"

text \<open>The batches of \<^verbatim>\<open>browseAll\<close>; \<open>chunk\<close> is \<^verbatim>\<open>nodesToBrowse1\<close>.\<close>

partial_function (option) browse_batches ::
    "('n, 'a, 'st) browse_link \<Rightarrow> nat \<Rightarrow> 'n list \<Rightarrow> 'n list \<Rightarrow> 'a client_browse_result list \<Rightarrow> 'st \<Rightarrow>
     ((browse_error + 'a client_browse_result list) \<times> 'st) option" where
  "browse_batches link maxNodesToBrowse chunk tmp results s =
     (if chunk = [] then Some (Inr results, s)
      else
        Option.bind (browseAll2 link chunk s)
          (\<lambda>(r, s1).
             case r of
               Inl e \<Rightarrow> Some (Inl e, s1)
             | Inr partial \<Rightarrow>
                 browse_batches link maxNodesToBrowse (take maxNodesToBrowse tmp) (drop maxNodesToBrowse tmp)
                   (results @ partial) s1))"

definition browseAll ::
    "('n, 'a, 'st) browse_link \<Rightarrow> 'n list \<Rightarrow> 'st \<Rightarrow>
     ((browse_error + 'a client_browse_result list) \<times> 'st) option" where
  "browseAll link nodesToBrowse s =
     (let (maxBrowseContinuationPoints, maxNodesPerBrowse) = readLimits link s;
          maxNodesToBrowse = min maxNodesPerBrowse maxBrowseContinuationPoints
      in Option.bind (browse_batches link maxNodesToBrowse (take maxNodesToBrowse nodesToBrowse)
                        (drop maxNodesToBrowse nodesToBrowse) [] s)
           (\<lambda>(r, s1).
              case r of
                Inl e \<Rightarrow> Some (Inl e, s1)
              | Inr results \<Rightarrow>
                  if length results = length nodesToBrowse then Some (Inr results, s1)
                  else Some (Inl Browse_AssertionError, s1)))"

section \<open>A client session\<close>

definition client_result :: "'a browse_result \<Rightarrow> 'a client_browse_result" where
  "client_result r = \<lparr>cb_statusCode = br_statusCode r, cb_continuationPoint = br_continuationPoint r,
     cb_references = (case br_references r of None \<Rightarrow> [] | Some refs \<Rightarrow> refs)\<rparr>"

text \<open>What the client makes of a response: a fault rejects, a response without results fails the
  assertion on its first one.\<close>

definition client_answer ::
    "service_fault + 'a browse_result list \<Rightarrow> browse_error + 'a client_browse_result list" where
  "client_answer answer =
     (case answer of
        Inl f \<Rightarrow> Inl (Fault f)
      | Inr results \<Rightarrow> if results = [] then Inl Browse_AssertionError else Inr (map client_result results))"

definition client_browse ::
    "('n, 'a) browse_env \<Rightarrow> nat \<Rightarrow> 'n list \<Rightarrow> 'a cp_manager \<Rightarrow>
     (browse_error + 'a client_browse_result list) \<times> 'a cp_manager" where
  "client_browse env requestedMaxReferencesPerNode nodes cm =
     (let (answer, cm') = on_BrowseRequest env
            \<lparr>rq_viewId = None, rq_nodesToBrowse = nodes,
             rq_requestedMaxReferencesPerNode = requestedMaxReferencesPerNode\<rparr> cm
      in (client_answer answer, cm'))"

definition client_browseNext ::
    "js_string list \<Rightarrow> bool \<Rightarrow> 'a cp_manager \<Rightarrow> (browse_error + 'a client_browse_result list) \<times> 'a cp_manager" where
  "client_browseNext cps release cm =
     (let (answer, cm') = on_BrowseNextRequest cps release cm in (client_answer answer, cm'))"

text \<open>The limits it reads are the ones the server enforces.\<close>

definition client_link :: "('n, 'a) browse_env \<Rightarrow> nat \<Rightarrow> ('n, 'a, 'a cp_manager) browse_link" where
  "client_link env requestedMaxReferencesPerNode =
     \<lparr>bl_readLimits = (\<lambda>_. (Some (se_maxBrowseContinuationPoints env), Some (se_maxNodesPerBrowse env))),
      bl_browse = client_browse env requestedMaxReferencesPerNode,
      bl_browseNext = client_browseNext\<rparr>"

section \<open>A browse service\<close>

text \<open>What \<open>browseAll2\<close> needs of a session: \<open>rest s\<close> is what each continuation point
  still owes, \<open>fits s n\<close> that \<open>n\<close> nodes can be browsed without running out of points.
  \<open>browse\<close> answers each node with a prefix of its references and owes the rest;
  \<open>browseNext\<close> pays at least one of them and forgets a point that owes nothing more.\<close>

definition owed :: "(js_string \<Rightarrow> 'a list option) \<Rightarrow> js_string option \<Rightarrow> 'a list" where
  "owed rest cp = (case cp of None \<Rightarrow> [] | Some c \<Rightarrow> (case rest c of None \<Rightarrow> [] | Some vs \<Rightarrow> vs))"

definition points :: "'a client_browse_result list \<Rightarrow> js_string list" where
  "points rs = List.map_filter cb_continuationPoint rs"

definition answers ::
    "('n \<Rightarrow> status_code) \<Rightarrow> ('n \<Rightarrow> 'a list) \<Rightarrow> (js_string \<Rightarrow> 'a list option) \<Rightarrow> 'n \<Rightarrow> 'a client_browse_result \<Rightarrow> bool" where
  "answers status refs rest n r \<longleftrightarrow>
     cb_statusCode r = status n \<and> cb_references r @ owed rest (cb_continuationPoint r) = refs n \<and>
     cb_continuationPoint r \<noteq> Some []"

definition continues ::
    "(js_string \<Rightarrow> 'a list option) \<Rightarrow> (js_string \<Rightarrow> 'a list option) \<Rightarrow> js_string \<Rightarrow> 'a client_browse_result \<Rightarrow> bool" where
  "continues rest rest' c r \<longleftrightarrow>
     cb_references r \<noteq> [] \<and> cb_references r @ owed rest' (Some c) = owed rest (Some c) \<and>
     cb_continuationPoint r = (if rest' c = None then None else Some c)"

lemma owed_None [simp]: "owed R None = []"
  by (simp add: owed_def)

lemma points_Cons:
  "points (r # rs) = (case cb_continuationPoint r of None \<Rightarrow> points rs | Some c \<Rightarrow> c # points rs)"
  by (simp add: points_def map_filter_simps split: option.split)

lemma collect_step:
  assumes "list_all2 (continues R R') (map snd entries) nexts" and "distinct (map fst entries)"
    and "\<forall>i\<in>set (map fst entries). i < length results"
    and "collect_next entries nexts results = (results', entries')"
  shows "length results' = length results \<and>
     (\<forall>j<length results. cb_statusCode (results' ! j) = cb_statusCode (results ! j) \<and>
        cb_references (results' ! j) @ owed R' (map_of entries' j) =
        cb_references (results ! j) @ owed R (map_of entries j)) \<and>
     map snd entries' = filter (\<lambda>c. R' c \<noteq> None) (map snd entries) \<and>
     set (map fst entries') \<subseteq> set (map fst entries) \<and> distinct (map fst entries')"
  using assms
proof (induction entries nexts results arbitrary: results' entries' rule: collect_next.induct)
  case (1 i cp entries n nexts results)
  let ?r = "results[i := (results ! i)\<lparr>cb_references := cb_references (results ! i) @ cb_references n\<rparr>]"
  obtain results2 entries2 where c: "collect_next entries nexts ?r = (results2, entries2)"
    by (cases "collect_next entries nexts ?r")
  have n: "continues R R' cp n" and rest: "list_all2 (continues R R') (map snd entries) nexts" using "1.prems"(1) by auto
  have i: "i < length results" "i \<notin> set (map fst entries)" using "1.prems"(2,3) by auto
  have ih: "length results2 = length results"
    "\<And>j. j < length results \<Longrightarrow> cb_statusCode (results2 ! j) = cb_statusCode (?r ! j) \<and>
        cb_references (results2 ! j) @ owed R' (map_of entries2 j) = cb_references (?r ! j) @ owed R (map_of entries j)"
    "map snd entries2 = filter (\<lambda>c. R' c \<noteq> None) (map snd entries)"
    "set (map fst entries2) \<subseteq> set (map fst entries)" "distinct (map fst entries2)"
    using "1.IH"[OF refl rest _ _ c] "1.prems"(2,3) by auto
  have e': "entries' = (if R' cp = None then entries2 else (i, cp) # entries2)" "results' = results2"
    using "1.prems"(4) c n by (auto simp: Let_def continues_def split: if_splits)
  have none: "map_of entries i = None" "map_of entries2 i = None" using i(2) ih(4) by (auto simp: map_of_eq_None_iff)
  have "cb_references (results' ! j) @ owed R' (map_of entries' j) =
        cb_references (results ! j) @ owed R (map_of ((i, cp) # entries) j)" if "j < length results" for j
    using ih(2)[OF that] n none i(1) by (cases "j = i") (auto simp: e' continues_def owed_def[of R' "Some cp"])
  moreover have "cb_statusCode (results' ! j) = cb_statusCode (results ! j)" if "j < length results" for j
    using ih(2)[OF that] i(1) by (cases "j = i") (auto simp: e')
  ultimately show ?case using ih i(2) by (auto simp: e')
qed simp_all

lemma continues_decreases:
  "list_all2 (continues R R') cps nexts \<Longrightarrow> cps \<noteq> [] \<Longrightarrow>
     sum_list (map (\<lambda>c. length (owed R' (Some c))) (filter (\<lambda>c. R' c \<noteq> None) cps)) <
     sum_list (map (\<lambda>c. length (owed R (Some c))) cps)"
proof (induction cps nexts rule: list_all2_induct)
  case (Cons c cps n nexts)
  have "length (cb_references n) + length (owed R' (Some c)) = length (owed R (Some c))" "cb_references n \<noteq> []"
    using Cons.hyps(1) by (auto simp: continues_def simp flip: length_append)
  then have "length (owed R' (Some c)) < length (owed R (Some c))" by (cases "cb_references n") auto
  with Cons.IH show ?case by (cases "cps = []") auto
qed simp

lemma sort_answered:
  assumes "list_all2 (answers status refs R) nodes rs"
    and "\<And>n. \<not> sameStatusCode (status n) BadNoContinuationPoints"
    and "\<And>n. \<not> sameStatusCode (status n) BadContinuationPointInvalid"
  shows "\<exists>entries. sort_results i nodes rs = (clear_points rs, [], entries) \<and> map snd entries = points rs \<and>
     (\<forall>j<length rs. map_of entries (i + j) = cb_continuationPoint (rs ! j)) \<and>
     set (map fst entries) \<subseteq> {i..<i + length rs} \<and> distinct (map fst entries)"
  using assms(1)
proof (induction nodes rs arbitrary: i rule: list_all2_induct)
  case Nil
  show ?case by (simp add: clear_points_def points_def map_filter_simps)
next
  case (Cons n nodes r rs)
  obtain entries where e: "sort_results (Suc i) nodes rs = (clear_points rs, [], entries)" "map snd entries = points rs"
    "\<And>j. j < length rs \<Longrightarrow> map_of entries (Suc i + j) = cb_continuationPoint (rs ! j)"
    "set (map fst entries) \<subseteq> {Suc i..<Suc i + length rs}" "distinct (map fst entries)"
    using Cons.IH[of "Suc i"] by blast
  have r: "cb_statusCode r = status n" "cb_continuationPoint r \<noteq> Some []" using Cons.hyps(1) by (auto simp: answers_def)
  let ?entries = "case cb_continuationPoint r of None \<Rightarrow> entries | Some c \<Rightarrow> (i, c) # entries"
  have "sort_results i (n # nodes) (r # rs) = (clear_points (r # rs), [], ?entries)"
    using r assms(2,3) by (auto simp: e(1) clear_points_def split: option.split)
  moreover have "map_of ?entries (i + j) = cb_continuationPoint ((r # rs) ! j)" if "j < length (r # rs)" for j
  proof (cases j)
    case 0
    have "map_of entries i = None" using e(4) by (auto simp: map_of_eq_None_iff)
    then show ?thesis by (simp add: 0 split: option.split)
  next
    case (Suc k)
    with that e(3)[of k] show ?thesis by (simp split: option.split)
  qed
  ultimately show ?case
    using e(2,4,5) by (intro exI[of _ ?entries]) (auto simp: points_Cons split: option.split)
qed

locale browse_service =
  fixes link :: "('n, 'a, 'st) browse_link"
    and good :: "'st \<Rightarrow> bool"
    and fits :: "'st \<Rightarrow> nat \<Rightarrow> bool"
    and rest :: "'st \<Rightarrow> js_string \<Rightarrow> 'a list option"
    and status :: "'n \<Rightarrow> status_code"
    and refs :: "'n \<Rightarrow> 'a list"
  assumes finite_rest: "good s \<Longrightarrow> finite (dom (rest s))"
    and fits_rest: "good s \<Longrightarrow> good s' \<Longrightarrow> rest s' = rest s \<Longrightarrow> fits s' k \<longleftrightarrow> fits s k"
    and browse: "good s \<Longrightarrow> nodes \<noteq> [] \<Longrightarrow> fits s (length nodes) \<Longrightarrow>
      \<exists>rs s'. bl_browse link nodes s = (Inr rs, s') \<and> good s' \<and> list_all2 (answers status refs (rest s')) nodes rs \<and>
        distinct (points rs) \<and> set (points rs) = dom (rest s') - dom (rest s) \<and> rest s \<subseteq>\<^sub>m rest s'"
    and browseNext: "good s \<Longrightarrow> cps \<noteq> [] \<Longrightarrow> distinct cps \<Longrightarrow> set cps \<subseteq> dom (rest s) \<Longrightarrow>
      \<exists>rs s'. bl_browseNext link cps False s = (Inr rs, s') \<and> good s' \<and> list_all2 (continues (rest s) (rest s')) cps rs \<and>
        (\<forall>c. c \<notin> set cps \<longrightarrow> rest s' c = rest s c)"
    and ordinary: "good s \<Longrightarrow> \<not> sameStatusCode (status n) BadNoContinuationPoints"
      "good s \<Longrightarrow> \<not> sameStatusCode (status n) BadContinuationPointInvalid"
begin

lemma continue_loop_completes:
  assumes "good s" and "distinct (map snd entries)" and "set (map snd entries) \<subseteq> dom (rest s)"
    and "distinct (map fst entries)" and "\<forall>i\<in>set (map fst entries). i < length results"
  shows "\<exists>results' s'. continue_loop link entries results s = Some (Inr results', s') \<and> good s' \<and>
     length results' = length results \<and>
     (\<forall>j<length results. cb_statusCode (results' ! j) = cb_statusCode (results ! j) \<and>
        cb_references (results' ! j) = cb_references (results ! j) @ owed (rest s) (map_of entries j)) \<and>
     (\<forall>c. rest s' c = (if c \<in> set (map snd entries) then None else rest s c))"
  using assms
proof (induction "sum_list (map (\<lambda>c. length (owed (rest s) (Some c))) (map snd entries))"
    arbitrary: entries results s rule: less_induct)
  case less
  show ?case
  proof (cases "entries = []")
    case True
    with less.prems(1) show ?thesis by (simp add: continue_loop.simps)
  next
    case False
    then have ne: "map snd entries \<noteq> []" by simp
    from browseNext[OF less.prems(1) this less.prems(2,3)] obtain nexts s1 where n:
      "bl_browseNext link (map snd entries) False s = (Inr nexts, s1)" "good s1"
      "list_all2 (continues (rest s) (rest s1)) (map snd entries) nexts"
      "\<And>c. c \<notin> set (map snd entries) \<Longrightarrow> rest s1 c = rest s c" by blast
    obtain results1 entries1 where c: "collect_next entries nexts results = (results1, entries1)"
      by (cases "collect_next entries nexts results")
    note step = collect_step[OF n(3) less.prems(4,5) c]
    have sub: "set (map snd entries1) \<subseteq> set (map snd entries)" "distinct (map snd entries1)"
      using step less.prems(2) by (auto simp del: set_map) 
    have lt: "sum_list (map (\<lambda>c. length (owed (rest s1) (Some c))) (map snd entries1)) <
          sum_list (map (\<lambda>c. length (owed (rest s) (Some c))) (map snd entries))"
      using continues_decreases[OF n(3) ne] step by (simp del: map_map)
    have owing: "set (map snd entries1) \<subseteq> dom (rest s1)" "distinct (map fst entries1)"
      "\<forall>i\<in>set (map fst entries1). i < length results1"
      using step less.prems(5) by (auto simp del: set_map)
    obtain results' s' where r: "continue_loop link entries1 results1 s1 = Some (Inr results', s')" "good s'"
      "length results' = length results1"
      "\<And>j. j < length results1 \<Longrightarrow> cb_statusCode (results' ! j) = cb_statusCode (results1 ! j) \<and>
        cb_references (results' ! j) = cb_references (results1 ! j) @ owed (rest s1) (map_of entries1 j)"
      "\<And>c. rest s' c = (if c \<in> set (map snd entries1) then None else rest s1 c)"
      using less.hyps[OF lt n(2) sub(2) owing(1,2), of results1] owing(3) by blast
    have "continue_loop link entries results s = continue_loop link entries1 results1 s1"
      using False n(1) c list_all2_lengthD[OF n(3)] by (subst continue_loop.simps) simp
    moreover have "rest s' c = (if c \<in> set (map snd entries) then None else rest s c)" for c
      using r(5)[of c] n(4)[of c] sub(1) step by (auto simp del: set_map)
    ultimately show ?thesis using r step by (auto simp del: set_map)
  qed
qed

theorem browseAll2_completes:
  assumes "good s" and "fits s (length nodes)"
  shows "\<exists>s'. browseAll2 link nodes s =
       Some (Inr (map (\<lambda>n. \<lparr>cb_statusCode = status n, cb_continuationPoint = None, cb_references = refs n\<rparr>) nodes), s') \<and>
     good s' \<and> rest s' = rest s"
proof (cases "nodes = []")
  case True
  with assms(1) show ?thesis by (simp add: browseAll2.simps)
next
  case False
  from browse[OF assms(1) this assms(2)] obtain rs s1 where b: "bl_browse link nodes s = (Inr rs, s1)" "good s1"
    "list_all2 (answers status refs (rest s1)) nodes rs" "distinct (points rs)"
    "set (points rs) = dom (rest s1) - dom (rest s)" "rest s \<subseteq>\<^sub>m rest s1" by blast
  obtain entries where e: "sort_results 0 nodes rs = (clear_points rs, [], entries)" "map snd entries = points rs"
    "\<And>j. j < length rs \<Longrightarrow> map_of entries j = cb_continuationPoint (rs ! j)"
    "set (map fst entries) \<subseteq> {0..<length rs}" "distinct (map fst entries)"
    using sort_answered[OF b(3) ordinary[OF assms(1)], of 0] by auto
  have "\<forall>i\<in>set (map fst entries). i < length (clear_points rs)" using e(4) by (auto simp: clear_points_def)
  with continue_loop_completes[OF b(2), of entries "clear_points rs"] b(4,5) e(2,5)
  obtain results s' where r: "continue_loop link entries (clear_points rs) s1 = Some (Inr results, s')" "good s'"
    "length results = length rs"
    "\<And>j. j < length rs \<Longrightarrow> cb_statusCode (results ! j) = cb_statusCode (clear_points rs ! j) \<and>
        cb_references (results ! j) = cb_references (clear_points rs ! j) @ owed (rest s1) (map_of entries j)"
    "\<And>c. rest s' c = (if c \<in> set (points rs) then None else rest s1 c)"
    by (auto simp: clear_points_def)
  let ?done = "map (\<lambda>n. \<lparr>cb_statusCode = status n, cb_continuationPoint = None, cb_references = refs n\<rparr>) nodes"
  have len: "length rs = length nodes" using b(3) by (simp add: list_all2_lengthD)
  have "clear_points results = ?done"
  proof (rule nth_equalityI)
    show "length (clear_points results) = length ?done" by (simp add: clear_points_def r(3) len)
    fix j assume "j < length (clear_points results)"
    then have j: "j < length rs" by (simp add: clear_points_def r(3))
    with list_all2_nthD2[OF b(3) j] r(4)[OF j] e(3)[OF j] len
    show "clear_points results ! j = ?done ! j" by (simp add: clear_points_def r(3) answers_def)
  qed
  moreover have "rest s' c = rest s c" for c
    using r(5)[of c] b(5,6) by (cases "rest s c") (auto simp: map_le_def dom_def)
  ultimately show ?thesis
    using False b(1) e(1) r(1,2) by (subst browseAll2.simps) auto
qed

lemma browse_batches_complete:
  assumes "0 < k" and "good s" and "\<forall>m\<le>k. fits s m" and "length chunk \<le> k" and "chunk = [] \<longrightarrow> tmp = []"
  shows "\<exists>s'. browse_batches link k chunk tmp results s =
       Some (Inr (results @ map (\<lambda>n. \<lparr>cb_statusCode = status n, cb_continuationPoint = None, cb_references = refs n\<rparr>) (chunk @ tmp)), s') \<and>
     good s' \<and> rest s' = rest s"
  using assms(2-)
proof (induction "length tmp" arbitrary: chunk tmp results s rule: less_induct)
  case less
  show ?case
  proof (cases "chunk = []")
    case True
    with less.prems show ?thesis by (simp add: browse_batches.simps)
  next
    case False
    let ?done = "map (\<lambda>n. \<lparr>cb_statusCode = status n, cb_continuationPoint = None, cb_references = refs n\<rparr>)"
    obtain s1 where s1: "browseAll2 link chunk s = Some (Inr (?done chunk), s1)" "good s1" "rest s1 = rest s"
      using browseAll2_completes[OF less.prems(1), of chunk] less.prems(2,3) by blast
    have fits: "\<forall>m\<le>k. fits s1 m" using fits_rest[OF less.prems(1) s1(2,3)] less.prems(2) by blast
    have "\<exists>s'. browse_batches link k (take k tmp) (drop k tmp) (results @ ?done chunk) s1 =
        Some (Inr ((results @ ?done chunk) @ ?done (take k tmp @ drop k tmp)), s') \<and> good s' \<and> rest s' = rest s1"
    proof (cases "tmp = []")
      case True
      with s1(2) show ?thesis by (simp add: browse_batches.simps)
    next
      case nonempty: False
      with assms(1) show ?thesis
        by (intro less.hyps) (auto simp: s1(2) fits)
    qed
    with False s1 show ?thesis by (subst browse_batches.simps) auto
  qed
qed

theorem browseAll_completes:
  assumes "good s"
    and "\<forall>m \<le> min (snd (readLimits link s)) (fst (readLimits link s)). fits s m"
  shows "\<exists>s'. browseAll link nodes s =
       Some (Inr (map (\<lambda>n. \<lparr>cb_statusCode = status n, cb_continuationPoint = None, cb_references = refs n\<rparr>) nodes), s') \<and>
     good s' \<and> rest s' = rest s"
proof -
  obtain a b where l: "readLimits link s = (a, b)" by (cases "readLimits link s")
  then have "0 < min b a" by (auto simp: readLimits_def or_default_def split: option.splits if_splits prod.splits)
  moreover from this have "take (min b a) nodes = [] \<longrightarrow> drop (min b a) nodes = []" by auto
  ultimately have "\<exists>s'. browse_batches link (min b a) (take (min b a) nodes) (drop (min b a) nodes) [] s =
       Some (Inr ([] @ map (\<lambda>n. \<lparr>cb_statusCode = status n, cb_continuationPoint = None, cb_references = refs n\<rparr>)
         (take (min b a) nodes @ drop (min b a) nodes)), s') \<and> good s' \<and> rest s' = rest s"
    by (intro browse_batches_complete) (use assms l in auto)
  then show ?thesis by (auto simp: browseAll_def l)
qed

end

end
