(* ===== verification/Browse_Session.thy ===== *)
theory Browse_Session
  imports Browse_All
begin

text \<open>
  A client's session and the server's manager together: the manager's invariant, the laws of
  \<open>browse_service\<close> proved of \<open>client_link\<close>, and what follows for \<open>browseAll\<close> - that it
  returns every reference and leaves no continuation point behind, and what happens when the points
  run out.
\<close>

section \<open>The manager's invariant\<close>

definition rest :: "'a cp_manager \<Rightarrow> js_string \<Rightarrow> 'a list option" where
  "rest cm c = map_option pd_values (map_of (cm_map cm) c)"

definition issued :: "nat \<Rightarrow> js_string \<Rightarrow> bool" where
  "issued n c \<longleftrightarrow> (\<exists>m\<le>n. c = dec_string m)"

definition cm_wf :: "'a cp_manager \<Rightarrow> bool" where
  "cm_wf cm \<longleftrightarrow>
     distinct (map fst (cm_map cm)) \<and>
     (\<forall>x \<in> set (cm_map cm). issued (cm_counter cm) (fst x) \<and> 0 < pd_maxElements (snd x) \<and> pd_values (snd x) \<noteq> [])"

lemma dec_string_inj: "dec_string m = dec_string n \<longleftrightarrow> m = n"
  by (metis dec_value_string)

lemma dom_rest: "dom (rest cm) = fst ` set (cm_map cm)"
  by (auto simp: rest_def dom_map_of_conv_image_fst[symmetric])

lemma fresh_key: "cm_wf cm \<Longrightarrow> dec_string (Suc (cm_counter cm)) \<notin> fst ` set (cm_map cm)"
  by (fastforce simp: cm_wf_def issued_def dec_string_inj)

lemma issued_Suc: "issued n c \<Longrightarrow> issued (Suc n) c" "issued (Suc n) (dec_string (Suc n))"
  by (auto simp: issued_def intro: le_SucI)

lemma cm_wf_new [simp]: "cm_wf (new_manager n)"
  by (simp add: cm_wf_def new_manager_def)

lemma cm_map_new [simp]: "cm_map (new_manager n) = []"
  by (simp add: new_manager_def)

lemma card_rest: "cm_wf cm \<Longrightarrow> card (dom (rest cm)) = length (cm_map cm)"
  using distinct_card[of "map fst (cm_map cm)"] by (simp add: dom_rest cm_wf_def)

lemma wf_counter: "cm_wf cm \<Longrightarrow> cm_wf (cm\<lparr>cm_counter := Suc (cm_counter cm)\<rparr>)"
  by (simp add: cm_wf_def issued_Suc)

section \<open>Browse\<close>

lemma register_spec:
  assumes wf: "cm_wf cm"
    and reg: "register n values \<lparr>cd_continuationPoint = None, cd_releaseContinuationPoints = False\<rparr> cm = (info, cm')"
  shows "cm_wf cm' \<and>
     (case ci_values info of None \<Rightarrow> [] | Some vs \<Rightarrow> vs) @ owed (rest cm') (ci_continuationPoint info) = values \<and>
     (case ci_continuationPoint info of
        None \<Rightarrow> cm' = cm
      | Some c \<Rightarrow> c \<noteq> [] \<and> c \<notin> dom (rest cm) \<and> (\<exists>vs. rest cm' = (rest cm)(c \<mapsto> vs)) \<and>
          length (cm_map cm') = Suc (length (cm_map cm)))"
proof -
  let ?n = "if n = 0 then length values else n"
  let ?key = "dec_string (Suc (cm_counter cm))"
  let ?d = "\<lparr>pd_maxElements = ?n, pd_values = drop ?n values\<rparr>"
  consider "values = [] \<and> 1 \<le> n" | "\<not> (values = [] \<and> 1 \<le> n)" "length values \<le> ?n" | "?n < length values" by linarith
  then show ?thesis
  proof cases
    case 1
    with reg wf show ?thesis by (auto simp: register_def)
  next
    case 2
    with reg wf have "info = \<lparr>ci_continuationPoint = None, ci_values = Some values, ci_statusCode = Good\<rparr>" "cm' = cm"
      by (auto simp: register_def Let_def split: if_splits)
    with wf show ?thesis by simp
  next
    case 3
    then have n: "0 < ?n" "drop ?n values \<noteq> []" by (auto split: if_splits)
    from 3 reg have info: "info = \<lparr>ci_continuationPoint = Some ?key, ci_values = Some (take ?n values), ci_statusCode = Good\<rparr>"
      and cm': "cm' = cm\<lparr>cm_counter := Suc (cm_counter cm), cm_map := cm_map cm @ [(?key, ?d)]\<rparr>"
      using update_fresh[OF fresh_key[OF wf]] by (auto simp: register_def Let_def make_key_def split: if_splits)
    have r: "rest cm' = (rest cm)(?key \<mapsto> drop ?n values)"
      using fresh_key[OF wf] by (auto simp: cm' rest_def fun_eq_iff map_add_def dom_map_of_conv_image_fst[symmetric] split: option.split)
    have "cm_wf cm'"
      using wf_counter[OF wf] fresh_key[OF wf] n by (auto simp: cm_wf_def cm' issued_Suc)
    with r show ?thesis
      using fresh_key[OF wf] by (auto simp: info owed_def dom_rest cm')
  qed
qed

lemma owed_mono: "R \<subseteq>\<^sub>m R' \<Longrightarrow> cp = None \<or> the cp \<in> dom R \<Longrightarrow> owed R' cp = owed R cp"
  by (cases cp) (auto simp: owed_def map_le_def dom_def)

lemma innerBrowse_spec:
  assumes "cm_wf cm" and "maxPoints = 0 \<or> length (cm_map cm) + length as \<le> maxPoints"
    and "innerBrowse n maxPoints as cm = (rs, cm')"
  shows "cm_wf cm' \<and> rest cm \<subseteq>\<^sub>m rest cm' \<and>
     list_all2 (answers fst (\<lambda>a. case snd a of None \<Rightarrow> [] | Some vs \<Rightarrow> vs) (rest cm')) as (map client_result rs) \<and>
     distinct (points (map client_result rs)) \<and> set (points (map client_result rs)) = dom (rest cm') - dom (rest cm)"
  using assms
proof (induction as arbitrary: cm rs)
  case Nil
  then show ?case by (simp add: points_def map_filter_simps)
next
  case (Cons a as)
  let ?refs = "\<lambda>a :: status_code \<times> 'a list option. case snd a of None \<Rightarrow> [] | Some vs \<Rightarrow> vs"
  obtain info cm1 where reg: "register n (?refs a) \<lparr>cd_continuationPoint = None, cd_releaseContinuationPoints = False\<rparr> cm = (info, cm1)"
    by (cases "register n (?refs a) \<lparr>cd_continuationPoint = None, cd_releaseContinuationPoints = False\<rparr> cm")
  let ?r = "\<lparr>br_statusCode = fst a, br_continuationPoint = ci_continuationPoint info, br_references = ci_values info\<rparr>"
  obtain rs2 where rs2: "innerBrowse n maxPoints as cm1 = (rs2, cm')" "rs = ?r # rs2"
    using Cons.prems(2,3) reg
    by (auto simp: innerBrowse_node_def hasReachedMaximum_def split: prod.splits if_splits)
  from register_spec[OF Cons.prems(1) reg] have spec:
    "cm_wf cm1" "(case ci_values info of None \<Rightarrow> [] | Some vs \<Rightarrow> vs) @ owed (rest cm1) (ci_continuationPoint info) = ?refs a"
    "case ci_continuationPoint info of None \<Rightarrow> cm1 = cm
      | Some c \<Rightarrow> c \<noteq> [] \<and> c \<notin> dom (rest cm) \<and> (\<exists>vs. rest cm1 = (rest cm)(c \<mapsto> vs)) \<and>
          length (cm_map cm1) = Suc (length (cm_map cm))" by auto
  have "length (cm_map cm1) \<le> Suc (length (cm_map cm))" using spec(3) by (auto split: option.splits)
  with Cons.prems(2) have "maxPoints = 0 \<or> length (cm_map cm1) + length as \<le> maxPoints" by auto
  from Cons.IH[OF spec(1) this rs2(1)] have ih: "cm_wf cm'" "rest cm1 \<subseteq>\<^sub>m rest cm'"
    "list_all2 (answers fst ?refs (rest cm')) as (map client_result rs2)"
    "distinct (points (map client_result rs2))" "set (points (map client_result rs2)) = dom (rest cm') - dom (rest cm1)" by auto
  have le: "rest cm \<subseteq>\<^sub>m rest cm1" using spec(3) by (cases "ci_continuationPoint info") (auto intro!: map_le_imp_upd_le simp: map_le_def domIff)
  have new: "dom (rest cm1) = dom (rest cm) \<union> set_option (ci_continuationPoint info)"
    "ci_continuationPoint info \<noteq> Some []" "set_option (ci_continuationPoint info) \<inter> dom (rest cm) = {}"
    using spec(3) by (auto split: option.splits)
  have "owed (rest cm') (ci_continuationPoint info) = owed (rest cm1) (ci_continuationPoint info)"
    by (rule owed_mono[OF ih(2)]) (cases "ci_continuationPoint info"; simp add: new(1))
  with spec(2) new(2) have "answers fst ?refs (rest cm') a (client_result ?r)"
    by (simp add: answers_def client_result_def)
  moreover have "points (map client_result rs) =
      (case ci_continuationPoint info of None \<Rightarrow> points (map client_result rs2) | Some c \<Rightarrow> c # points (map client_result rs2))"
    by (simp add: rs2(2) points_Cons client_result_def)
  moreover have "dom (rest cm1) \<subseteq> dom (rest cm')" using ih(2) by (rule map_le_implies_dom_le)
  ultimately show ?case
    using ih le new by (auto simp: rs2(2) map_le_trans split: option.splits)
qed

section \<open>BrowseNext\<close>

lemma set_update: "set (AList.update k v al) \<subseteq> insert (k, v) (set al)"
  by (induction al) auto

lemma wf_update:
  assumes "cm_wf cm" and "issued (cm_counter cm) c" and "0 < pd_maxElements d" and "pd_values d \<noteq> []"
  shows "cm_wf (cm\<lparr>cm_map := AList.update c d (cm_map cm)\<rparr>)"
  using assms set_update[of c d "cm_map cm"] unfolding cm_wf_def by (auto simp: AList.distinct_update) 

lemma wf_delete: "cm_wf cm \<Longrightarrow> cm_wf (cm\<lparr>cm_map := AList.delete c (cm_map cm)\<rparr>)"
  by (simp add: cm_wf_def AList.distinct_delete) (simp add: AList.delete_eq)

lemma getNext_spec:
  assumes wf: "cm_wf cm" and c: "c \<in> dom (rest cm)"
    and next': "getNext 0 \<lparr>cd_continuationPoint = Some c, cd_releaseContinuationPoints = False\<rparr> cm = (info, cm')"
  shows "cm_wf cm' \<and> (\<exists>vs. ci_values info = Some vs \<and> vs \<noteq> [] \<and> vs @ owed (rest cm') (Some c) = owed (rest cm) (Some c)) \<and>
     ci_continuationPoint info = (if rest cm' c = None then None else Some c) \<and>
     (\<forall>c'. c' \<noteq> c \<longrightarrow> rest cm' c' = rest cm c')"
proof -
  obtain d where d: "map_of (cm_map cm) c = Some d" using c by (auto simp: rest_def)
  then have "(c, d) \<in> set (cm_map cm)" by (rule map_of_SomeD)
  with wf have m: "0 < pd_maxElements d" "pd_values d \<noteq> []" "issued (cm_counter cm) c" by (auto simp: cm_wf_def)
  show ?thesis
  proof (cases "length (pd_values d) \<le> pd_maxElements d")
    case True
    with next' d m have e: "info = \<lparr>ci_continuationPoint = None, ci_values = Some (pd_values d), ci_statusCode = Good\<rparr>"
      "cm' = cm\<lparr>cm_map := AList.delete c (cm_map cm)\<rparr>" by (auto simp: getNext_def Let_def)
    have "cm_wf cm'" unfolding e(2) by (rule wf_delete[OF wf])
    with m d show ?thesis by (simp add: e rest_def owed_def AList.delete_conv')
  next
    case False
    with next' d m have e: "info = \<lparr>ci_continuationPoint = Some c, ci_values = Some (take (pd_maxElements d) (pd_values d)), ci_statusCode = Good\<rparr>"
      "cm' = cm\<lparr>cm_map := AList.update c (d\<lparr>pd_values := drop (pd_maxElements d) (pd_values d)\<rparr>) (cm_map cm)\<rparr>"
      by (auto simp: getNext_def Let_def)
    have "cm_wf cm'" unfolding e(2) by (rule wf_update[OF wf m(3)]) (use m False in simp_all)
    with m d False show ?thesis by (simp add: e rest_def owed_def AList.update_conv')
  qed
qed

lemma innerBrowseNext_spec:
  assumes "cm_wf cm" and "distinct cps" and "set cps \<subseteq> dom (rest cm)"
    and "innerBrowseNext cps False cm = (rs, cm')"
  shows "cm_wf cm' \<and> list_all2 (continues (rest cm) (rest cm')) cps (map client_result rs) \<and>
     (\<forall>c. c \<notin> set cps \<longrightarrow> rest cm' c = rest cm c)"
  using assms
proof (induction cps arbitrary: cm rs)
  case (Cons c cps)
  obtain info cm1 where g: "getNext 0 \<lparr>cd_continuationPoint = Some c, cd_releaseContinuationPoints = False\<rparr> cm = (info, cm1)"
    by (cases "getNext 0 \<lparr>cd_continuationPoint = Some c, cd_releaseContinuationPoints = False\<rparr> cm")
  let ?r = "\<lparr>br_statusCode = ci_statusCode info, br_continuationPoint = ci_continuationPoint info, br_references = ci_values info\<rparr>"
  obtain rs2 where rs2: "innerBrowseNext cps False cm1 = (rs2, cm')" "rs = ?r # rs2"
    using Cons.prems(4) g by (auto split: prod.splits)
  have "c \<in> dom (rest cm)" using Cons.prems(3) by simp
  from getNext_spec[OF Cons.prems(1) this g] have spec: "cm_wf cm1"
    "\<exists>vs. ci_values info = Some vs \<and> vs \<noteq> [] \<and> vs @ owed (rest cm1) (Some c) = owed (rest cm) (Some c)"
    "ci_continuationPoint info = (if rest cm1 c = None then None else Some c)"
    "\<And>c'. c' \<noteq> c \<Longrightarrow> rest cm1 c' = rest cm c'" by blast+
  have "c' \<in> dom (rest cm1)" if "c' \<in> set cps" for c'
  proof -
    have "c' \<noteq> c" "c' \<in> dom (rest cm)" using that Cons.prems(2,3) by auto
    with spec(4)[of c'] show ?thesis by (simp add: domIff)
  qed
  then have "set cps \<subseteq> dom (rest cm1)" by blast
  from Cons.IH[OF spec(1) _ this rs2(1)] Cons.prems(2) have ih: "cm_wf cm'"
    "list_all2 (continues (rest cm1) (rest cm')) cps (map client_result rs2)"
    "\<And>c'. c' \<notin> set cps \<Longrightarrow> rest cm' c' = rest cm1 c'" by auto
  have same: "rest cm' c = rest cm1 c" using ih(3) Cons.prems(2) by simp
  then have "continues (rest cm) (rest cm') c (client_result ?r)"
    using spec(2,3) by (auto simp: continues_def client_result_def owed_def)
  moreover have "list_all2 (continues (rest cm) (rest cm')) cps (map client_result rs2)"
    using ih(2)
  proof (rule list.rel_mono_strong)
    fix z r assume "z \<in> set cps" and "continues (rest cm1) (rest cm') z r"
    moreover from this Cons.prems(2) have "rest cm1 z = rest cm z" by (intro spec(4)) auto
    ultimately show "continues (rest cm) (rest cm') z r" by (simp add: continues_def owed_def)
  qed
  ultimately show ?case using ih spec(4) by (auto simp: rs2(2))
qed simp

section \<open>The client's session is a browse service\<close>

definition node_status :: "('n, 'a) browse_env \<Rightarrow> 'n \<Rightarrow> status_code" where
  "node_status env n = fst (se_browse env n)"

definition node_references :: "('n, 'a) browse_env \<Rightarrow> 'n \<Rightarrow> 'a list" where
  "node_references env n = (case snd (se_browse env n) of None \<Rightarrow> [] | Some refs \<Rightarrow> refs)"

text \<open>The address space answers no node with one of the two codes of the manager.\<close>

definition ordinary_env :: "('n, 'a) browse_env \<Rightarrow> bool" where
  "ordinary_env env \<longleftrightarrow> se_available env \<and>
     (\<forall>n. \<not> sameStatusCode (node_status env n) BadNoContinuationPoints \<and>
          \<not> sameStatusCode (node_status env n) BadContinuationPointInvalid)"

definition room :: "('n, 'a) browse_env \<Rightarrow> 'a cp_manager \<Rightarrow> nat \<Rightarrow> bool" where
  "room env cm k \<longleftrightarrow>
     (se_maxNodesPerBrowse env = 0 \<or> k \<le> se_maxNodesPerBrowse env) \<and>
     (se_maxBrowseContinuationPoints env = 0 \<or> length (cm_map cm) + k \<le> se_maxBrowseContinuationPoints env)"

interpretation session: browse_service "client_link env n" "\<lambda>cm. cm_wf cm \<and> ordinary_env env" "room env" rest
  "node_status env" "node_references env" for env n
proof unfold_locales
  fix s s' :: "'b cp_manager" and k
  assume "cm_wf s \<and> ordinary_env env" "cm_wf s' \<and> ordinary_env env" "rest s' = rest s"
  then have "length (cm_map s') = length (cm_map s)" using card_rest[of s] card_rest[of s'] by simp
  then show "room env s' k = room env s k" by (simp add: room_def)
next
  fix s :: "'b cp_manager" and nodes :: "'a list"
  assume s: "cm_wf s \<and> ordinary_env env" and ne: "nodes \<noteq> []" and room: "room env s (length nodes)"
  let ?as = "map (se_browse env) nodes"
  obtain rs s' where i: "innerBrowse (min 9876 n) (se_maxBrowseContinuationPoints env) ?as s = (rs, s')"
    by (cases "innerBrowse (min 9876 n) (se_maxBrowseContinuationPoints env) ?as s")
  have spec: "cm_wf s' \<and> rest s \<subseteq>\<^sub>m rest s' \<and>
     list_all2 (answers fst (\<lambda>a. case snd a of None \<Rightarrow> [] | Some vs \<Rightarrow> vs) (rest s')) ?as (map client_result rs) \<and>
     distinct (points (map client_result rs)) \<and> set (points (map client_result rs)) = dom (rest s') - dom (rest s)"
    by (rule innerBrowse_spec[OF _ _ i]) (use s room in \<open>auto simp: room_def\<close>)
  then have "list_all2 (answers (node_status env) (node_references env) (rest s')) nodes (map client_result rs)"
    by (auto simp: list_all2_map1 answers_def node_status_def node_references_def elim!: list_all2_mono)
  moreover from this ne have "rs \<noteq> []" by auto
  ultimately show "\<exists>rs s'. bl_browse (client_link env n) nodes s = (Inr rs, s') \<and> (cm_wf s' \<and> ordinary_env env) \<and>
     list_all2 (answers (node_status env) (node_references env) (rest s')) nodes rs \<and> distinct (points rs) \<and>
     set (points rs) = dom (rest s') - dom (rest s) \<and> rest s \<subseteq>\<^sub>m rest s'"
    using s ne room i spec
    by (intro exI[of _ "map client_result rs"] exI[of _ s'])
      (auto simp: client_link_def client_browse_def on_BrowseRequest_def client_answer_def ordinary_env_def room_def)
next
  fix s :: "'b cp_manager" and cps
  assume s: "cm_wf s \<and> ordinary_env env" and cps: "cps \<noteq> []" "distinct cps" "set cps \<subseteq> dom (rest s)"
  obtain rs s' where i: "innerBrowseNext cps False s = (rs, s')" by (cases "innerBrowseNext cps False s")
  from innerBrowseNext_spec[OF _ cps(2,3) i] s have spec: "cm_wf s'"
    "list_all2 (continues (rest s) (rest s')) cps (map client_result rs)" "\<forall>c. c \<notin> set cps \<longrightarrow> rest s' c = rest s c" by auto
  from spec(2) cps(1) have "rs \<noteq> []" by auto
  then show "\<exists>rs s'. bl_browseNext (client_link env n) cps False s = (Inr rs, s') \<and> (cm_wf s' \<and> ordinary_env env) \<and>
     list_all2 (continues (rest s) (rest s')) cps rs \<and> (\<forall>c. c \<notin> set cps \<longrightarrow> rest s' c = rest s c)"
    using s cps(1) i spec
    by (intro exI[of _ "map client_result rs"] exI[of _ s'])
      (auto simp: client_link_def client_browseNext_def on_BrowseNextRequest_def client_answer_def)
qed (auto simp: dom_rest ordinary_env_def)

text \<open>C31: Browsing everything returns everything. In a session whose server has room for one
  batch more - a fresh session always has, whatever the server's limits - \<open>browseAll\<close> answers with the
  status and all the references of every node, in order and whole, however the server cuts them and
  however many nodes are asked for; it ends, and it leaves no continuation point behind: what the
  manager owes other requests is as it was.\<close>

theorem browse_all_complete:
  assumes "cm_wf cm" and "ordinary_env env"
    and "cm_map cm = [] \<or>
      room env cm (min (or_default (Some (se_maxNodesPerBrowse env))) (or_default (Some (se_maxBrowseContinuationPoints env))))"
  shows "\<exists>cm'. browseAll (client_link env n) nodes cm =
       Some (Inr (map (\<lambda>node. \<lparr>cb_statusCode = node_status env node, cb_continuationPoint = None,
                               cb_references = node_references env node\<rparr>) nodes), cm') \<and>
     cm_wf cm' \<and> rest cm' = rest cm"
proof -
  have limits: "readLimits (client_link env n) cm =
      (or_default (Some (se_maxBrowseContinuationPoints env)), or_default (Some (se_maxNodesPerBrowse env)))"
    by (simp add: readLimits_def client_link_def)
  have "\<forall>m \<le> min (snd (readLimits (client_link env n) cm)) (fst (readLimits (client_link env n) cm)). room env cm m"
    using assms(3) by (auto simp: limits room_def or_default_def split: if_splits)
  from session.browseAll_completes[OF conjI[OF assms(1,2)] this, of nodes] show ?thesis by blast
qed

section \<open>An example\<close>

text \<open>A server with a limit of \<open>maxPoints\<close> whose node \<open>n\<close> has the references \<open>0, \<dots>, n\<close>.\<close>

definition example_env :: "nat \<Rightarrow> (nat, nat) browse_env" where
  "example_env maxPoints =
     \<lparr>se_available = True, se_isView = (\<lambda>_. False), se_maxNodesPerBrowse = 0,
      se_maxBrowseContinuationPoints = maxPoints, se_browse = (\<lambda>n. (Good, Some [0..<Suc n]))\<rparr>"

lemma ordinary_example: "ordinary_env (example_env maxPoints)"
  by (simp add: ordinary_env_def example_env_def node_status_def sameStatusCode_def sc_value_def Good_def
      BadNoContinuationPoints_def BadContinuationPointInvalid_def constant_status_def)

theorem browse_all_complete_witness:
  "\<exists>cm'. browseAll (client_link (example_env 1) 2) [5, 6] (new_manager 0) =
       Some (Inr [\<lparr>cb_statusCode = Good, cb_continuationPoint = None, cb_references = [0, 1, 2, 3, 4, 5]\<rparr>,
                  \<lparr>cb_statusCode = Good, cb_continuationPoint = None, cb_references = [0, 1, 2, 3, 4, 5, 6]\<rparr>], cm') \<and>
     rest cm' = rest (new_manager 0)"
  using browse_all_complete[of "new_manager 0" "example_env 1" 2 "[5, 6]"] ordinary_example[of 1]
  by (auto simp: node_status_def node_references_def example_env_def upt_rec)

section \<open>When the points run out\<close>

lemma collect_next_length: "length (fst (collect_next entries nexts results)) = length results"
  by (induction entries nexts results rule: collect_next.induct) (auto simp: Let_def split: prod.splits)

lemma continue_loop_length:
  fixes link :: "('n, 'a, 'st) browse_link"
  assumes r: "continue_loop link entries results s = Some out"
  shows "\<forall>results'. fst out = Inr results' \<longrightarrow> length results' = length results"
proof -
  let ?P = "\<lambda>(link :: ('n, 'a, 'st) browse_link) entries (results :: 'a client_browse_result list) (s :: 'st) out.
      \<forall>results'. fst out = Inr results' \<longrightarrow> length results' = length results"
  show ?thesis
  proof (rule continue_loop.raw_induct[of ?P, OF _ r])
    fix loop and link :: "('n, 'a, 'st) browse_link" and entries and results :: "'a client_browse_result list" and s out
    assume loop: "\<And>link entries results s out. loop link entries results s = Some out \<Longrightarrow> ?P link entries results s out"
      and run: "(if entries = [] then Some (Inr results, s)
        else case bl_browseNext link (map snd entries) False s of
            (Inl e, s') \<Rightarrow> Some (Inl e, s')
          | (Inr nexts, s') \<Rightarrow>
              if length nexts \<noteq> length entries then Some (Inl Browse_AssertionError, s')
              else let (results', entries') = collect_next entries nexts results in loop link entries' results' s') = Some out"
    show "?P link entries results s out"
    proof (cases "entries = []")
      case False
      obtain answer s1 where b: "bl_browseNext link (map snd entries) False s = (answer, s1)"
        by (cases "bl_browseNext link (map snd entries) False s")
      show ?thesis
      proof (cases answer)
        case (Inr nexts)
        obtain results1 entries1 where c: "collect_next entries nexts results = (results1, entries1)"
          by (cases "collect_next entries nexts results")
        with collect_next_length[of entries nexts results] have "length results1 = length results" by simp
        with run False b Inr c loop[of link entries1 results1 s1 out] show ?thesis by (auto split: if_splits)
      qed (use run False b in auto)
    qed (use run in auto)
  qed
qed

definition is_refused :: "'a client_browse_result \<Rightarrow> bool" where
  "is_refused r \<longleftrightarrow> sameStatusCode (cb_statusCode r) BadNoContinuationPoints \<or>
     sameStatusCode (cb_statusCode r) BadContinuationPointInvalid"

lemma sort_results_lengths:
  "sort_results i nodes rs = (results, redo, entries) \<Longrightarrow>
     length results = length rs \<and> length redo = length (filter is_refused rs)"
  by (induction i nodes rs arbitrary: results redo entries rule: sort_results.induct)
    (auto simp: is_refused_def Let_def split: prod.splits if_splits)

lemma put_redone_fails: "length redo \<le> i \<Longrightarrow> i \<in> set is \<Longrightarrow> \<exists>e. put_redone is redo results2 results = Inl e"
  by (induction "is" arbitrary: results) auto

text \<open>C39: When a server grants some nodes of a batch and refuses others for lack of continuation
  points, \<open>browseAll2\<close> never answers, whatever the session does next: having repeated the refused nodes
  it puts their results in place with a loop over all the results, which runs past the end of the shorter
  list of repeated ones and throws. The branch that was written for this case cannot succeed.\<close>

theorem partial_refusal_never_answered:
  assumes "bl_browse link nodes s = (Inr rs, s1)" and "length rs = length nodes"
    and "\<exists>r\<in>set rs. is_refused r" and "\<exists>r\<in>set rs. \<not> is_refused r"
  shows "browseAll2 link nodes s \<noteq> Some (Inr results, s')"
proof
  assume run: "browseAll2 link nodes s = Some (Inr results, s')"
  obtain results0 redo entries where sort: "sort_results 0 nodes rs = (results0, redo, entries)"
    by (cases "sort_results 0 nodes rs")
  note len = sort_results_lengths[OF sort]
  have "filter is_refused rs \<noteq> []" "length (filter is_refused rs) < length rs"
    using assms(3,4) by (auto simp: filter_empty_conv intro: length_filter_less)
  with len have redo: "redo \<noteq> []" "length redo < length results0" by auto
  have nodes: "nodes \<noteq> []" "length nodes \<noteq> length redo" using assms(2) redo(2) len by auto
  from run nodes(1) assms(1) sort obtain r s2 where loop: "continue_loop link entries results0 s1 = Some (r, s2)"
    by (subst (asm) browseAll2.simps) (auto split: bind_splits)
  show False
  proof (cases r)
    case (Inl e)
    with run nodes(1) assms(1) sort loop show False by (subst (asm) browseAll2.simps) simp
  next
    case (Inr results1)
    with continue_loop_length[OF loop] have r1: "length results1 = length results0" by simp
    with redo(2) have fails: "\<exists>e. put_redone [0..<length results1] redo results2 results1 = Inl e" for results2
      by (intro put_redone_fails[of redo "length redo"]) auto
    from run nodes assms(1) sort loop Inr redo(1) obtain r2 s3 where
      again: "browseAll2 link (map snd redo) s2 = Some (r2, s3)" by (subst (asm) browseAll2.simps) (auto split: bind_splits)
    show False
    proof (cases r2)
      case (Inl e)
      with run nodes assms(1) sort loop again Inr redo(1) show False by (subst (asm) browseAll2.simps) auto
    next
      case (Inr results2)
      obtain e where "put_redone [0..<length results1] redo results2 results1 = Inl e" using fails by blast
      with run nodes assms(1) sort loop again Inr \<open>r = Inr results1\<close> redo(1) show False
        by (subst (asm) browseAll2.simps) auto
    qed
  qed
qed

lemmas browse_evaluation = client_link_def client_browse_def on_BrowseRequest_def client_answer_def example_env_def
  innerBrowse_node_def hasReachedMaximum_def register_def make_key_def new_manager_def client_result_def refused_def

theorem partial_refusal_never_answered_witness:
  "\<forall>results s'. browseAll2 (client_link (example_env 1) 1) [1, 2] (new_manager 0) \<noteq> Some (Inr results, s')"
proof -
  have g: "\<not> is_refused \<lparr>cb_statusCode = Good, cb_continuationPoint = cp, cb_references = refs\<rparr>" for cp and refs :: "nat list"
    by (simp add: is_refused_def sameStatusCode_def sc_value_def Good_def BadNoContinuationPoints_def
        BadContinuationPointInvalid_def constant_status_def)
  have b: "is_refused \<lparr>cb_statusCode = BadNoContinuationPoints, cb_continuationPoint = cp, cb_references = refs\<rparr>" for cp and refs :: "nat list"
    by (simp add: is_refused_def sameStatusCode_def)
  have "bl_browse (client_link (example_env 1) 1) [1, 2] (new_manager 0) =
     (Inr [\<lparr>cb_statusCode = Good, cb_continuationPoint = Some (dec_string 1), cb_references = [0]\<rparr>,
           \<lparr>cb_statusCode = BadNoContinuationPoints, cb_continuationPoint = None, cb_references = []\<rparr>],
      \<lparr>cm_counter = 1, cm_map = [(dec_string 1, \<lparr>pd_maxElements = 1, pd_values = [1]\<rparr>)]\<rparr>)"
    by (simp add: browse_evaluation)
  from partial_refusal_never_answered[OF this] g b show ?thesis by simp
qed

end
