(* ===== verification/History_Read.thy ===== *)
theory History_Read
  imports Browse_Session
begin

text \<open>
  Reading raw history on the server (\<^verbatim>\<open>_historyReadRaw\<close> and \<^verbatim>\<open>_historyRead\<close> of
  \<^verbatim>\<open>address_space_historical_data_node.ts\<close>), which keeps what it does not return in the
  same manager as browse, and the runs of a session that uses both. The samples of a variable are a
  parameter (\<^verbatim>\<open>_historyReadRawAsync\<close>), \<open>None\<close> when reading them fails. A time that is
  \<^verbatim>\<open>isMinDate\<close> is \<open>None\<close>. The calls of the callback are a list, in order; the
  promise the server waits on settles with the first.
\<close>

record raw_details =
  rd_startTime :: "int option"
  rd_endTime :: "int option"
  rd_numValuesPerNode :: nat

record 'a history_result =
  hs_continuationPoint :: "js_string option"
  hs_dataValues :: "'a list option"
  hs_statusCode :: status_code

type_synonym 'a samples = "raw_details \<Rightarrow> nat \<Rightarrow> bool \<Rightarrow> bool \<Rightarrow> 'a list option"

definition BadHistoryOperationUnsupported :: status_code where
  "BadHistoryOperationUnsupported = constant_status 0x80720000"
definition BadUserAccessDenied :: status_code where
  "BadUserAccessDenied = constant_status 0x801F0000"

definition failed_read :: "status_code \<Rightarrow> 'a history_result" where
  "failed_read status = \<lparr>hs_continuationPoint = None, hs_dataValues = None, hs_statusCode = status\<rparr>"

definition history_result_of :: "'a point_info \<Rightarrow> 'a history_result" where
  "history_result_of cnt = \<lparr>hs_continuationPoint = ci_continuationPoint cnt, hs_dataValues = ci_values cnt,
     hs_statusCode = ci_statusCode cnt\<rparr>"

definition read_and_register ::
    "'a samples \<Rightarrow> raw_details \<Rightarrow> nat \<Rightarrow> bool \<Rightarrow> bool \<Rightarrow> continuation_data \<Rightarrow> 'a cp_manager \<Rightarrow>
     'a history_result option \<times> 'a cp_manager" where
  "read_and_register samples details maxNumberToExtract isReversed reverseDataValue data cm =
     (case samples details maxNumberToExtract isReversed reverseDataValue of
        None \<Rightarrow> (None, cm)
      | Some dataValues \<Rightarrow>
          let (cnt, cm') = register (rd_numValuesPerNode details) dataValues data cm
          in (Some (history_result_of cnt), cm'))"

definition historyReadRaw ::
    "'a samples \<Rightarrow> raw_details \<Rightarrow> continuation_data \<Rightarrow> 'a cp_manager \<Rightarrow> 'a history_result option \<times> 'a cp_manager" where
  "historyReadRaw samples details data cm =
     (if cd_continuationPoint data \<noteq> None then
        let (cnt, cm') = getNext (rd_numValuesPerNode details) data cm in (Some (history_result_of cnt), cm')
      else
        case (rd_startTime details, rd_endTime details) of
          (None, None) \<Rightarrow> (Some (failed_read BadHistoryOperationUnsupported), cm)
        | (Some _, None) \<Rightarrow>
            read_and_register samples details (rd_numValuesPerNode details) False False data cm
        | (None, Some _) \<Rightarrow>
            if rd_numValuesPerNode details = 0 then (Some (failed_read BadHistoryOperationUnsupported), cm)
            else read_and_register samples details (rd_numValuesPerNode details) True False data cm
        | (Some startTime, Some endTime) \<Rightarrow>
            if endTime < startTime
            then read_and_register samples (details\<lparr>rd_startTime := Some endTime, rd_endTime := Some startTime\<rparr>)
                   0 False True data cm
            else read_and_register samples details 0 False False data cm)"

text \<open>\<^verbatim>\<open>_historyRead\<close> on raw details: the refusal does not return.\<close>

definition historyRead ::
    "bool \<Rightarrow> 'a samples \<Rightarrow> raw_details \<Rightarrow> continuation_data \<Rightarrow> 'a cp_manager \<Rightarrow>
     'a history_result option list \<times> 'a cp_manager" where
  "historyRead canUserReadHistory samples details data cm =
     (let refusal = (if canUserReadHistory then [] else [Some (failed_read BadUserAccessDenied)]);
          (r, cm') = historyReadRaw samples details data cm
      in (refusal @ [r], cm'))"

text \<open>
  A request: \<^verbatim>\<open>historyRead\<close> of \<^verbatim>\<open>addressSpace_accessor.ts\<close> starts the nodes one after the other
  with the same details object. A backward read swaps the two times in that object, so that the next nodes find them
  the other way round. Each node comes with the right of the user to read it, its samples and the continuation point
  of the request for it; its promise settles with the first call of its callback.
\<close>

definition details_after :: "raw_details \<Rightarrow> continuation_data \<Rightarrow> raw_details" where
  "details_after details data =
     (if cd_continuationPoint data \<noteq> None then details
      else case (rd_startTime details, rd_endTime details) of
          (Some startTime, Some endTime) \<Rightarrow>
            if endTime < startTime then details\<lparr>rd_startTime := Some endTime, rd_endTime := Some startTime\<rparr> else details
        | _ \<Rightarrow> details)"

fun historyRead_request ::
    "bool \<Rightarrow> (bool \<times> 'a samples \<times> js_string option) list \<Rightarrow> raw_details \<Rightarrow> 'a cp_manager \<Rightarrow>
     'a history_result option list \<times> 'a cp_manager" where
  "historyRead_request release [] details cm = ([], cm)"
| "historyRead_request release ((canUserReadHistory, samples, continuationPoint) # nodes) details cm =
     (let data = \<lparr>cd_continuationPoint = continuationPoint, cd_releaseContinuationPoints = release\<rparr>;
          (calls, cm1) = historyRead canUserReadHistory samples details data cm;
          (results, cm2) = historyRead_request release nodes (details_after details data) cm1
      in (hd calls # results, cm2))"

section \<open>The historian\<close>

text \<open>\<^verbatim>\<open>VariableHistorian\<close>: the timeline in the order of the pushes, oldest first. A
  sample without a source timestamp counts as time 0. \<open>now\<close> is the clock. The last field is the
  \<^verbatim>\<open>StartOfOnlineArchive\<close> variable of the node.\<close>

record 'v historian =
  hi_timeline :: "'v data_value list"
  hi_maxOnlineValues :: nat
  hi_lastDate :: int
  hi_lastDatePicoSeconds :: nat
  hi_startOfOnlineArchive :: "int option"

definition new_historian :: "nat option \<Rightarrow> int \<Rightarrow> int option \<Rightarrow> 'v historian" where
  "new_historian maxOnlineValues firstDate startOfArchive =
     \<lparr>hi_timeline = [], hi_maxOnlineValues = (case maxOnlineValues of None \<Rightarrow> 1000 | Some n \<Rightarrow> if n = 0 then 1000 else n),
      hi_lastDate = firstDate, hi_lastDatePicoSeconds = 0, hi_startOfOnlineArchive = startOfArchive\<rparr>"

definition historian_push :: "int \<Rightarrow> 'v data_value \<Rightarrow> 'v historian \<Rightarrow> 'v historian" where
  "historian_push now newDataValue h =
     (let sourceTime = (case dv_sourceTimestamp newDataValue of None \<Rightarrow> now | Some t \<Rightarrow> t);
          increasing = hi_lastDate h < sourceTime \<or>
            sourceTime = hi_lastDate h \<and> hi_lastDatePicoSeconds h < dv_sourcePicoseconds newDataValue;
          value = (if increasing then newDataValue
                   else newDataValue\<lparr>dv_sourcePicoseconds := dv_sourcePicoseconds newDataValue + 1\<rparr>);
          timeline = hi_timeline h @ [value];
          kept = drop (length timeline - hi_maxOnlineValues h) timeline
      in h\<lparr>hi_timeline := kept, hi_lastDate := sourceTime, hi_lastDatePicoSeconds := dv_sourcePicoseconds value,
           hi_startOfOnlineArchive :=
             (if hi_maxOnlineValues h \<le> length kept \<or> length kept = 1 then dv_sourceTimestamp (hd kept)
              else hi_startOfOnlineArchive h)\<rparr>)"

definition inInTimeRange :: "raw_details \<Rightarrow> 'v data_value \<Rightarrow> bool" where
  "inInTimeRange details dv =
     (let t = (case dv_sourceTimestamp dv of None \<Rightarrow> 0 | Some t \<Rightarrow> t)
      in (case rd_startTime details of None \<Rightarrow> True | Some s \<Rightarrow> \<not> t < s) \<and>
         (case rd_endTime details of None \<Rightarrow> True | Some e \<Rightarrow> \<not> e < t))"

text \<open>The two loops of \<^verbatim>\<open>filter_dequeue\<close> differ in their direction only; the two
  predicates test the same bounds.\<close>

fun take_matching :: "('b \<Rightarrow> bool) \<Rightarrow> nat \<Rightarrow> 'b list \<Rightarrow> 'b list \<Rightarrow> 'b list" where
  "take_matching predicate onlyThisNumber [] r = r"
| "take_matching predicate onlyThisNumber (c # cs) r =
     (let r' = (if predicate c then r @ [c] else r)
      in if 0 < onlyThisNumber \<and> length r' = onlyThisNumber then r'
         else take_matching predicate onlyThisNumber cs r')"

definition filter_dequeue :: "'v data_value list \<Rightarrow> raw_details \<Rightarrow> nat \<Rightarrow> bool \<Rightarrow> 'v data_value list" where
  "filter_dequeue q details onlyThisNumber isReversed =
     take_matching (inInTimeRange details) onlyThisNumber (if isReversed then rev q else q) []"

definition extractDataValues :: "'v historian \<Rightarrow> 'v data_value samples" where
  "extractDataValues h details maxNumberToExtract isReversed reverseDataValue =
     (let dataValues = filter_dequeue (hi_timeline h) details maxNumberToExtract isReversed
      in Some (if reverseDataValue then rev dataValues else dataValues))"

lemma take_matching_all: "take_matching P 0 cs r = r @ filter P cs"
  by (induction cs arbitrary: r) simp_all

text \<open>C32: A read of the raw history of one node between two times loses nothing: what it returns, followed by what
  its continuation point still owes, is exactly the samples of the timeline between the two times, in
  order, or in reverse order when the end comes before the start; with no limit everything is
  returned at once.\<close>

theorem history_read_complete:
  assumes "cm_wf cm" and "rd_startTime details = Some t0" and "rd_endTime details = Some t1"
  shows "\<exists>r cm'. historyRead True (extractDataValues h) details
         \<lparr>cd_continuationPoint = None, cd_releaseContinuationPoints = False\<rparr> cm = ([Some r], cm') \<and> cm_wf cm' \<and>
     (case hs_dataValues r of None \<Rightarrow> [] | Some vs \<Rightarrow> vs) @ owed (rest cm') (hs_continuationPoint r) =
       (let inside = filter (\<lambda>dv. let t = (case dv_sourceTimestamp dv of None \<Rightarrow> 0 | Some t \<Rightarrow> t) in min t0 t1 \<le> t \<and> t \<le> max t0 t1)
                       (hi_timeline h)
        in if t1 < t0 then rev inside else inside) \<and>
     (rd_numValuesPerNode details = 0 \<longrightarrow> hs_continuationPoint r = None \<and> cm' = cm)"
proof -
  let ?inside = "filter (\<lambda>dv. let t = (case dv_sourceTimestamp dv of None \<Rightarrow> 0 | Some t \<Rightarrow> t) in min t0 t1 \<le> t \<and> t \<le> max t0 t1)
                   (hi_timeline h)"
  let ?vs = "if t1 < t0 then rev ?inside else ?inside"
  let ?data = "\<lparr>cd_continuationPoint = None, cd_releaseContinuationPoints = False\<rparr>"
  obtain info cm' where r: "register (rd_numValuesPerNode details) ?vs ?data cm = (info, cm')"
    by (cases "register (rd_numValuesPerNode details) ?vs ?data cm")
  have inside: "filter (inInTimeRange (details\<lparr>rd_startTime := Some (min t0 t1), rd_endTime := Some (max t0 t1)\<rparr>)) (hi_timeline h) = ?inside"
    by (rule filter_cong) (auto simp: inInTimeRange_def Let_def not_less)
  have "historyReadRaw (extractDataValues h) details ?data cm = (Some (history_result_of info), cm')"
  proof (cases "t1 < t0")
    case True
    with r assms(2,3) inside show ?thesis
      by (simp add: historyReadRaw_def read_and_register_def extractDataValues_def filter_dequeue_def take_matching_all)
  next
    case False
    have "details\<lparr>rd_startTime := Some (min t0 t1), rd_endTime := Some (max t0 t1)\<rparr> = details"
      using False assms(2,3) by simp
    with inside have "filter (inInTimeRange details) (hi_timeline h) = ?inside" by metis
    with False r assms(2,3) show ?thesis
      by (simp add: historyReadRaw_def read_and_register_def extractDataValues_def filter_dequeue_def take_matching_all)
  qed
  moreover have "ci_continuationPoint info = None \<and> cm' = cm" if "rd_numValuesPerNode details = 0"
    using r that by (auto simp: register_def)
  ultimately show ?thesis
    using register_spec[OF assms(1) r] by (simp add: historyRead_def history_result_of_def)
qed

text \<open>The second node of a backward request is read forward.\<close>

lemma second_node_read_forward:
  assumes "rd_startTime details = Some t0" and "rd_endTime details = Some t1" and "t1 < t0" and "rd_numValuesPerNode details = 0"
  shows "\<exists>inside. inside = filter (inInTimeRange (details\<lparr>rd_startTime := Some t1, rd_endTime := Some t0\<rparr>)) (hi_timeline h) \<and>
    map (\<lambda>r. Option.bind r hs_dataValues)
      (fst (historyRead_request False [(True, extractDataValues h, None), (True, extractDataValues h, None)] details cm)) =
    [Some (rev inside), Some inside]"
  using assms
  by (simp add: historyRead_def historyReadRaw_def read_and_register_def extractDataValues_def filter_dequeue_def
      take_matching_all details_after_def register_def history_result_of_def)

lemma window_step:
  "0 < n \<Longrightarrow> drop (Suc (length (drop (length xs - n) xs)) - n) (drop (length xs - n) xs @ [y]) = drop (Suc (length xs) - n) (xs @ [y])"
  by (cases "length xs < n") (auto simp: Suc_diff_le)

lemma historian_push_timeline:
  "hi_maxOnlineValues (historian_push now dv h) = hi_maxOnlineValues h"
  "map (dv_sourcePicoseconds_update (\<lambda>_. 0)) (hi_timeline (historian_push now dv h)) =
     drop (Suc (length (hi_timeline h)) - hi_maxOnlineValues h)
       (map (dv_sourcePicoseconds_update (\<lambda>_. 0)) (hi_timeline h) @ [dv\<lparr>dv_sourcePicoseconds := 0\<rparr>])"
  by (simp_all add: historian_push_def Let_def flip: drop_map)

text \<open>C34: The historian keeps a window: after any pushes the timeline is the last
  \<open>maxOnlineValues\<close> values pushed, in the order of the pushes whatever their timestamps say, unchanged
  but for the picoseconds it may add.\<close>

theorem historian_window:
  "let h = fold (\<lambda>(now, dv). historian_push now dv) pushes (new_historian m d s :: 'v historian)
   in map (dv_sourcePicoseconds_update (\<lambda>_. 0)) (hi_timeline h) =
        map (dv_sourcePicoseconds_update (\<lambda>_. 0)) (drop (length pushes - hi_maxOnlineValues h) (map snd pushes)) \<and>
      hi_maxOnlineValues h = (case m of None \<Rightarrow> 1000 | Some n \<Rightarrow> if n = 0 then 1000 else n)"
proof (induction pushes rule: rev_induct)
  case (snoc p pushes)
  let ?z = "dv_sourcePicoseconds_update (\<lambda>_. 0) :: 'v data_value \<Rightarrow> 'v data_value"
  obtain now dv where p: "p = (now, dv)" by (cases p)
  define h :: "'v historian" where "h = fold (\<lambda>(now, dv). historian_push now dv) pushes (new_historian m d s)"
  let ?n = "hi_maxOnlineValues h"
  let ?xs = "map (?z \<circ> snd) pushes"
  from snoc have ih: "map ?z (hi_timeline h) = drop (length ?xs - ?n) ?xs"
    "?n = (case m of None \<Rightarrow> 1000 | Some n \<Rightarrow> if n = 0 then 1000 else n)" by (simp_all add: h_def Let_def flip: drop_map)
  from ih(2) have "0 < ?n" by (simp split: option.splits)
  from window_step[OF this, of ?xs "?z dv"] ih(1)
  have "map ?z (hi_timeline (historian_push now dv h)) = drop (Suc (length ?xs) - ?n) (?xs @ [?z dv])"
    unfolding historian_push_timeline(2) by (metis length_map)
  with ih(2) show ?case by (simp add: p Let_def h_def[symmetric] historian_push_timeline(1) flip: drop_map)
qed (simp add: new_historian_def)

section \<open>Runs of a session\<close>

text \<open>The calls that touch the manager of one session, its own clearing operations included.
  \<open>OtherSession\<close> is a point made by another session: the counter is the module's. \<open>HistoryRead\<close> is the read of
  one node, with the details as it finds them.\<close>

datatype 'n session_call =
    Browse "'n browse_request"
  | BrowseNext "js_string list" bool
  | HistoryRead bool raw_details continuation_data
  | OtherSession
  | ClearPoints "js_string list"
  | ClearAll

fun session_step :: "('n, 'a) browse_env \<Rightarrow> 'a samples \<Rightarrow> 'n session_call \<Rightarrow> 'a cp_manager \<Rightarrow> 'a cp_manager" where
  "session_step env samples (Browse request) cm = snd (on_BrowseRequest env request cm)"
| "session_step env samples (BrowseNext cps release) cm = snd (on_BrowseNextRequest cps release cm)"
| "session_step env samples (HistoryRead can details data) cm = snd (historyRead can samples details data cm)"
| "session_step env samples OtherSession cm = cm\<lparr>cm_counter := cm_counter cm + 1\<rparr>"
| "session_step env samples (ClearPoints cps) cm = snd (clearContinuationPoints cps cm)"
| "session_step env samples ClearAll cm = clear_manager cm"

lemma register_wf: "cm_wf cm \<Longrightarrow> cm_wf (snd (register n vs data cm))"
proof -
  assume wf: "cm_wf cm"
  obtain info cm' where "register n vs \<lparr>cd_continuationPoint = None, cd_releaseContinuationPoints = False\<rparr> cm = (info, cm')"
    by (cases "register n vs \<lparr>cd_continuationPoint = None, cd_releaseContinuationPoints = False\<rparr> cm")
  with register_spec[OF wf this] wf show ?thesis by (auto simp: register_def split: if_splits)
qed

lemma getNext_wf:
  assumes wf: "cm_wf cm"
  shows "cm_wf (snd (getNext n data cm)) \<and> length (cm_map (snd (getNext n data cm))) \<le> length (cm_map cm)"
proof (cases "Option.bind (cd_continuationPoint data) (map_of (cm_map cm))")
  case None
  with wf show ?thesis by (auto simp: getNext_def split: option.splits bind_splits)
next
  case (Some d)
  then obtain c where c: "cd_continuationPoint data = Some c" "map_of (cm_map cm) c = Some d"
    by (auto split: bind_splits)
  then have "(c, d) \<in> set (cm_map cm)" by (blast dest: map_of_SomeD)
  with wf have d: "issued (cm_counter cm) c" "0 < pd_maxElements d" "c \<in> set (map fst (cm_map cm))"
    by (force simp: cm_wf_def)+
  let ?n = "if n = 0 then pd_maxElements d else n"
  let ?d = "d\<lparr>pd_values := drop ?n (pd_values d)\<rparr>"
  have "snd (getNext n data cm) = cm\<lparr>cm_map := AList.delete c (cm_map cm)\<rparr> \<or>
        drop ?n (pd_values d) \<noteq> [] \<and> snd (getNext n data cm) = cm\<lparr>cm_map := AList.update c ?d (cm_map cm)\<rparr>"
    by (simp add: getNext_def c Let_def)
  moreover have "length (AList.update c ?d (cm_map cm)) = length (cm_map cm)"
    using AList.update_keys[of c ?d "cm_map cm"] d(3) by (metis length_map)
  moreover have "cm_wf (cm\<lparr>cm_map := AList.update c ?d (cm_map cm)\<rparr>)" if "drop ?n (pd_values d) \<noteq> []"
    by (rule wf_update[OF wf d(1)]) (use that d(2) in simp_all)
  ultimately show ?thesis
    using wf_delete[OF wf, of c] AList.length_delete_le[of c "cm_map cm"] by (elim disjE conjE) simp_all
qed

lemma historyReadRaw_wf: "cm_wf cm \<Longrightarrow> cm_wf (snd (historyReadRaw samples details data cm))"
  using register_wf[of cm] getNext_wf[of cm]
  by (auto simp: historyReadRaw_def read_and_register_def case_prod_unfold Let_def split: option.split)

lemma clear_wf: "cm_wf cm \<Longrightarrow> cm_wf (fold clearContinuationPoint cps cm) \<and>
    length (cm_map (fold clearContinuationPoint cps cm)) \<le> length (cm_map cm)"
proof (induction cps arbitrary: cm)
  case (Cons c cps)
  from Cons.IH[of "clearContinuationPoint c cm"] wf_delete[OF Cons.prems, of c] AList.length_delete_le[of c "cm_map cm"]
  show ?case by (auto simp: clearContinuationPoint_def)
qed simp

lemma innerBrowseNext_wf:
  "cm_wf cm \<Longrightarrow> cm_wf (snd (innerBrowseNext cps release cm)) \<and>
     length (cm_map (snd (innerBrowseNext cps release cm))) \<le> length (cm_map cm)"
proof (induction cps arbitrary: cm)
  case (Cons c cps)
  let ?cm1 = "snd (getNext 0 \<lparr>cd_continuationPoint = Some c, cd_releaseContinuationPoints = release\<rparr> cm)"
  from getNext_wf[OF Cons.prems] Cons.IH[of ?cm1] show ?case
    by (auto simp: case_prod_unfold Let_def intro: le_trans)
qed simp

text \<open>A browse never takes the manager past the limit.\<close>

lemma innerBrowse_node_bound:
  assumes "cm_wf cm"
  shows "cm_wf (snd (innerBrowse_node n maxPoints a cm)) \<and>
    (0 < maxPoints \<longrightarrow> length (cm_map (snd (innerBrowse_node n maxPoints a cm))) \<le> max maxPoints (length (cm_map cm)))"
proof (cases "hasReachedMaximum maxPoints cm")
  case True
  with assms show ?thesis by (simp add: innerBrowse_node_def)
next
  case False
  let ?vs = "case snd a of None \<Rightarrow> [] | Some refs \<Rightarrow> refs"
  obtain info cm' where r: "register n ?vs \<lparr>cd_continuationPoint = None, cd_releaseContinuationPoints = False\<rparr> cm = (info, cm')"
    by (cases "register n ?vs \<lparr>cd_continuationPoint = None, cd_releaseContinuationPoints = False\<rparr> cm")
  from register_spec[OF assms r] have "cm_wf cm'" "length (cm_map cm') \<le> Suc (length (cm_map cm))"
    by (auto split: option.splits)
  with False r show ?thesis by (auto simp: innerBrowse_node_def hasReachedMaximum_def)
qed

lemma innerBrowse_bound:
  "cm_wf cm \<Longrightarrow> cm_wf (snd (innerBrowse n maxPoints as cm)) \<and>
     (0 < maxPoints \<longrightarrow> length (cm_map (snd (innerBrowse n maxPoints as cm))) \<le> max maxPoints (length (cm_map cm)))"
proof (induction as arbitrary: cm)
  case (Cons a as)
  from innerBrowse_node_bound[OF Cons.prems, of n maxPoints a] Cons.IH[of "snd (innerBrowse_node n maxPoints a cm)"]
  show ?case by (auto simp add: case_prod_unfold Let_def)
qed simp

lemma session_step_wf:
  assumes "cm_wf cm"
  shows "cm_wf (session_step env samples call cm) \<and>
     (0 < se_maxBrowseContinuationPoints env \<longrightarrow> (\<forall>can details data. call \<noteq> HistoryRead can details data) \<longrightarrow>
        length (cm_map (session_step env samples call cm)) \<le> max (se_maxBrowseContinuationPoints env) (length (cm_map cm)))"
proof (cases call)
  case (Browse request)
  with assms innerBrowse_bound[OF assms] show ?thesis
    by (simp add: on_BrowseRequest_def case_prod_unfold Let_def)
next
  case (BrowseNext cps release)
  with assms innerBrowseNext_wf[OF assms, of cps release] show ?thesis
    by (auto simp add: on_BrowseNextRequest_def case_prod_unfold Let_def)
next
  case (HistoryRead can details data)
  with historyReadRaw_wf[OF assms] have "cm_wf (session_step env samples call cm)"
    by (simp add: historyRead_def case_prod_unfold Let_def)
  with HistoryRead show ?thesis by blast
next
  case OtherSession
  with wf_counter[OF assms] show ?thesis by simp
next
  case (ClearPoints cps)
  with clear_wf[OF assms, of cps] show ?thesis by (auto simp: clearContinuationPoints_def)
next
  case ClearAll
  with assms show ?thesis by (simp add: clear_manager_def cm_wf_def)
qed

lemma session_run_wf:
  "cm_wf cm \<Longrightarrow> cm_wf (fold (session_step env samples) calls cm) \<and>
     (0 < se_maxBrowseContinuationPoints env \<longrightarrow> (\<forall>can details data. HistoryRead can details data \<notin> set calls) \<longrightarrow>
        length (cm_map (fold (session_step env samples) calls cm)) \<le> max (se_maxBrowseContinuationPoints env) (length (cm_map cm)))"
proof (induction calls arbitrary: cm)
  case (Cons call calls)
  from session_step_wf[OF Cons.prems, of env samples call] Cons.IH[of "session_step env samples call cm"]
  show ?case by auto
qed simp

text \<open>C33: In every run of a session, whatever is browsed, continued, released or read, its
  continuation points have different keys that were all issued, none waits with nothing left to
  return, and as long as the session reads no history they are never more than the server's
  limit.\<close>

theorem session_points_well_formed:
  "cm_wf (fold (session_step env samples) calls (new_manager n)) \<and>
   (0 < se_maxBrowseContinuationPoints env \<longrightarrow> (\<forall>can details data. HistoryRead can details data \<notin> set calls) \<longrightarrow>
      length (cm_map (fold (session_step env samples) calls (new_manager n))) \<le> se_maxBrowseContinuationPoints env)"
  using session_run_wf[OF cm_wf_new[of n], of env samples calls] by auto

section \<open>History reads and the limit\<close>

definition no_data :: continuation_data where
  "no_data = \<lparr>cd_continuationPoint = None, cd_releaseContinuationPoints = False\<rparr>"

lemma denied_read:
  assumes wf: "cm_wf cm" and "rd_startTime details = Some t0" "rd_endTime details = Some t1" "t0 \<le> t1"
    and "samples details 0 False False = Some vs" and "0 < rd_numValuesPerNode details" "rd_numValuesPerNode details < length vs"
  shows "hd (fst (historyRead False samples details no_data cm)) = Some (failed_read BadUserAccessDenied) \<and>
     cm_wf (snd (historyRead False samples details no_data cm)) \<and>
     length (cm_map (snd (historyRead False samples details no_data cm))) = Suc (length (cm_map cm))"
proof -
  obtain info cm' where r: "register (rd_numValuesPerNode details) vs no_data cm = (info, cm')"
    by (cases "register (rd_numValuesPerNode details) vs no_data cm")
  moreover have "vs \<noteq> []" using assms(7) by auto
  ultimately have "ci_continuationPoint info \<noteq> None"
    using assms(6,7) by (auto simp: register_def no_data_def Let_def make_key_def)
  with r register_spec[OF wf, of "rd_numValuesPerNode details" vs info cm'] r
  have "cm_wf cm'" "length (cm_map cm') = Suc (length (cm_map cm))" by (auto simp: no_data_def split: option.splits)
  with r assms show ?thesis
    by (simp add: historyRead_def historyReadRaw_def read_and_register_def no_data_def)
qed

lemma full_manager_refuses:
  assumes "0 < maxPoints" and "maxPoints \<le> length (cm_map cm)"
  shows "innerBrowse n maxPoints as cm = (replicate (length as) (refused BadNoContinuationPoints), cm)"
  using assms by (induction as) (simp_all add: innerBrowse_node_def hasReachedMaximum_def)

text \<open>C40: A user without the right to read history can still fill the session's points. The
  refusal does not end the read: each denied request answers \<open>BadUserAccessDenied\<close> and nevertheless
  leaves the rest of the samples in the manager, without limit, under a key the client is not told;
  once the browse limit is reached every browse of the session is refused for every node, also for
  nodes that need no continuation point, and nothing frees the old ones.\<close>

theorem denied_history_reads_starve_browse:
  assumes "cm_wf cm" and "rd_startTime details = Some t0" "rd_endTime details = Some t1" "t0 \<le> t1"
    and "samples details 0 False False = Some vs" and "0 < rd_numValuesPerNode details" "rd_numValuesPerNode details < length vs"
    and "0 < se_maxBrowseContinuationPoints env" and "se_maxBrowseContinuationPoints env \<le> length (cm_map cm) + k"
    and "se_available env" and "nodes \<noteq> []" and "se_maxNodesPerBrowse env = 0 \<or> length nodes \<le> se_maxNodesPerBrowse env"
  shows "\<exists>cm'. cm' = ((\<lambda>c. snd (historyRead False samples details no_data c)) ^^ k) cm \<and>
     length (cm_map cm') = length (cm_map cm) + k \<and>
     hd (fst (historyRead False samples details no_data cm')) = Some (failed_read BadUserAccessDenied) \<and>
     on_BrowseRequest env \<lparr>rq_viewId = None, rq_nodesToBrowse = nodes, rq_requestedMaxReferencesPerNode = n\<rparr> cm' =
       (Inr (replicate (length nodes) (refused BadNoContinuationPoints)), cm')"
proof -
  let ?read = "\<lambda>c. snd (historyRead False samples details no_data c)"
  note denied = denied_read[where samples = samples and details = details, OF _ assms(2-7)]
  have grown: "cm_wf ((?read ^^ j) cm) \<and> length (cm_map ((?read ^^ j) cm)) = length (cm_map cm) + j" for j
    by (induction j) (use assms(1) denied in auto)
  then have "innerBrowse m (se_maxBrowseContinuationPoints env) (map (se_browse env) nodes) ((?read ^^ k) cm) =
      (replicate (length nodes) (refused BadNoContinuationPoints), (?read ^^ k) cm)" for m
    using full_manager_refuses[OF assms(8), of "(?read ^^ k) cm"] assms(9) by simp
  with grown[of k] denied[of "(?read ^^ k) cm"] assms(10-12) show ?thesis
    by (auto simp: on_BrowseRequest_def)
qed

section \<open>A run\<close>

definition one_browse :: "nat session_call" where
  "one_browse = Browse \<lparr>rq_viewId = None, rq_nodesToBrowse = [1, 2], rq_requestedMaxReferencesPerNode = 2\<rparr>"

theorem session_points_well_formed_witness:
  "length (cm_map (fold (session_step (example_env 1) (\<lambda>_ _ _ _. None)) [one_browse, OtherSession, one_browse] (new_manager 0))) \<le> 1"
  using session_points_well_formed[of "example_env 1" "\<lambda>_ _ _ _. None" "[one_browse, OtherSession, one_browse]" 0]
  by (auto simp: example_env_def one_browse_def)

definition example_details :: raw_details where
  "example_details = \<lparr>rd_startTime = Some 0, rd_endTime = Some 10, rd_numValuesPerNode = 1\<rparr>"

theorem denied_history_reads_starve_browse_witness:
  "\<exists>cm'. cm' = ((\<lambda>c. snd (historyRead False (\<lambda>_ _ _ _. Some [7, 8]) example_details no_data c)) ^^ 3) (new_manager 0) \<and>
     on_BrowseRequest (example_env 3) \<lparr>rq_viewId = None, rq_nodesToBrowse = [0], rq_requestedMaxReferencesPerNode = 0\<rparr> cm' =
       (Inr [refused BadNoContinuationPoints], cm')"
  using denied_history_reads_starve_browse[of "new_manager 0" example_details 0 10 "\<lambda>_ _ _ _. Some [7, 8]" "[7, 8]"
      "example_env 3" 3 "[0]" 0]
  by (simp add: example_details_def example_env_def)

definition sample :: "int \<Rightarrow> int data_value" where
  "sample t = \<lparr>dv_value = t, dv_statusCode = Good, dv_sourceTimestamp = Some t, dv_sourcePicoseconds = 0,
     dv_serverTimestamp = None, dv_serverPicoseconds = 0\<rparr>"

theorem history_read_complete_witness:
  "\<exists>r cm'. historyRead True (extractDataValues ((new_historian None 0 None)\<lparr>hi_timeline := map sample [1, 5, 9, 12]\<rparr>)) example_details
       \<lparr>cd_continuationPoint = None, cd_releaseContinuationPoints = False\<rparr> (new_manager 0) = ([Some r], cm') \<and>
     (case hs_dataValues r of None \<Rightarrow> [] | Some vs \<Rightarrow> vs) @ owed (rest cm') (hs_continuationPoint r) = map sample [1, 5, 9]"
  using history_read_complete[of "new_manager 0" example_details 0 10 "(new_historian None 0 None)\<lparr>hi_timeline := map sample [1, 5, 9, 12]\<rparr>"]
  by (auto simp: example_details_def sample_def Let_def)

end
