(* ===== verification/Spec2Isabelle.thy ===== *)
theory Spec2Isabelle
  imports Builder_Limits Message_Chunker Token_Stack Message_Delivery Engine_Transfer Session_Recovery Session_Repair Numeric_Range
    Channel_Renewal Like_Cost History_Read
begin

text \<open>
  A verification development of node-opcua, an OPC UA stack in TypeScript. It models the code that carries
  a message from one end of a secure channel to the other, the client's end of that channel, the code that
  turns changes of values into notifications and delivers them through a subscription, the client that
  consumes them and recovers after a lost connection, and the services that hand out long results in pieces.
  All paths are below \<^verbatim>\<open>src/packages\<close>.

  \<^bold>\<open>The program and its parts.\<close> A client and a server exchange messages over a socket. On the sending
  side \<^verbatim>\<open>MessageChunker\<close> encodes a message, \<^verbatim>\<open>SecureMessageChunkManager\<close> and
  \<^verbatim>\<open>ChunkManager\<close> cut it into numbered, padded, signed and encrypted chunks. On the receiving side
  \<^verbatim>\<open>PacketAssembler\<close> cuts the bytes of the socket into chunks again and \<^verbatim>\<open>MessageBuilder\<close>
  verifies, decrypts and joins them, with keys that \<^verbatim>\<open>TokenStack\<close> finds by token. Above the channel,
  a server \<^verbatim>\<open>MonitoredItem\<close> queues changes of a value, a \<^verbatim>\<open>Subscription\<close> harvests them at its
  publishing interval, and the session's \<^verbatim>\<open>ServerSidePublishEngine\<close> answers the client's queued
  publish requests with them. On the client, \<^verbatim>\<open>ClientSecureChannelLayer\<close> pairs responses with
  requests, opens the channel and renews its token, \<^verbatim>\<open>ClientSidePublishEngine\<close> keeps the pipeline of
  publish requests filled and acknowledges what it received, and after a broken connection the
  reconnection code repairs the session: it republishes, transfers or recreates the subscriptions. A Browse
  or a HistoryRead whose result is too long for one response leaves the rest with the session's
  \<^verbatim>\<open>ContinuationPointManager\<close>, and \<^verbatim>\<open>browseAll\<close> fetches it piece by piece.

  \<^bold>\<open>Theories and sources.\<close>
  \<^item> \<open>Prelude\<close>: bytes, results, little-endian numbers; shared by all.
  \<^item> \<open>Binary_Stream\<close>, \<open>Stream_Codec\<close>: \<^verbatim>\<open>node-opcua-binary-stream\<close>, the integer and string
    accesses, the size calculator, and how encoders and decoders compose.
  \<^item> \<open>Packet_Assembler\<close>, \<open>Message_Header\<close>: \<^verbatim>\<open>node-opcua-packet-assembler\<close>, the headers of
    \<^verbatim>\<open>node-opcua-chunkmanager\<close> and the header reader of \<^verbatim>\<open>node-opcua-transport\<close>. The contract
    of a header reader is the locale \<open>packet_reader\<close>, interpreted on the builder's reader.
  \<^item> \<open>Sequence_Numbers\<close>: \<^verbatim>\<open>sequence_number_generator.ts\<close> and the receiver's check.
  \<^item> \<open>Chunk_Manager\<close>, \<open>Secure_Chunks\<close>, \<open>Message_Chunker\<close>: \<^verbatim>\<open>chunk_manager.ts\<close>,
    \<^verbatim>\<open>secure_message_chunk_manager.ts\<close> with the security headers, \<^verbatim>\<open>message_chunker.ts\<close>. What a
    chunk manager relies on is the locale \<open>chunk_owner\<close>, interpreted on the secure chunk manager.
  \<^item> \<open>Message_Builder\<close>, \<open>Message_Delivery\<close>, \<open>Builder_Limits\<close>: \<^verbatim>\<open>message_builder_base.ts\<close>,
    \<^verbatim>\<open>message_builder.ts\<close>, the padding helpers; the composition of both ends; the memory bounds.
  \<^item> \<open>Token_Stack\<close>: \<^verbatim>\<open>token_stack.ts\<close>; the two key providers interpret one locale.
  \<^item> \<open>Data_Value\<close>, \<open>Monitored_Item\<close>, \<open>Notification_Queue\<close>, \<open>Subscription\<close>: status codes, data
    values, \<^verbatim>\<open>monitored_item.ts\<close>, \<^verbatim>\<open>queue.ts\<close> (locale \<open>fifo\<close>),
    \<^verbatim>\<open>server_subscription.ts\<close>.
  \<^item> \<open>Publish_Engine\<close>: \<^verbatim>\<open>server_publish_engine.ts\<close> and the operations of a subscription that act on
    it; \<open>Engine_Publishing\<close> says what one publishing step does, \<open>Engine_Frame\<close> is the induction over
    all operations (locale \<open>engine_frame\<close>), \<open>Engine_Requests\<close> the runs of an engine,
    \<open>Engine_Invariant\<close> its well-formedness, \<open>Engine_Starvation\<close> the expiry of a subscription
    (locale \<open>countdown\<close>) and what silences one whose publishing is disabled, \<open>Engine_Transfer\<close> the transfer between sessions.
  \<^item> \<open>Client_Publish\<close>, \<open>Client_Engine\<close>, \<open>Client_Pipeline\<close>: \<^verbatim>\<open>client_publish_engine.ts\<close>
    with the part of \<^verbatim>\<open>client_subscription_impl.ts\<close> it calls; the client's engine and the
    server's connected to each other.
  \<^item> \<open>Engine_Retention\<close>, \<open>Session_Republish\<close>: the messages a server retains, \<^verbatim>\<open>Republish\<close> of
    \<^verbatim>\<open>opcua_server.ts\<close> and the client's republish loop. What the client relies on is the locale
    \<open>retransmission\<close>, interpreted on the server's engine.
  \<^item> \<open>Session_Recovery\<close>, \<open>Session_Repair\<close>: \<^verbatim>\<open>node-opcua-client/source/private/reconnection\<close>:
    reactivation, transfer, recreation, and the client's repetition of a failed repair.
  \<^item> \<open>Client_Channel\<close>, \<open>Client_Transactions\<close>, \<open>Channel_Renewal\<close>:
    \<^verbatim>\<open>client_secure_channel_layer.ts\<close>: transactions and their timers, opening, renewal and
    closing. A channel's history is a list of steps; the callbacks of the user are entries of a log, and the
    timers, promises and \<^verbatim>\<open>setImmediate\<close> tasks are steps that may come in any order. The locale
    \<open>callback_relation\<close> is the induction over all operations, interpreted twice.
  \<^item> \<open>Continuation_Points\<close>, \<open>Browse_Session\<close>, \<open>Browse_All\<close>, \<open>History_Read\<close>:
    \<^verbatim>\<open>continuation_point_manager.ts\<close>, the Browse and BrowseNext services of
    \<^verbatim>\<open>opcua_server.ts\<close>, \<^verbatim>\<open>browse\<close> and \<^verbatim>\<open>browseNext\<close> of
    \<^verbatim>\<open>client_session_impl.ts\<close> and \<^verbatim>\<open>pseudo_session.ts\<close>, \<^verbatim>\<open>browse_all.ts\<close>, the
    reads and the window of \<^verbatim>\<open>address_space_historical_data_node.ts\<close>, and the loop over the
    nodes of a HistoryRead in \<^verbatim>\<open>addressSpace_accessor.ts\<close>. What \<^verbatim>\<open>browse_all.ts\<close> relies on is the
    locale \<open>browse_service\<close>, interpreted on the session with its manager.
  \<^item> \<open>Like_Matcher\<close>, \<open>Like_Search\<close>, \<open>Like_Cost\<close>: \<^verbatim>\<open>like_matcher.ts\<close>, the language of a
    pattern, and the number of calls of the search.
  \<^item> \<open>Numeric_Range\<close>: \<^verbatim>\<open>numeric_range.ts\<close>.

  \<^bold>\<open>How the code is modelled.\<close> An object is a record of its fields; a method takes the object and returns it
  updated, with the events or callbacks it produced in a list. A failed assertion or a thrown error is
  \<open>Inl\<close>. \<^verbatim>\<open>setImmediate\<close> callbacks are lists of tasks run by later steps; time is an argument. Integers that
  go on the wire are words or are range checked as Node does; sizes and counters are natural numbers or
  integers below \<open>2 ^ 53\<close>. Cryptographic functions, the variant type, the nodes that items watch,
  the contents of fresh buffers and \<^verbatim>\<open>Array.sort\<close> with an inconsistent comparator are parameters.

  \<^bold>\<open>What is shown.\<close> For the channel: a message is delivered exactly, whatever the fragmentation and the
  security mode; chunk sizes, chunk counts and memory stay within the negotiated limits; headers and
  strings survive a round trip; sequence gaps, aborted messages and the wrap of the sequence number are
  detected, and what happens then; the keys of the old and the new token overlap as they should. For
  the subscriptions: queues are bounded and discard the right end; publish requests are answered exactly once;
  messages are numbered without gaps; no assertion of the engine fails; a subscription that nobody serves
  expires after its lifetime, and one that is transferred keeps what it holds. For the client: what is received is
  acknowledged, the pipeline stays filled, the messages lost with a connection are recovered by
  republishing as far as the server retained them, and a failed repair is repeated; every transaction of a channel is answered
  once, within its timeout, and a renewal that fails leaves the channel without a watchdog. For long
  results: the pieces fetched are together the whole result, in order, whatever their size, continuation
  points are bounded and released. For index ranges: parsing inverts the printing of indices below \<open>10 ^ 21\<close>, and no
  further; writing a block of a matrix and
  reading it back agree. For LIKE patterns: the matcher decides the language of the pattern with quadratically many calls.

  \<^bold>\<open>Loops and fuel.\<close> \<^verbatim>\<open>PacketAssembler.feed\<close> and \<^verbatim>\<open>ChunkManager.write\<close> are
  \<open>partial_function\<close>s, shown to return. The loop of \<^verbatim>\<open>on_close_subscription\<close> has as much fuel as there
  are queued requests and one, and \<open>feed_loop_ok\<close> shows that this is enough: every turn but the last
  answers a request. The client's loops \<open>republish_loop\<close>, \<open>repeated_repair\<close>, \<open>continue_loop\<close>,
  \<open>browseAll2\<close> and \<open>browse_batches\<close> depend on what the server answers and are
  \<open>partial_function\<close>s; they are shown to return against the model of the server.

  \<^bold>\<open>Not modelled.\<close> Sockets and timers themselves, the address space, the services of
  \<^verbatim>\<open>opcua_server.ts\<close> other than Republish, Browse and BrowseNext, the server's end of opening and
  renewing a channel, the backoff before a connection is tried again, the server's sessions, extension objects,
  floating point arithmetic (but for the rounding of an index), diagnostics objects, debug output and generated tables.
\<close>

end
